(* ===== verification/Prelude.thy ===== *)
theory Prelude
  imports Main "HOL-Library.Word"
begin

text \<open>
  Shared base of the development: the machine integer types, the result type of every
  operation that can panic, run into undefined behaviour or fail to return, and the generic
  lemmas on words, lists and results that the component theories use.

  \<^item> A C function that returns is \<open>Some (Inr v)\<close>.
  \<^item> \<open>panic (...)\<close> is \<open>Some (Inl (Panic msg))\<close>: the message is the format string of the call.
  \<^item> An access outside an array, or any other undefined behaviour the code can reach, is
    \<open>Some (Inl (UB what))\<close>.
  \<^item> \<open>None\<close> is a call that never returns.
\<close>

unbundle bit_operations_syntax

type_synonym u8 = "8 word"
type_synonym u16 = "16 word"
type_synonym u32 = "32 word"
type_synonym u64 = "64 word"

section \<open>Results\<close>

datatype fault = Panic string | UB string

type_synonym 'a res = "(fault + 'a) option"

abbreviation ok :: "'a \<Rightarrow> 'a res" where
  "ok x \<equiv> Some (Inr x)"

abbreviation fail :: "fault \<Rightarrow> 'a res" where
  "fail e \<equiv> Some (Inl e)"

definition res_bind :: "'a res \<Rightarrow> ('a \<Rightarrow> 'b res) \<Rightarrow> 'b res" where
  "res_bind r k = Option.bind r (\<lambda>x. case x of Inl e \<Rightarrow> Some (Inl e) | Inr v \<Rightarrow> k v)"

lemma res_bind_simps [simp]:
  "res_bind None k = None"
  "res_bind (fail e) k = fail e"
  "res_bind (ok v) k = k v"
  by (simp_all add: res_bind_def)

text \<open>Continuations are only simplified once the first result is known.\<close>

lemma res_bind_weak_cong [cong]: "r = r' \<Longrightarrow> res_bind r k = res_bind r' k"
  by simp

lemma res_bind_assoc: "res_bind (res_bind r k) h = res_bind r (\<lambda>x. res_bind (k x) h)"
  by (simp add: res_bind_def split: Option.bind_split sum.split)

lemma res_bind_ok_iff: "res_bind r k = ok v \<longleftrightarrow> (\<exists>x. r = ok x \<and> k x = ok v)"
  by (auto simp: res_bind_def split: Option.bind_splits sum.splits)

lemma res_bind_okE [elim]:
  assumes "res_bind r k = ok v"
  obtains x where "r = ok x" and "k x = ok v"
  using assms by (auto simp: res_bind_ok_iff)

lemma res_bind_mono [partial_function_mono]:
  assumes "mono_option B" and "\<And>y. mono_option (\<lambda>f. C y f)"
  shows "mono_option (\<lambda>f. res_bind (B f) (\<lambda>y. C y f))"
proof -
  have "mono_option (\<lambda>f. case x of Inl e \<Rightarrow> Some (Inl e) | Inr v \<Rightarrow> C v f)" for x
    using assms(2) by (cases x) (auto intro: option.const_mono)
  then show ?thesis
    unfolding res_bind_def by (intro bind_mono assms(1))
qed

definition returns :: "'a res \<Rightarrow> bool" where
  "returns r \<longleftrightarrow> (\<exists>v. r = ok v)"

lemma returns_simps [simp]:
  "returns (ok v)" "\<not> returns (fail e)" "\<not> returns None"
  by (simp_all add: returns_def)

lemma returns_code [code]:
  "returns r = (case r of Some (Inr v) \<Rightarrow> True | _ \<Rightarrow> False)"
  by (auto simp: returns_def split: option.splits sum.splits)

text \<open>The value of a call that returns; the witnesses evaluate it.\<close>

definition the_ok :: "'a res \<Rightarrow> 'a" where
  "the_ok r = projr (the r)"

lemma the_ok_ok [simp]: "the_ok (ok v) = v"
  by (simp add: the_ok_def)

lemma returns_the_ok: "returns r \<Longrightarrow> r = ok (the_ok r)"
  by (auto simp: returns_def)

section \<open>Words read as naturals\<close>

text \<open>
  The components state their invariants over natural numbers: a region is the half open
  interval from \<open>unat base\<close> to \<open>unat base + unat length\<close>. The collection \<open>word_nat\<close> moves
  comparisons and non-wrapping sums to that level.
\<close>

named_theorems word_nat

lemma unat_add_nowrap:
  "unat a + unat b < 2 ^ LENGTH('a) \<Longrightarrow> unat (a + b) = unat a + unat b"
  for a b :: "'a::len word"
  by (simp add: unat_word_ariths)

lemma unat_diff_nowrap: "unat b \<le> unat a \<Longrightarrow> unat (a - b) = unat a - unat b"
  for a b :: "'a::len word"
  by (simp add: unat_sub word_le_nat_alt)

lemma unat_mult_nowrap:
  "unat a * unat b < 2 ^ LENGTH('a) \<Longrightarrow> unat (a * b) = unat a * unat b"
  for a b :: "'a::len word"
  by (simp add: unat_word_ariths)

lemma word_eq_unat: "a = b \<longleftrightarrow> unat a = unat b" for a b :: "'a::len word"
  by (simp add: word_unat_eq_iff)

lemma unat_less_64: "unat a < 18446744073709551616" for a :: u64
  using unsigned_less [of a] by simp

lemma unat_of_nat_64: "k < 2 ^ 64 \<Longrightarrow> unat (of_nat k :: u64) = k"
  by (simp add: unsigned_of_nat take_bit_nat_eq_self)

lemma add_no_wrap_iff: "unat a + unat b < 2 ^ LENGTH('a) \<longleftrightarrow> \<not> a + b < a"
  for a b :: "'a::len word"
  by (metis le_add1 linorder_not_less no_olen_add_nat word_less_nat_alt unat_add_nowrap)

text \<open>Single bits: the flag masks of the code are all of the form \<open>1 << m\<close>.\<close>

lemma and_push_bit_one: "x AND push_bit b 1 \<noteq> 0 \<longleftrightarrow> bit x b" for x :: "'a::len word"
  by (metis and_exp_eq_0_iff_not_bit push_bit_of_1)

lemma and_push_bit_zero: "x AND push_bit b 1 = 0 \<longleftrightarrow> \<not> bit x b" for x :: "'a::len word"
  using and_push_bit_one by blast

lemma bit_flag: "bit (push_bit m 1 :: u64) i \<longleftrightarrow> i = m \<and> m < 64"
  unfolding bit_push_bit_iff bit_1_iff by auto

lemmas word_cmp_nat [word_nat] = word_less_nat_alt word_le_nat_alt

section \<open>Lists\<close>

lemma take_list_update_below: "k < n \<Longrightarrow> n \<le> length xs \<Longrightarrow> take n (xs[k := x]) = (take n xs)[k := x]"
  by (simp add: take_update_swap)

lemma split_at_nth:
  "i < length xs \<Longrightarrow> xs = take i xs @ xs ! i # drop (Suc i) xs"
  by (rule id_take_nth_drop)

lemma set_take_drop_Suc:
  "i < length xs \<Longrightarrow> set xs = set (take i xs) \<union> {xs ! i} \<union> set (drop (Suc i) xs)"
  by (subst id_take_nth_drop [of i xs]) auto

end
