(* ===== verification/MathLib.thy ===== *)
theory MathLib
  imports Prelude
begin

text \<open>
  The macros of \<open>pre_kernel/include/lib/math.h\<close> on 64-bit values, and the page sizes of
  \<open>pre_kernel/include/memory/ptm.h\<close>. Every use in the code is on \<open>uint64_t\<close>, \<open>size_t\<close> or
  \<open>uintptr_t\<close>, so the macros wrap at 64 bits; the lemmas say when they do not and what they
  compute then. A division by zero is undefined in C and never reached: every divisor in the
  code is a page size or the caller's alignment (a hypothesis of the lemmas).
\<close>

section \<open>The macros\<close>

definition MATH_DIV_CEIL :: "u64 \<Rightarrow> u64 \<Rightarrow> u64" where
  "MATH_DIV_CEIL dividend divisor = (dividend + divisor - 1) div divisor"

definition MATH_CEIL :: "u64 \<Rightarrow> u64 \<Rightarrow> u64" where
  "MATH_CEIL value precision = MATH_DIV_CEIL value precision * precision"

definition MATH_FLOOR :: "u64 \<Rightarrow> u64 \<Rightarrow> u64" where
  "MATH_FLOOR value precision = (value div precision) * precision"

definition MATH_IS_POWER_OF_TWO :: "u64 \<Rightarrow> bool" where
  "MATH_IS_POWER_OF_TWO x \<longleftrightarrow> x \<noteq> 0 \<and> x AND (x - 1) = 0"

definition MATH_ALIGN_UP :: "u64 \<Rightarrow> u64 \<Rightarrow> u64" where
  "MATH_ALIGN_UP x align = (x + (align - 1)) AND NOT (align - 1)"

definition MATH_ALIGN_DOWN :: "u64 \<Rightarrow> u64 \<Rightarrow> u64" where
  "MATH_ALIGN_DOWN x align = x AND NOT (align - 1)"

definition MATH_MIN :: "u64 \<Rightarrow> u64 \<Rightarrow> u64" where
  "MATH_MIN a b = (if a < b then a else b)"

definition MATH_MAX :: "u64 \<Rightarrow> u64 \<Rightarrow> u64" where
  "MATH_MAX a b = (if a > b then a else b)"

definition PTM_PAGE_SIZE_4K :: u64 where "PTM_PAGE_SIZE_4K = 4096"
definition PTM_PAGE_SIZE_2M :: u64 where "PTM_PAGE_SIZE_2M = PTM_PAGE_SIZE_4K * 512"
definition PTM_PAGE_SIZE_1G :: u64 where "PTM_PAGE_SIZE_1G = PTM_PAGE_SIZE_2M * 512"
definition PTM_PAGE_GRANULARITY :: u64 where "PTM_PAGE_GRANULARITY = PTM_PAGE_SIZE_4K"

lemmas page_size_defs =
  PTM_PAGE_GRANULARITY_def PTM_PAGE_SIZE_4K_def PTM_PAGE_SIZE_2M_def PTM_PAGE_SIZE_1G_def

section \<open>Rounding with division\<close>

lemma ceil_div_ge: "0 < p \<Longrightarrow> v \<le> (v + p - 1) div p * p" for v p :: nat
proof -
  assume "0 < p"
  then have "(v + p - 1) mod p \<le> p - 1"
    by (simp add: less_Suc_eq_le [symmetric])
  moreover have "(v + p - 1) div p * p + (v + p - 1) mod p = v + p - 1"
    by (rule div_mult_mod_eq)
  ultimately show ?thesis
    using \<open>0 < p\<close> by linarith
qed

lemma ceil_div_least:
  fixes v p k :: nat
  assumes "0 < p" and "v \<le> k * p"
  shows "(v + p - 1) div p * p \<le> k * p"
proof -
  have "v + p - 1 < Suc k * p"
    using assms by simp
  then have "(v + p - 1) div p < Suc k"
    by (simp add: div_less_iff_less_mult assms(1))
  then show ?thesis
    by simp
qed

lemma unat_diff_1: "0 < unat p \<Longrightarrow> unat (p - 1) = unat p - 1" for p :: u64
  by (simp add: unat_diff_nowrap Suc_leI)

lemma len64: "LENGTH(64) = 64"
  by simp

lemma unat_MATH_CEIL:
  assumes "0 < unat p" and "unat v + unat p \<le> 2 ^ 64"
  shows "unat (MATH_CEIL v p) = (unat v + unat p - 1) div unat p * unat p"
proof -
  have "unat (v + (p - 1)) = unat v + (unat p - 1)"
    using assms by (subst unat_add_nowrap) (auto simp: unat_diff_1)
  then have sum: "unat (v + p - 1) = unat v + unat p - 1"
    using assms(1) by (simp add: add_diff_eq)
  have "(unat v + unat p - 1) div unat p * unat p \<le> unat v + unat p - 1"
    by (rule div_times_less_eq_dividend)
  then have "unat (v + p - 1) div unat p * unat p < 2 ^ LENGTH(64)"
    using assms unfolding sum len64 by linarith
  then show ?thesis
    unfolding MATH_CEIL_def MATH_DIV_CEIL_def
    by (subst unat_mult_nowrap) (auto simp only: unat_div_distrib sum)
qed

lemma unat_MATH_FLOOR: "unat (MATH_FLOOR v p) = unat v div unat p * unat p"
proof -
  have "unat v div unat p * unat p \<le> unat v"
    by (rule div_times_less_eq_dividend)
  also have "\<dots> < 2 ^ LENGTH(64)"
    by (rule unsigned_less)
  finally show ?thesis
    unfolding MATH_FLOOR_def by (subst unat_mult_nowrap) (auto simp: unat_div_distrib)
qed

lemma MATH_CEIL_ge:
  assumes "0 < unat p" and "unat v + unat p \<le> 2 ^ 64"
  shows "unat v \<le> unat (MATH_CEIL v p)"
  using ceil_div_ge [OF assms(1), of "unat v"] unat_MATH_CEIL [OF assms] by metis

lemma MATH_CEIL_dvd:
  assumes "0 < unat p" and "unat v + unat p \<le> 2 ^ 64"
  shows "unat p dvd unat (MATH_CEIL v p)"
  using assms by (simp add: unat_MATH_CEIL)

lemma MATH_CEIL_less:
  assumes "0 < unat p" and "unat v + unat p \<le> 2 ^ 64"
  shows "unat (MATH_CEIL v p) < unat v + unat p"
proof -
  have "unat (MATH_CEIL v p) \<le> unat v + unat p - 1"
    using assms by (simp add: unat_MATH_CEIL)
  then show ?thesis
    using assms(1) by linarith
qed

section \<open>Rounding with masks\<close>

lemma clear_low_eq: "x AND NOT (2 ^ n - 1) = x - take_bit n x" for x :: u64
proof -
  have "x = (x AND NOT (mask n)) + (x AND mask n)"
    by (subst disjunctive_add_eq_or) (auto simp: bit_eq_iff bit_simps)
  then have "x - take_bit n x = x AND NOT (mask n)"
    by (metis add_diff_cancel_right' take_bit_eq_mask)
  then show ?thesis
    by (simp add: mask_eq_exp_minus_1)
qed

lemma unat_clear_low: "unat (x AND NOT (2 ^ n - 1)) = unat x div 2 ^ n * 2 ^ n" for x :: u64
proof -
  have "unat (take_bit n x) = unat x mod 2 ^ n"
    by (metis take_bit_eq_mod unsigned_take_bit_eq)
  then have "unat (x - take_bit n x) = unat x - unat x mod 2 ^ n"
    by (subst unat_diff_nowrap) simp_all
  then show ?thesis
    by (simp add: clear_low_eq minus_mod_eq_div_mult)
qed

lemma unat_MATH_ALIGN_DOWN: "unat (MATH_ALIGN_DOWN x (2 ^ n)) = unat x div 2 ^ n * 2 ^ n"
  unfolding MATH_ALIGN_DOWN_def by (rule unat_clear_low)

lemma unat_pow2_64: "n < 64 \<Longrightarrow> unat (2 ^ n :: u64) = 2 ^ n"
  by transfer (simp add: take_bit_int_eq_self)

lemma unat_MATH_ALIGN_UP:
  assumes "n < 64" and "unat x + 2 ^ n \<le> 2 ^ 64"
  shows "unat (MATH_ALIGN_UP x (2 ^ n)) = (unat x + 2 ^ n - 1) div 2 ^ n * 2 ^ n"
proof -
  have one: "unat (2 ^ n - 1 :: u64) = 2 ^ n - 1"
    using assms(1) by (simp add: unat_diff_1 unat_pow2_64)
  have "unat x + (2 ^ n - 1) = unat x + 2 ^ n - 1"
    by (simp add: Nat.add_diff_assoc)
  moreover have "unat x + (2 ^ n - 1) < 2 ^ LENGTH(64)"
    using assms(2) by (simp add: less_le_trans [OF _ assms(2)])
  ultimately have "unat (x + (2 ^ n - 1)) = unat x + 2 ^ n - 1"
    by (subst unat_add_nowrap) (simp_all only: one)
  then show ?thesis
    unfolding MATH_ALIGN_UP_def unat_clear_low by simp
qed

lemma MATH_ALIGN_UP_CEIL:
  assumes "n < 64" and "unat x + 2 ^ n \<le> 2 ^ 64"
  shows "MATH_ALIGN_UP x (2 ^ n) = MATH_CEIL x (2 ^ n)"
  using assms by (simp add: word_eq_unat unat_MATH_ALIGN_UP unat_MATH_CEIL unat_pow2_64)

lemma page_granularity_pow2: "PTM_PAGE_GRANULARITY = 2 ^ 12"
  by (simp add: page_size_defs)

lemma unat_page_granularity [simp]: "unat PTM_PAGE_GRANULARITY = 4096"
  by (simp add: page_size_defs)

lemma unat_ALIGN_UP_page:
  assumes "unat x + 4096 \<le> 2 ^ 64"
  shows "unat (MATH_ALIGN_UP x PTM_PAGE_GRANULARITY) = (unat x + 4095) div 4096 * 4096"
  using unat_MATH_ALIGN_UP [of 12 x] assms by (simp add: page_granularity_pow2)

end
