(* ===== verification/Pmm.thy ===== *)
theory Pmm
  imports MathLib
begin

text \<open>
  The physical memory map of \<open>pre_kernel/src/memory/pmm.c\<close>: a sorted array of typed regions
  with a fixed number of slots. This theory holds the code: the region types, the array
  operations \<open>map_insert\<close> and \<open>map_delete\<close>, \<open>pmm_map_set\<close> with its in-loop recursion, the
  allocators and the snapshot. The array keeps the values of its dead slots (at and above
  \<open>g_pmm_map_size\<close>), because \<open>pmm_map_set\<close> and \<open>pmm_create_snapshot\<close> read them.

  Indices that the code bounds by the number of slots are \<open>nat\<close>; the loop variable \<open>i\<close> of
  \<open>pmm_map_set\<close> is a 64-bit word, since \<open>--i\<close> wraps at 0.
\<close>

section \<open>Region types and entries\<close>

datatype pmm_map_type =
    PMM_MAP_TYPE_FREE
  | PMM_MAP_TYPE_ALLOCATED
  | PMM_MAP_TYPE_USED
  | PMM_MAP_TYPE_BOOTLOADER_RECLAIMABLE
  | PMM_MAP_TYPE_EFI_RECLAIMABLE
  | PMM_MAP_TYPE_ACPI_RECLAIMABLE
  | PMM_MAP_TYPE_ACPI_NVS
  | PMM_MAP_TYPE_RESERVED
  | PMM_MAP_TYPE_BAD

text \<open>The numbers C gives the enumerators; \<open>pmm_map_set\<close> compares types by them.\<close>

primrec pmm_map_type_value :: "pmm_map_type \<Rightarrow> nat" where
  "pmm_map_type_value PMM_MAP_TYPE_FREE = 0"
| "pmm_map_type_value PMM_MAP_TYPE_ALLOCATED = 1"
| "pmm_map_type_value PMM_MAP_TYPE_USED = 2"
| "pmm_map_type_value PMM_MAP_TYPE_BOOTLOADER_RECLAIMABLE = 3"
| "pmm_map_type_value PMM_MAP_TYPE_EFI_RECLAIMABLE = 4"
| "pmm_map_type_value PMM_MAP_TYPE_ACPI_RECLAIMABLE = 5"
| "pmm_map_type_value PMM_MAP_TYPE_ACPI_NVS = 6"
| "pmm_map_type_value PMM_MAP_TYPE_RESERVED = 7"
| "pmm_map_type_value PMM_MAP_TYPE_BAD = 8"

lemma pmm_map_type_value_inject: "pmm_map_type_value a = pmm_map_type_value b \<longleftrightarrow> a = b"
  by (cases a; cases b) simp_all

instantiation pmm_map_type :: linorder
begin

definition less_eq_pmm_map_type :: "pmm_map_type \<Rightarrow> pmm_map_type \<Rightarrow> bool" where
  "a \<le> b \<longleftrightarrow> pmm_map_type_value a \<le> pmm_map_type_value b"

definition less_pmm_map_type :: "pmm_map_type \<Rightarrow> pmm_map_type \<Rightarrow> bool" where
  "a < b \<longleftrightarrow> pmm_map_type_value a < pmm_map_type_value b"

instance
  by standard
    (auto simp: less_eq_pmm_map_type_def less_pmm_map_type_def pmm_map_type_value_inject)

end

record pmm_map_entry =
  me_base :: u64
  me_length :: u64
  me_type :: pmm_map_type

definition PMM_MAP_MAX_ENTRIES :: nat where
  "PMM_MAP_MAX_ENTRIES = 1024"

record pmm_state =
  g_pmm_map :: "pmm_map_entry list"
  g_pmm_map_size :: nat

text \<open>The zero-initialised globals.\<close>

definition zero_entry :: pmm_map_entry where
  "zero_entry = \<lparr>me_base = 0, me_length = 0, me_type = PMM_MAP_TYPE_FREE\<rparr>"

definition pmm_init :: pmm_state where
  "pmm_init = \<lparr>g_pmm_map = replicate PMM_MAP_MAX_ENTRIES zero_entry, g_pmm_map_size = 0\<rparr>"

section \<open>The array operations\<close>

fun shift_up :: "nat \<Rightarrow> nat \<Rightarrow> pmm_map_entry list \<Rightarrow> pmm_map_entry list" where
  "shift_up i index m = (if i > index then shift_up (i - 1) index (m[i := m ! (i - 1)]) else m)"

definition map_insert :: "nat \<Rightarrow> pmm_map_entry \<Rightarrow> pmm_state \<Rightarrow> pmm_state res" where
  "map_insert index entry s =
     (if g_pmm_map_size s = PMM_MAP_MAX_ENTRIES then fail (Panic ''memory map overflow'')
      else ok (s\<lparr>g_pmm_map := (shift_up (g_pmm_map_size s) index (g_pmm_map s))[index := entry],
                 g_pmm_map_size := g_pmm_map_size s + 1\<rparr>))"

function shift_down :: "nat \<Rightarrow> nat \<Rightarrow> pmm_map_entry list \<Rightarrow> pmm_map_entry list" where
  "shift_down i bound m = (if i < bound then shift_down (Suc i) bound (m[i := m ! Suc i]) else m)"
  by pat_completeness auto
termination
  by (relation "measure (\<lambda>(i, bound, m). bound - i)") auto

definition map_delete :: "nat \<Rightarrow> pmm_state \<Rightarrow> pmm_state" where
  "map_delete index s =
     s\<lparr>g_pmm_map := shift_down index (g_pmm_map_size s - 1) (g_pmm_map s),
       g_pmm_map_size := g_pmm_map_size s - 1\<rparr>"

declare shift_up.simps [simp del] shift_down.simps [simp del]

definition set_slot :: "nat \<Rightarrow> pmm_map_entry \<Rightarrow> pmm_state \<Rightarrow> pmm_state" where
  "set_slot k e s = s\<lparr>g_pmm_map := (g_pmm_map s)[k := e]\<rparr>"

section \<open>pmm_map_set\<close>

text \<open>
  One iteration of the loop over the entries ends in one of four ways: \<open>Iter_return\<close> leaves the
  function; \<open>Iter_split\<close> makes the recursive call for the tail of a split entry and goes on with
  the next entry; \<open>Iter_around\<close> makes the two recursive calls around an entry that stays and
  leaves the function; \<open>Iter_next\<close> goes on with the base, len and index it carries (the index
  already incremented).
\<close>

datatype set_iter =
    Iter_return pmm_state
  | Iter_split u64 u64 pmm_map_type pmm_state
  | Iter_around u64 u64 u64 u64 pmm_state
  | Iter_next u64 u64 u64 pmm_state

text \<open>The two partial overlaps; \<open>k\<close> is the slot \<open>map_entry\<close> points to, which \<open>--i\<close> does not move.\<close>

definition trim_start ::
  "nat \<Rightarrow> bool \<Rightarrow> u64 \<Rightarrow> u64 \<Rightarrow> u64 \<Rightarrow> pmm_state \<Rightarrow> u64 \<times> u64 \<times> u64 \<times> pmm_state" where
  "trim_start k override base len i s =
     (let e = g_pmm_map s ! k;
          amount = (me_base e + me_length e) - base
      in if override then
           (let s' = set_slot k (e\<lparr>me_length := me_length e - amount\<rparr>) s
            in if me_length e - amount = 0 then (base, len, i - 1, map_delete (unat i) s')
               else (base, len, i, s'))
         else (base + amount, len - amount, i, s))"

definition trim_end ::
  "nat \<Rightarrow> bool \<Rightarrow> u64 \<Rightarrow> u64 \<Rightarrow> u64 \<Rightarrow> pmm_state \<Rightarrow> u64 \<times> u64 \<times> u64 \<times> pmm_state" where
  "trim_end k override base len i s =
     (let e = g_pmm_map s ! k;
          amount = (base + len) - me_base e
      in if override then
           (let s' = set_slot k (e\<lparr>me_length := me_length e - amount, me_base := me_base e + amount\<rparr>) s
            in if me_length e - amount = 0 then (base, len, i - 1, map_delete (unat i) s')
               else (base, len, i, s'))
         else (base, len - amount, i, s))"

text \<open>The two checks that follow them in the same iteration.\<close>

definition cover_or_equal ::
  "nat \<Rightarrow> bool \<Rightarrow> u64 \<Rightarrow> u64 \<Rightarrow> u64 \<Rightarrow> pmm_state \<Rightarrow> set_iter" where
  "cover_or_equal k override base len i s =
     (let e = g_pmm_map s ! k
      in if base < me_base e \<and> base + len > me_base e + me_length e then
           (if override then Iter_next base len (i - 1 + 1) (map_delete (unat i) s)
            else (let start_base = base;
                      start_length = me_base e - start_base;
                      end_base = me_base e + me_length e;
                      end_length = (base + len) - end_base
                  in Iter_around start_base start_length end_base end_length s))
         else if base = me_base e \<and> len = me_length e then
           (if \<not> override then Iter_return s
            else Iter_next base len (i - 1 + 1) (map_delete (unat i) s))
         else Iter_next base len (i + 1) s)"

definition pmm_map_set_iter ::
  "u64 \<Rightarrow> u64 \<Rightarrow> pmm_map_type \<Rightarrow> bool \<Rightarrow> u64 \<Rightarrow> pmm_state \<Rightarrow> set_iter" where
  "pmm_map_set_iter base len type force i s =
     (let k = unat i;
          e = g_pmm_map s ! k;
          override = (type > me_type e \<or> force);
          overlap_start = (base > me_base e \<and> base < me_base e + me_length e);
          overlap_end = (base + len > me_base e \<and> base + len < me_base e + me_length e)
      in if overlap_start \<and> overlap_end then
           (if \<not> override then Iter_return s
            else (let start_base = me_base e;
                      start_length = base - start_base;
                      end_base = base + len;
                      end_length = (me_base e + me_length e) - end_base
                  in Iter_split end_base end_length (me_type e)
                       (set_slot k (e\<lparr>me_base := start_base, me_length := start_length\<rparr>) s)))
         else
           (let (base, len, i, s) =
                  (if overlap_start then trim_start k override base len i s
                   else (base, len, i, s));
                (base, len, i, s) =
                  (if overlap_end then trim_end k override base len i s
                   else (base, len, i, s))
            in cover_or_equal k override base len i s))"

text \<open>
  What follows the loop. The comparison with the next entry reads slot \<open>i\<close> even when \<open>i\<close> is
  \<open>g_pmm_map_size\<close>: a dead slot, or one past the array when all slots are live.
\<close>

function insert_index :: "nat \<Rightarrow> u64 \<Rightarrow> pmm_state \<Rightarrow> nat" where
  "insert_index i base s =
     (if i < g_pmm_map_size s \<and> me_base (g_pmm_map s ! i) \<le> base
      then insert_index (Suc i) base s else i)"
  by pat_completeness auto
termination
  by (relation "measure (\<lambda>(i, base, s). g_pmm_map_size s - i)") auto

declare insert_index.simps [simp del]

definition pmm_map_set_insert ::
  "u64 \<Rightarrow> u64 \<Rightarrow> pmm_map_type \<Rightarrow> pmm_state \<Rightarrow> pmm_state res" where
  "pmm_map_set_insert base len type s =
     (if len = 0 then ok s
      else (let i = insert_index 0 base s;
                prev = g_pmm_map s ! (i - 1);
                slot = g_pmm_map s ! i
            in if i \<noteq> 0 \<and> me_type prev = type \<and> me_base prev + me_length prev = base then
                 ok (set_slot (i - 1) (prev\<lparr>me_length := me_length prev + len\<rparr>) s)
               else if i \<ge> PMM_MAP_MAX_ENTRIES then fail (UB ''g_pmm_map index out of bounds'')
               else if me_type slot = type \<and> me_base slot = base + len then
                 ok (set_slot i (slot\<lparr>me_base := base, me_length := me_length slot + len\<rparr>) s)
               else map_insert i \<lparr>me_base = base, me_length = len, me_type = type\<rparr> s))"

partial_function (option) pmm_map_set_loop ::
  "u64 \<Rightarrow> u64 \<Rightarrow> pmm_map_type \<Rightarrow> bool \<Rightarrow> u64 \<Rightarrow> pmm_state \<Rightarrow> pmm_state res" where
  "pmm_map_set_loop base len type force i s =
     (if unat i < g_pmm_map_size s then
        (case pmm_map_set_iter base len type force i s of
           Iter_return s' \<Rightarrow> ok s'
         | Iter_split end_base end_length end_type s' \<Rightarrow>
             res_bind (pmm_map_set_loop end_base end_length end_type True 0 s')
               (\<lambda>s''. pmm_map_set_loop base len type force (i + 1) s'')
         | Iter_around start_base start_length end_base end_length s' \<Rightarrow>
             res_bind (pmm_map_set_loop start_base start_length type force 0 s')
               (\<lambda>s''. pmm_map_set_loop end_base end_length type force 0 s'')
         | Iter_next base' len' i' s' \<Rightarrow> pmm_map_set_loop base' len' type force i' s')
      else pmm_map_set_insert base len type s)"

declare pmm_map_set_loop.simps [code]

definition pmm_map_set ::
  "u64 \<Rightarrow> u64 \<Rightarrow> pmm_map_type \<Rightarrow> bool \<Rightarrow> pmm_state \<Rightarrow> pmm_state res" where
  "pmm_map_set base len type force s = pmm_map_set_loop base len type force 0 s"

definition pmm_map_add :: "u64 \<Rightarrow> u64 \<Rightarrow> pmm_map_type \<Rightarrow> pmm_state \<Rightarrow> pmm_state res" where
  "pmm_map_add base len type s =
     (if len = 0 then ok s else pmm_map_set base len type False s)"

section \<open>Allocation\<close>

function pmm_alloc_at_loop ::
  "nat \<Rightarrow> u64 \<Rightarrow> u64 \<Rightarrow> pmm_map_type \<Rightarrow> pmm_state \<Rightarrow> (bool \<times> pmm_state) res" where
  "pmm_alloc_at_loop i address len type s =
     (if i < g_pmm_map_size s then
        (let e = g_pmm_map s ! i
         in if me_type e \<noteq> PMM_MAP_TYPE_FREE then pmm_alloc_at_loop (Suc i) address len type s
            else if me_base e > address \<or> me_base e + me_length e < address + len
            then pmm_alloc_at_loop (Suc i) address len type s
            else res_bind (pmm_map_set address len type True s) (\<lambda>s'. ok (True, s')))
      else ok (False, s))"
  by pat_completeness auto
termination
  by (relation "measure (\<lambda>(i, address, len, type, s). g_pmm_map_size s - i)") auto

declare pmm_alloc_at_loop.simps [simp del]

definition pmm_alloc_at ::
  "u64 \<Rightarrow> u64 \<Rightarrow> pmm_map_type \<Rightarrow> pmm_state \<Rightarrow> (bool \<times> pmm_state) res" where
  "pmm_alloc_at address page_count type s =
     pmm_alloc_at_loop 0 address (page_count * PTM_PAGE_GRANULARITY) type s"

function pmm_alloc_ext_loop ::
  "nat \<Rightarrow> u64 \<Rightarrow> u64 \<Rightarrow> pmm_map_type \<Rightarrow> pmm_state \<Rightarrow> (u64 \<times> pmm_state) res" where
  "pmm_alloc_ext_loop i len alignment type s =
     (if i < g_pmm_map_size s then
        (let e = g_pmm_map s ! i
         in if me_type e \<noteq> PMM_MAP_TYPE_FREE then pmm_alloc_ext_loop (Suc i) len alignment type s
            else if alignment = 0 then fail (UB ''division by zero'')
            else (let ue_base = MATH_CEIL (me_base e) alignment
                  in if ue_base \<ge> me_base e + me_length e
                     then pmm_alloc_ext_loop (Suc i) len alignment type s
                     else (let ue_length = me_length e - (ue_base - me_base e)
                           in if ue_length < len
                              then pmm_alloc_ext_loop (Suc i) len alignment type s
                              else res_bind (pmm_map_set ue_base len type True s)
                                     (\<lambda>s'. ok (ue_base, s')))))
      else fail (Panic ''out of memory''))"
  by pat_completeness auto
termination
  by (relation "measure (\<lambda>(i, len, alignment, type, s). g_pmm_map_size s - i)") auto

declare pmm_alloc_ext_loop.simps [simp del]

definition pmm_alloc_ext ::
  "u64 \<Rightarrow> u64 \<Rightarrow> pmm_map_type \<Rightarrow> pmm_state \<Rightarrow> (u64 \<times> pmm_state) res" where
  "pmm_alloc_ext page_count alignment type s =
     pmm_alloc_ext_loop 0 (page_count * PTM_PAGE_GRANULARITY) alignment type s"

definition pmm_alloc :: "u64 \<Rightarrow> pmm_state \<Rightarrow> (u64 \<times> pmm_state) res" where
  "pmm_alloc page_count s =
     pmm_alloc_ext page_count PTM_PAGE_GRANULARITY PMM_MAP_TYPE_ALLOCATED s"

definition pmm_free :: "u64 \<Rightarrow> u64 \<Rightarrow> pmm_state \<Rightarrow> pmm_state res" where
  "pmm_free address page_count s =
     pmm_map_set address (page_count * PTM_PAGE_GRANULARITY) PMM_MAP_TYPE_FREE True s"

section \<open>Snapshots\<close>

text \<open>
  \<open>sizeof(pmm_map_entry_t)\<close> is 24. The buffer's contents are the list of the copied entries; the
  buffer's address is \<open>phys\<close> plus the direct map offset. The copy takes \<open>count\<close> slots from the
  start of the array, dead slots included; \<open>memcpy\<close> past the array is undefined behaviour.
\<close>

definition sizeof_pmm_map_entry :: u64 where "sizeof_pmm_map_entry = 24"

record pmm_map_snapshot =
  snap_entries :: "pmm_map_entry list"
  snap_count :: nat
  snap_phys :: u64
  snap_bytes :: u64

definition pmm_create_snapshot :: "pmm_state \<Rightarrow> (pmm_map_snapshot \<times> pmm_state) res" where
  "pmm_create_snapshot s =
     (let count = g_pmm_map_size s + 2;
          bytes = MATH_ALIGN_UP (sizeof_pmm_map_entry * of_nat count) PTM_PAGE_GRANULARITY
      in res_bind (pmm_alloc (bytes div PTM_PAGE_GRANULARITY) s)
           (\<lambda>(phys, s').
              if phys = 0 then fail (Panic ''failed to allocate memory for pmm snapshot'')
              else if MATH_ALIGN_UP (sizeof_pmm_map_entry * of_nat (g_pmm_map_size s'))
                        PTM_PAGE_GRANULARITY > bytes
              then fail (Panic ''pmm snapshot size exceeds allocated memory'')
              else if count > PMM_MAP_MAX_ENTRIES then fail (UB ''memcpy past g_pmm_map'')
              else ok (\<lparr>snap_entries = take count (g_pmm_map s'), snap_count = count,
                         snap_phys = phys, snap_bytes = bytes\<rparr>, s')))"

definition pmm_free_snapshot :: "pmm_map_snapshot \<Rightarrow> pmm_state \<Rightarrow> pmm_state res" where
  "pmm_free_snapshot snap s =
     pmm_free (snap_phys snap) (snap_bytes snap div PTM_PAGE_GRANULARITY) s"

end
