(* ===== verification/PmmRegion.thy ===== *)
theory PmmRegion
  imports Pmm
begin

text \<open>
  The map read as a set of typed regions. An entry covers the addresses \<open>lo e\<close> up to (not
  including) \<open>hi e\<close>, as natural numbers. \<open>wf_map\<close> says that no entry is empty or wraps and that
  the entries are sorted and disjoint; \<open>type_at\<close> is the abstraction: the type the map gives an
  address. The first section shows what the array operations do to the live entries and to the
  dead slots above them.
\<close>

section \<open>Live entries and dead slots\<close>

definition live :: "pmm_state \<Rightarrow> pmm_map_entry list" where
  "live s = take (g_pmm_map_size s) (g_pmm_map s)"

definition stale :: "pmm_state \<Rightarrow> pmm_map_entry list" where
  "stale s = drop (g_pmm_map_size s) (g_pmm_map s)"

definition arr_ok :: "pmm_state \<Rightarrow> bool" where
  "arr_ok s \<longleftrightarrow> List.length (g_pmm_map s) = PMM_MAP_MAX_ENTRIES
     \<and> g_pmm_map_size s \<le> PMM_MAP_MAX_ENTRIES"

lemma length_live [simp]: "arr_ok s \<Longrightarrow> length (live s) = g_pmm_map_size s"
  by (simp add: live_def arr_ok_def)

lemma length_stale: "arr_ok s \<Longrightarrow> length (stale s) = PMM_MAP_MAX_ENTRIES - g_pmm_map_size s"
  by (simp add: stale_def arr_ok_def)

lemma slot_live: "k < g_pmm_map_size s \<Longrightarrow> g_pmm_map s ! k = live s ! k"
  by (simp add: live_def)

lemma slot_stale:
  "arr_ok s \<Longrightarrow> g_pmm_map_size s < PMM_MAP_MAX_ENTRIES
    \<Longrightarrow> g_pmm_map s ! g_pmm_map_size s \<in> set (stale s)"
  by (auto simp: stale_def arr_ok_def in_set_conv_nth intro!: exI [of _ 0])

lemma size_less_word: "arr_ok s \<Longrightarrow> g_pmm_map_size s \<le> 1024"
  by (simp add: arr_ok_def PMM_MAP_MAX_ENTRIES_def)

lemma length_shift_up [simp]: "length (shift_up i index m) = length m"
  by (induction i index m rule: shift_up.induct) (subst shift_up.simps, simp)

lemma nth_shift_up:
  "index \<le> i \<Longrightarrow> i < length m \<Longrightarrow> j < length m \<Longrightarrow>
    shift_up i index m ! j = (if index < j \<and> j \<le> i then m ! (j - 1) else m ! j)"
proof (induction i index m rule: shift_up.induct)
  case (1 i index m)
  show ?case
  proof (cases "i > index")
    case True
    then show ?thesis
      using 1 by (subst shift_up.simps) (auto simp: nth_list_update)
  next
    case False
    then show ?thesis
      using 1 by (subst shift_up.simps) auto
  qed
qed

lemma length_shift_down [simp]: "length (shift_down i b m) = length m"
  by (induction i b m rule: shift_down.induct) (subst shift_down.simps, simp)

lemma nth_shift_down:
  "b < length m \<Longrightarrow> j < length m \<Longrightarrow>
    shift_down i b m ! j = (if i \<le> j \<and> j < b then m ! Suc j else m ! j)"
proof (induction i b m rule: shift_down.induct)
  case (1 i b m)
  show ?case
  proof (cases "i < b")
    case True
    then show ?thesis
      using 1 by (subst shift_down.simps) (auto simp: nth_list_update)
  next
    case False
    then show ?thesis
      using 1 by (subst shift_down.simps) auto
  qed
qed

lemma map_insert_full:
  "g_pmm_map_size s = PMM_MAP_MAX_ENTRIES \<Longrightarrow>
    map_insert index e s = fail (Panic ''memory map overflow'')"
  by (simp add: map_insert_def)

lemma map_insert_ok:
  assumes "arr_ok s" and "g_pmm_map_size s < PMM_MAP_MAX_ENTRIES" and "index \<le> g_pmm_map_size s"
  obtains s' where "map_insert index e s = ok s'" and "arr_ok s'"
    and "live s' = take index (live s) @ e # drop index (live s)"
    and "stale s' = tl (stale s)"
proof -
  define s' where "s' = s\<lparr>g_pmm_map := (shift_up (g_pmm_map_size s) index (g_pmm_map s))[index := e],
    g_pmm_map_size := g_pmm_map_size s + 1\<rparr>"
  have "map_insert index e s = ok s'"
    using assms(2) by (simp add: map_insert_def s'_def)
  moreover have "arr_ok s'"
    using assms by (simp add: arr_ok_def s'_def)
  moreover have "live s' = take index (live s) @ e # drop index (live s)"
    using assms
    by (intro nth_equalityI)
      (auto simp: s'_def live_def arr_ok_def nth_append nth_Cons' nth_shift_up nth_list_update
        min_def split: if_splits)
  moreover have "stale s' = tl (stale s)"
    using assms
    by (intro nth_equalityI)
      (auto simp: s'_def stale_def arr_ok_def nth_shift_up nth_list_update nth_tl)
  ultimately show thesis
    by (rule that)
qed

lemma map_delete_ok:
  assumes "arr_ok s" and "index < g_pmm_map_size s"
  shows "arr_ok (map_delete index s)"
    and "live (map_delete index s) = take index (live s) @ drop (Suc index) (live s)"
    and "stale (map_delete index s) = List.last (live s) # stale s"
    and "g_pmm_map_size (map_delete index s) = g_pmm_map_size s - 1"
proof -
  show "arr_ok (map_delete index s)"
    using assms by (auto simp: arr_ok_def map_delete_def)
  show "live (map_delete index s) = take index (live s) @ drop (Suc index) (live s)"
    using assms
    by (intro nth_equalityI)
      (auto simp: map_delete_def live_def arr_ok_def nth_append nth_shift_down min_def
        split: if_splits)
  have "live s \<noteq> []"
    using assms by (auto simp: live_def arr_ok_def)
  then have last: "List.last (live s) = g_pmm_map s ! (g_pmm_map_size s - 1)"
    using assms by (simp add: last_conv_nth live_def arr_ok_def)
  show "stale (map_delete index s) = List.last (live s) # stale s"
    using assms
    by (intro nth_equalityI)
      (auto simp: map_delete_def last stale_def arr_ok_def nth_shift_down nth_Cons')
  show "g_pmm_map_size (map_delete index s) = g_pmm_map_size s - 1"
    by (simp add: map_delete_def)
qed

lemma set_slot_ok:
  assumes "arr_ok s" and "k < g_pmm_map_size s"
  shows "arr_ok (set_slot k e s)" and "live (set_slot k e s) = (live s)[k := e]"
    and "stale (set_slot k e s) = stale s"
    and "g_pmm_map_size (set_slot k e s) = g_pmm_map_size s"
  using assms by (auto simp: arr_ok_def set_slot_def live_def stale_def take_update_swap)

lemma insert_index_eq:
  "arr_ok s \<Longrightarrow> insert_index i base s =
    i + length (takeWhile (\<lambda>e. me_base e \<le> base) (drop i (live s)))"
proof (induction i base s rule: insert_index.induct)
  case (1 i base s)
  show ?case
  proof (cases "i < g_pmm_map_size s")
    case True
    moreover have "drop i (live s) = live s ! i # drop (Suc i) (live s)"
      using True "1.prems" by (metis Cons_nth_drop_Suc length_live)
    ultimately show ?thesis
      using 1 by (subst insert_index.simps) (simp add: slot_live)
  next
    case False
    then show ?thesis
      using 1 by (subst insert_index.simps) (simp add: live_def)
  qed
qed

section \<open>Entries as intervals\<close>

definition lo :: "pmm_map_entry \<Rightarrow> nat" where
  "lo e = unat (me_base e)"

definition hi :: "pmm_map_entry \<Rightarrow> nat" where
  "hi e = unat (me_base e) + unat (me_length e)"

definition contains :: "pmm_map_entry \<Rightarrow> nat \<Rightarrow> bool" where
  "contains e a \<longleftrightarrow> lo e \<le> a \<and> a < hi e"

definition entry_ok :: "pmm_map_entry \<Rightarrow> bool" where
  "entry_ok e \<longleftrightarrow> me_length e \<noteq> 0 \<and> hi e < 2 ^ 64"

definition wf_map :: "pmm_map_entry list \<Rightarrow> bool" where
  "wf_map xs \<longleftrightarrow> (\<forall>e\<in>set xs. entry_ok e) \<and> sorted_wrt (\<lambda>a b. hi a \<le> lo b) xs"

fun type_at :: "pmm_map_entry list \<Rightarrow> nat \<Rightarrow> pmm_map_type option" where
  "type_at [] a = None"
| "type_at (e # es) a = (if contains e a then Some (me_type e) else type_at es a)"

lemma entry_ok_less: "entry_ok e \<Longrightarrow> lo e < hi e"
  by (simp add: entry_ok_def lo_def hi_def unat_gt_0)

lemma entry_end: "entry_ok e \<Longrightarrow> unat (me_base e + me_length e) = hi e"
  unfolding entry_ok_def hi_def by (subst unat_add_nowrap) simp_all

lemma wf_map_Nil [simp]: "wf_map []"
  by (simp add: wf_map_def)

lemma wf_map_Cons [simp]:
  "wf_map (e # es) \<longleftrightarrow> entry_ok e \<and> (\<forall>x\<in>set es. hi e \<le> lo x) \<and> wf_map es"
  by (auto simp: wf_map_def)

lemma wf_map_append:
  "wf_map (xs @ ys) \<longleftrightarrow> wf_map xs \<and> wf_map ys \<and> (\<forall>x\<in>set xs. \<forall>y\<in>set ys. hi x \<le> lo y)"
  by (auto simp: wf_map_def sorted_wrt_append)

lemma wf_map_entry: "wf_map xs \<Longrightarrow> e \<in> set xs \<Longrightarrow> entry_ok e"
  by (simp add: wf_map_def)

lemma type_at_append:
  "type_at (xs @ ys) a = (case type_at xs a of None \<Rightarrow> type_at ys a | Some t \<Rightarrow> Some t)"
  by (induction xs) auto

lemma type_at_None_iff: "type_at xs a = None \<longleftrightarrow> (\<forall>e\<in>set xs. \<not> contains e a)"
  by (induction xs) auto

lemma type_at_NoneI: "(\<And>e. e \<in> set xs \<Longrightarrow> \<not> contains e a) \<Longrightarrow> type_at xs a = None"
  by (simp add: type_at_None_iff)

lemma type_at_mem:
  "wf_map xs \<Longrightarrow> e \<in> set xs \<Longrightarrow> contains e a \<Longrightarrow> type_at xs a = Some (me_type e)"
  by (induction xs) (fastforce simp: contains_def dest: wf_map_entry)+

lemma type_at_Some_iff:
  "wf_map xs \<Longrightarrow> type_at xs a = Some t \<longleftrightarrow> (\<exists>e\<in>set xs. contains e a \<and> me_type e = t)"
  by (metis (no_types, lifting) option.inject option.distinct(1) type_at_None_iff type_at_mem)

lemma wf_map_unique:
  "wf_map xs \<Longrightarrow> e \<in> set xs \<Longrightarrow> f \<in> set xs \<Longrightarrow> contains e a \<Longrightarrow> contains f a \<Longrightarrow> e = f"
  by (induction xs) (fastforce simp: contains_def)+

text \<open>A region is disjoint from an entry when it ends before it or begins after it.\<close>

definition clear_of :: "nat \<Rightarrow> nat \<Rightarrow> pmm_map_entry \<Rightarrow> bool" where
  "clear_of b h e \<longleftrightarrow> hi e \<le> b \<or> h \<le> lo e"

text \<open>A region is held when one entry contains all of it.\<close>

definition held :: "pmm_map_entry list \<Rightarrow> nat \<Rightarrow> nat \<Rightarrow> bool" where
  "held xs b h \<longleftrightarrow> (\<exists>e\<in>set xs. lo e \<le> b \<and> h \<le> hi e)"

lemma held_mono: "held xs b h \<Longrightarrow> b \<le> x \<Longrightarrow> y \<le> h \<Longrightarrow> held xs x y"
  by (auto simp: held_def intro: order_trans)

lemma clear_of_not_contains:
  "clear_of b h e \<Longrightarrow> b \<le> a \<Longrightarrow> a < h \<Longrightarrow> \<not> contains e a"
  by (auto simp: clear_of_def contains_def)

text \<open>Every range outside the region that one entry held is still held by one entry.\<close>

definition keeps_held :: "pmm_map_entry list \<Rightarrow> nat \<Rightarrow> nat \<Rightarrow> pmm_map_entry list \<Rightarrow> bool" where
  "keeps_held xs b h ys \<longleftrightarrow>
     (\<forall>x y. x < y \<and> (y \<le> b \<or> h \<le> x) \<and> held xs x y \<longrightarrow> held ys x y)"

lemma keeps_held_refl: "keeps_held xs b h xs"
  by (simp add: keeps_held_def)

lemma keeps_held_trans: "keeps_held xs b h ys \<Longrightarrow> keeps_held ys b h zs \<Longrightarrow> keeps_held xs b h zs"
  by (simp add: keeps_held_def)

lemma keeps_held_covers:
  assumes "\<And>e. e \<in> set xs \<Longrightarrow> \<exists>e'\<in>set ys. lo e' \<le> lo e \<and> hi e \<le> hi e'"
  shows "keeps_held xs b h ys"
  using assms unfolding keeps_held_def held_def by (meson order_trans)

lemma keeps_held_cut:
  assumes cut: "\<And>a. (\<exists>x\<in>set es. contains x a) \<longleftrightarrow> contains e a \<and> \<not> (b \<le> a \<and> a < h)"
    and one: "length es \<le> 1"
  shows "keeps_held (ys @ e # zs) b h (ys @ es @ zs)"
  unfolding keeps_held_def
proof (intro allI impI)
  fix x y assume xy: "x < y \<and> (y \<le> b \<or> h \<le> x) \<and> held (ys @ e # zs) x y"
  then obtain f where f: "f \<in> set (ys @ e # zs)" "lo f \<le> x" "y \<le> hi f"
    by (auto simp: held_def)
  show "held (ys @ es @ zs) x y"
  proof (cases "f = e")
    case True
    then have "contains e x \<and> \<not> (b \<le> x \<and> x < h)" "contains e (y - 1) \<and> \<not> (b \<le> y - 1 \<and> y - 1 < h)"
      using xy f by (auto simp: contains_def)
    then have "\<exists>e'\<in>set es. contains e' x" "\<exists>e'\<in>set es. contains e' (y - 1)"
      by (simp_all add: cut)
    moreover obtain e' where "es = [e']"
      using calculation(1) one by (cases es) auto
    ultimately show ?thesis
      using xy by (auto simp: held_def contains_def)
  qed (use f in \<open>auto simp: held_def\<close>)
qed

section \<open>Inserting a disjoint region\<close>

text \<open>What \<open>pmm_map_set_insert\<close> does to the live entries.\<close>

definition ins_list ::
  "u64 \<Rightarrow> u64 \<Rightarrow> pmm_map_type \<Rightarrow> pmm_map_entry list \<Rightarrow> pmm_map_entry list" where
  "ins_list base len t xs =
     (let ys = takeWhile (\<lambda>e. me_base e \<le> base) xs;
          zs = dropWhile (\<lambda>e. me_base e \<le> base) xs
      in if ys \<noteq> [] \<and> me_type (last ys) = t \<and> me_base (last ys) + me_length (last ys) = base
         then butlast ys @ (last ys)\<lparr>me_length := me_length (last ys) + len\<rparr> # zs
         else if zs \<noteq> [] \<and> me_type (hd zs) = t \<and> me_base (hd zs) = base + len
         then ys @ (hd zs)\<lparr>me_base := base, me_length := me_length (hd zs) + len\<rparr> # tl zs
         else ys @ \<lparr>me_base = base, me_length = len, me_type = t\<rparr> # zs)"

text \<open>
  One entry \<open>e\<close> takes the place of the entries \<open>old\<close> (none or one) and grows over the region
  from \<open>b\<close> to \<open>h\<close>: all three outcomes of the insertion have this shape.
\<close>

lemma splice_correct:
  assumes wf: "wf_map (ys @ old @ zs)" and ok: "entry_ok e"
    and left: "\<And>y. y \<in> set ys \<Longrightarrow> hi y \<le> lo e" and right: "\<And>z. z \<in> set zs \<Longrightarrow> hi e \<le> lo z"
    and type: "\<And>x. x \<in> set old \<Longrightarrow> me_type x = me_type e"
    and grow: "\<And>a. contains e a \<longleftrightarrow> (\<exists>x\<in>set old. contains x a) \<or> b \<le> a \<and> a < h"
  shows "wf_map (ys @ e # zs)"
    and "type_at (ys @ e # zs) a =
      (if b \<le> a \<and> a < h then Some (me_type e) else type_at (ys @ old @ zs) a)"
proof -
  show "wf_map (ys @ e # zs)"
    using wf ok left right by (auto simp: wf_map_append)
  have "type_at ys a = None" if "contains e a"
    using left that by (intro type_at_NoneI) (force simp: contains_def)
  moreover have "type_at old a = (if \<exists>x\<in>set old. contains x a then Some (me_type e) else None)"
    using type by (induction old) auto
  ultimately show "type_at (ys @ e # zs) a =
      (if b \<le> a \<and> a < h then Some (me_type e) else type_at (ys @ old @ zs) a)"
    using grow [of a] by (auto simp: type_at_append split: option.splits)
qed

lemma grow_up:
  assumes "entry_ok p" and "hi p + unat len < 2 ^ 64"
  shows "lo (p\<lparr>me_length := me_length p + len\<rparr>) = lo p"
    and "hi (p\<lparr>me_length := me_length p + len\<rparr>) = hi p + unat len"
    and "entry_ok (p\<lparr>me_length := me_length p + len\<rparr>)"
proof -
  have "unat (me_length p + len) = unat (me_length p) + unat len"
    using assms by (subst unat_add_nowrap) (auto simp: hi_def)
  then show "lo (p\<lparr>me_length := me_length p + len\<rparr>) = lo p"
    and hi: "hi (p\<lparr>me_length := me_length p + len\<rparr>) = hi p + unat len"
    and "entry_ok (p\<lparr>me_length := me_length p + len\<rparr>)"
    using assms entry_ok_less [OF assms(1)] by (auto simp: lo_def hi_def entry_ok_def word_eq_unat)
qed

lemma grow_down:
  assumes "entry_ok n" and "unat base + unat len = lo n"
  shows "lo (n\<lparr>me_base := base, me_length := me_length n + len\<rparr>) = unat base"
    and "hi (n\<lparr>me_base := base, me_length := me_length n + len\<rparr>) = hi n"
    and "entry_ok (n\<lparr>me_base := base, me_length := me_length n + len\<rparr>)"
proof -
  have "unat (me_length n + len) = unat (me_length n) + unat len"
    using assms by (subst unat_add_nowrap) (auto simp: entry_ok_def lo_def hi_def)
  then show "lo (n\<lparr>me_base := base, me_length := me_length n + len\<rparr>) = unat base"
    and "hi (n\<lparr>me_base := base, me_length := me_length n + len\<rparr>) = hi n"
    and "entry_ok (n\<lparr>me_base := base, me_length := me_length n + len\<rparr>)"
    using assms by (auto simp: lo_def hi_def entry_ok_def word_eq_unat)
qed

text \<open>Where the insertion point splits the map.\<close>

lemma ins_split:
  assumes wf: "wf_map xs" and len: "len \<noteq> 0"
    and disj: "\<And>e. e \<in> set xs \<Longrightarrow> clear_of (unat base) (unat base + unat len) e"
  shows "e \<in> set (takeWhile (\<lambda>e. me_base e \<le> base) xs) \<Longrightarrow> hi e \<le> unat base"
    and "e \<in> set (dropWhile (\<lambda>e. me_base e \<le> base) xs) \<Longrightarrow> unat base + unat len \<le> lo e"
proof -
  have L: "0 < unat len"
    using len by (simp add: unat_gt_0)
  show "hi e \<le> unat base" if e: "e \<in> set (takeWhile (\<lambda>e. me_base e \<le> base) xs)"
    using set_takeWhileD [OF e] disj [of e] L
    by (auto simp: clear_of_def lo_def word_le_nat_alt)
  show "unat base + unat len \<le> lo e" if e: "e \<in> set (dropWhile (\<lambda>e. me_base e \<le> base) xs)"
  proof -
    from e obtain z zs where zs: "dropWhile (\<lambda>e. me_base e \<le> base) xs = z # zs"
      by (cases "dropWhile (\<lambda>e. me_base e \<le> base) xs") auto
    have wfz: "wf_map (z # zs)"
      using wf zs by (metis takeWhile_dropWhile_id wf_map_append)
    have "\<not> me_base z \<le> base"
      using zs by (simp add: dropWhile_eq_Cons_conv)
    moreover have "z \<in> set xs"
      using zs by (metis list.set_intros(1) set_dropWhileD)
    ultimately have "unat base + unat len \<le> lo z"
      using disj [of z] wfz entry_ok_less [of z] by (auto simp: clear_of_def lo_def word_le_nat_alt)
    moreover have "lo z \<le> lo e"
      using e wfz entry_ok_less [of z] by (fastforce simp: zs)
    ultimately show ?thesis
      by simp
  qed
qed

lemma ins_list_correct:
  assumes wf: "wf_map xs" and len: "len \<noteq> 0" and nowrap: "unat base + unat len < 2 ^ 64"
    and disj: "\<And>e. e \<in> set xs \<Longrightarrow> clear_of (unat base) (unat base + unat len) e"
  shows "wf_map (ins_list base len t xs) \<and>
    type_at (ins_list base len t xs) a =
      (if unat base \<le> a \<and> a < unat base + unat len then Some t else type_at xs a) \<and>
    length (ins_list base len t xs) \<le> Suc (length xs) \<and>
    held (ins_list base len t xs) (unat base) (unat base + unat len) \<and>
    (\<forall>e\<in>set xs. \<exists>e'\<in>set (ins_list base len t xs). lo e' \<le> lo e \<and> hi e \<le> hi e')"
proof -
  define ys where "ys = takeWhile (\<lambda>e. me_base e \<le> base) xs"
  define zs where "zs = dropWhile (\<lambda>e. me_base e \<le> base) xs"
  have xs: "xs = ys @ zs"
    by (simp add: ys_def zs_def)
  note y_hi = ins_split(1) [OF wf len disj, folded ys_def]
    and z_lo = ins_split(2) [OF wf len disj, folded zs_def]
  note def = ins_list_def ys_def [symmetric] zs_def [symmetric]
  have wfy: "wf_map ys" and wfz: "wf_map zs"
    using wf by (auto simp: xs wf_map_append)
  consider (prev) ys' p where "ys = ys' @ [p]" "me_type p = t" "me_base p + me_length p = base"
    | (nxt) n zs' where "zs = n # zs'" "me_type n = t" "me_base n = base + len"
      "\<not> (ys \<noteq> [] \<and> me_type (last ys) = t \<and> me_base (last ys) + me_length (last ys) = base)"
    | (new) "\<not> (ys \<noteq> [] \<and> me_type (last ys) = t \<and> me_base (last ys) + me_length (last ys) = base)"
      "\<not> (zs \<noteq> [] \<and> me_type (hd zs) = t \<and> me_base (hd zs) = base + len)"
    by (metis append_butlast_last_id list.collapse)
  then show ?thesis
  proof cases
    case prev
    then have ok: "entry_ok p" and hip: "hi p = unat base"
      using wfy entry_end [of p] by (auto simp: wf_map_append)
    note p' = grow_up [OF ok, of len]
    have "contains (p\<lparr>me_length := me_length p + len\<rparr>) a \<longleftrightarrow>
        (\<exists>x\<in>set [p]. contains x a) \<or> unat base \<le> a \<and> a < unat base + unat len" for a
      using p' hip nowrap entry_ok_less [OF ok] by (auto simp: contains_def)
    note splice = splice_correct [OF _ p'(3) _ _ _ this]
    have eq: "ins_list base len t xs = ys' @ p\<lparr>me_length := me_length p + len\<rparr> # zs"
      using prev by (simp add: def)
    show ?thesis
      unfolding eq
      using prev wf splice [of ys' zs] p' z_lo nowrap hip y_hi entry_ok_less [OF ok]
      by (auto simp: xs wf_map_append held_def)
  next
    case nxt
    then have ok: "entry_ok n" and lon: "unat base + unat len = lo n"
      using wfz nowrap by (auto simp: lo_def unat_add_nowrap)
    note n' = grow_down [OF ok lon]
    have "contains (n\<lparr>me_base := base, me_length := me_length n + len\<rparr>) a \<longleftrightarrow>
        (\<exists>x\<in>set [n]. contains x a) \<or> unat base \<le> a \<and> a < unat base + unat len" for a
      using n' lon entry_ok_less [OF ok] by (auto simp: contains_def)
    note splice = splice_correct [OF _ n'(3) _ _ _ this]
    have eq: "ins_list base len t xs =
        ys @ n\<lparr>me_base := base, me_length := me_length n + len\<rparr> # zs'"
      using nxt by (auto simp: def)
    show ?thesis
      unfolding eq
      using nxt wf splice [of ys zs'] n' y_hi entry_ok_less [OF ok] lon
      by (auto simp: xs wf_map_append held_def)
  next
    case new
    let ?e = "\<lparr>me_base = base, me_length = len, me_type = t\<rparr>"
    have e: "lo ?e = unat base" "hi ?e = unat base + unat len" "entry_ok ?e"
      using len nowrap by (simp_all add: lo_def hi_def entry_ok_def)
    have "contains ?e a \<longleftrightarrow>
        (\<exists>x\<in>set []. contains x a) \<or> unat base \<le> a \<and> a < unat base + unat len" for a
      using e by (auto simp: contains_def)
    note splice = splice_correct [OF _ e(3) _ _ _ this]
    have eq: "ins_list base len t xs = ys @ ?e # zs"
      using new by (auto simp: def)
    show ?thesis
      unfolding eq
      using wf splice [of ys zs] e y_hi z_lo
      by (auto simp: xs held_def)
  qed
qed

end
