(* ===== verification/PmmSet.thy ===== *)
theory PmmSet
  imports PmmRegion
begin

text \<open>
  Correctness of \<open>pmm_map_set\<close>. The first section evaluates one loop iteration for each position
  of the region relative to an entry. The second shows that a region which is clear of the
  remaining entries reaches the insertion unchanged. The third runs the forced loop over a whole
  map; the fourth the unforced call for a region that meets at most one entry. The last section
  exhibits the positions the code does not handle.
\<close>

section \<open>One iteration\<close>

definition region_ok :: "u64 \<Rightarrow> u64 \<Rightarrow> bool" where
  "region_ok base len \<longleftrightarrow> unat base + unat len < 2 ^ 64"

abbreviation region_end :: "u64 \<Rightarrow> u64 \<Rightarrow> nat" where
  "region_end base len \<equiv> unat base + unat len"

lemma unat_region_end: "region_ok base len \<Longrightarrow> unat (base + len) = region_end base len"
  unfolding region_ok_def by (subst unat_add_nowrap) simp_all

lemma region_cmp:
  assumes "entry_ok e" and "region_ok base len"
  shows "me_base e < base \<longleftrightarrow> lo e < unat base"
    and "base < me_base e \<longleftrightarrow> unat base < lo e"
    and "base < me_base e + me_length e \<longleftrightarrow> unat base < hi e"
    and "me_base e < base + len \<longleftrightarrow> lo e < region_end base len"
    and "base + len < me_base e + me_length e \<longleftrightarrow> region_end base len < hi e"
    and "me_base e + me_length e < base + len \<longleftrightarrow> hi e < region_end base len"
    and "base = me_base e \<longleftrightarrow> unat base = lo e"
    and "len = me_length e \<longleftrightarrow> unat len = hi e - lo e"
  using assms
  by (simp_all add: word_less_nat_alt word_eq_unat entry_end unat_region_end lo_def)
    (simp add: hi_def)

lemma iter_clear:
  assumes "entry_ok (g_pmm_map s ! unat i)" and "region_ok base len"
    and "clear_of (unat base) (region_end base len) (g_pmm_map s ! unat i)"
  shows "pmm_map_set_iter base len t force i s = Iter_next base len (i + 1) s"
  using assms entry_ok_less [OF assms(1)]
  by (auto simp: pmm_map_set_iter_def cover_or_equal_def Let_def region_cmp clear_of_def)

lemma iter_inside:
  assumes "entry_ok (g_pmm_map s ! unat i)" and "region_ok base len"
    and "lo (g_pmm_map s ! unat i) < unat base" and "region_end base len < hi (g_pmm_map s ! unat i)"
  shows "pmm_map_set_iter base len t force i s =
    (let e = g_pmm_map s ! unat i
     in if t > me_type e \<or> force then
          Iter_split (base + len) (me_base e + me_length e - (base + len)) (me_type e)
            (set_slot (unat i) (e\<lparr>me_length := base - me_base e\<rparr>) s)
        else Iter_return s)"
  using assms
  by (auto simp: pmm_map_set_iter_def Let_def region_cmp)

lemma iter_cover:
  assumes "entry_ok (g_pmm_map s ! unat i)" and "region_ok base len"
    and "unat base < lo (g_pmm_map s ! unat i)" and "hi (g_pmm_map s ! unat i) < region_end base len"
  shows "pmm_map_set_iter base len t force i s =
    (let e = g_pmm_map s ! unat i
     in if t > me_type e \<or> force then Iter_next base len i (map_delete (unat i) s)
        else Iter_around base (me_base e - base) (me_base e + me_length e)
               (base + len - (me_base e + me_length e)) s)"
  using assms entry_ok_less [OF assms(1)]
  by (auto simp: pmm_map_set_iter_def cover_or_equal_def Let_def region_cmp)

lemma iter_equal:
  assumes "entry_ok (g_pmm_map s ! unat i)" and "region_ok base len"
    and "unat base = lo (g_pmm_map s ! unat i)" and "region_end base len = hi (g_pmm_map s ! unat i)"
  shows "pmm_map_set_iter base len t force i s =
    (if t > me_type (g_pmm_map s ! unat i) \<or> force then Iter_next base len i (map_delete (unat i) s)
     else Iter_return s)"
  using assms entry_ok_less [OF assms(1)]
  by (auto simp: pmm_map_set_iter_def cover_or_equal_def Let_def region_cmp)

lemma iter_start:
  assumes arr: "arr_ok s" "unat i < g_pmm_map_size s"
    and e: "entry_ok (g_pmm_map s ! unat i)" and r: "region_ok base len"
    and pos: "lo (g_pmm_map s ! unat i) < unat base" "unat base < hi (g_pmm_map s ! unat i)"
      "hi (g_pmm_map s ! unat i) \<le> region_end base len"
  shows "pmm_map_set_iter base len t force i s =
    (let e = g_pmm_map s ! unat i
     in if t > me_type e \<or> force
        then Iter_next base len (i + 1) (set_slot (unat i) (e\<lparr>me_length := base - me_base e\<rparr>) s)
        else Iter_next (me_base e + me_length e) (base + len - (me_base e + me_length e)) (i + 1) s)"
proof -
  let ?e = "g_pmm_map s ! unat i"
  have k: "unat i < length (g_pmm_map s)"
    using arr by (simp add: arr_ok_def)
  have ne: "base \<noteq> me_base ?e" "me_base ?e + me_length ?e \<noteq> me_base ?e"
    "\<not> base < me_base ?e" "\<not> me_base ?e + me_length ?e < me_base ?e"
    using pos e r entry_end [OF e] by (auto simp: word_eq_unat word_less_nat_alt lo_def)
  have start: "me_base ?e < base" "base < me_base ?e + me_length ?e"
    "\<not> base + len < me_base ?e + me_length ?e"
    using pos e r by (simp_all add: region_cmp)
  show ?thesis
    using k ne start
    by (auto simp: pmm_map_set_iter_def trim_start_def cover_or_equal_def Let_def set_slot_def
        algebra_simps)
qed

lemma iter_end:
  assumes arr: "arr_ok s" "unat i < g_pmm_map_size s"
    and e: "entry_ok (g_pmm_map s ! unat i)" and r: "region_ok base len"
    and pos: "unat base \<le> lo (g_pmm_map s ! unat i)" "lo (g_pmm_map s ! unat i) < region_end base len"
      "region_end base len < hi (g_pmm_map s ! unat i)"
  shows "pmm_map_set_iter base len t force i s =
    (let e = g_pmm_map s ! unat i
     in if t > me_type e \<or> force
        then Iter_next base len (i + 1)
          (set_slot (unat i) (e\<lparr>me_length := me_base e + me_length e - (base + len),
             me_base := base + len\<rparr>) s)
        else Iter_next base (me_base e - base) (i + 1) s)"
proof -
  let ?e = "g_pmm_map s ! unat i"
  have k: "unat i < length (g_pmm_map s)"
    using arr by (simp add: arr_ok_def)
  have ne: "base + len \<noteq> me_base ?e + me_length ?e" "\<not> me_base ?e < base" "base + len \<noteq> base"
    "me_length ?e \<noteq> 0" "me_base ?e + me_length ?e \<noteq> me_base ?e"
    "\<not> me_base ?e + me_length ?e < me_base ?e"
    using pos e r entry_end [OF e] unat_region_end [OF r]
    by (auto simp: word_eq_unat word_less_nat_alt lo_def entry_ok_def)
  have words: "me_base ?e + (base + len - me_base ?e) = base + len"
    "me_length ?e - (base + len - me_base ?e) = me_base ?e + me_length ?e - (base + len)"
    "base + len + (me_base ?e + me_length ?e - (base + len)) = me_base ?e + me_length ?e"
    "len - (base + len - me_base ?e) = me_base ?e - base"
    by (simp_all add: algebra_simps)
  have fin: "me_base ?e < base + len" "base + len < me_base ?e + me_length ?e"
    using pos e r by (simp_all add: region_cmp)
  show ?thesis
    using k ne fin
    by (simp add: pmm_map_set_iter_def trim_end_def cover_or_equal_def Let_def set_slot_def words)
      (auto simp: word_less_nat_alt)
qed

section \<open>Dead slots\<close>

text \<open>
  The insertion compares the region with slot \<open>i\<close> even when that slot is dead. This is harmless
  as long as every dead slot begins at an address that the map still covers (or at 0, the value
  of a slot never used): \<open>stale_ok s P\<close> says so up to the addresses \<open>P\<close> of the regions that
  \<open>pmm_map_set\<close> has cut out and not yet inserted again.
\<close>

definition stale_ok :: "pmm_state \<Rightarrow> nat set \<Rightarrow> bool" where
  "stale_ok s P \<longleftrightarrow> (\<forall>e\<in>set (stale s). lo e = 0 \<or> lo e \<in> P \<or> type_at (live s) (lo e) \<noteq> None)"

definition pmm_inv :: "pmm_state \<Rightarrow> bool" where
  "pmm_inv s \<longleftrightarrow> arr_ok s \<and> wf_map (live s) \<and> stale_ok s {}"

lemma stale_ok_mono:
  assumes "stale_ok s P" and "set (stale s') \<subseteq> set (stale s)"
    and "\<And>a. a \<in> P \<or> type_at (live s) a \<noteq> None \<Longrightarrow> a \<in> Q \<or> type_at (live s') a \<noteq> None"
  shows "stale_ok s' Q"
  using assms unfolding stale_ok_def by (meson subsetD)

lemma insert_no_stale_match:
  assumes arr: "arr_ok s" and wf: "wf_map (live s)" and stale: "stale_ok s P"
    and r: "region_ok base len" "len \<noteq> 0" and P: "region_end base len \<notin> P"
    and disj: "\<And>e. e \<in> set (live s) \<Longrightarrow> clear_of (unat base) (region_end base len) e"
    and last: "\<And>e. e \<in> set (live s) \<Longrightarrow> me_base e \<le> base" and e: "e \<in> set (stale s)"
  shows "me_base e \<noteq> base + len"
proof
  assume "me_base e = base + len"
  then have lo: "lo e = region_end base len"
    using r by (simp add: lo_def unat_region_end)
  have "0 < unat len"
    using r by (simp add: unat_gt_0)
  then obtain x where x: "x \<in> set (live s)" "contains x (region_end base len)"
    using stale e lo P by (auto simp: stale_ok_def type_at_None_iff)
  then show False
    using last [OF x(1)] disj [OF x(1)] \<open>0 < unat len\<close>
    by (auto simp: contains_def clear_of_def lo_def word_le_nat_alt)
qed

lemma live_nth_split:
  assumes "arr_ok s" and "k < g_pmm_map_size s"
  shows "live s = take k (live s) @ g_pmm_map s ! k # drop (Suc k) (live s)"
  using assms by (metis id_take_nth_drop length_live slot_live)

lemma takeWhile_length_index:
  "xs = takeWhile P xs @ drop (length (takeWhile P xs)) xs"
  "take (length (takeWhile P xs)) xs = takeWhile P xs"
  "drop (length (takeWhile P xs)) xs = dropWhile P xs"
  by (induction xs) auto

text \<open>The insertion computes \<open>ins_list\<close> on the live entries, and cannot fail below capacity.\<close>

lemma pmm_map_set_insert_live:
  assumes arr: "arr_ok s" and cap: "g_pmm_map_size s < PMM_MAP_MAX_ENTRIES"
    and wf: "wf_map (live s)" and stale: "stale_ok s P"
    and r: "region_ok base len" "len \<noteq> 0" and P: "region_end base len \<notin> P"
    and disj: "\<And>e. e \<in> set (live s) \<Longrightarrow> clear_of (unat base) (region_end base len) e"
  obtains s' where "pmm_map_set_insert base len t s = ok s'" and "arr_ok s'"
    and "live s' = ins_list base len t (live s)" and "set (stale s') \<subseteq> set (stale s)"
proof -
  define ys where "ys = takeWhile (\<lambda>e. me_base e \<le> base) (live s)"
  define zs where "zs = dropWhile (\<lambda>e. me_base e \<le> base) (live s)"
  define i where "i = length ys"
  have xs: "live s = ys @ zs"
    by (simp add: ys_def zs_def)
  have i: "insert_index 0 base s = i"
    using arr by (simp add: insert_index_eq i_def ys_def)
  have size: "g_pmm_map_size s = length ys + length zs"
    using arr xs by (metis length_append length_live)
  note def = ins_list_def ys_def [symmetric] zs_def [symmetric]
  have prev_slot: "g_pmm_map s ! (i - 1) = last ys" if "ys \<noteq> []"
    using that size slot_live [of "i - 1" s]
    by (cases ys rule: rev_cases) (simp_all add: i_def xs nth_append)
  have slot: "g_pmm_map s ! i = hd zs" if "zs \<noteq> []"
    using that size slot_live [of i s] by (simp add: i_def xs nth_append hd_conv_nth)
  have bound: "i < PMM_MAP_MAX_ENTRIES"
    using cap size by (simp add: i_def)
  consider (prev) "ys \<noteq> []" "me_type (last ys) = t" "me_base (last ys) + me_length (last ys) = base"
    | (nxt) "zs \<noteq> []" "me_type (hd zs) = t" "me_base (hd zs) = base + len"
      "\<not> (ys \<noteq> [] \<and> me_type (last ys) = t \<and> me_base (last ys) + me_length (last ys) = base)"
    | (new) "\<not> (ys \<noteq> [] \<and> me_type (last ys) = t \<and> me_base (last ys) + me_length (last ys) = base)"
      "\<not> (zs \<noteq> [] \<and> me_type (hd zs) = t \<and> me_base (hd zs) = base + len)"
    by blast
  then show thesis
  proof cases
    case prev
    have k: "i - 1 < g_pmm_map_size s"
      using prev(1) size by (cases ys) (simp_all add: i_def)
    have "(ys @ zs)[i - 1 := x] = butlast ys @ x # zs" for x
      using prev(1) by (metis append_Cons append_Nil append_assoc append_butlast_last_id i_def
          length_butlast list_update_length)
    then have live: "(live s)[i - 1 := x] = butlast ys @ x # zs" for x
      by (simp add: xs)
    show thesis
    proof (rule that)
      show "pmm_map_set_insert base len t s =
          ok (set_slot (i - 1) ((last ys)\<lparr>me_length := me_length (last ys) + len\<rparr>) s)"
        using prev r prev_slot i_def by (simp add: pmm_map_set_insert_def Let_def i)
    qed (use prev live set_slot_ok [OF arr k] in \<open>simp_all add: def\<close>)
  next
    case nxt
    have k: "i < g_pmm_map_size s"
      using nxt size by (simp add: i_def)
    have live: "(live s)[i := x] = ys @ x # tl zs" for x
      using nxt(1) by (cases zs) (simp_all add: xs i_def)
    show thesis
    proof (rule that)
      show "pmm_map_set_insert base len t s =
          ok (set_slot i ((hd zs)\<lparr>me_base := base, me_length := me_length (hd zs) + len\<rparr>) s)"
        using nxt r prev_slot slot bound i_def by (auto simp: pmm_map_set_insert_def Let_def i)
    qed (use nxt live set_slot_ok [OF arr k] in \<open>auto simp: def\<close>)
  next
    case new
    have no_slot: "\<not> (me_type (g_pmm_map s ! i) = t \<and> me_base (g_pmm_map s ! i) = base + len)"
    proof (cases "zs = []")
      case False
      then show ?thesis
        using new slot by simp
    next
      case True
      then have last: "me_base e \<le> base" if "e \<in> set (live s)" for e
      proof -
        from that True have "e \<in> set ys"
          by (simp add: xs)
        then show ?thesis
          unfolding ys_def by (blast dest: set_takeWhileD)
      qed
      have "g_pmm_map s ! i \<in> set (stale s)"
        using slot_stale [OF arr cap] size True by (simp add: i_def)
      then have "me_base (g_pmm_map s ! i) \<noteq> base + len"
        by (rule insert_no_stale_match [OF arr wf stale r P, rotated 2]) (fact disj last)+
      then show ?thesis
        by simp
    qed
    obtain s' where s': "map_insert i \<lparr>me_base = base, me_length = len, me_type = t\<rparr> s = ok s'"
      "arr_ok s'" "live s' = take i (live s) @ \<lparr>me_base = base, me_length = len, me_type = t\<rparr> # drop i (live s)"
      "stale s' = tl (stale s)"
      using map_insert_ok [OF arr cap, of i] size by (auto simp: i_def)
    show thesis
    proof (rule that)
      show "pmm_map_set_insert base len t s = ok s'"
        using new r no_slot bound prev_slot s'(1) i_def
        by (auto simp: pmm_map_set_insert_def Let_def i)
      have "ins_list base len t (live s) = ys @ \<lparr>me_base = base, me_length = len, me_type = t\<rparr> # zs"
        using new by (auto simp: def)
      moreover have "live s' = ys @ \<lparr>me_base = base, me_length = len, me_type = t\<rparr> # zs"
        using s'(3) by (simp add: xs i_def)
      ultimately show "live s' = ins_list base len t (live s)"
        by simp
      show "set (stale s') \<subseteq> set (stale s)"
        using s'(4) by (cases "stale s") auto
    qed (rule s'(2))
  qed
qed

section \<open>Regions that are clear of the rest of the map\<close>

lemma unat_Suc_index: "arr_ok s \<Longrightarrow> unat i < g_pmm_map_size s \<Longrightarrow> unat (i + 1) = Suc (unat i)"
  for i :: u64
proof -
  assume "arr_ok s" and "unat i < g_pmm_map_size s"
  then have "unat i < 1024"
    by (simp add: arr_ok_def PMM_MAP_MAX_ENTRIES_def)
  then show ?thesis
    by (subst unat_add_nowrap) simp_all
qed

lemma set_drop_Suc_index:
  fixes i :: u64
  assumes "arr_ok s" and "unat i < g_pmm_map_size s"
  shows "set (drop (unat i) (live s)) =
    insert (g_pmm_map s ! unat i) (set (drop (unat (i + 1)) (live s)))"
proof -
  have "drop (unat i) (live s) = live s ! unat i # drop (Suc (unat i)) (live s)"
    using assms by (intro Cons_nth_drop_Suc [symmetric]) simp
  then show ?thesis
    by (simp only: unat_Suc_index [OF assms] slot_live [OF assms(2)] list.set)
qed

lemma slot_mem_live: "arr_ok s \<Longrightarrow> k < g_pmm_map_size s \<Longrightarrow> g_pmm_map s ! k \<in> set (live s)"
  by (metis length_live nth_mem slot_live)

lemma loop_clear:
  "arr_ok s \<Longrightarrow> wf_map (live s) \<Longrightarrow> region_ok base len \<Longrightarrow>
   (\<And>e. e \<in> set (drop (unat i) (live s)) \<Longrightarrow> clear_of (unat base) (region_end base len) e) \<Longrightarrow>
   pmm_map_set_loop base len t force i s = pmm_map_set_insert base len t s"
proof (induction "g_pmm_map_size s - unat i" arbitrary: i)
  case 0
  then show ?case
    by (simp add: pmm_map_set_loop.simps)
next
  case (Suc n)
  then have k: "unat i < g_pmm_map_size s"
    by simp
  have step: "pmm_map_set_iter base len t force i s = Iter_next base len (i + 1) s"
    using Suc.prems k slot_mem_live [OF _ k] set_drop_Suc_index [OF _ k]
    by (intro iter_clear) (auto intro: wf_map_entry)
  have "pmm_map_set_loop base len t force (i + 1) s = pmm_map_set_insert base len t s"
    using Suc.prems Suc.hyps(2) k set_drop_Suc_index [OF _ k]
    by (intro Suc.hyps(1)) (auto simp: unat_Suc_index)
  then show ?case
    using k by (subst pmm_map_set_loop.simps) (simp add: step)
qed

text \<open>The outcome of a call, as the later proofs use it.\<close>

definition set_outcome ::
  "pmm_state \<Rightarrow> nat \<Rightarrow> nat \<Rightarrow> (pmm_map_type option \<Rightarrow> pmm_map_type option) \<Rightarrow> nat set \<Rightarrow>
    pmm_state \<Rightarrow> bool" where
  "set_outcome s b h f P s' \<longleftrightarrow>
     arr_ok s' \<and> wf_map (live s') \<and> stale_ok s' P \<and> (b < h \<longrightarrow> held (live s') b h) \<and>
     keeps_held (live s) b h (live s') \<and>
     (\<forall>a. type_at (live s') a =
       (if b \<le> a \<and> a < h then f (type_at (live s) a) else type_at (live s) a))"

lemma insert_outcome:
  assumes arr: "arr_ok s" and cap: "g_pmm_map_size s < PMM_MAP_MAX_ENTRIES"
    and wf: "wf_map (live s)" and stale: "stale_ok s P"
    and r: "region_ok base len" and P: "len \<noteq> 0 \<Longrightarrow> region_end base len \<notin> P"
    and disj: "\<And>e. e \<in> set (live s) \<Longrightarrow> clear_of (unat base) (region_end base len) e"
  obtains s' where "pmm_map_set_insert base len t s = ok s'"
    and "set_outcome s (unat base) (region_end base len) (\<lambda>_. Some t) (P - {unat base..<region_end base len}) s'"
    and "g_pmm_map_size s' \<le> Suc (g_pmm_map_size s)"
proof (cases "len = 0")
  case True
  show thesis
  proof (rule that)
    show "pmm_map_set_insert base len t s = ok s"
      using True by (simp add: pmm_map_set_insert_def)
  qed (use True arr wf stale in \<open>auto simp: set_outcome_def keeps_held_refl\<close>)
next
  case False
  from pmm_map_set_insert_live [OF arr cap wf stale r False P [OF False] disj] obtain s'
    where s': "pmm_map_set_insert base len t s = ok s'" "arr_ok s'"
      "live s' = ins_list base len t (live s)" "set (stale s') \<subseteq> set (stale s)" .
  note ins = ins_list_correct [OF wf False r [unfolded region_ok_def] disj,
      where t = t, folded s'(3)]
  have "stale_ok s' (P - {unat base..<region_end base len})"
    using ins by (intro stale_ok_mono [OF stale s'(4)]) (auto split: if_splits)
  moreover have "g_pmm_map_size s' \<le> Suc (g_pmm_map_size s)"
    using ins arr s'(2) by (metis length_live)
  ultimately show thesis
    using s' ins keeps_held_covers [of "live s" "live s'"]
    by (intro that [of s']) (auto simp: set_outcome_def)
qed

section \<open>Cutting a region out of an entry\<close>

text \<open>A region lies on an edge of an entry when it begins where the entry begins and goes further,
  or ends where the entry ends and begins before it.\<close>

definition on_edge :: "nat \<Rightarrow> nat \<Rightarrow> pmm_map_entry \<Rightarrow> bool" where
  "on_edge b h e \<longleftrightarrow> (b = lo e \<and> hi e < h) \<or> (b < lo e \<and> hi e = h)"

lemma clear_iff_free:
  assumes "wf_map xs" and "b < h"
  shows "(\<forall>e\<in>set xs. clear_of b h e) \<longleftrightarrow> (\<forall>a. b \<le> a \<and> a < h \<longrightarrow> type_at xs a = None)"
proof
  assume "\<forall>e\<in>set xs. clear_of b h e"
  then show "\<forall>a. b \<le> a \<and> a < h \<longrightarrow> type_at xs a = None"
    by (auto intro!: type_at_NoneI dest: clear_of_not_contains)
next
  assume free: "\<forall>a. b \<le> a \<and> a < h \<longrightarrow> type_at xs a = None"
  show "\<forall>e\<in>set xs. clear_of b h e"
  proof
    fix e assume e: "e \<in> set xs"
    have "\<not> contains e (max b (lo e))" if "\<not> clear_of b h e"
      using free e that assms(2) by (auto simp: type_at_None_iff clear_of_def)
    then show "clear_of b h e"
      using entry_ok_less [OF wf_map_entry [OF assms(1) e]]
      by (auto simp: clear_of_def contains_def)
  qed
qed

text \<open>The entry \<open>e\<close> is replaced by what lies outside the region: nothing, or one smaller entry.\<close>

lemma cut_correct:
  assumes wf: "wf_map (ys @ e # zs)" and es: "wf_map es"
    and inner: "\<And>x. x \<in> set es \<Longrightarrow> lo e \<le> lo x \<and> hi x \<le> hi e \<and> me_type x = me_type e"
    and cut: "\<And>a. (\<exists>x\<in>set es. contains x a) \<longleftrightarrow> contains e a \<and> \<not> (b \<le> a \<and> a < h)"
  shows "wf_map (ys @ es @ zs)"
    and "type_at (ys @ es @ zs) a =
      (if contains e a \<and> b \<le> a \<and> a < h then None else type_at (ys @ e # zs) a)"
proof -
  show "wf_map (ys @ es @ zs)"
    using wf es inner by (fastforce simp: wf_map_append)
  have "type_at es a = (if \<exists>x\<in>set es. contains x a then Some (me_type e) else None)"
    using inner by (induction es) auto
  moreover have "type_at ys a = None" "type_at zs a = None" if "contains e a"
    using wf that by (force simp: wf_map_append contains_def intro!: type_at_NoneI)+
  ultimately show "type_at (ys @ es @ zs) a =
      (if contains e a \<and> b \<le> a \<and> a < h then None else type_at (ys @ e # zs) a)"
    using cut [of a] by (auto simp: type_at_append split: option.splits)
qed

lemma cut_low:
  assumes "entry_ok e" and "lo e < unat base" and "unat base < hi e"
  shows "lo (e\<lparr>me_length := base - me_base e\<rparr>) = lo e"
    and "hi (e\<lparr>me_length := base - me_base e\<rparr>) = unat base"
    and "entry_ok (e\<lparr>me_length := base - me_base e\<rparr>)"
proof -
  have "unat (base - me_base e) = unat base - lo e"
    using assms(2) by (subst unat_diff_nowrap) (simp_all add: lo_def)
  then show "lo (e\<lparr>me_length := base - me_base e\<rparr>) = lo e"
    and "hi (e\<lparr>me_length := base - me_base e\<rparr>) = unat base"
    and "entry_ok (e\<lparr>me_length := base - me_base e\<rparr>)"
    using assms by (auto simp: lo_def hi_def entry_ok_def word_eq_unat)
qed

lemma unat_rest:
  assumes "entry_ok e" and "region_ok base len" and "region_end base len \<le> hi e"
  shows "unat (me_base e + me_length e - (base + len)) = hi e - region_end base len"
  using assms by (subst unat_diff_nowrap) (simp_all add: entry_end unat_region_end)

lemma cut_high:
  assumes "entry_ok e" and "region_ok base len"
    and "lo e < region_end base len" and "region_end base len < hi e"
  defines "e' \<equiv> e\<lparr>me_length := me_base e + me_length e - (base + len), me_base := base + len\<rparr>"
  shows "lo e' = region_end base len" and "hi e' = hi e" and "entry_ok e'"
proof -
  have "unat (me_length e') = hi e - region_end base len" "unat (me_base e') = region_end base len"
    using unat_rest [OF assms(1,2)] assms(2-4) by (simp_all add: e'_def unat_region_end)
  then show "lo e' = region_end base len" and "hi e' = hi e" and "entry_ok e'"
    using assms(1,3,4)
    by (auto simp: lo_def hi_def [of e'] entry_ok_def word_eq_unat)
qed

end
