(* ===== verification/PmmForce.thy ===== *)
theory PmmForce
  imports PmmSet
begin

text \<open>
  The overriding call of \<open>pmm_map_set\<close> over a whole map: whatever the map held in the region is
  replaced, everything else keeps its type. \<open>after_cut\<close> relates the states before and after one
  iteration that removes part of an entry; the loop is an induction over the entries that remain.
\<close>

section \<open>One cut on the state\<close>

definition after_cut :: "pmm_state \<Rightarrow> nat \<Rightarrow> nat \<Rightarrow> pmm_map_entry \<Rightarrow> pmm_state \<Rightarrow> bool" where
  "after_cut s b h e s' \<longleftrightarrow>
     arr_ok s' \<and> wf_map (live s') \<and> stale_ok s' {b..<h} \<and> keeps_held (live s) b h (live s') \<and>
     (\<forall>a. type_at (live s') a =
       (if contains e a \<and> b \<le> a \<and> a < h then None else type_at (live s) a))"

lemma after_cut_outside:
  "after_cut s b h e s' \<Longrightarrow> \<not> (b \<le> a \<and> a < h) \<Longrightarrow> type_at (live s') a = type_at (live s) a"
  by (auto simp: after_cut_def)

lemma set_slot_after_cut:
  assumes arr: "arr_ok s" and k: "k < g_pmm_map_size s" and wf: "wf_map (live s)"
    and stale: "stale_ok s {b..<h}"
    and e': "entry_ok e'" "lo (g_pmm_map s ! k) \<le> lo e'" "hi e' \<le> hi (g_pmm_map s ! k)"
      "me_type e' = me_type (g_pmm_map s ! k)"
    and cut: "\<And>a. contains e' a \<longleftrightarrow> contains (g_pmm_map s ! k) a \<and> \<not> (b \<le> a \<and> a < h)"
  shows "after_cut s b h (g_pmm_map s ! k) (set_slot k e' s)"
proof -
  note split = live_nth_split [OF arr k]
  have eq: "live (set_slot k e' s) = take k (live s) @ [e'] @ drop (Suc k) (live s)"
    using k arr by (simp add: set_slot_ok [OF arr k] upd_conv_take_nth_drop)
  note cc = cut_correct [OF subst [OF split, of wf_map, OF wf], of "[e']" b h, folded eq]
  have orig: "type_at (take k (live s) @ g_pmm_map s ! k # drop (Suc k) (live s)) a = type_at (live s) a" for a
    by (rule arg_cong [OF split [symmetric]])
  have "wf_map (live (set_slot k e' s))"
    using e' cut by (intro cc) auto
  moreover have type: "type_at (live (set_slot k e' s)) a =
      (if contains (g_pmm_map s ! k) a \<and> b \<le> a \<and> a < h then None else type_at (live s) a)" for a
    unfolding orig [symmetric] using e' cut by (intro cc) auto
  moreover have "stale_ok (set_slot k e' s) {b..<h}"
    by (rule stale_ok_mono [OF stale]) (auto simp: set_slot_ok(3) [OF arr k] type)
  moreover have "keeps_held (live s) b h (live (set_slot k e' s))"
    using keeps_held_cut [of "[e']" "g_pmm_map s ! k" b h "take k (live s)" "drop (Suc k) (live s)"] cut
    by (simp add: eq flip: split)
  ultimately show ?thesis
    by (simp add: after_cut_def set_slot_ok [OF arr k])
qed

lemma map_delete_after_cut:
  assumes arr: "arr_ok s" and k: "k < g_pmm_map_size s" and wf: "wf_map (live s)"
    and stale: "stale_ok s {b..<h}"
    and cover: "b \<le> lo (g_pmm_map s ! k)" "hi (g_pmm_map s ! k) \<le> h"
  shows "after_cut s b h (g_pmm_map s ! k) (map_delete k s)"
proof -
  note split = live_nth_split [OF arr k]
  have eq: "live (map_delete k s) = take k (live s) @ [] @ drop (Suc k) (live s)"
    by (simp add: map_delete_ok [OF arr k])
  note cc = cut_correct [OF subst [OF split, of wf_map, OF wf], of "[]" b h, folded eq]
  have orig: "type_at (take k (live s) @ g_pmm_map s ! k # drop (Suc k) (live s)) a = type_at (live s) a" for a
    by (rule arg_cong [OF split [symmetric]])
  have "wf_map (live (map_delete k s))"
    using cover by (intro cc) (auto simp: contains_def)
  moreover have type: "type_at (live (map_delete k s)) a =
      (if contains (g_pmm_map s ! k) a \<and> b \<le> a \<and> a < h then None else type_at (live s) a)" for a
    unfolding orig [symmetric] using cover by (intro cc) (auto simp: contains_def)
  moreover have "stale_ok (map_delete k s) {b..<h}"
  proof -
    have "live s \<noteq> []"
      using k arr by (metis length_live list.size(3) not_less_zero)
    then have "last (live s) \<in> set (live s)"
      by simp
    then have "contains (last (live s)) (lo (last (live s)))"
      using wf entry_ok_less wf_map_entry by (fastforce simp: contains_def)
    then have "type_at (live s) (lo (last (live s))) \<noteq> None"
      using \<open>last (live s) \<in> set (live s)\<close> by (auto simp: type_at_None_iff)
    then show ?thesis
      using stale by (auto simp: stale_ok_def map_delete_ok(3) [OF arr k] type)
  qed
  moreover have "keeps_held (live s) b h (live (map_delete k s))"
    using keeps_held_cut [of "[]" "g_pmm_map s ! k" b h "take k (live s)" "drop (Suc k) (live s)"] cover
    by (simp add: eq contains_def flip: split)
  ultimately show ?thesis
    by (simp add: after_cut_def map_delete_ok [OF arr k])
qed

text \<open>An outcome after a cut is an outcome of the whole call.\<close>

lemma outcome_after_cut:
  assumes "after_cut s b h e s1" and "set_outcome s1 b h (\<lambda>_. x) P s'"
  shows "set_outcome s b h (\<lambda>_. x) P s'"
  using assms keeps_held_trans [of "live s" b h "live s1" "live s'"]
  by (auto simp: set_outcome_def after_cut_def)

section \<open>Splitting an entry\<close>

text \<open>
  The region lies strictly inside an entry of another type: the recursive call inserts the tail,
  the rest of the loop finds nothing to do, and the insertion fills the gap.
\<close>

lemma split_outcome:
  assumes arr: "arr_ok s" and k: "unat i < g_pmm_map_size s"
    and cap: "Suc (g_pmm_map_size s) < PMM_MAP_MAX_ENTRIES"
    and wf: "wf_map (live s)" and stale: "stale_ok s {unat base..<region_end base len}"
    and r: "region_ok base len" "len \<noteq> 0"
    and pos: "lo (g_pmm_map s ! unat i) < unat base"
      "region_end base len < hi (g_pmm_map s ! unat i)"
    and over: "t > me_type (g_pmm_map s ! unat i) \<or> force"
  obtains s' where "pmm_map_set_loop base len t force i s = ok s'"
    and "set_outcome s (unat base) (region_end base len) (\<lambda>_. Some t) {} s'"
    and "g_pmm_map_size s' \<le> g_pmm_map_size s + 2"
proof -
  let ?e = "g_pmm_map s ! unat i"
  define b h where "b = unat base" and "h = region_end base len"
  define e' where "e' = ?e\<lparr>me_length := base - me_base ?e\<rparr>"
  define s1 where "s1 = set_slot (unat i) e' s"
  define tlen where "tlen = me_base ?e + me_length ?e - (base + len)"
  have L: "b < h"
    using r by (simp add: b_def h_def unat_gt_0)
  have hb: "b + unat len = h"
    by (simp add: b_def h_def)
  have ok: "entry_ok ?e"
    using wf slot_mem_live [OF arr k] by (rule wf_map_entry)
  have tail: "unat (base + len) = h" "unat (base + len) + unat tlen = hi ?e"
    using r pos unat_rest [OF ok r(1)] by (simp_all add: h_def unat_region_end tlen_def)
  then have tail3: "h + unat tlen = hi ?e"
    by simp
  have tok: "region_ok (base + len) tlen" "tlen \<noteq> 0"
    using ok tail pos by (auto simp: region_ok_def entry_ok_def h_def)
  have cut: "contains e' a \<longleftrightarrow> contains ?e a \<and> \<not> (b \<le> a \<and> a < hi ?e)" for a
    using cut_low [OF ok, of base] pos r by (auto simp: e'_def contains_def b_def)
  have "stale_ok s {b..<hi ?e}"
    by (rule stale_ok_mono [OF stale]) (use pos in \<open>auto simp: b_def h_def\<close>)
  then have ac: "after_cut s b (hi ?e) ?e s1"
    unfolding s1_def using cut_low [OF ok, of base] pos r
    by (intro set_slot_after_cut arr k wf cut) (auto simp: e'_def b_def)
  have free: "type_at (live s1) a = None" if "b \<le> a" "a < hi ?e" for a
    using ac that pos unfolding after_cut_def contains_def b_def by auto
  have s1: "arr_ok s1" "wf_map (live s1)" "stale_ok s1 {b..<hi ?e}" "g_pmm_map_size s1 = g_pmm_map_size s"
    using ac set_slot_ok(4) [OF arr k] by (simp_all add: after_cut_def s1_def)
  have clear1: "clear_of h (hi ?e) x" if "x \<in> set (live s1)" for x
    using clear_iff_free [OF s1(2), of h "hi ?e"] free pos L that by (auto simp: h_def)
  obtain s2 where s2: "pmm_map_set_insert (base + len) tlen (me_type ?e) s1 = ok s2"
    "set_outcome s1 h (hi ?e) (\<lambda>_. Some (me_type ?e)) ({b..<hi ?e} - {h..<hi ?e}) s2"
    "g_pmm_map_size s2 \<le> Suc (g_pmm_map_size s)"
    using insert_outcome [OF s1(1) _ s1(2,3) tok(1), of "me_type ?e"] clear1 cap s1(4)
    unfolding tail by (auto simp: tail3)
  have rec: "pmm_map_set_loop (base + len) tlen (me_type ?e) True 0 s1 = ok s2"
    using loop_clear [OF s1(1,2) tok(1), of 0] clear1 s2(1)
    by (simp add: tail(1) tail3)
  have sok2: "arr_ok s2" "wf_map (live s2)" "stale_ok s2 ({b..<hi ?e} - {h..<hi ?e})"
    using s2(2) by (simp_all add: set_outcome_def)
  have free2: "type_at (live s2) a = None" if "b \<le> a" "a < h" for a
    using s2(2) free that pos by (simp add: set_outcome_def h_def)
  have clear2: "clear_of b h x" if "x \<in> set (live s2)" for x
    using clear_iff_free [OF sok2(2) L] free2 that by auto
  obtain s' where s': "pmm_map_set_insert base len t s2 = ok s'"
    "set_outcome s2 b h (\<lambda>_. Some t) ({b..<hi ?e} - {h..<hi ?e} - {b..<h}) s'"
    "g_pmm_map_size s' \<le> Suc (g_pmm_map_size s2)"
    using insert_outcome [OF sok2(1) _ sok2(2,3) r(1), of t] clear2 s2(3) cap pos
    unfolding b_def [symmetric] by (auto simp: hb)
  have cont: "pmm_map_set_loop base len t force (i + 1) s2 = ok s'"
    using loop_clear [OF sok2(1,2) r(1)] clear2 s'(1)
    by (metis b_def h_def in_set_dropD)
  have "pmm_map_set_loop base len t force i s = ok s'"
    using k over rec cont iter_inside [OF ok r(1) pos, of t force]
    by (subst pmm_map_set_loop.simps)
      (simp add: Let_def s1_def [symmetric] e'_def [symmetric] tlen_def [symmetric])
  moreover have "set_outcome s b h (\<lambda>_. Some t) {} s'"
  proof -
    have none: "{b..<hi ?e} - {h..<hi ?e} - {b..<h} = {}"
      by auto
    have s'': "arr_ok s'" "wf_map (live s')" "stale_ok s' {}" "b < h \<longrightarrow> held (live s') b h"
      "keeps_held (live s2) b h (live s')"
      using s'(2) unfolding set_outcome_def none by blast+
    have "held (live s2) x y" if xy: "x < y" "y \<le> b \<or> h \<le> x" "held (live s) x y" for x y
    proof (cases "y \<le> b \<or> hi ?e \<le> x")
      case True
      then have "held (live s1) x y"
        using ac xy by (auto simp: after_cut_def keeps_held_def)
      then show ?thesis
        using s2(2) True xy(1) L by (auto simp: set_outcome_def keeps_held_def)
    next
      case False
      obtain f where f: "f \<in> set (live s)" "lo f \<le> x" "y \<le> hi f"
        using xy(3) by (auto simp: held_def)
      have "f = ?e"
        using wf_map_unique [OF wf f(1) slot_mem_live [OF arr k], of x] f xy(1,2) False pos(1) L
        by (auto simp: contains_def b_def)
      have "held (live s2) h (hi ?e)"
        using s2(2) pos(2) by (simp add: set_outcome_def h_def)
      then show ?thesis
        by (rule held_mono) (use f \<open>f = ?e\<close> xy(2) False in auto)
    qed
    then have keeps: "keeps_held (live s) b h (live s')"
      using s''(5) by (simp add: keeps_held_def)
    have "type_at (live s') a = (if b \<le> a \<and> a < h then Some t else type_at (live s) a)" for a
    proof -
      have "type_at (live s2) a = type_at (live s) a" if "\<not> (b \<le> a \<and> a < h)"
      proof (cases "h \<le> a \<and> a < hi ?e")
        case True
        then have "type_at (live s) a = Some (me_type ?e)"
          using pos by (intro type_at_mem [OF wf slot_mem_live [OF arr k]])
            (auto simp: contains_def h_def)
        then show ?thesis
          using s2(2) True by (simp add: set_outcome_def)
      next
        case False
        then show ?thesis
          using s2(2) ac that pos by (auto simp: set_outcome_def after_cut_def h_def)
      qed
      then show ?thesis
        using s'(2) by (auto simp: set_outcome_def)
    qed
    with s'' keeps show ?thesis
      by (simp add: set_outcome_def b_def h_def)
  qed
  ultimately show thesis
    using s'(3) s2(3) by (intro that [of s']) (auto simp: b_def h_def)
qed

section \<open>The forced loop\<close>

text \<open>The entries that remain after one iteration.\<close>

lemma set_slot_rest:
  assumes "arr_ok s" and "k < g_pmm_map_size s"
  shows "set (take (Suc k) (live (set_slot k e' s))) = insert e' (set (take k (live s)))"
    and "drop (Suc k) (live (set_slot k e' s)) = drop (Suc k) (live s)"
proof -
  have "take (Suc k) ((live s)[k := e']) = take k (live s) @ [e']"
    using assms by (simp add: take_Suc_conv_app_nth)
  then show "set (take (Suc k) (live (set_slot k e' s))) = insert e' (set (take k (live s)))"
    by (simp add: set_slot_ok(2) [OF assms])
  show "drop (Suc k) (live (set_slot k e' s)) = drop (Suc k) (live s)"
    by (simp add: set_slot_ok(2) [OF assms])
qed

lemma map_delete_rest:
  assumes "arr_ok s" and "k < g_pmm_map_size s"
  shows "take k (live (map_delete k s)) = take k (live s)"
    and "drop k (live (map_delete k s)) = drop (Suc k) (live s)"
  using assms by (simp_all add: map_delete_ok(2) [OF assms])

lemma set_take_Suc_index:
  fixes i :: u64
  assumes "arr_ok s" and "unat i < g_pmm_map_size s"
  shows "set (take (unat (i + 1)) (live s)) = insert (g_pmm_map s ! unat i) (set (take (unat i) (live s)))"
  using assms by (simp add: unat_Suc_index [OF assms] take_Suc_conv_app_nth slot_live)

text \<open>How a region that is on no edge of an entry can meet it.\<close>

lemma region_position:
  assumes "entry_ok e" and "b < h" and "\<not> on_edge b h e"
  obtains (clear) "clear_of b h e"
    | (inside) "lo e < b" "h < hi e"
    | (start) "lo e < b" "b < hi e" "hi e \<le> h"
    | (tail) "b \<le> lo e" "lo e < h" "h < hi e"
    | (equal) "b = lo e" "h = hi e"
    | (cover) "b < lo e" "hi e < h"
  using assms entry_ok_less [OF assms(1)] unfolding clear_of_def on_edge_def
  by (meson linorder_neqE_nat not_less le_less_trans order_le_less)

lemma forced_loop:
  assumes "arr_ok s" and "wf_map (live s)" and "stale_ok s {unat base..<region_end base len}"
    and "region_ok base len" and "len \<noteq> 0" and "Suc (g_pmm_map_size s) < PMM_MAP_MAX_ENTRIES"
    and "\<forall>e\<in>set (take (unat i) (live s)). clear_of (unat base) (region_end base len) e"
    and "\<forall>e\<in>set (drop (unat i) (live s)). \<not> on_edge (unat base) (region_end base len) e"
    and "\<forall>e\<in>set (drop (unat i) (live s)).
      clear_of (unat base) (region_end base len) e \<or> t > me_type e \<or> force"
  shows "\<exists>s'. pmm_map_set_loop base len t force i s = ok s' \<and>
    set_outcome s (unat base) (region_end base len) (\<lambda>_. Some t) {} s' \<and>
    g_pmm_map_size s' \<le> g_pmm_map_size s + 2"
  using assms
proof (induction "g_pmm_map_size s - unat i" arbitrary: i s)
  case 0
  then have all: "\<And>e. e \<in> set (live s) \<Longrightarrow> clear_of (unat base) (region_end base len) e"
    by simp
  obtain s' where "pmm_map_set_insert base len t s = ok s'"
    "set_outcome s (unat base) (region_end base len) (\<lambda>_. Some t)
      ({unat base..<region_end base len} - {unat base..<region_end base len}) s'"
    "g_pmm_map_size s' \<le> Suc (g_pmm_map_size s)"
    using insert_outcome [OF 0(2) _ 0(3,4,5), of t] all 0(7) by auto
  then show ?case
    using 0(1) by (subst pmm_map_set_loop.simps) auto
next
  case (Suc n)
  let ?b = "unat base" and ?h = "region_end base len"
  let ?e = "g_pmm_map s ! unat i"
  note arr = Suc.prems(1) and wf = Suc.prems(2) and stale = Suc.prems(3) and r = Suc.prems(4,5)
  have k: "unat i < g_pmm_map_size s"
    using Suc.hyps(2) by simp
  have ok: "entry_ok ?e"
    using wf slot_mem_live [OF arr k] by (rule wf_map_entry)
  have L: "?b < ?h"
    using r by (simp add: unat_gt_0)
  note drop = set_drop_Suc_index [OF arr k] and take = set_take_Suc_index [OF arr k]
    and next_i = unat_Suc_index [OF arr k]
  have rest: "\<forall>e\<in>set (drop (unat (i + 1)) (live s)). \<not> on_edge ?b ?h e"
    and edge: "\<not> on_edge ?b ?h ?e"
    using Suc.prems(8) by (simp_all add: drop)
  have rest_over: "\<forall>e\<in>set (drop (unat (i + 1)) (live s)). clear_of ?b ?h e \<or> t > me_type e \<or> force"
    and over: "clear_of ?b ?h ?e \<or> t > me_type ?e \<or> force"
    using Suc.prems(9) by (simp_all add: drop)
  have cutcase: ?case
    if ac: "after_cut s ?b ?h ?e s1"
      and step: "pmm_map_set_iter base len t force i s = Iter_next base len i' s1"
      and size: "n = g_pmm_map_size s1 - unat i'" "g_pmm_map_size s1 \<le> g_pmm_map_size s"
      and pre: "\<forall>e\<in>set (take (unat i') (live s1)). clear_of ?b ?h e"
      and post: "\<forall>e\<in>set (drop (unat i') (live s1)). \<not> on_edge ?b ?h e"
      and post': "\<forall>e\<in>set (drop (unat i') (live s1)). clear_of ?b ?h e \<or> t > me_type e \<or> force"
    for s1 i'
  proof -
    have "arr_ok s1" "wf_map (live s1)" "stale_ok s1 {?b..<?h}"
      using ac by (simp_all add: after_cut_def)
    with Suc.hyps(1) [OF size(1) _ _ _ r _ pre post post'] size(2) Suc.prems(6) obtain s'
      where "pmm_map_set_loop base len t force i' s1 = ok s'"
        "set_outcome s1 ?b ?h (\<lambda>_. Some t) {} s'" "g_pmm_map_size s' \<le> g_pmm_map_size s1 + 2"
      by auto
    then show ?case
      using k step size(2) outcome_after_cut [OF ac] by (subst pmm_map_set_loop.simps) auto
  qed
  from ok L edge show ?case
  proof (cases rule: region_position)
    case clear
    have step: "pmm_map_set_iter base len t force i s = Iter_next base len (i + 1) s"
      by (rule iter_clear [OF ok r(1) clear])
    have "\<forall>e\<in>set (take (unat (i + 1)) (live s)). clear_of ?b ?h e"
      using Suc.prems(7) clear by (simp add: take)
    moreover have "n = g_pmm_map_size s - unat (i + 1)"
      using Suc.hyps(2) next_i by simp
    ultimately show ?thesis
      using Suc.hyps(1) [of s "i + 1"] Suc.prems(1-6) rest rest_over k step
      by (subst pmm_map_set_loop.simps) simp
  next
    case inside
    then have "t > me_type ?e \<or> force"
      using over L by (auto simp: clear_of_def)
    then show ?thesis
      by (rule split_outcome [OF arr k Suc.prems(6) wf stale r inside]) auto
  next
    case start
    let ?e' = "?e\<lparr>me_length := base - me_base ?e\<rparr>"
    note e' = cut_low [OF ok start(1,2)]
    show ?thesis
    proof (rule cutcase)
      show "after_cut s ?b ?h ?e (set_slot (unat i) ?e' s)"
        using e' start by (intro set_slot_after_cut arr k wf stale) (auto simp: contains_def)
      show "pmm_map_set_iter base len t force i s =
          Iter_next base len (i + 1) (set_slot (unat i) ?e' s)"
        using iter_start [OF arr k ok r(1) start] over
          start L entry_ok_less [OF ok] by (auto simp: Let_def clear_of_def)
    qed (use e' Suc.hyps(2) Suc.prems(7) rest rest_over next_i set_slot_ok(4) [OF arr k] in
        \<open>auto simp: set_slot_rest [OF arr k] clear_of_def\<close>)
  next
    case tail
    let ?e' = "?e\<lparr>me_length := me_base ?e + me_length ?e - (base + len), me_base := base + len\<rparr>"
    note e' = cut_high [OF ok r(1) tail(2,3)]
    show ?thesis
    proof (rule cutcase)
      show "after_cut s ?b ?h ?e (set_slot (unat i) ?e' s)"
        using e' tail by (intro set_slot_after_cut arr k wf stale) (auto simp: contains_def)
      show "pmm_map_set_iter base len t force i s =
          Iter_next base len (i + 1) (set_slot (unat i) ?e' s)"
        using iter_end [OF arr k ok r(1) tail] over
          tail L entry_ok_less [OF ok] by (auto simp: Let_def clear_of_def)
    qed (use e' Suc.hyps(2) Suc.prems(7) rest rest_over next_i set_slot_ok(4) [OF arr k] in
        \<open>auto simp: set_slot_rest [OF arr k] clear_of_def\<close>)
  next
    case equal
    show ?thesis
    proof (rule cutcase)
      show "after_cut s ?b ?h ?e (map_delete (unat i) s)"
        using equal by (intro map_delete_after_cut arr k wf stale) auto
      show "pmm_map_set_iter base len t force i s = Iter_next base len i (map_delete (unat i) s)"
        using iter_equal [OF ok r(1) equal] over equal L by (auto simp: clear_of_def)
    qed (use Suc.hyps(2) Suc.prems(7) rest rest_over next_i map_delete_ok(4) [OF arr k] in
        \<open>auto simp: map_delete_rest [OF arr k]\<close>)
  next
    case cover
    show ?thesis
    proof (rule cutcase)
      show "after_cut s ?b ?h ?e (map_delete (unat i) s)"
        using cover by (intro map_delete_after_cut arr k wf stale) auto
      show "pmm_map_set_iter base len t force i s = Iter_next base len i (map_delete (unat i) s)"
        using iter_cover [OF ok r(1) cover] over cover L entry_ok_less [OF ok]
        by (auto simp: Let_def clear_of_def)
    qed (use Suc.hyps(2) Suc.prems(7) rest rest_over next_i map_delete_ok(4) [OF arr k] in
        \<open>auto simp: map_delete_rest [OF arr k]\<close>)
  qed
qed

end
