(* ===== verification/PmmAlloc.thy ===== *)
theory PmmAlloc
  imports PmmForce
begin

text \<open>
  The allocators on top of \<open>pmm_map_set\<close>. \<open>region_map\<close> states what they rely on: overriding the
  type of a region that one entry holds succeeds while there is room for two more entries and
  changes nothing else. It is interpreted on \<open>pmm_map_set\<close>; the allocators' properties follow
  from its laws and from the search loops, which pick the first entry that fits.
\<close>

section \<open>Building states\<close>

definition state_of :: "pmm_map_entry list \<Rightarrow> pmm_state" where
  "state_of xs = \<lparr>g_pmm_map = xs @ replicate (PMM_MAP_MAX_ENTRIES - length xs) zero_entry,
     g_pmm_map_size = length xs\<rparr>"

lemma live_state_of [simp]: "live (state_of xs) = xs"
  by (simp add: live_def state_of_def)

lemma size_state_of [simp]: "g_pmm_map_size (state_of xs) = length xs"
  by (simp add: state_of_def)

lemma pmm_inv_state_of:
  assumes "wf_map xs" and "length xs \<le> PMM_MAP_MAX_ENTRIES" shows "pmm_inv (state_of xs)"
  using assms
  by (auto simp: pmm_inv_def arr_ok_def stale_ok_def stale_def state_of_def live_def lo_def
      zero_entry_def)

lemma pmm_init_state_of: "pmm_init = state_of []"
  by (simp add: pmm_init_def state_of_def)

section \<open>Overriding a region\<close>

lemma held_not_on_edge:
  assumes wf: "wf_map xs" and held: "held xs b h" and "b < h" and e: "e \<in> set xs"
  shows "\<not> on_edge b h e"
proof -
  obtain x where x: "x \<in> set xs" "lo x \<le> b" "h \<le> hi x"
    using held by (auto simp: held_def)
  have "e = x \<or> hi e \<le> lo x \<or> hi x \<le> lo e"
    using wf x(1) e by (induction xs) auto
  then show ?thesis
    using x(2,3) \<open>b < h\<close> entry_ok_less [OF wf_map_entry [OF wf e]]
    by (auto simp: on_edge_def)
qed

lemma forced_set_outcome:
  assumes inv: "pmm_inv s" and r: "region_ok base len" "len \<noteq> 0"
    and cap: "g_pmm_map_size s + 2 \<le> PMM_MAP_MAX_ENTRIES"
    and edge: "\<forall>e\<in>set (live s). \<not> on_edge (unat base) (region_end base len) e"
  obtains s' where "pmm_map_set base len t True s = ok s'"
    and "set_outcome s (unat base) (region_end base len) (\<lambda>_. Some t) {} s'"
    and "g_pmm_map_size s' \<le> g_pmm_map_size s + 2"
proof -
  have "stale_ok s {unat base..<region_end base len}"
    using inv by (auto simp: pmm_inv_def stale_ok_def)
  then show thesis
    using forced_loop [of s base len 0 t True] inv r cap edge that
    by (auto simp: pmm_map_set_def pmm_inv_def)
qed

locale region_map =
  fixes override :: "u64 \<Rightarrow> u64 \<Rightarrow> 't \<Rightarrow> 's \<Rightarrow> 's res"
    and inv :: "'s \<Rightarrow> bool"
    and type_of :: "'s \<Rightarrow> nat \<Rightarrow> 't option"
    and holds :: "'s \<Rightarrow> nat \<Rightarrow> nat \<Rightarrow> bool"
    and room :: "'s \<Rightarrow> nat \<Rightarrow> bool"
  assumes override_ok:
    "inv s \<Longrightarrow> room s (Suc n) \<Longrightarrow> region_ok base len \<Longrightarrow> len \<noteq> 0 \<Longrightarrow>
      holds s (unat base) (region_end base len) \<Longrightarrow>
      \<exists>s'. override base len t s = ok s' \<and> inv s' \<and> room s' n \<and>
        holds s' (unat base) (region_end base len) \<and>
        (\<forall>a. type_of s' a =
          (if unat base \<le> a \<and> a < region_end base len then Some t else type_of s a))"
begin

lemma override_type:
  assumes "inv s" "room s (Suc n)" "region_ok base len" "len \<noteq> 0"
    "holds s (unat base) (region_end base len)" "override base len t s = ok s'"
  shows "inv s'" and "room s' n" and "holds s' (unat base) (region_end base len)"
    and "type_of s' a =
      (if unat base \<le> a \<and> a < region_end base len then Some t else type_of s a)"
  using override_ok [OF assms(1-5), of t] assms(6) by auto

text \<open>Overriding a region and then giving it its old type back restores the abstract map.\<close>

lemma override_restore:
  assumes inv: "inv s" and room: "room s (Suc (Suc n))" and r: "region_ok base len" "len \<noteq> 0"
    and held: "holds s (unat base) (region_end base len)"
    and old: "\<And>a. unat base \<le> a \<Longrightarrow> a < region_end base len \<Longrightarrow> type_of s a = Some u"
    and set: "override base len t s = ok s1"
  shows "\<exists>s2. override base len u s1 = ok s2 \<and> inv s2 \<and> room s2 n \<and> type_of s2 = type_of s"
proof -
  note s1 = override_type [OF inv room r held set]
  obtain s2 where s2: "override base len u s1 = ok s2" "inv s2" "room s2 n"
    "\<And>a. type_of s2 a =
      (if unat base \<le> a \<and> a < region_end base len then Some u else type_of s1 a)"
    using override_ok [OF s1(1,2) r s1(3), of u] by auto
  have "type_of s2 a = type_of s a" for a
    using s2(4) s1(4) old by simp
  then show ?thesis
    using s2 by blast
qed

end

definition pmm_room :: "pmm_state \<Rightarrow> nat \<Rightarrow> bool" where
  "pmm_room s n \<longleftrightarrow> g_pmm_map_size s + 2 * n \<le> PMM_MAP_MAX_ENTRIES"

interpretation rm: region_map "\<lambda>base len t. pmm_map_set base len t True" pmm_inv
    "\<lambda>s. type_at (live s)" "\<lambda>s. held (live s)" pmm_room
proof (unfold_locales, goal_cases)
  case (1 s n base len t)
  have L: "unat base < region_end base len"
    using 1(4) by (simp add: unat_gt_0)
  have "\<forall>e\<in>set (live s). \<not> on_edge (unat base) (region_end base len) e"
    using held_not_on_edge [OF _ 1(5) L] 1(1) by (simp add: pmm_inv_def)
  then obtain s' where s': "pmm_map_set base len t True s = ok s'"
    "set_outcome s (unat base) (region_end base len) (\<lambda>_. Some t) {} s'"
    "g_pmm_map_size s' \<le> g_pmm_map_size s + 2"
    using forced_set_outcome [OF 1(1,3,4)] 1(2) by (auto simp: pmm_room_def)
  show ?case
    using s' 1(2) L by (auto simp: set_outcome_def pmm_inv_def pmm_room_def)
qed

section \<open>The search loops\<close>

text \<open>The guards of the loop of \<open>pmm_alloc_ext\<close>, and the first entry that passes them.\<close>

definition alloc_fit :: "u64 \<Rightarrow> u64 \<Rightarrow> pmm_map_entry \<Rightarrow> bool" where
  "alloc_fit len alignment e \<longleftrightarrow>
     me_type e = PMM_MAP_TYPE_FREE \<and>
     \<not> MATH_CEIL (me_base e) alignment \<ge> me_base e + me_length e \<and>
     \<not> me_length e - (MATH_CEIL (me_base e) alignment - me_base e) < len"

lemma drop_live_step:
  assumes "arr_ok s" and "i < g_pmm_map_size s"
  shows "drop i (live s) = g_pmm_map s ! i # drop (Suc i) (live s)"
  using assms by (metis Cons_nth_drop_Suc length_live slot_live)

lemma pmm_alloc_ext_loop_find:
  assumes "arr_ok s" and "alignment \<noteq> 0"
  shows "pmm_alloc_ext_loop i len alignment t s =
    (case List.find (alloc_fit len alignment) (drop i (live s)) of
       None \<Rightarrow> fail (Panic ''out of memory'')
     | Some e \<Rightarrow> res_bind (pmm_map_set (MATH_CEIL (me_base e) alignment) len t True s)
                  (\<lambda>s'. ok (MATH_CEIL (me_base e) alignment, s')))"
  using assms
proof (induction i len alignment t s rule: pmm_alloc_ext_loop.induct)
  case (1 i len alignment t s)
  show ?case
  proof (cases "i < g_pmm_map_size s")
    case True
    show ?thesis
      by (subst pmm_alloc_ext_loop.simps)
        (use True "1.IH" "1.prems" drop_live_step [OF "1.prems"(1) True] in
          \<open>auto simp: Let_def alloc_fit_def [of len alignment "g_pmm_map s ! i"]\<close>)
  next
    case False
    then show ?thesis
      using "1.prems" by (subst pmm_alloc_ext_loop.simps) simp
  qed
qed

definition alloc_at_fit :: "u64 \<Rightarrow> u64 \<Rightarrow> pmm_map_entry \<Rightarrow> bool" where
  "alloc_at_fit address len e \<longleftrightarrow>
     me_type e = PMM_MAP_TYPE_FREE \<and>
     \<not> (me_base e > address \<or> me_base e + me_length e < address + len)"

lemma pmm_alloc_at_loop_find:
  assumes "arr_ok s"
  shows "pmm_alloc_at_loop i address len t s =
    (case List.find (alloc_at_fit address len) (drop i (live s)) of
       None \<Rightarrow> ok (False, s)
     | Some e \<Rightarrow> res_bind (pmm_map_set address len t True s) (\<lambda>s'. ok (True, s')))"
  using assms
proof (induction i address len t s rule: pmm_alloc_at_loop.induct)
  case (1 i address len t s)
  show ?case
  proof (cases "i < g_pmm_map_size s")
    case True
    show ?thesis
      by (subst pmm_alloc_at_loop.simps)
        (use True "1.IH" "1.prems" drop_live_step [OF "1.prems"(1) True] in
          \<open>auto simp: Let_def alloc_at_fit_def [of address len "g_pmm_map s ! i"]\<close>)
  next
    case False
    then show ?thesis
      using "1.prems" by (subst pmm_alloc_at_loop.simps) simp
  qed
qed

section \<open>What a fit is\<close>

lemma alloc_fit_iff:
  assumes ok: "entry_ok e" and al: "0 < unat alignment" "lo e + unat alignment \<le> 2 ^ 64"
    and len: "len \<noteq> 0"
  shows "alloc_fit len alignment e \<longleftrightarrow>
    me_type e = PMM_MAP_TYPE_FREE \<and> unat (MATH_CEIL (me_base e) alignment) + unat len \<le> hi e"
proof -
  let ?c = "MATH_CEIL (me_base e) alignment"
  have c: "lo e \<le> unat ?c"
    using MATH_CEIL_ge [OF al(1)] al(2) by (simp add: lo_def)
  have L: "0 < unat len"
    using len by (simp add: unat_gt_0)
  have end_cmp: "?c \<ge> me_base e + me_length e \<longleftrightarrow> hi e \<le> unat ?c"
    by (simp add: word_le_nat_alt entry_end [OF ok])
  have "unat (me_length e - (?c - me_base e)) = hi e - unat ?c" if "unat ?c < hi e"
  proof -
    have "unat (?c - me_base e) = unat ?c - lo e"
      using c by (subst unat_diff_nowrap) (simp_all add: lo_def)
    then show ?thesis
      using that c by (subst unat_diff_nowrap) (auto simp: hi_def lo_def)
  qed
  then show ?thesis
    using L by (auto simp: alloc_fit_def end_cmp word_less_nat_alt not_le not_less)
qed

lemma MATH_CEIL_least:
  assumes "0 < unat p" and "unat v + unat p \<le> 2 ^ 64" and "unat p dvd k" and "unat v \<le> k"
  shows "unat (MATH_CEIL v p) \<le> k"
proof -
  obtain q where "k = q * unat p"
    using assms(3) by (metis dvd_def mult.commute)
  then show ?thesis
    using ceil_div_least [OF assms(1), of "unat v" q] assms(4) unat_MATH_CEIL [OF assms(1,2)]
    by simp
qed

text \<open>The first element found, with what is known of the ones before it.\<close>

lemma find_Some_split:
  "List.find P xs = Some x \<Longrightarrow> \<exists>ys zs. xs = ys @ x # zs \<and> P x \<and> (\<forall>y\<in>set ys. \<not> P y)"
proof (induction xs)
  case (Cons y xs)
  show ?case
  proof (cases "P y")
    case True
    then show ?thesis
      using Cons.prems by (intro exI [of _ "[]"] exI [of _ xs]) simp
  next
    case False
    then obtain ys zs where "xs = ys @ x # zs" "P x" "\<forall>y\<in>set ys. \<not> P y"
      using Cons by auto
    then show ?thesis
      using False by (intro exI [of _ "y # ys"] exI [of _ zs]) simp
  qed
qed simp

text \<open>\<open>fits_at\<close> is the specification: the addresses from \<open>k\<close> lie in one free entry.\<close>

definition fits_at :: "pmm_state \<Rightarrow> nat \<Rightarrow> nat \<Rightarrow> bool" where
  "fits_at s k n \<longleftrightarrow> (\<exists>e\<in>set (live s). me_type e = PMM_MAP_TYPE_FREE \<and> lo e \<le> k \<and> k + n \<le> hi e)"

lemma fits_at_free:
  "wf_map (live s) \<Longrightarrow> fits_at s k n \<Longrightarrow> k \<le> a \<Longrightarrow> a < k + n \<Longrightarrow>
    type_at (live s) a = Some PMM_MAP_TYPE_FREE"
  by (auto simp: fits_at_def contains_def dest: type_at_mem [where a = a])

lemma fits_at_held: "fits_at s k n \<Longrightarrow> held (live s) k (k + n)"
  by (auto simp: fits_at_def held_def)

lemma find_alloc_fit:
  assumes wf: "wf_map (live s)" and al: "0 < unat alignment" and len: "len \<noteq> 0"
    and room: "\<And>e. e \<in> set (live s) \<Longrightarrow> lo e + unat alignment \<le> 2 ^ 64"
  shows "List.find (alloc_fit len alignment) (live s) = None \<longleftrightarrow>
      (\<forall>k. unat alignment dvd k \<longrightarrow> \<not> fits_at s k (unat len))"
    and "List.find (alloc_fit len alignment) (live s) = Some e \<Longrightarrow>
      unat alignment dvd unat (MATH_CEIL (me_base e) alignment) \<and>
      fits_at s (unat (MATH_CEIL (me_base e) alignment)) (unat len) \<and>
      (\<forall>k. unat alignment dvd k \<and> fits_at s k (unat len) \<longrightarrow>
        unat (MATH_CEIL (me_base e) alignment) \<le> k)"
proof -
  have fit: "alloc_fit len alignment x \<longleftrightarrow> me_type x = PMM_MAP_TYPE_FREE \<and>
      unat (MATH_CEIL (me_base x) alignment) + unat len \<le> hi x" if "x \<in> set (live s)" for x
    using that by (intro alloc_fit_iff wf_map_entry [OF wf] al room len)
  have ge: "lo x \<le> unat (MATH_CEIL (me_base x) alignment)"
    and dvd: "unat alignment dvd unat (MATH_CEIL (me_base x) alignment)"
    and least: "unat alignment dvd k \<Longrightarrow> lo x \<le> k \<Longrightarrow> unat (MATH_CEIL (me_base x) alignment) \<le> k"
    if "x \<in> set (live s)" for x k
    using room [OF that] MATH_CEIL_ge [OF al] MATH_CEIL_dvd [OF al] MATH_CEIL_least [OF al]
    by (simp_all add: lo_def)
  show "List.find (alloc_fit len alignment) (live s) = None \<longleftrightarrow>
      (\<forall>k. unat alignment dvd k \<longrightarrow> \<not> fits_at s k (unat len))"
  proof
    assume none: "List.find (alloc_fit len alignment) (live s) = None"
    show "\<forall>k. unat alignment dvd k \<longrightarrow> \<not> fits_at s k (unat len)"
    proof (intro allI impI notI)
      fix k assume k: "unat alignment dvd k" and "fits_at s k (unat len)"
      then obtain x where x: "x \<in> set (live s)" "me_type x = PMM_MAP_TYPE_FREE" "lo x \<le> k"
        "k + unat len \<le> hi x"
        by (auto simp: fits_at_def)
      then have "alloc_fit len alignment x"
        using fit [OF x(1)] least [OF x(1) k x(3)] by simp
      then show False
        using none x(1) by (auto simp: find_None_iff)
    qed
  next
    assume "\<forall>k. unat alignment dvd k \<longrightarrow> \<not> fits_at s k (unat len)"
    then show "List.find (alloc_fit len alignment) (live s) = None"
      using fit ge dvd by (auto simp: find_None_iff fits_at_def)
  qed
  show "unat alignment dvd unat (MATH_CEIL (me_base e) alignment) \<and>
      fits_at s (unat (MATH_CEIL (me_base e) alignment)) (unat len) \<and>
      (\<forall>k. unat alignment dvd k \<and> fits_at s k (unat len) \<longrightarrow>
        unat (MATH_CEIL (me_base e) alignment) \<le> k)"
    if found: "List.find (alloc_fit len alignment) (live s) = Some e"
  proof -
    obtain ys zs where xs: "live s = ys @ e # zs" and e: "alloc_fit len alignment e"
      and before: "\<forall>y\<in>set ys. \<not> alloc_fit len alignment y"
      using find_Some_split [OF found] by blast
    have mem: "e \<in> set (live s)"
      by (simp add: xs)
    have "unat (MATH_CEIL (me_base e) alignment) \<le> k"
      if k: "unat alignment dvd k" "fits_at s k (unat len)" for k
    proof -
      obtain x where x: "x \<in> set (live s)" "me_type x = PMM_MAP_TYPE_FREE" "lo x \<le> k"
        "k + unat len \<le> hi x"
        using k(2) by (auto simp: fits_at_def)
      have "alloc_fit len alignment x"
        using fit [OF x(1)] least [OF x(1) k(1) x(3)] x(2,4) by simp
      then have "x = e \<or> x \<in> set zs"
        using x(1) before by (auto simp: xs)
      moreover have "hi e \<le> lo x" if "x \<in> set zs"
        using wf that by (simp add: xs wf_map_append)
      moreover have "unat (MATH_CEIL (me_base e) alignment) < hi e"
      proof -
        have "0 < unat len"
          using len by (simp add: unat_gt_0)
        then show ?thesis
          using fit [OF mem] e by linarith
      qed
      ultimately show ?thesis
        using least [OF mem k(1)] x(3) by auto
    qed
    then show ?thesis
      using dvd [OF mem] ge [OF mem] fit [OF mem] e mem by (auto simp: fits_at_def)
  qed
qed

end
