(* ===== verification/PmmAdd.thy ===== *)
theory PmmAdd
  imports PmmForce
begin

text \<open>
  The unforced call of \<open>pmm_map_set\<close>, which \<open>pmm_map_add\<close> makes for the boot loader's memory map:
  an entry of the same or a higher type keeps its addresses, and the region fills what is left.
  Proved for a region that meets at most one entry, in every position but the two edges
  (\<open>on_edge\<close>), which the code leaves unhandled.
\<close>

section \<open>What the unforced call means for one address\<close>

definition merge_type :: "pmm_map_type \<Rightarrow> bool \<Rightarrow> pmm_map_type option \<Rightarrow> pmm_map_type" where
  "merge_type t force old =
     (case old of None \<Rightarrow> t | Some u \<Rightarrow> if t > u \<or> force then t else u)"

lemma merge_type_unforced: "merge_type t False old = (case old of None \<Rightarrow> t | Some u \<Rightarrow> max t u)"
  by (auto simp: merge_type_def max_def split: option.split)

definition merged :: "pmm_state \<Rightarrow> nat \<Rightarrow> nat \<Rightarrow> pmm_map_type \<Rightarrow> bool \<Rightarrow> pmm_state \<Rightarrow> bool" where
  "merged s b h t force s' \<longleftrightarrow>
     pmm_inv s' \<and> (\<forall>a. type_at (live s') a =
       (if b \<le> a \<and> a < h then Some (merge_type t force (type_at (live s) a))
        else type_at (live s) a))"

section \<open>Skipping the entries before the one that is met\<close>

lemma loop_skip:
  assumes "arr_ok s" and "wf_map (live s)" and "region_ok base len" and "k \<le> g_pmm_map_size s" and "unat i \<le> k"
    and "\<And>j. j < k \<Longrightarrow> clear_of (unat base) (region_end base len) (g_pmm_map s ! j)"
  shows "pmm_map_set_loop base len t force i s = pmm_map_set_loop base len t force (of_nat k) s"
  using assms(5)
proof (induction "k - unat i" arbitrary: i)
  case 0
  then have "of_nat k = i"
    by simp
  then show ?case
    by simp
next
  case (Suc n)
  have i: "unat i < g_pmm_map_size s" "unat i < k"
    using Suc.hyps(2) assms(4) by simp_all
  have step: "pmm_map_set_iter base len t force i s = Iter_next base len (i + 1) s"
    using assms(3) assms(6) [OF i(2)] wf_map_entry [OF assms(2) slot_mem_live [OF assms(1) i(1)]]
    by (intro iter_clear)
  have "pmm_map_set_loop base len t force (i + 1) s = pmm_map_set_loop base len t force (of_nat k) s"
    using Suc.hyps(2) i by (intro Suc.hyps(1)) (simp_all add: unat_Suc_index [OF assms(1) i(1)])
  then show ?case
    using i(1) step by (subst pmm_map_set_loop.simps) simp
qed

section \<open>A region clear of the whole map\<close>

lemma set_clear:
  assumes inv: "pmm_inv s" and cap: "g_pmm_map_size s < PMM_MAP_MAX_ENTRIES"
    and r: "region_ok base len"
    and clear: "\<And>e. e \<in> set (live s) \<Longrightarrow> clear_of (unat base) (region_end base len) e"
  shows "\<exists>s'. pmm_map_set_loop base len t force 0 s = ok s' \<and> pmm_inv s' \<and>
    (\<forall>a. type_at (live s') a =
      (if unat base \<le> a \<and> a < region_end base len then Some t else type_at (live s) a)) \<and>
    g_pmm_map_size s' \<le> Suc (g_pmm_map_size s)"
proof -
  have s: "arr_ok s" "wf_map (live s)" "stale_ok s {}"
    using inv by (simp_all add: pmm_inv_def)
  obtain s' where "pmm_map_set_insert base len t s = ok s'"
    "set_outcome s (unat base) (region_end base len) (\<lambda>_. Some t) ({} - {unat base..<region_end base len}) s'"
    "g_pmm_map_size s' \<le> Suc (g_pmm_map_size s)"
    using insert_outcome [OF s(1) cap s(2,3) r, of t] clear by auto
  then show ?thesis
    using loop_clear [OF s(1,2) r, of 0 t force] clear
    by (auto simp: set_outcome_def pmm_inv_def intro!: exI [of _ s'])
qed

lemma merge_free:
  assumes "\<And>a. b \<le> a \<Longrightarrow> a < h \<Longrightarrow> type_at xs a = None"
  shows "(if b \<le> a \<and> a < h then Some t else type_at xs a) =
    (if b \<le> a \<and> a < h then Some (merge_type t f (type_at xs a)) else type_at xs a)"
  using assms by (simp add: merge_type_def)

section \<open>A region that meets one entry of the same or a higher type\<close>

lemma clear_sub:
  assumes "clear_of b h e" and "b \<le> b'" and "h' \<le> h" shows "clear_of b' h' e"
  using assms by (auto simp: clear_of_def)

lemma kept_entry:
  assumes inv: "pmm_inv s" and cap: "g_pmm_map_size s + 2 \<le> PMM_MAP_MAX_ENTRIES"
    and r: "region_ok base len" "len \<noteq> 0"
    and k: "k < g_pmm_map_size s" and xs: "live s = ys @ e # zs" "k = length ys"
    and others: "\<And>x. x \<in> set ys \<union> set zs \<Longrightarrow> clear_of (unat base) (region_end base len) x"
    and edge: "\<not> on_edge (unat base) (region_end base len) e"
    and met: "\<not> clear_of (unat base) (region_end base len) e" and kept: "t \<le> me_type e"
  shows "\<exists>s'. pmm_map_set_loop base len t False (of_nat k) s = ok s' \<and> pmm_inv s' \<and>
    (\<forall>a. type_at (live s') a =
      (if unat base \<le> a \<and> a < region_end base len \<and> \<not> contains e a then Some t
       else type_at (live s) a))"
proof -
  let ?b = "unat base" and ?h = "region_end base len" and ?i = "of_nat k :: u64"
  have arr: "arr_ok s" and wf: "wf_map (live s)"
    using inv by (simp_all add: pmm_inv_def)
  have i: "unat ?i = k"
    using k size_less_word [OF arr] by (simp add: unat_of_nat_64)
  have slot: "g_pmm_map s ! k = e"
    using k xs by (simp add: slot_live)
  have ok: "entry_ok e"
    using wf xs by (simp add: wf_map_append)
  have L: "?b < ?h"
    using r by (simp add: unat_gt_0)
  have not_over: "\<not> me_type e < t"
    using kept by simp
  have e: "entry_ok (g_pmm_map s ! unat ?i)"
    using ok slot i by simp
  note loop = pmm_map_set_loop.simps [of base len t False ?i s]
  have same: "type_at (live s) a = (if ?b \<le> a \<and> a < ?h \<and> \<not> contains e a then Some t
      else type_at (live s) a)" if "lo e \<le> ?b" "?h \<le> hi e" for a
    using that by (auto simp: contains_def)
  note ends = entry_end [OF ok] unat_region_end [OF r(1)]
  have clear': "clear_of b' h' x" if "x \<in> set (live s)" "?b \<le> b'" "h' \<le> ?h" "h' \<le> lo e \<or> hi e \<le> b'"
    for x b' h'
    using others [of x] that by (auto simp: xs clear_of_def)
  have rest: "unat (base + len - (me_base e + me_length e)) = ?h - hi e" if "hi e \<le> ?h"
    using that by (subst unat_diff_nowrap) (simp_all add: ends)
  have front: "unat (me_base e - base) = lo e - ?b" if "?b \<le> lo e"
    using that by (subst unat_diff_nowrap) (simp_all add: lo_def)
  from ok L edge show ?thesis
  proof (cases rule: region_position)
    case clear
    with met show ?thesis by simp
  next
    case inside
    then have "pmm_map_set_loop base len t False ?i s = ok s"
      using k not_over iter_inside [OF e r(1), of t False] by (simp add: loop i slot)
    then show ?thesis
      using inv same inside by auto
  next
    case equal
    then have "pmm_map_set_loop base len t False ?i s = ok s"
      using k not_over iter_equal [OF e r(1), of t False] by (simp add: loop i slot)
    then show ?thesis
      using inv same equal by auto
  next
    case start
    let ?b' = "me_base e + me_length e" and ?l' = "base + len - (me_base e + me_length e)"
    have r': "unat ?b' = hi e" "hi e + unat ?l' = ?h" "region_ok ?b' ?l'"
      using rest start r by (simp_all add: ends region_ok_def)
    obtain s' where s': "pmm_map_set_loop ?b' ?l' t False 0 s = ok s'" "pmm_inv s'"
      "\<And>a. type_at (live s') a = (if hi e \<le> a \<and> a < ?h then Some t else type_at (live s) a)"
      using set_clear [OF inv _ r'(3), of t False] cap clear' start r' by (auto simp: r')
    have "pmm_map_set_loop base len t False ?i s = pmm_map_set_loop ?b' ?l' t False (?i + 1) s"
      using k not_over iter_start [OF arr _ e r(1), of t False] start by (simp add: loop i slot)
    also have "\<dots> = pmm_map_set_loop ?b' ?l' t False 0 s"
      using loop_clear [OF arr wf r'(3), of "?i + 1" t False] loop_clear [OF arr wf r'(3), of 0 t False]
        clear' [OF in_set_dropD, of _ _ "hi e" ?h] clear' [of _ "hi e" ?h] start
      by (simp add: r')
    finally show ?thesis
      using s' start by (auto simp: contains_def intro!: exI [of _ s'])
  next
    case tail
    let ?l' = "me_base e - base"
    have r': "?b + unat ?l' = lo e" "region_ok base ?l'"
      using front tail r by (simp_all add: region_ok_def)
    obtain s' where s': "pmm_map_set_loop base ?l' t False 0 s = ok s'" "pmm_inv s'"
      "\<And>a. type_at (live s') a = (if ?b \<le> a \<and> a < lo e then Some t else type_at (live s) a)"
      using set_clear [OF inv _ r'(2), of t False] cap clear' tail r' by (auto simp: r')
    have "pmm_map_set_loop base len t False ?i s = pmm_map_set_loop base ?l' t False (?i + 1) s"
      using k not_over iter_end [OF arr _ e r(1), of t False] tail by (simp add: loop i slot)
    also have "\<dots> = pmm_map_set_loop base ?l' t False 0 s"
      using loop_clear [OF arr wf r'(2), of "?i + 1" t False] loop_clear [OF arr wf r'(2), of 0 t False]
        clear' [OF in_set_dropD, of _ _ ?b "lo e"] clear' [of _ ?b "lo e"] tail
      by (simp add: r')
    finally show ?thesis
      using s' tail by (auto simp: contains_def intro!: exI [of _ s'])
  next
    case cover
    let ?l1 = "me_base e - base" and ?b2 = "me_base e + me_length e"
      and ?l2 = "base + len - (me_base e + me_length e)"
    have r1: "?b + unat ?l1 = lo e" "region_ok base ?l1"
      using front cover r entry_ok_less [OF ok] ok by (simp_all add: region_ok_def entry_ok_def)
    have r2: "unat ?b2 = hi e" "hi e + unat ?l2 = ?h" "region_ok ?b2 ?l2"
      using rest cover r by (simp_all add: ends region_ok_def)
    obtain s1 where s1: "pmm_map_set_loop base ?l1 t False 0 s = ok s1" "pmm_inv s1"
      "\<And>a. type_at (live s1) a = (if ?b \<le> a \<and> a < lo e then Some t else type_at (live s) a)"
      "g_pmm_map_size s1 \<le> Suc (g_pmm_map_size s)"
      using set_clear [OF inv _ r1(2), of t False] cap clear' cover entry_ok_less [OF ok]
      by (auto simp: r1)
    have "type_at (live s1) a = None" if "hi e \<le> a" "a < ?h" for a
    proof -
      have "type_at (live s) a = None"
        using clear' [of _ "hi e" ?h] that cover entry_ok_less [OF ok]
        by (intro type_at_NoneI) (auto dest: clear_of_not_contains)
      then show ?thesis
        using s1(3) that entry_ok_less [OF ok] by auto
    qed
    then have clear2: "clear_of (hi e) ?h x" if "x \<in> set (live s1)" for x
      using clear_iff_free [of "live s1" "hi e" ?h] s1(2) cover that by (auto simp: pmm_inv_def)
    obtain s' where s': "pmm_map_set_loop ?b2 ?l2 t False 0 s1 = ok s'" "pmm_inv s'"
      "\<And>a. type_at (live s') a = (if hi e \<le> a \<and> a < ?h then Some t else type_at (live s1) a)"
      using set_clear [OF s1(2) _ r2(3), of t False] cap clear2 s1(4) by (auto simp: r2)
    have "pmm_map_set_loop base len t False ?i s = ok s'"
      using k not_over iter_cover [OF e r(1), of t False] cover s1(1) s'(1)
      by (simp add: loop i slot)
    then show ?thesis
      using s' s1(3) cover entry_ok_less [OF ok] by (auto simp: contains_def intro!: exI [of _ s'])
  qed
qed

section \<open>A region that meets at most one entry\<close>

definition meets_one :: "pmm_state \<Rightarrow> nat \<Rightarrow> nat \<Rightarrow> bool" where
  "meets_one s b h \<longleftrightarrow> (\<exists>ys e zs. live s = ys @ e # zs \<and>
     (\<forall>x\<in>set ys \<union> set zs. clear_of b h x) \<and> \<not> clear_of b h e \<and> \<not> on_edge b h e)"

definition meets_none :: "pmm_state \<Rightarrow> nat \<Rightarrow> nat \<Rightarrow> bool" where
  "meets_none s b h \<longleftrightarrow> (\<forall>e\<in>set (live s). clear_of b h e)"

lemma set_meets_none:
  assumes inv: "pmm_inv s" and cap: "g_pmm_map_size s < PMM_MAP_MAX_ENTRIES"
    and r: "region_ok base len" "len \<noteq> 0" and none: "meets_none s (unat base) (region_end base len)"
  shows "\<exists>s'. pmm_map_set base len t force s = ok s' \<and>
    merged s (unat base) (region_end base len) t force s' \<and>
    g_pmm_map_size s' \<le> Suc (g_pmm_map_size s)"
proof -
  obtain s' where s': "pmm_map_set_loop base len t force 0 s = ok s'" "pmm_inv s'"
    "\<And>a. type_at (live s') a =
      (if unat base \<le> a \<and> a < region_end base len then Some t else type_at (live s) a)"
    "g_pmm_map_size s' \<le> Suc (g_pmm_map_size s)"
    using set_clear [OF inv cap r(1), of t force] none by (auto simp: meets_none_def)
  have "type_at (live s) a = None" if "unat base \<le> a" "a < region_end base len" for a
    using none that by (intro type_at_NoneI) (auto simp: meets_none_def dest: clear_of_not_contains)
  then show ?thesis
    using s' by (auto simp: pmm_map_set_def merged_def merge_type_def)
qed

lemma set_meets_one:
  assumes inv: "pmm_inv s" and cap: "g_pmm_map_size s + 2 \<le> PMM_MAP_MAX_ENTRIES"
    and r: "region_ok base len" "len \<noteq> 0" and one: "meets_one s (unat base) (region_end base len)"
  shows "\<exists>s'. pmm_map_set base len t force s = ok s' \<and>
    merged s (unat base) (region_end base len) t force s'"
proof -
  let ?b = "unat base" and ?h = "region_end base len"
  obtain ys e zs where xs: "live s = ys @ e # zs"
    and others: "\<forall>x\<in>set ys \<union> set zs. clear_of ?b ?h x"
    and met: "\<not> clear_of ?b ?h e" and edge: "\<not> on_edge ?b ?h e"
    using one by (auto simp: meets_one_def)
  have arr: "arr_ok s" and wf: "wf_map (live s)"
    using inv by (simp_all add: pmm_inv_def)
  have size: "g_pmm_map_size s = length ys + Suc (length zs)"
    using xs arr by (metis length_Cons length_append length_live)
  have L: "?b < ?h"
    using r by (simp add: unat_gt_0)
  have only: "type_at (live s) a = (if contains e a then Some (me_type e) else None)"
    if "?b \<le> a" "a < ?h" for a
  proof (cases "contains e a")
    case True
    then show ?thesis
      using type_at_mem [OF wf] by (simp add: xs)
  next
    case False
    then show ?thesis
      using others that by (auto simp: xs intro!: type_at_NoneI dest: clear_of_not_contains)
  qed
  have no_edge: "\<not> on_edge ?b ?h x" if "clear_of ?b ?h x" "x \<in> set (live s)" for x
    using that L entry_ok_less [OF wf_map_entry [OF wf that(2)]]
    by (auto simp: on_edge_def clear_of_def)
  show ?thesis
  proof (cases "me_type e < t \<or> force")
    case True
    have edges: "\<forall>x\<in>set (live s). \<not> on_edge ?b ?h x"
      using no_edge others edge by (auto simp: xs)
    have over: "\<forall>x\<in>set (live s). clear_of ?b ?h x \<or> t > me_type x \<or> force"
      using others True by (auto simp: xs)
    have stale: "stale_ok s {?b..<?h}"
      using inv by (auto simp: pmm_inv_def stale_ok_def)
    obtain s' where "pmm_map_set base len t force s = ok s'"
      "set_outcome s ?b ?h (\<lambda>_. Some t) {} s'"
      using forced_loop [OF arr wf stale r, of 0 t force] cap edges over by (auto simp: pmm_map_set_def)
    then show ?thesis
      using only True
      by (auto simp: merged_def set_outcome_def pmm_inv_def merge_type_def intro!: exI [of _ s'])
  next
    case False
    have before: "clear_of ?b ?h (g_pmm_map s ! j)" if "j < length ys" for j
      using that others size by (simp add: slot_live xs nth_append)
    have "pmm_map_set base len t force s = pmm_map_set_loop base len t False (of_nat (length ys)) s"
      using loop_skip [OF arr wf r(1), of "length ys" 0 t False] before False size
      by (simp add: pmm_map_set_def xs)
    then obtain s' where "pmm_map_set base len t force s = ok s'" "pmm_inv s'"
      "\<forall>a. type_at (live s') a =
        (if ?b \<le> a \<and> a < ?h \<and> \<not> contains e a then Some t else type_at (live s) a)"
      using kept_entry [OF inv cap r _ xs refl _ edge met, of t] others False size
      by (auto simp: not_less)
    then show ?thesis
      using only False by (auto simp: merged_def merge_type_def intro!: exI [of _ s'])
  qed
qed

end
