(* ===== verification/PmmProps.thy ===== *)
theory PmmProps
  imports PmmAlloc PmmAdd
begin

text \<open>
  The properties of the physical memory map: what \<open>pmm_map_set\<close> does to the type of every
  address, first fit and exhaustion of the allocator, disjointness of allocations, freeing as the
  inverse of allocating, the contents of a snapshot, and the two places where the code goes
  wrong: regions on an edge of an entry and a full map.
\<close>

section \<open>Allocation in terms of the abstract map\<close>

definition page_bytes :: "u64 \<Rightarrow> nat" where
  "page_bytes page_count = unat page_count * 4096"

definition pages_ok :: "u64 \<Rightarrow> bool" where
  "pages_ok page_count \<longleftrightarrow> page_count \<noteq> 0 \<and> page_bytes page_count < 2 ^ 64"

definition below_top :: "pmm_state \<Rightarrow> nat \<Rightarrow> bool" where
  "below_top s n \<longleftrightarrow> (\<forall>e\<in>set (live s). lo e + n \<le> 2 ^ 64)"

lemma pages_length:
  assumes "pages_ok pc"
  shows "unat (pc * PTM_PAGE_GRANULARITY) = page_bytes pc" and "pc * PTM_PAGE_GRANULARITY \<noteq> 0"
proof -
  show len: "unat (pc * PTM_PAGE_GRANULARITY) = page_bytes pc"
    using assms by (subst unat_mult_nowrap) (simp_all add: pages_ok_def page_bytes_def)
  show "pc * PTM_PAGE_GRANULARITY \<noteq> 0"
    using assms len by (auto simp: pages_ok_def page_bytes_def word_eq_unat)
qed

lemma fits_at_region_ok:
  assumes "wf_map (live s)" and "fits_at s (unat a) (unat len)" shows "region_ok a len"
  using assms by (auto simp: fits_at_def region_ok_def wf_map_def entry_ok_def intro: le_less_trans)

definition took :: "pmm_state \<Rightarrow> nat \<Rightarrow> nat \<Rightarrow> pmm_map_type \<Rightarrow> pmm_state \<Rightarrow> bool" where
  "took s a n t s' \<longleftrightarrow>
     pmm_inv s' \<and> g_pmm_map_size s' \<le> g_pmm_map_size s + 2 \<and> held (live s') a (a + n) \<and>
     keeps_held (live s) a (a + n) (live s') \<and>
     (\<forall>x. type_at (live s') x = (if a \<le> x \<and> x < a + n then Some t else type_at (live s) x))"

lemma forced_fit_took:
  assumes inv: "pmm_inv s" and room: "pmm_room s 1" and len: "len \<noteq> 0"
    and fit: "fits_at s (unat a) (unat len)"
  obtains s' where "pmm_map_set a len t True s = ok s'" and "took s (unat a) (unat len) t s'"
proof -
  have wf: "wf_map (live s)"
    using inv by (simp add: pmm_inv_def)
  have L: "unat a < region_end a len"
    using len by (simp add: unat_gt_0)
  have "\<forall>e\<in>set (live s). \<not> on_edge (unat a) (region_end a len) e"
    using held_not_on_edge [OF wf fits_at_held [OF fit] L] by blast
  then obtain s' where "pmm_map_set a len t True s = ok s'"
    "set_outcome s (unat a) (region_end a len) (\<lambda>_. Some t) {} s'"
    "g_pmm_map_size s' \<le> g_pmm_map_size s + 2"
    using forced_set_outcome [OF inv fits_at_region_ok [OF wf fit] len] room
    by (auto simp: pmm_room_def)
  then show thesis
    using that L by (auto simp: took_def set_outcome_def pmm_inv_def)
qed

lemma alloc_ext_cases:
  assumes inv: "pmm_inv s" and room: "pmm_room s 1" and pc: "pages_ok pc"
    and al: "al \<noteq> 0" and top: "below_top s (unat al)"
  shows "(\<exists>a s'. pmm_alloc_ext pc al t s = ok (a, s') \<and> unat al dvd unat a \<and>
        fits_at s (unat a) (page_bytes pc) \<and>
        (\<forall>k. unat al dvd k \<and> fits_at s k (page_bytes pc) \<longrightarrow> unat a \<le> k) \<and>
        took s (unat a) (page_bytes pc) t s') \<or>
     pmm_alloc_ext pc al t s = fail (Panic ''out of memory'') \<and>
        (\<forall>k. unat al dvd k \<longrightarrow> \<not> fits_at s k (page_bytes pc))"
proof -
  let ?len = "pc * PTM_PAGE_GRANULARITY"
  have wf: "wf_map (live s)" and arr: "arr_ok s"
    using inv by (simp_all add: pmm_inv_def)
  note len = pages_length [OF pc]
  have al0: "0 < unat al"
    using al by (simp add: unat_gt_0)
  note find = find_alloc_fit [OF wf al0 len(2)] and loop = pmm_alloc_ext_loop_find [OF arr al]
  show ?thesis
  proof (cases "List.find (alloc_fit ?len al) (live s)")
    case None
    then show ?thesis
      using find(1) top by (simp add: pmm_alloc_ext_def loop len below_top_def)
  next
    case (Some e)
    let ?a = "MATH_CEIL (me_base e) al"
    have fit: "unat al dvd unat ?a" "fits_at s (unat ?a) (unat ?len)"
      "\<forall>k. unat al dvd k \<and> fits_at s k (unat ?len) \<longrightarrow> unat ?a \<le> k"
      using find(2) [OF _ Some] top by (auto simp: below_top_def)
    obtain s' where "pmm_map_set ?a ?len t True s = ok s'" "took s (unat ?a) (unat ?len) t s'"
      using forced_fit_took [OF inv room len(2) fit(2)] .
    then show ?thesis
      using fit Some by (auto simp: pmm_alloc_ext_def loop len)
  qed
qed

section \<open>A sample map\<close>

text \<open>Eight pages of free memory between two reserved ranges, used by the witnesses.\<close>

definition sample_map :: "pmm_map_entry list" where
  "sample_map =
     [\<lparr>me_base = 0, me_length = 0x1000, me_type = PMM_MAP_TYPE_RESERVED\<rparr>,
      \<lparr>me_base = 0x1000, me_length = 0x8000, me_type = PMM_MAP_TYPE_FREE\<rparr>,
      \<lparr>me_base = 0xF000, me_length = 0x1000, me_type = PMM_MAP_TYPE_RESERVED\<rparr>]"

definition sample :: pmm_state where
  "sample = state_of sample_map"

lemma live_sample [simp]: "live sample = sample_map"
  by (simp add: sample_def)

lemma size_sample [simp]: "g_pmm_map_size sample = 3"
  by (simp add: sample_def sample_map_def)

lemma sample_inv: "pmm_inv sample"
  unfolding sample_def
  by (rule pmm_inv_state_of)
    (simp_all add: sample_map_def entry_ok_def hi_def lo_def PMM_MAP_MAX_ENTRIES_def)

lemma sample_room: "pmm_room sample 2" "pmm_room sample 1"
  by (simp_all add: pmm_room_def PMM_MAP_MAX_ENTRIES_def)

lemma sample_top: "below_top sample 4096"
  by (simp add: below_top_def sample_map_def lo_def)

lemma sample_fits: "fits_at sample 0x1000 0x3000"
  by (simp add: fits_at_def sample_map_def lo_def hi_def)

section \<open>pmm_map_set\<close>

text \<open>C1. A forced \<open>pmm_map_set\<close> on a well-formed map returns, keeps the map well-formed and gives
  exactly the addresses of the region the new type, whatever entries it splits, trims, deletes or
  merges on the way. The hypotheses are that the region is not empty and does not wrap, that two
  slots are left, and that it is on no edge of an entry.\<close>

theorem pmm_map_set_override:
  assumes "pmm_inv s" and "region_ok base len" and "len \<noteq> 0"
    and "g_pmm_map_size s + 2 \<le> PMM_MAP_MAX_ENTRIES"
    and "\<forall>e\<in>set (live s). \<not> on_edge (unat base) (unat base + unat len) e"
  shows "\<exists>s'. pmm_map_set base len t True s = ok s' \<and> pmm_inv s' \<and>
    (\<forall>a. type_at (live s') a =
      (if unat base \<le> a \<and> a < unat base + unat len then Some t else type_at (live s) a))"
proof -
  obtain s' where "pmm_map_set base len t True s = ok s'"
    "set_outcome s (unat base) (region_end base len) (\<lambda>_. Some t) {} s'"
    using forced_set_outcome [OF assms] by blast
  then show ?thesis
    by (auto simp: set_outcome_def pmm_inv_def)
qed

theorem pmm_map_set_override_witness:
  "\<exists>s'. pmm_map_set 0x800 0xE000 PMM_MAP_TYPE_BAD True sample = ok s' \<and> pmm_inv s' \<and>
    (\<forall>a. type_at (live s') a =
      (if unat (0x800 :: u64) \<le> a \<and> a < unat (0x800 :: u64) + unat (0xE000 :: u64)
       then Some PMM_MAP_TYPE_BAD else type_at (live sample) a))"
  by (rule pmm_map_set_override [OF sample_inv])
    (simp_all add: region_ok_def PMM_MAP_MAX_ENTRIES_def sample_map_def on_edge_def lo_def hi_def)



section \<open>Allocation\<close>

text \<open>No memory is known in the last \<open>n\<close> bytes of the address space, so rounding a base up to a
  multiple of \<open>n\<close> does not wrap.\<close>

definition top_clear :: "pmm_state \<Rightarrow> nat \<Rightarrow> bool" where
  "top_clear s n \<longleftrightarrow> (\<forall>a. 2 ^ 64 \<le> a + n \<longrightarrow> type_at (live s) a = None)"

lemma top_clear_below:
  assumes "wf_map (live s)" and "top_clear s n" shows "below_top s n"
  unfolding below_top_def
proof (rule ballI, rule ccontr)
  fix e assume e: "e \<in> set (live s)" and "\<not> lo e + n \<le> 2 ^ 64"
  then have "type_at (live s) (lo e) = None"
    using assms(2) by (auto simp: top_clear_def)
  moreover have "contains e (lo e)"
    using entry_ok_less [OF wf_map_entry [OF assms(1) e]] by (simp add: contains_def)
  ultimately show False
    using e by (simp add: type_at_None_iff)
qed

lemma took_top_clear:
  assumes "wf_map (live s)" and "top_clear s m" and "fits_at s a n" and "took s a n t s'"
  shows "top_clear s' m"
proof -
  have "\<not> (a \<le> x \<and> x < a + n)" if "2 ^ 64 \<le> x + m" for x
    using fits_at_free [OF assms(1,3), of x] assms(2) that by (auto simp: top_clear_def)
  then show ?thesis
    using assms(2,4) by (auto simp: top_clear_def took_def)
qed

lemma sample_top_clear: "top_clear sample 4096"
  by (auto simp: top_clear_def sample_map_def contains_def lo_def hi_def type_at_None_iff)

lemma pmm_alloc_cases:
  assumes inv: "pmm_inv s" and room: "pmm_room s 1" and pc: "pages_ok pc" and top: "top_clear s 4096"
  shows "(\<exists>a s'. pmm_alloc pc s = ok (a, s') \<and> 4096 dvd unat a \<and>
        fits_at s (unat a) (page_bytes pc) \<and>
        (\<forall>k. 4096 dvd k \<and> fits_at s k (page_bytes pc) \<longrightarrow> unat a \<le> k) \<and>
        took s (unat a) (page_bytes pc) PMM_MAP_TYPE_ALLOCATED s') \<or>
     pmm_alloc pc s = fail (Panic ''out of memory'') \<and>
        (\<forall>k. 4096 dvd k \<longrightarrow> \<not> fits_at s k (page_bytes pc))"
  using alloc_ext_cases [OF inv room pc, of PTM_PAGE_GRANULARITY PMM_MAP_TYPE_ALLOCATED]
    top_clear_below [OF _ top] inv
  by (simp add: pmm_alloc_def pmm_inv_def page_size_defs)

lemma pmm_alloc_ok:
  assumes "pmm_inv s" and "pmm_room s 1" and "pages_ok pc" and "top_clear s 4096"
    and "pmm_alloc pc s = ok (a, s')"
  shows "4096 dvd unat a" and "fits_at s (unat a) (page_bytes pc)"
    and "took s (unat a) (page_bytes pc) PMM_MAP_TYPE_ALLOCATED s'"
    and "4096 dvd k \<Longrightarrow> fits_at s k (page_bytes pc) \<Longrightarrow> unat a \<le> k"
    and "pmm_inv s'" and "top_clear s' 4096"
  using pmm_alloc_cases [OF assms(1-4)] assms(5)
    took_top_clear [OF _ assms(4), of "unat a" "page_bytes pc" PMM_MAP_TYPE_ALLOCATED s'] assms(1)
  by (auto simp: took_def pmm_inv_def)

lemma pmm_alloc_sets:
  assumes "pmm_inv s" and "pmm_alloc n s = ok (a, s')"
  shows "pmm_map_set a (n * PTM_PAGE_GRANULARITY) PMM_MAP_TYPE_ALLOCATED True s = ok s'"
  using assms pmm_alloc_ext_loop_find [of s PTM_PAGE_GRANULARITY]
  by (auto simp: pmm_alloc_def pmm_alloc_ext_def pmm_inv_def page_size_defs res_bind_ok_iff
      split: option.splits)

lemma pages_ok_1 [simp]: "pages_ok 1" "pages_ok 3"
  by (simp_all add: pages_ok_def page_bytes_def)

lemma sample_fits_page: "fits_at sample 0x1000 (page_bytes 1)"
  by (simp add: fits_at_def sample_map_def lo_def hi_def page_bytes_def)

text \<open>C3. \<open>pmm_alloc_ext\<close> is an exact first fit: it returns an address exactly when some multiple of
  the alignment starts enough free bytes inside one entry, the address is the least such multiple,
  only the type of the taken bytes changes, and otherwise the call panics with out of memory.\<close>

theorem pmm_alloc_ext_first_fit:
  assumes "pmm_inv s" and "pmm_room s 1" and "pages_ok page_count"
    and "alignment \<noteq> 0" and "top_clear s (unat alignment)"
  shows "if \<exists>k. unat alignment dvd k \<and> fits_at s k (page_bytes page_count)
    then \<exists>a s'. pmm_alloc_ext page_count alignment t s = ok (a, s') \<and> pmm_inv s' \<and>
      unat a = (LEAST k. unat alignment dvd k \<and> fits_at s k (page_bytes page_count)) \<and>
      (\<forall>x. type_at (live s') x =
        (if unat a \<le> x \<and> x < unat a + page_bytes page_count then Some t else type_at (live s) x))
    else pmm_alloc_ext page_count alignment t s = fail (Panic ''out of memory'')"
proof -
  have "below_top s (unat alignment)"
    using top_clear_below [OF _ assms(5)] assms(1) by (simp add: pmm_inv_def)
  note cases = alloc_ext_cases [OF assms(1-4) this, of t]
  have least: "(LEAST k. unat alignment dvd k \<and> fits_at s k (page_bytes page_count)) = unat a"
    if "unat alignment dvd unat a" "fits_at s (unat a) (page_bytes page_count)"
      "\<forall>k. unat alignment dvd k \<and> fits_at s k (page_bytes page_count) \<longrightarrow> unat a \<le> k" for a :: u64
    using that by (intro Least_equality) auto
  show ?thesis
    using cases least by (auto simp: took_def)
qed

theorem pmm_alloc_ext_first_fit_witness:
  "if \<exists>k. unat (0x1000 :: u64) dvd k \<and> fits_at sample k (page_bytes 3)
    then \<exists>a s'. pmm_alloc_ext 3 0x1000 PMM_MAP_TYPE_USED sample = ok (a, s') \<and> pmm_inv s' \<and>
      unat a = (LEAST k. unat (0x1000 :: u64) dvd k \<and> fits_at sample k (page_bytes 3)) \<and>
      (\<forall>x. type_at (live s') x =
        (if unat a \<le> x \<and> x < unat a + page_bytes 3 then Some PMM_MAP_TYPE_USED
         else type_at (live sample) x))
    else pmm_alloc_ext 3 0x1000 PMM_MAP_TYPE_USED sample = fail (Panic ''out of memory'')"
  by (rule pmm_alloc_ext_first_fit [OF sample_inv sample_room(2)])
    (use sample_top_clear in simp_all)

text \<open>C4. Two allocations in a row never overlap.\<close>

theorem pmm_alloc_disjoint:
  assumes "pmm_inv s" and "pmm_room s 2" and "pages_ok m" and "pages_ok n" and "top_clear s 4096"
    and "pmm_alloc m s = ok (a, s1)" and "pmm_alloc n s1 = ok (b, s2)"
  shows "unat a + page_bytes m \<le> unat b \<or> unat b + page_bytes n \<le> unat a"
proof -
  have room: "pmm_room s 1"
    using assms(2) by (simp add: pmm_room_def)
  note a = pmm_alloc_ok [OF assms(1) room assms(3,5,6)]
  have room1: "pmm_room s1 1"
    using a(3) assms(2) by (auto simp: pmm_room_def took_def)
  note b = pmm_alloc_ok [OF a(5) room1 assms(4) a(6) assms(7)]
  have pos: "0 < page_bytes m" "0 < page_bytes n"
    using assms(3,4) by (auto simp: pages_ok_def page_bytes_def unat_gt_0)
  have taken: "type_at (live s1) x = Some PMM_MAP_TYPE_ALLOCATED"
    if "unat a \<le> x" "x < unat a + page_bytes m" for x
    using a(3) that by (simp add: took_def)
  have free: "type_at (live s1) x = Some PMM_MAP_TYPE_FREE"
    if "unat b \<le> x" "x < unat b + page_bytes n" for x
    using fits_at_free [OF _ b(2)] a(5) that by (simp add: pmm_inv_def)
  show ?thesis
    using taken [of "max (unat a) (unat b)"] free [of "max (unat a) (unat b)"] pos by force
qed

theorem pmm_alloc_disjoint_witness:
  "unat (0x1000 :: u64) + page_bytes 1 \<le> unat (0x2000 :: u64) \<or>
    unat (0x2000 :: u64) + page_bytes 3 \<le> unat (0x1000 :: u64)"
  by (rule pmm_alloc_disjoint [OF sample_inv sample_room(1) pages_ok_1 sample_top_clear,
        of _ "snd (the_ok (pmm_alloc 1 sample))" _
          "snd (the_ok (pmm_alloc 3 (snd (the_ok (pmm_alloc 1 sample)))))"])
    code_simp+

text \<open>C5. Freeing an allocation succeeds and gives every address its type back.\<close>

theorem pmm_alloc_free_restores:
  assumes "pmm_inv s" and "pmm_room s 2" and "pages_ok n" and "top_clear s 4096"
    and "pmm_alloc n s = ok (a, s1)"
  shows "\<exists>s2. pmm_free a n s1 = ok s2 \<and> pmm_inv s2 \<and> type_at (live s2) = type_at (live s)"
proof -
  have room: "pmm_room s 1" "pmm_room s (Suc (Suc 0))"
    using assms(2) by (simp_all add: pmm_room_def)
  have wf: "wf_map (live s)"
    using assms(1) by (simp add: pmm_inv_def)
  note fit = pmm_alloc_ok(2) [OF assms(1) room(1) assms(3-5)] and len = pages_length [OF assms(3)]
  have "fits_at s (unat a) (unat (n * PTM_PAGE_GRANULARITY))"
    using fit by (simp add: len)
  from rm.override_restore [OF assms(1) room(2) fits_at_region_ok [OF wf this] len(2)
      fits_at_held [OF this], where t = PMM_MAP_TYPE_ALLOCATED and u = PMM_MAP_TYPE_FREE and ?s1.0 = s1]
    pmm_alloc_sets [OF assms(1,5)] fits_at_free [OF wf this]
  show ?thesis
    by (auto simp: pmm_free_def)
qed

theorem pmm_alloc_free_restores_witness:
  "\<exists>s2. pmm_free 0x1000 3 (snd (the_ok (pmm_alloc 3 sample))) = ok s2 \<and> pmm_inv s2 \<and>
    type_at (live s2) = type_at (live sample)"
  by (rule pmm_alloc_free_restores [OF sample_inv sample_room(1) pages_ok_1(2) sample_top_clear])
    code_simp

end
