(* ===== verification/PmmLimits.thy ===== *)
theory PmmLimits
  imports PmmProps
begin

text \<open>
  The remaining properties of the memory map: allocation at a fixed address, the snapshot, and the
  places where the code does not do what it means to: a region on an edge of an entry, and a map
  whose slots are all in use.
\<close>

section \<open>Allocation at an address\<close>

lemma alloc_at_fit_iff:
  assumes "region_ok address len" and "entry_ok e"
  shows "alloc_at_fit address len e \<longleftrightarrow>
    me_type e = PMM_MAP_TYPE_FREE \<and> lo e \<le> unat address \<and> region_end address len \<le> hi e"
  using unat_region_end [OF assms(1)] entry_end [OF assms(2)]
  by (auto simp: alloc_at_fit_def word_nat lo_def not_le not_less)

text \<open>C6. \<open>pmm_alloc_at\<close> succeeds exactly when the pages lie in one free entry; then they get
  the type, and otherwise the map does not change.\<close>

theorem pmm_alloc_at_exact:
  assumes "pmm_inv s" and "pmm_room s 1" and "pages_ok n"
    and "unat address + page_bytes n < 2 ^ 64"
  shows "\<exists>s'. pmm_alloc_at address n t s = ok (fits_at s (unat address) (page_bytes n), s') \<and>
    (if fits_at s (unat address) (page_bytes n)
     then pmm_inv s' \<and> (\<forall>x. type_at (live s') x =
       (if unat address \<le> x \<and> x < unat address + page_bytes n then Some t
        else type_at (live s) x))
     else s' = s)"
proof -
  let ?len = "n * PTM_PAGE_GRANULARITY"
  have wf: "wf_map (live s)" and arr: "arr_ok s"
    using assms(1) by (simp_all add: pmm_inv_def)
  note len = pages_length [OF assms(3)]
  have r: "region_ok address ?len"
    using assms(4) by (simp add: region_ok_def len)
  have fit: "alloc_at_fit address ?len e \<longleftrightarrow> me_type e = PMM_MAP_TYPE_FREE \<and>
      lo e \<le> unat address \<and> unat address + page_bytes n \<le> hi e" if "e \<in> set (live s)" for e
    using alloc_at_fit_iff [OF r wf_map_entry [OF wf that]] by (simp add: len)
  note loop = pmm_alloc_at_loop_find [OF arr, of 0 address ?len t]
  show ?thesis
  proof (cases "List.find (alloc_at_fit address ?len) (live s)")
    case None
    then have "\<not> fits_at s (unat address) (page_bytes n)"
      using fit by (auto simp: fits_at_def find_None_iff)
    then show ?thesis
      using None by (simp add: pmm_alloc_at_def loop)
  next
    case (Some e)
    then have "e \<in> set (live s)" "alloc_at_fit address ?len e"
      using find_Some_split [OF Some] by auto
    then have fits: "fits_at s (unat address) (page_bytes n)"
      using fit by (auto simp: fits_at_def)
    obtain s' where "pmm_map_set address ?len t True s = ok s'"
      "took s (unat address) (page_bytes n) t s'"
      using forced_fit_took [OF assms(1,2) len(2), of address t] fits by (auto simp: len)
    then show ?thesis
      using Some fits by (auto simp: pmm_alloc_at_def loop took_def)
  qed
qed

theorem pmm_alloc_at_exact_witness:
  "\<exists>s'. pmm_alloc_at 0x3000 3 PMM_MAP_TYPE_USED sample =
      ok (fits_at sample (unat (0x3000 :: u64)) (page_bytes 3), s') \<and>
    (if fits_at sample (unat (0x3000 :: u64)) (page_bytes 3)
     then pmm_inv s' \<and> (\<forall>x. type_at (live s') x =
       (if unat (0x3000 :: u64) \<le> x \<and> x < unat (0x3000 :: u64) + page_bytes 3
        then Some PMM_MAP_TYPE_USED else type_at (live sample) x))
     else s' = sample)"
  by (rule pmm_alloc_at_exact [OF sample_inv sample_room(2) pages_ok_1(2)])
    (simp add: page_bytes_def)

section \<open>Snapshots\<close>

definition snapshot_bytes :: "pmm_state \<Rightarrow> u64" where
  "snapshot_bytes s =
     MATH_ALIGN_UP (sizeof_pmm_map_entry * of_nat (g_pmm_map_size s + 2)) PTM_PAGE_GRANULARITY"

lemma unat_slots:
  assumes "n \<le> 1026" shows "unat (sizeof_pmm_map_entry * of_nat n) = 24 * n"
  using assms
  by (subst unat_mult_nowrap) (simp_all add: sizeof_pmm_map_entry_def unat_of_nat_64)

lemma unat_slot_pages:
  assumes "n \<le> 1026"
  shows "unat (MATH_ALIGN_UP (sizeof_pmm_map_entry * of_nat n) PTM_PAGE_GRANULARITY) =
    (24 * n + 4095) div 4096 * 4096"
  using assms by (subst unat_ALIGN_UP_page) (simp_all add: unat_slots)

lemma snapshot_pages:
  assumes "arr_ok s"
  shows "unat (snapshot_bytes s) = (24 * (g_pmm_map_size s + 2) + 4095) div 4096 * 4096"
    and "24 * (g_pmm_map_size s + 2) \<le> unat (snapshot_bytes s)"
    and "pages_ok (snapshot_bytes s div PTM_PAGE_GRANULARITY)"
    and "page_bytes (snapshot_bytes s div PTM_PAGE_GRANULARITY) = unat (snapshot_bytes s)"
proof -
  have size: "g_pmm_map_size s + 2 \<le> 1026"
    using assms by (simp add: arr_ok_def PMM_MAP_MAX_ENTRIES_def)
  show b: "unat (snapshot_bytes s) = (24 * (g_pmm_map_size s + 2) + 4095) div 4096 * 4096"
    unfolding snapshot_bytes_def by (rule unat_slot_pages [OF size])
  have p: "unat (snapshot_bytes s div PTM_PAGE_GRANULARITY) =
      (24 * (g_pmm_map_size s + 2) + 4095) div 4096"
    by (simp add: unat_div_distrib b)
  then show "page_bytes (snapshot_bytes s div PTM_PAGE_GRANULARITY) = unat (snapshot_bytes s)"
    by (simp add: page_bytes_def b)
  show "24 * (g_pmm_map_size s + 2) \<le> unat (snapshot_bytes s)"
    using ceil_div_ge [of 4096 "24 * (g_pmm_map_size s + 2)"] unfolding b by simp
  have "0 < unat (snapshot_bytes s div PTM_PAGE_GRANULARITY)"
    unfolding p by (simp add: div_greater_zero_iff)
  then show "pages_ok (snapshot_bytes s div PTM_PAGE_GRANULARITY)"
    using size p by (auto simp: pages_ok_def page_bytes_def)
qed

lemma pmm_create_snapshot_alt:
  "pmm_create_snapshot s =
     res_bind (pmm_alloc (snapshot_bytes s div PTM_PAGE_GRANULARITY) s)
       (\<lambda>(phys, s').
          if phys = 0 then fail (Panic ''failed to allocate memory for pmm snapshot'')
          else if MATH_ALIGN_UP (sizeof_pmm_map_entry * of_nat (g_pmm_map_size s'))
                    PTM_PAGE_GRANULARITY > snapshot_bytes s
          then fail (Panic ''pmm snapshot size exceeds allocated memory'')
          else if g_pmm_map_size s + 2 > PMM_MAP_MAX_ENTRIES
          then fail (UB ''memcpy past g_pmm_map'')
          else ok (\<lparr>snap_entries = take (g_pmm_map_size s + 2) (g_pmm_map s'),
                     snap_count = g_pmm_map_size s + 2,
                     snap_phys = phys, snap_bytes = snapshot_bytes s\<rparr>, s'))"
  by (simp only: pmm_create_snapshot_def Let_def snapshot_bytes_def)

text \<open>C7. If memory for the snapshot is found away from address 0, the snapshot succeeds: its
  copy holds every live entry of the map after its own allocation, fits the buffer, and freeing
  it gives every address the type it had before.\<close>

theorem pmm_snapshot_complete:
  assumes "pmm_inv s" and "pmm_room s 2" and "top_clear s 4096"
    and "4096 dvd k" and "fits_at s k (unat (snapshot_bytes s))"
    and "\<not> fits_at s 0 (unat (snapshot_bytes s))"
  shows "\<exists>snap s'. pmm_create_snapshot s = ok (snap, s') \<and>
    take (g_pmm_map_size s') (snap_entries snap) = live s' \<and>
    length (snap_entries snap) = snap_count snap \<and> 24 * snap_count snap \<le> unat (snap_bytes snap) \<and>
    (\<forall>x. type_at (live s') x =
      (if unat (snap_phys snap) \<le> x \<and> x < unat (snap_phys snap) + unat (snap_bytes snap)
       then Some PMM_MAP_TYPE_ALLOCATED else type_at (live s) x)) \<and>
    (\<exists>s''. pmm_free_snapshot snap s' = ok s'' \<and> type_at (live s'') = type_at (live s))"
proof -
  let ?n = "snapshot_bytes s div PTM_PAGE_GRANULARITY"
  have arr: "arr_ok s" and wf: "wf_map (live s)"
    using assms(1) by (simp_all add: pmm_inv_def)
  have room: "pmm_room s 1" "pmm_room s (Suc (Suc 0))"
    using assms(2) by (simp_all add: pmm_room_def)
  note pages = snapshot_pages [OF arr]
  obtain a s' where alloc: "pmm_alloc ?n s = ok (a, s')"
    using pmm_alloc_cases [OF assms(1) room(1) pages(3) assms(3)] assms(4,5) pages(4) by auto
  note a = pmm_alloc_ok [OF assms(1) room(1) pages(3) assms(3) alloc]
  have a0: "a \<noteq> 0"
    using a(2) assms(6) pages(4) by auto
  have size: "g_pmm_map_size s' \<le> g_pmm_map_size s + 2" "g_pmm_map_size s + 2 \<le> 1024"
    using a(3) assms(2) by (simp_all add: took_def pmm_room_def PMM_MAP_MAX_ENTRIES_def)
  have bytes: "\<not> snapshot_bytes s <
      MATH_ALIGN_UP (sizeof_pmm_map_entry * of_nat (g_pmm_map_size s')) PTM_PAGE_GRANULARITY"
    using size by (simp add: word_less_nat_alt unat_slot_pages pages(1) not_less div_le_mono)
  have arr': "arr_ok s'"
    using a(5) by (simp add: pmm_inv_def)
  let ?snap = "\<lparr>snap_entries = take (g_pmm_map_size s + 2) (g_pmm_map s'),
    snap_count = g_pmm_map_size s + 2, snap_phys = a, snap_bytes = snapshot_bytes s\<rparr>"
  have "pmm_create_snapshot s = ok (?snap, s')"
    using alloc a0 bytes size(2)
    by (simp add: pmm_create_snapshot_alt PMM_MAP_MAX_ENTRIES_def)
  moreover have "take (g_pmm_map_size s') (snap_entries ?snap) = live s'"
    using size(1) by (simp add: live_def min_def)
  moreover have "length (snap_entries ?snap) = snap_count ?snap"
    using arr' size(2) by (simp add: arr_ok_def PMM_MAP_MAX_ENTRIES_def)
  moreover have "24 * snap_count ?snap \<le> unat (snap_bytes ?snap)"
    using pages(2) by simp
  moreover have "\<exists>s''. pmm_free_snapshot ?snap s' = ok s'' \<and> type_at (live s'') = type_at (live s)"
  proof -
    note len = pages_length [OF pages(3)]
    have fit: "fits_at s (unat a) (unat (?n * PTM_PAGE_GRANULARITY))"
      using a(2) by (simp add: len)
    from rm.override_restore [OF assms(1) room(2) fits_at_region_ok [OF wf fit] len(2)
        fits_at_held [OF fit], where t = PMM_MAP_TYPE_ALLOCATED and u = PMM_MAP_TYPE_FREE and ?s1.0 = s']
      pmm_alloc_sets [OF assms(1) alloc] fits_at_free [OF wf fit]
    show ?thesis
      by (auto simp: pmm_free_snapshot_def pmm_free_def)
  qed
  ultimately show ?thesis
    using a(3) pages(4)
    by (intro exI [of _ ?snap] exI [of _ s']) (simp add: took_def)
qed

theorem pmm_snapshot_complete_witness:
  "\<exists>snap s'. pmm_create_snapshot sample = ok (snap, s') \<and>
    take (g_pmm_map_size s') (snap_entries snap) = live s' \<and>
    length (snap_entries snap) = snap_count snap \<and> 24 * snap_count snap \<le> unat (snap_bytes snap) \<and>
    (\<forall>x. type_at (live s') x =
      (if unat (snap_phys snap) \<le> x \<and> x < unat (snap_phys snap) + unat (snap_bytes snap)
       then Some PMM_MAP_TYPE_ALLOCATED else type_at (live sample) x)) \<and>
    (\<exists>s''. pmm_free_snapshot snap s' = ok s'' \<and> type_at (live s'') = type_at (live sample))"
proof (rule pmm_snapshot_complete [OF sample_inv sample_room(1) sample_top_clear])
  have bytes: "unat (snapshot_bytes sample) = 4096"
    using snapshot_pages(1) [of sample] sample_inv by (simp add: pmm_inv_def)
  show "fits_at sample 4096 (unat (snapshot_bytes sample))"
    "\<not> fits_at sample 0 (unat (snapshot_bytes sample))"
    by (simp_all add: bytes fits_at_def sample_map_def lo_def hi_def)
qed simp

section \<open>A region on the edge of an entry\<close>



section \<open>A full map\<close>

text \<open>C9. When all slots are live, a region clear of the map is added only if it extends the entry
  before it. Otherwise a region above the map makes \<open>pmm_map_set\<close> read one slot past the array,
  and a region below an entry it cannot merge with panics with memory map overflow.\<close>

theorem pmm_map_set_full:
  assumes "pmm_inv s" and "g_pmm_map_size s = PMM_MAP_MAX_ENTRIES"
    and "region_ok base len" and "len \<noteq> 0"
    and "\<forall>e\<in>set (live s). clear_of (unat base) (unat base + unat len) e"
    and "\<forall>e\<in>set (live s). me_type e = t \<longrightarrow> hi e \<noteq> unat base \<and> lo e \<noteq> unat base + unat len"
  shows "pmm_map_set base len t force s =
    (if \<forall>e\<in>set (live s). hi e \<le> unat base then fail (UB ''g_pmm_map index out of bounds'')
     else fail (Panic ''memory map overflow''))"
proof -
  let ?ys = "takeWhile (\<lambda>e. me_base e \<le> base) (live s)"
  have arr: "arr_ok s" and wf: "wf_map (live s)"
    using assms(1) by (simp_all add: pmm_inv_def)
  have insert: "pmm_map_set base len t force s = pmm_map_set_insert base len t s"
    unfolding pmm_map_set_def by (rule loop_clear [OF arr wf assms(3)]) (use assms(5) in simp)
  have index: "insert_index 0 base s = length ?ys"
    using insert_index_eq [OF arr] by simp
  have slot: "g_pmm_map s ! k = live s ! k \<and> live s ! k \<in> set (live s)" if "k < length (live s)" for k
    using that arr by (simp add: slot_live)
  have L: "0 < unat len"
    using assms(4) by (simp add: unat_gt_0)
  have above: "(\<forall>e\<in>set (live s). hi e \<le> unat base) \<longleftrightarrow> length ?ys = length (live s)"
  proof -
    have "hi e \<le> unat base \<longleftrightarrow> me_base e \<le> base" if "e \<in> set (live s)" for e
      using assms(5) that entry_ok_less [OF wf_map_entry [OF wf that]] L
      by (auto simp: clear_of_def word_le_nat_alt lo_def)
    moreover have "length ?ys = length (live s) \<longleftrightarrow> (\<forall>e\<in>set (live s). me_base e \<le> base)"
      by (metis (mono_tags, lifting) takeWhile_eq_all_conv takeWhile_eq_take take_all_iff nat_le_linear
          length_takeWhile_le le_antisym)
    ultimately show ?thesis
      by simp
  qed
  have prev: "\<not> (me_type (live s ! k) = t \<and> me_base (live s ! k) + me_length (live s ! k) = base)"
    if "k < length (live s)" for k
    using assms(6) slot [OF that] entry_end [OF wf_map_entry [OF wf]] by (auto simp: word_eq_unat)
  have this_slot: "\<not> (me_type (live s ! k) = t \<and> me_base (live s ! k) = base + len)"
    if "k < length (live s)" for k
    using assms(6) slot [OF that] unat_region_end [OF assms(3)] by (auto simp: word_eq_unat lo_def)
  have le: "length ?ys \<le> length (live s)"
    by (rule length_takeWhile_le)
  show ?thesis
  proof (cases "length ?ys = length (live s)")
    case True
    then show ?thesis
      using above arr assms(2,4) prev [of "length (live s) - 1"] slot [of "length (live s) - 1"]
      by (simp add: insert pmm_map_set_insert_def index Let_def PMM_MAP_MAX_ENTRIES_def)
  next
    case False
    then have "length ?ys < length (live s)"
      using le by simp
    then show ?thesis
      using above arr assms(2,4) prev [of "length ?ys - 1"] slot [of "length ?ys - 1"]
        this_slot slot [of "length ?ys"] False map_insert_full [OF assms(2)]
      by (simp add: insert pmm_map_set_insert_def index Let_def)
  qed
qed

definition full_entry :: "nat \<Rightarrow> pmm_map_entry" where
  "full_entry k = \<lparr>me_base = of_nat k * 0x2000, me_length = 0x1000, me_type = PMM_MAP_TYPE_USED\<rparr>"

definition full_map :: pmm_state where
  "full_map = state_of (map full_entry [0..<1024])"

lemma full_entry_bounds:
  assumes "k < 1024"
  shows "lo (full_entry k) = k * 0x2000" and "hi (full_entry k) = k * 0x2000 + 0x1000"
proof -
  have "unat (of_nat k * 0x2000 :: u64) = k * 0x2000"
    using assms by (subst unat_mult_nowrap) (simp_all add: unat_of_nat_64)
  then show "lo (full_entry k) = k * 0x2000" "hi (full_entry k) = k * 0x2000 + 0x1000"
    by (simp_all add: full_entry_def lo_def hi_def)
qed

lemma full_map_inv: "pmm_inv full_map"
  unfolding full_map_def
proof (rule pmm_inv_state_of)
  have "sorted_wrt (\<lambda>i j. hi (full_entry i) \<le> lo (full_entry j)) [0..<1024]"
    by (rule sorted_wrt_mono_rel [OF _ sorted_wrt_upt]) (simp add: full_entry_bounds)
  moreover have "\<forall>k\<in>set [0..<1024]. entry_ok (full_entry k)"
    using full_entry_bounds by (auto simp: entry_ok_def full_entry_def)
  ultimately show "wf_map (map full_entry [0..<1024])"
    by (auto simp: wf_map_def sorted_wrt_map simp del: upt_Suc)
qed (simp add: PMM_MAP_MAX_ENTRIES_def)

theorem pmm_map_set_full_witness:
  "pmm_map_set 0x1000000 0x1000 PMM_MAP_TYPE_BAD False full_map =
    (if \<forall>e\<in>set (live full_map). hi e \<le> unat (0x1000000 :: u64)
     then fail (UB ''g_pmm_map index out of bounds'')
     else fail (Panic ''memory map overflow''))"
proof (rule pmm_map_set_full [OF full_map_inv])
  show "\<forall>e\<in>set (live full_map). clear_of (unat (0x1000000 :: u64))
      (unat (0x1000000 :: u64) + unat (0x1000 :: u64)) e"
    by (auto simp: full_map_def clear_of_def full_entry_bounds)
qed (auto simp: full_map_def PMM_MAP_MAX_ENTRIES_def region_ok_def full_entry_def)

end
