(* ===== verification/RtMem.thy ===== *)
theory RtMem
  imports Prelude "HOL-Library.Sublist"
begin

text \<open>
  The freestanding memory and string routines of \<open>pre_kernel/src/runtime/mem.c\<close> on a flat byte
  memory: an address is a 64-bit word and pointer arithmetic wraps. Byte counts are \<open>nat\<close>, the
  value of a \<open>size_t\<close>. The loops that only a NUL byte ends are \<open>partial_function\<close>s: a call that
  never finds one is \<open>None\<close>. \<open>strlen\<close> counts in an \<open>int\<close>, so going past \<open>INT_MAX\<close> is undefined
  behaviour.
\<close>

type_synonym memory = "u64 \<Rightarrow> u8"

section \<open>Copying and filling\<close>

function memset_loop :: "u64 \<Rightarrow> u8 \<Rightarrow> nat \<Rightarrow> nat \<Rightarrow> memory \<Rightarrow> memory" where
  "memset_loop dest ch i count m =
     (if i < count then memset_loop dest ch (Suc i) count (m(dest + of_nat i := ch)) else m)"
  by pat_completeness auto
termination
  by (relation "measure (\<lambda>(dest, ch, i, count, m). count - i)") auto

definition memset :: "u64 \<Rightarrow> int \<Rightarrow> nat \<Rightarrow> memory \<Rightarrow> memory" where
  "memset dest ch count m = memset_loop dest (word_of_int ch) 0 count m"

function memcpy_loop :: "u64 \<Rightarrow> u64 \<Rightarrow> nat \<Rightarrow> nat \<Rightarrow> memory \<Rightarrow> memory" where
  "memcpy_loop dest src i count m =
     (if i < count
      then memcpy_loop dest src (Suc i) count (m(dest + of_nat i := m (src + of_nat i)))
      else m)"
  by pat_completeness auto
termination
  by (relation "measure (\<lambda>(dest, src, i, count, m). count - i)") auto

definition memcpy :: "u64 \<Rightarrow> u64 \<Rightarrow> nat \<Rightarrow> memory \<Rightarrow> memory" where
  "memcpy dest src count m = memcpy_loop dest src 0 count m"

fun memmove_down :: "u64 \<Rightarrow> u64 \<Rightarrow> nat \<Rightarrow> memory \<Rightarrow> memory" where
  "memmove_down dest src 0 m = m"
| "memmove_down dest src (Suc i) m =
     memmove_down dest src i (m(dest + of_nat i := m (src + of_nat i)))"

definition memmove :: "u64 \<Rightarrow> u64 \<Rightarrow> nat \<Rightarrow> memory \<Rightarrow> memory" where
  "memmove dest src count m =
     (if src = dest then m
      else if src > dest then memcpy_loop dest src 0 count m
      else memmove_down dest src count m)"

section \<open>Comparing and searching\<close>

function memcmp_loop :: "u64 \<Rightarrow> u64 \<Rightarrow> nat \<Rightarrow> nat \<Rightarrow> memory \<Rightarrow> int" where
  "memcmp_loop lhs rhs i count m =
     (if i < count then
        (if m (lhs + of_nat i) > m (rhs + of_nat i) then -1
         else if m (lhs + of_nat i) < m (rhs + of_nat i) then 1
         else memcmp_loop lhs rhs (Suc i) count m)
      else 0)"
  by pat_completeness auto
termination
  by (relation "measure (\<lambda>(lhs, rhs, i, count, m). count - i)") auto

definition memcmp :: "u64 \<Rightarrow> u64 \<Rightarrow> nat \<Rightarrow> memory \<Rightarrow> int" where
  "memcmp lhs rhs count m = memcmp_loop lhs rhs 0 count m"

definition INT_MAX :: nat where "INT_MAX = 2147483647"

partial_function (option) strlen_loop :: "u64 \<Rightarrow> nat \<Rightarrow> memory \<Rightarrow> nat res" where
  "strlen_loop str len m =
     (if m (str + of_nat len) \<noteq> 0
      then (if len = INT_MAX then fail (UB ''signed overflow'') else strlen_loop str (Suc len) m)
      else ok len)"

definition strlen :: "u64 \<Rightarrow> memory \<Rightarrow> nat res" where
  "strlen str m = strlen_loop str 0 m"

function strnlen_loop :: "u64 \<Rightarrow> nat \<Rightarrow> nat \<Rightarrow> memory \<Rightarrow> nat" where
  "strnlen_loop s len maxlen m =
     (if len < maxlen
      then (if m (s + of_nat len) = 0 then len else strnlen_loop s (Suc len) maxlen m)
      else len)"
  by pat_completeness auto
termination
  by (relation "measure (\<lambda>(s, len, maxlen, m). maxlen - len)") auto

definition strnlen :: "u64 \<Rightarrow> nat \<Rightarrow> memory \<Rightarrow> nat" where
  "strnlen s maxlen m = strnlen_loop s 0 maxlen m"

text \<open>A null pointer is \<open>None\<close> inside the result.\<close>

partial_function (option) strrchr_loop ::
  "u64 \<Rightarrow> u8 \<Rightarrow> u64 option \<Rightarrow> memory \<Rightarrow> u64 option res" where
  "strrchr_loop s c found m =
     (let found' = (if m s = c then Some s else found)
      in if m s \<noteq> 0 then strrchr_loop (s + 1) c found' m else ok found')"

definition strrchr :: "u64 \<Rightarrow> int \<Rightarrow> memory \<Rightarrow> u64 option res" where
  "strrchr s c m = strrchr_loop s (word_of_int c) None m"

function memchr_loop :: "u64 \<Rightarrow> u8 \<Rightarrow> nat \<Rightarrow> nat \<Rightarrow> memory \<Rightarrow> u64 option" where
  "memchr_loop p c i n m =
     (if i < n
      then (if m (p + of_nat i) = c then Some (p + of_nat i) else memchr_loop p c (Suc i) n m)
      else None)"
  by pat_completeness auto
termination
  by (relation "measure (\<lambda>(p, c, i, n, m). n - i)") auto

definition memchr :: "u64 \<Rightarrow> int \<Rightarrow> nat \<Rightarrow> memory \<Rightarrow> u64 option" where
  "memchr s c n m = memchr_loop s (word_of_int c) 0 n m"

partial_function (option) strcmp :: "u64 \<Rightarrow> u64 \<Rightarrow> memory \<Rightarrow> int res" where
  "strcmp s1 s2 m =
     (if m s1 \<noteq> 0 \<and> m s1 = m s2 then strcmp (s1 + 1) (s2 + 1) m
      else ok (uint (m s1) - uint (m s2)))"

text \<open>The inner loop of \<open>strstr\<close>; its result is the final \<open>n\<close>.\<close>

partial_function (option) strstr_inner :: "u64 \<Rightarrow> u64 \<Rightarrow> memory \<Rightarrow> u64 res" where
  "strstr_inner h n m =
     (if m h \<noteq> 0 \<and> m n \<noteq> 0 \<and> m h = m n then strstr_inner (h + 1) (n + 1) m else ok n)"

partial_function (option) strstr_loop :: "u64 \<Rightarrow> u64 \<Rightarrow> memory \<Rightarrow> u64 option res" where
  "strstr_loop haystack needle m =
     (if m haystack \<noteq> 0 then
        res_bind (strstr_inner haystack needle m)
          (\<lambda>n. if m n = 0 then ok (Some haystack) else strstr_loop (haystack + 1) needle m)
      else ok None)"

definition strstr :: "u64 \<Rightarrow> u64 \<Rightarrow> memory \<Rightarrow> u64 option res" where
  "strstr haystack needle m =
     (if m needle = 0 then ok (Some haystack) else strstr_loop haystack needle m)"

declare strlen_loop.simps [code] strrchr_loop.simps [code] strcmp.simps [code]
  strstr_inner.simps [code] strstr_loop.simps [code]

declare memset_loop.simps [simp del] memcpy_loop.simps [simp del] memcmp_loop.simps [simp del]
  strnlen_loop.simps [simp del] memchr_loop.simps [simp del]

section \<open>Byte arrays and strings in memory\<close>

text \<open>The bytes at an address, and a NUL-terminated string.\<close>

definition bytes_at :: "memory \<Rightarrow> u64 \<Rightarrow> nat \<Rightarrow> u8 list" where
  "bytes_at m p n = map (\<lambda>i. m (p + of_nat i)) [0..<n]"

fun cstring :: "memory \<Rightarrow> u64 \<Rightarrow> u8 list \<Rightarrow> bool" where
  "cstring m p [] \<longleftrightarrow> m p = 0"
| "cstring m p (c # cs) \<longleftrightarrow> c \<noteq> 0 \<and> m p = c \<and> cstring m (p + 1) cs"

lemma length_bytes_at [simp]: "length (bytes_at m p n) = n"
  by (simp add: bytes_at_def)

lemma nth_bytes_at [simp]: "i < n \<Longrightarrow> bytes_at m p n ! i = m (p + of_nat i)"
  by (simp add: bytes_at_def)

lemma of_nat_inj64: "i < 2 ^ 64 \<Longrightarrow> j < 2 ^ 64 \<Longrightarrow> (of_nat i :: u64) = of_nat j \<longleftrightarrow> i = j"
  by (metis unat_of_nat_64)

text \<open>An address inside an array of at most \<open>2 ^ 64\<close> bytes has one index.\<close>

definition in_array :: "u64 \<Rightarrow> nat \<Rightarrow> u64 \<Rightarrow> bool" where
  "in_array p n a \<longleftrightarrow> unat (a - p) < n"

lemma in_array_index: "i < n \<Longrightarrow> n \<le> 2 ^ 64 \<Longrightarrow> in_array p n (p + of_nat i)"
  by (simp add: in_array_def unat_of_nat_64)

lemma in_arrayE:
  assumes "in_array p n a" obtains i where "i < n" and "a = p + of_nat i"
  using assms by (auto simp: in_array_def intro: that [of "unat (a - p)"])

lemma index_eq:
  fixes a p :: u64
  assumes "i < 2 ^ 64" shows "a = p + of_nat i \<longleftrightarrow> unat (a - p) = i"
proof -
  have "a = p + of_nat i \<longleftrightarrow> a - p = of_nat i"
    by (simp add: diff_eq_eq add.commute)
  then show ?thesis
    using assms by (simp add: word_eq_unat unat_of_nat_64)
qed

lemma memset_loop_spec:
  "i \<le> count \<Longrightarrow> count \<le> 2 ^ 64 \<Longrightarrow>
    memset_loop dest ch i count m a = (if unat (a - dest) \<in> {i..<count} then ch else m a)"
proof (induction dest ch i count m rule: memset_loop.induct)
  case (1 dest ch i count m)
  show ?case
  proof (cases "i < count")
    case True
    then show ?thesis
      using 1 index_eq [of i a dest] by (subst memset_loop.simps) (auto simp: fun_upd_def)
  next
    case False
    then show ?thesis
      using "1.prems" by (subst memset_loop.simps) auto
  qed
qed

lemma memset_spec:
  "count \<le> 2 ^ 64 \<Longrightarrow>
    memset dest ch count m a = (if in_array dest count a then word_of_int ch else m a)"
  by (simp add: memset_def memset_loop_spec in_array_def)

lemma bytes_at_memset: "n \<le> 2 ^ 64 \<Longrightarrow> bytes_at (memset p c n m) p n = replicate n (word_of_int c)"
  by (rule nth_equalityI) (auto simp: memset_spec in_array_index)

section \<open>Copying is correct when no byte is overwritten before it is read\<close>

definition copied :: "u64 \<Rightarrow> u64 \<Rightarrow> nat \<Rightarrow> memory \<Rightarrow> memory \<Rightarrow> bool" where
  "copied dest src n m m' \<longleftrightarrow>
     (\<forall>a. m' a = (if in_array dest n a then m (src + (a - dest)) else m a))"

lemma copied_bytes:
  assumes "copied dest src n m m'" and "n \<le> 2 ^ 64"
  shows "bytes_at m' dest n = bytes_at m src n"
  using assms by (intro nth_equalityI) (auto simp: copied_def in_array_index)

lemma copied_outside: "copied dest src n m m' \<Longrightarrow> \<not> in_array dest n a \<Longrightarrow> m' a = m a"
  by (simp add: copied_def)

lemma memcpy_loop_spec:
  assumes "\<And>j k. j < k \<Longrightarrow> k < count \<Longrightarrow> dest + of_nat j \<noteq> src + of_nat k"
    and "i \<le> count" and "count \<le> 2 ^ 64"
  shows "memcpy_loop dest src i count m a =
    (if unat (a - dest) \<in> {i..<count} then m (src + (a - dest)) else m a)"
  using assms
proof (induction dest src i count m rule: memcpy_loop.induct)
  case (1 dest src i count m)
  show ?case
  proof (cases "i < count")
    case True
    have "src + (a - dest) \<noteq> dest + of_nat i" if "unat (a - dest) \<in> {Suc i..<count}"
      using "1.prems"(1) [of i "unat (a - dest)"] that by simp
    moreover have "src + (a - dest) = src + of_nat i" if "unat (a - dest) = i"
      using that by auto
    ultimately show ?thesis
      using 1 True index_eq [of i a dest] by (subst memcpy_loop.simps) (auto simp: fun_upd_def)
  next
    case False
    then show ?thesis
      using "1.prems" by (subst memcpy_loop.simps) auto
  qed
qed

lemma memmove_down_spec:
  assumes "\<And>j k. k < j \<Longrightarrow> j < i \<Longrightarrow> dest + of_nat j \<noteq> src + of_nat k" and "i \<le> 2 ^ 64"
  shows "copied dest src i m (memmove_down dest src i m)"
  using assms
proof (induction i arbitrary: m)
  case 0
  then show ?case
    by (simp add: copied_def in_array_def)
next
  case (Suc i)
  let ?m = "m(dest + of_nat i := m (src + of_nat i))"
  have "copied dest src i ?m (memmove_down dest src i ?m)"
    using Suc by simp
  moreover have "src + (a - dest) \<noteq> dest + of_nat i" if "in_array dest i a" for a
    using Suc.prems(1) [of "unat (a - dest)" i] that by (simp add: in_array_def)
  moreover have "a = dest + of_nat i \<longleftrightarrow> unat (a - dest) = i" for a
    using Suc.prems(2) by (intro index_eq) simp
  ultimately show ?case
    by (auto simp: copied_def in_array_def less_Suc_eq)
qed

lemma unat_index: "unat p + n \<le> 2 ^ 64 \<Longrightarrow> i < n \<Longrightarrow> unat (p + of_nat i :: u64) = unat p + i"
  by (subst unat_add_nowrap) (simp_all add: unat_of_nat_64)

lemma memcpy_correct:
  assumes "unat dest + count \<le> 2 ^ 64" and "unat src + count \<le> 2 ^ 64"
    and "unat dest \<le> unat src \<or> unat src + count \<le> unat dest"
  shows "copied dest src count m (memcpy dest src count m)"
proof -
  have "dest + of_nat j \<noteq> src + of_nat k" if "j < k" "k < count" for j k
    using that assms unat_index [of dest count j] unat_index [of src count k]
    by (auto simp: word_eq_unat)
  then show ?thesis
    using assms(1) by (auto simp: copied_def memcpy_def memcpy_loop_spec in_array_def)
qed

lemma memmove_correct:
  assumes "unat dest + count \<le> 2 ^ 64" and "unat src + count \<le> 2 ^ 64"
  shows "copied dest src count m (memmove dest src count m)"
proof -
  consider "src = dest" | "src > dest" | "src < dest"
    by (metis linorder_neqE)
  then show ?thesis
  proof cases
    case 1
    then show ?thesis
      by (simp add: memmove_def copied_def)
  next
    case 2
    then show ?thesis
      using memcpy_correct [OF assms, of m] by (auto simp: memmove_def memcpy_def word_less_nat_alt)
  next
    case 3
    then have "dest + of_nat j \<noteq> src + of_nat k" if "k < j" "j < count" for j k
      using that assms unat_index [of dest count j] unat_index [of src count k]
      by (auto simp: word_eq_unat word_less_nat_alt)
    then show ?thesis
      using memmove_down_spec [of count dest src m] assms(1) 3 by (auto simp: memmove_def)
  qed
qed

section \<open>Comparing\<close>

lemma memcmp_loop_zero:
  "i \<le> count \<Longrightarrow> memcmp_loop lhs rhs i count m = 0 \<longleftrightarrow>
    (\<forall>k. i \<le> k \<and> k < count \<longrightarrow> m (lhs + of_nat k) = m (rhs + of_nat k))"
proof (induction lhs rhs i count m rule: memcmp_loop.induct)
  case (1 lhs rhs i count m)
  show ?case
  proof (cases "i < count")
    case True
    have split: "(\<forall>k. i \<le> k \<and> k < count \<longrightarrow> P k) \<longleftrightarrow> P i \<and> (\<forall>k. Suc i \<le> k \<and> k < count \<longrightarrow> P k)"
      for P
      using True by (metis Suc_le_eq le_neq_implies_less less_imp_le order_refl)
    show ?thesis
    proof (cases "m (lhs + of_nat i) = m (rhs + of_nat i)")
      case eq: True
      then have "memcmp_loop lhs rhs i count m = memcmp_loop lhs rhs (Suc i) count m"
        using True by (subst memcmp_loop.simps) simp
      then show ?thesis
        unfolding split [of "\<lambda>k. m (lhs + of_nat k) = m (rhs + of_nat k)"]
        using eq True "1.IH" by simp
    next
      case False
      then show ?thesis
        unfolding split [of "\<lambda>k. m (lhs + of_nat k) = m (rhs + of_nat k)"]
        using True by (subst memcmp_loop.simps) auto
    qed
  next
    case False
    then show ?thesis
      by (subst memcmp_loop.simps) auto
  qed
qed

lemma memcmp_loop_first:
  "i \<le> k \<Longrightarrow> k < count \<Longrightarrow> (\<And>j. i \<le> j \<Longrightarrow> j < k \<Longrightarrow> m (lhs + of_nat j) = m (rhs + of_nat j)) \<Longrightarrow>
    m (lhs + of_nat k) \<noteq> m (rhs + of_nat k) \<Longrightarrow>
    memcmp_loop lhs rhs i count m = (if m (lhs + of_nat k) > m (rhs + of_nat k) then -1 else 1)"
proof (induction lhs rhs i count m rule: memcmp_loop.induct)
  case (1 lhs rhs i count m)
  show ?case
  proof (cases "i = k")
    case True
    then show ?thesis
      using "1.prems" by (subst memcmp_loop.simps) auto
  next
    case False
    then have "m (lhs + of_nat i) = m (rhs + of_nat i)"
      using "1.prems" by simp
    then show ?thesis
      using False 1 by (subst memcmp_loop.simps) auto
  qed
qed

section \<open>Strings\<close>

lemma strnlen_loop_cstring:
  "cstring m (s + of_nat k) xs \<Longrightarrow> strnlen_loop s k maxlen m = (if k < maxlen then min maxlen (k + length xs) else k)"
proof (induction xs arbitrary: k)
  case Nil
  then show ?case
    by (subst strnlen_loop.simps) simp
next
  case (Cons x xs)
  have "cstring m (s + of_nat (Suc k)) xs"
    using Cons.prems by (simp add: ac_simps)
  then show ?case
    using Cons.IH [of "Suc k"] Cons.prems by (subst strnlen_loop.simps) auto
qed

lemma strlen_loop_cstring:
  "cstring m (s + of_nat k) xs \<Longrightarrow> strlen_loop s k m =
    (if k \<le> INT_MAX \<and> k + length xs > INT_MAX then fail (UB ''signed overflow'') else ok (k + length xs))"
proof (induction xs arbitrary: k)
  case Nil
  then show ?case
    by (subst strlen_loop.simps) simp
next
  case (Cons x xs)
  have "cstring m (s + of_nat (Suc k)) xs"
    using Cons.prems by (simp add: ac_simps)
  then show ?case
    using Cons.IH [of "Suc k"] Cons.prems by (subst strlen_loop.simps) auto
qed

lemma uint_pos: "c \<noteq> 0 \<Longrightarrow> 0 < uint c \<and> uint c \<noteq> 0" for c :: u8
  by (metis less_le uint_0_iff unsigned_greater_eq)

lemma strcmp_cstring:
  "cstring m p xs \<Longrightarrow> cstring m q ys \<Longrightarrow>
    \<exists>r. strcmp p q m = ok r \<and> (r = 0 \<longleftrightarrow> xs = ys) \<and>
      (r < 0 \<longleftrightarrow> (xs, ys) \<in> lexord {(a, b). a < b})"
proof (induction xs arbitrary: p q ys)
  case Nil
  then show ?case
    by (cases ys) (auto simp: strcmp.simps [of p q] dest: uint_pos)
next
  case (Cons x xs)
  show ?case
  proof (cases ys)
    case Nil
    then show ?thesis
      using Cons.prems uint_pos [of x] by (auto simp: strcmp.simps [of p q])
  next
    case (Cons y zs)
    then show ?thesis
      using Cons.IH [of "p + 1" "q + 1" zs] Cons.prems word_uint_eq_iff [of x y]
      by (cases "x = y") (auto simp: strcmp.simps [of p q] word_less_def)
  qed
qed

lemma strstr_inner_cstring:
  "cstring m h xs \<Longrightarrow> cstring m n ys \<Longrightarrow>
    \<exists>r. strstr_inner h n m = ok r \<and> (m r = 0 \<longleftrightarrow> prefix ys xs)"
proof (induction ys arbitrary: h n xs)
  case Nil
  then show ?case
    by (auto simp: strstr_inner.simps [of h n])
next
  case (Cons y ys)
  show ?case
  proof (cases xs)
    case Nil
    then show ?thesis
      using Cons.prems by (auto simp: strstr_inner.simps [of h n])
  next
    case (Cons x zs)
    then show ?thesis
      using Cons.IH [of "h + 1" zs "n + 1"] Cons.prems
      by (cases "x = y") (auto simp: strstr_inner.simps [of h n])
  qed
qed

fun find_sub :: "u8 list \<Rightarrow> u8 list \<Rightarrow> nat option" where
  "find_sub ys [] = None"
| "find_sub ys (x # xs) =
     (if prefix ys (x # xs) then Some 0 else map_option Suc (find_sub ys xs))"

lemma find_sub_Some:
  "find_sub ys xs = Some i \<Longrightarrow> i < length xs \<and> prefix ys (drop i xs) \<and> (\<forall>j<i. \<not> prefix ys (drop j xs))"
proof (induction xs arbitrary: i)
  case (Cons x xs)
  show ?case
  proof (cases "prefix ys (x # xs)")
    case False
    then obtain k where "find_sub ys xs = Some k" "i = Suc k"
      using Cons.prems by auto
    then show ?thesis
      using Cons.IH False by (auto simp: less_Suc_eq_0_disj)
  qed (use Cons.prems in auto)
qed simp

lemma find_sub_None: "ys \<noteq> [] \<Longrightarrow> find_sub ys xs = None \<longleftrightarrow> \<not> sublist ys xs"
  by (induction xs) (auto simp: sublist_Cons_right)

lemma strstr_loop_cstring:
  "cstring m p xs \<Longrightarrow> cstring m q ys \<Longrightarrow> ys \<noteq> [] \<Longrightarrow>
    strstr_loop p q m = ok (map_option (\<lambda>i. p + of_nat i) (find_sub ys xs))"
proof (induction xs arbitrary: p)
  case Nil
  then show ?case
    by (simp add: strstr_loop.simps [of p])
next
  case (Cons x xs)
  obtain r where "strstr_inner p q m = ok r" "m r = 0 \<longleftrightarrow> prefix ys (x # xs)"
    using strstr_inner_cstring [OF Cons.prems(1,2)] by auto
  then show ?case
    using Cons.IH [of "p + 1"] Cons.prems
    by (auto simp: strstr_loop.simps [of p] option.map_comp comp_def ac_simps)
qed

end
