(* ===== verification/RtMemProps.thy ===== *)
theory RtMemProps
  imports RtMem
begin

text \<open>
  The properties of the memory and string routines: copying between overlapping buffers, the sign
  of the two comparisons, and the search for a substring.
\<close>

text \<open>C10. \<open>memmove\<close> copies correctly however the two buffers overlap, and writes nothing outside
  the destination.\<close>

theorem memmove_overlap:
  assumes "unat dest + n \<le> 2 ^ 64" and "unat src + n \<le> 2 ^ 64"
  shows "bytes_at (memmove dest src n m) dest n = bytes_at m src n \<and>
    memmove dest src n m =
      (\<lambda>a. if in_array dest n a then m (src + (a - dest)) else m a)"
proof -
  note moved = memmove_correct [OF assms, of m]
  then show ?thesis
    using copied_bytes [OF moved] assms(1) by (auto simp: copied_def)
qed

definition memory_of :: "u64 \<Rightarrow> u8 list \<Rightarrow> memory" where
  "memory_of p bs a = (if unat (a - p) < length bs then bs ! unat (a - p) else 0)"

theorem memmove_overlap_witness:
  "bytes_at (memmove 0x1002 0x1000 4 (memory_of 0x1000 [1, 2, 3, 4, 5, 6])) 0x1002 4 =
      bytes_at (memory_of 0x1000 [1, 2, 3, 4, 5, 6]) 0x1000 4 \<and>
    memmove 0x1002 0x1000 4 (memory_of 0x1000 [1, 2, 3, 4, 5, 6]) =
      (\<lambda>a. if in_array 0x1002 4 a then memory_of 0x1000 [1, 2, 3, 4, 5, 6] (0x1000 + (a - 0x1002))
           else memory_of 0x1000 [1, 2, 3, 4, 5, 6] a)"
  by (rule memmove_overlap) simp_all

lemma memcmp_lexord:
  "memcmp lhs rhs n m =
    (if bytes_at m lhs n = bytes_at m rhs n then 0
     else if (bytes_at m lhs n, bytes_at m rhs n) \<in> lexord {(a, b). a < b} then 1 else -1)"
proof (cases "bytes_at m lhs n = bytes_at m rhs n")
  case True
  then have "m (lhs + of_nat k) = m (rhs + of_nat k)" if "k < n" for k
    using that nth_bytes_at by metis
  then have "memcmp lhs rhs n m = 0"
    by (simp add: memcmp_def memcmp_loop_zero)
  then show ?thesis
    using True by simp
next
  case False
  then have "\<exists>k. k < n \<and> m (lhs + of_nat k) \<noteq> m (rhs + of_nat k)"
    by (auto simp: list_eq_iff_nth_eq)
  then obtain k where k: "k < n" "m (lhs + of_nat k) \<noteq> m (rhs + of_nat k)"
    and before: "\<And>j. j < k \<Longrightarrow> m (lhs + of_nat j) = m (rhs + of_nat j)"
    using exists_least_iff [of "\<lambda>k. k < n \<and> m (lhs + of_nat k) \<noteq> m (rhs + of_nat k)"] by force
  have val: "memcmp lhs rhs n m = (if m (lhs + of_nat k) > m (rhs + of_nat k) then -1 else 1)"
    unfolding memcmp_def using k before by (intro memcmp_loop_first) auto
  have "(bytes_at m lhs n, bytes_at m rhs n) \<in> lexord {(a, b). a < b} \<longleftrightarrow>
      (\<exists>i. i < n \<and> (\<forall>j<i. m (lhs + of_nat j) = m (rhs + of_nat j)) \<and>
        m (lhs + of_nat i) < m (rhs + of_nat i))"
    using False by (auto simp: lexord_take_index_conv list_eq_iff_nth_eq)
  also have "\<dots> \<longleftrightarrow> m (lhs + of_nat k) < m (rhs + of_nat k)"
    using k before by (metis less_irrefl linorder_neqE_nat)
  finally show ?thesis
    using False val k(2) by auto
qed

text \<open>C11. \<open>memcmp\<close> is 0 exactly on equal buffers, but its sign is the reverse of the C library's:
  it is positive when the first buffer comes before the second in byte order.\<close>

theorem memcmp_sign_reversed:
  "(memcmp lhs rhs n m = 0 \<longleftrightarrow> bytes_at m lhs n = bytes_at m rhs n) \<and>
   (memcmp lhs rhs n m > 0 \<longleftrightarrow>
     (bytes_at m lhs n, bytes_at m rhs n) \<in> lexord {(a, b). a < b})"
  using lexord_irreflexive [of "{(a, b). a < b}" "bytes_at m rhs n"] by (auto simp: memcmp_lexord)

text \<open>C12. On two strings \<open>strcmp\<close> returns, is 0 exactly when they are equal, and is negative
  exactly when the first comes before the second in byte order.\<close>

theorem strcmp_order:
  assumes "cstring m p xs" and "cstring m q ys"
  shows "\<exists>r. strcmp p q m = ok r \<and> (r = 0 \<longleftrightarrow> xs = ys) \<and>
    (r < 0 \<longleftrightarrow> (xs, ys) \<in> lexord {(a, b). a < b})"
  using assms by (rule strcmp_cstring)

theorem strcmp_order_witness:
  "\<exists>r. strcmp 0x10 0x14 (memory_of 0x10 [97, 98, 99, 0, 97, 98, 0]) = ok r \<and>
    (r = 0 \<longleftrightarrow> [97, 98, 99 :: u8] = [97, 98]) \<and>
    (r < 0 \<longleftrightarrow> ([97, 98, 99 :: u8], [97, 98]) \<in> lexord {(a, b). a < b})"
  by (rule strcmp_order) (code_simp, code_simp)

text \<open>C13. \<open>strstr\<close> returns on two strings; its result is the first place where the second string
  occurs in the first, or null when it does not occur.\<close>

theorem strstr_first_occurrence:
  assumes "cstring m p xs" and "cstring m q ys"
  shows "\<exists>r. strstr p q m = ok r \<and>
    (case r of
       None \<Rightarrow> \<not> sublist ys xs
     | Some a \<Rightarrow> \<exists>i. i \<le> length xs \<and> a = p + of_nat i \<and> prefix ys (drop i xs) \<and>
         (\<forall>j<i. \<not> prefix ys (drop j xs)))"
proof (cases "ys = []")
  case True
  then show ?thesis
    using assms(2) by (auto simp: strstr_def intro!: exI [of _ "Some p"] exI [of _ 0])
next
  case False
  then have "m q \<noteq> 0"
    using assms(2) by (cases ys) auto
  then have strstr: "strstr p q m = ok (map_option (\<lambda>i. p + of_nat i) (find_sub ys xs))"
    using strstr_loop_cstring [OF assms False] by (simp add: strstr_def)
  show ?thesis
  proof (cases "find_sub ys xs")
    case None
    then show ?thesis
      using strstr find_sub_None [OF False, of xs] by auto
  next
    case (Some i)
    then show ?thesis
      using strstr find_sub_Some [OF Some] by (auto intro!: exI [of _ i])
  qed
qed

theorem strstr_first_occurrence_witness:
  "\<exists>r. strstr 0x10 0x16 (memory_of 0x10 [97, 97, 98, 97, 98, 0, 97, 98, 0]) = ok r \<and>
    (case r of
       None \<Rightarrow> \<not> sublist [97, 98] [97, 97, 98, 97, 98 :: u8]
     | Some a \<Rightarrow> \<exists>i. i \<le> length [97, 97, 98, 97, 98 :: u8] \<and> a = 0x10 + of_nat i \<and>
         prefix [97, 98] (drop i [97, 97, 98, 97, 98 :: u8]) \<and>
         (\<forall>j<i. \<not> prefix [97, 98] (drop j [97, 97, 98, 97, 98 :: u8])))"
  by (rule strstr_first_occurrence) (code_simp, code_simp)

end
