(* ===== verification/PmmRun.thy ===== *)
theory PmmRun
  imports PmmProps
begin

text \<open>
  Slots of the map. A page taken from the front of a free entry joins the entry before it when that ends there
  and has the requested type, so pages taken one after the other for the same use stay one entry. \<open>slots s r\<close> counts
  with this: it says that there are slots for \<open>r\<close> calls of any kind, and it survives any number of allocations of
  a single page of type \<open>PMM_MAP_TYPE_USED\<close>, which is how the page database takes its memory.
\<close>

section \<open>Taking the front of an entry\<close>

lemma ins_list_size:
  assumes "\<And>e. e \<in> set ys \<Longrightarrow> me_base e \<le> base" and "\<And>e. e \<in> set zs \<Longrightarrow> \<not> me_base e \<le> base"
  shows "length (ins_list base len t (ys @ zs)) +
    of_bool (ys \<noteq> [] \<and> me_type (last ys) = t \<and> me_base (last ys) + me_length (last ys) = base) \<le> Suc (length ys + length zs)"
proof -
  have "takeWhile (\<lambda>e. me_base e \<le> base) zs = []" "dropWhile (\<lambda>e. me_base e \<le> base) zs = zs"
    using assms(2) by (cases zs; simp)+
  then show ?thesis
    using assms(1) by (auto simp: ins_list_def Let_def neq_Nil_conv)
qed

text \<open>The entries around slot \<open>k\<close>.\<close>

lemma slot_order:
  assumes "arr_ok s" and "wf_map (live s)" and "i < j" and "j < g_pmm_map_size s"
  shows "hi (g_pmm_map s ! i) \<le> lo (g_pmm_map s ! j)"
proof -
  have "sorted_wrt (\<lambda>a b. hi a \<le> lo b) (live s)"
    using assms(2) by (simp add: wf_map_def)
  then show ?thesis
    using sorted_wrt_nth_less [of _ "live s" i j] assms(1,3,4) by (simp add: slot_live)
qed

definition joins :: "pmm_state \<Rightarrow> nat \<Rightarrow> u64 \<Rightarrow> pmm_map_type \<Rightarrow> bool" where
  "joins s k base t \<longleftrightarrow> 0 < k \<and> me_type (g_pmm_map s ! (k - 1)) = t \<and> hi (g_pmm_map s ! (k - 1)) = unat base"

lemma insert_size:
  assumes arr: "arr_ok s1" and wf: "wf_map (live s1)" and stale: "stale_ok s1 {unat base..<region_end base len}"
    and cap: "g_pmm_map_size s1 < PMM_MAP_MAX_ENTRIES" and r: "region_ok base len" "len \<noteq> 0"
    and live: "live s1 = take k (live s) @ zs" and s: "arr_ok s" "wf_map (live s)" "k < g_pmm_map_size s"
    and at: "me_base (g_pmm_map s ! k) = base"
    and zs: "\<And>e. e \<in> set zs \<Longrightarrow> region_end base len \<le> lo e"
  obtains s' where "pmm_map_set_insert base len t s1 = ok s'"
    and "g_pmm_map_size s' + of_bool (joins s k base t) \<le> Suc (g_pmm_map_size s1)"
proof -
  have L: "unat base < region_end base len"
    using r by (simp add: unat_gt_0)
  have ys: "hi e \<le> unat base" if "e \<in> set (take k (live s))" for e
  proof -
    obtain j where j: "j < k" "e = live s ! j"
      using \<open>e \<in> set (take k (live s))\<close> by (auto simp: in_set_conv_nth)
    have "hi (g_pmm_map s ! j) \<le> lo (g_pmm_map s ! k)"
      by (rule slot_order [OF s(1,2) j(1) s(3)])
    then show ?thesis
      using j s(3) at by (simp add: slot_live lo_def)
  qed
  have clear: "clear_of (unat base) (region_end base len) e" if "e \<in> set (live s1)" for e
    using that ys zs by (auto simp: live clear_of_def)
  obtain s' where s': "pmm_map_set_insert base len t s1 = ok s'" "arr_ok s'" "live s' = ins_list base len t (live s1)"
    by (rule pmm_map_set_insert_live [OF arr cap wf stale r _ clear]) auto
  have below: "me_base e \<le> base" if e: "e \<in> set (take k (live s))" for e
  proof -
    have "lo e < hi e"
      using wf_map_entry [OF s(2)] e by (intro entry_ok_less) (auto dest: in_set_takeD)
    then show ?thesis
      using ys [OF e] by (simp add: lo_def word_le_nat_alt)
  qed
  have above: "\<not> me_base e \<le> base" if "e \<in> set zs" for e
    using zs [OF that] L by (auto simp: lo_def word_le_nat_alt)
  have "take k (live s) \<noteq> [] \<and> me_type (last (take k (live s))) = t \<and>
      me_base (last (take k (live s))) + me_length (last (take k (live s))) = base" if j: "joins s k base t"
  proof -
    have k: "0 < k" "k \<le> length (live s)"
      using j s(1,3) by (simp_all add: joins_def)
    then have "last (take k (live s)) = live s ! (k - 1)"
      by (subst last_conv_nth) auto
    then have last: "last (take k (live s)) = g_pmm_map s ! (k - 1)"
      using s(3) by (simp add: slot_live)
    have "entry_ok (g_pmm_map s ! (k - 1))"
      using s(3) by (intro wf_map_entry [OF s(2)] slot_mem_live [OF s(1)]) simp
    from entry_end [OF this] have "me_base (g_pmm_map s ! (k - 1)) + me_length (g_pmm_map s ! (k - 1)) = base"
      using j by (simp add: joins_def word_eq_unat)
    then show ?thesis
      using j k last by (auto simp: joins_def)
  qed
  moreover have "g_pmm_map_size s1 = length (take k (live s)) + length zs"
    using length_live [OF arr] by (simp add: live)
  ultimately have "length (live s') + of_bool (joins s k base t) \<le> Suc (g_pmm_map_size s1)"
    using ins_list_size [of "take k (live s)" base zs len t, OF below above]
    unfolding s'(3) live by (auto split: if_splits)
  then show thesis
    using that [OF s'(1)] s'(2) by simp
qed

text \<open>Overriding the front of an entry: the entry shrinks or goes, and the region joins what is before it or
  becomes an entry of its own.\<close>

lemma front_size:
  assumes inv: "pmm_inv s" and k: "k < g_pmm_map_size s" and cap: "g_pmm_map_size s < PMM_MAP_MAX_ENTRIES"
    and at: "me_base (g_pmm_map s ! k) = base" and r: "region_ok base len" "len \<noteq> 0"
    and fit: "region_end base len \<le> hi (g_pmm_map s ! k)"
    and set: "pmm_map_set base len t True s = ok s'"
  shows "g_pmm_map_size s' + of_bool (joins s k base t) + of_bool (region_end base len = hi (g_pmm_map s ! k)) \<le>
    Suc (g_pmm_map_size s)"
proof -
  let ?e = "g_pmm_map s ! k" and ?b = "unat base" and ?h = "region_end base len"
  have arr: "arr_ok s" and wf: "wf_map (live s)"
    using inv by (simp_all add: pmm_inv_def)
  have stale: "stale_ok s {?b..<?h}"
    using inv by (auto simp: pmm_inv_def stale_ok_def)
  have ok: "entry_ok ?e"
    by (rule wf_map_entry [OF wf slot_mem_live [OF arr k]])
  have L: "?b < ?h" and lo: "lo ?e = ?b"
    using r at by (simp_all add: unat_gt_0 lo_def)
  have k64: "unat (of_nat k :: u64) = k"
    using k arr by (intro unat_of_nat_64) (simp add: arr_ok_def PMM_MAP_MAX_ENTRIES_def)
  have skip: "pmm_map_set base len t True s = pmm_map_set_loop base len t True (of_nat k) s"
    unfolding pmm_map_set_def
  proof (rule loop_skip [OF arr wf r(1)])
    fix j assume "j < k"
    then show "clear_of ?b ?h (g_pmm_map s ! j)"
      using slot_order [OF arr wf _ k, of j] lo by (simp add: clear_of_def)
  qed (use k in simp_all)
  have after: "hi ?e \<le> lo e" if e: "e \<in> set (drop (Suc k) (live s))" for e
  proof -
    obtain j where "j < length (drop (Suc k) (live s))" "e = drop (Suc k) (live s) ! j"
      using e by (metis in_set_conv_nth)
    then have j: "Suc k + j < g_pmm_map_size s" "e = live s ! (Suc k + j)"
      using arr k by (simp_all add: less_diff_conv add.commute)
    then show ?thesis
      using slot_order [OF arr wf _ j(1), of k] by (simp add: slot_live)
  qed
  show ?thesis
  proof (cases "?h = hi ?e")
    case True
    let ?s1 = "map_delete k s"
    have ac: "after_cut s ?b ?h ?e ?s1"
      by (rule map_delete_after_cut [OF arr k wf stale]) (use lo True in simp_all)
    then have s1: "arr_ok ?s1" "wf_map (live ?s1)" "stale_ok ?s1 {?b..<?h}"
      by (simp_all add: after_cut_def)
    have live: "live ?s1 = take k (live s) @ drop (Suc k) (live s)"
      by (rule map_delete_ok(2) [OF arr k])
    have size: "g_pmm_map_size ?s1 < PMM_MAP_MAX_ENTRIES" "Suc (g_pmm_map_size ?s1) = g_pmm_map_size s"
      using map_delete_ok(4) [OF arr k] cap k by simp_all
    obtain s2 where s2: "pmm_map_set_insert base len t ?s1 = ok s2"
      "g_pmm_map_size s2 + of_bool (joins s k base t) \<le> Suc (g_pmm_map_size ?s1)"
      by (rule insert_size [OF s1 size(1) r live arr wf k at]) (use after True in auto)
    have "pmm_map_set_iter base len t True (of_nat k) s = Iter_next base len (of_nat k) ?s1"
      using iter_equal [of s "of_nat k" base len t True] ok r(1) lo True by (simp add: k64)
    then have "pmm_map_set base len t True s = pmm_map_set_loop base len t True (of_nat k) ?s1"
      using skip k by (subst (asm) pmm_map_set_loop.simps) (simp add: k64)
    also have "\<dots> = pmm_map_set_insert base len t ?s1"
    proof (rule loop_clear [OF s1(1,2) r(1)])
      fix e assume "e \<in> set (drop (unat (of_nat k :: u64)) (live ?s1))"
      then show "clear_of ?b ?h e"
        using after True arr k by (simp add: live k64 clear_of_def)
    qed
    finally show ?thesis
      using set s2 size(2) True by simp
  next
    case False
    then have fit': "?h < hi ?e"
      using fit by simp
    let ?e' = "?e\<lparr>me_length := me_base ?e + me_length ?e - (base + len), me_base := base + len\<rparr>"
    let ?s1 = "set_slot k ?e' s"
    have pos: "lo ?e < ?h"
      using lo L by simp
    note e' = cut_high [OF ok r(1) pos fit']
    have ac: "after_cut s ?b ?h ?e ?s1"
      using e' lo fit' by (intro set_slot_after_cut arr k wf stale) (auto simp: contains_def)
    then have s1: "arr_ok ?s1" "wf_map (live ?s1)" "stale_ok ?s1 {?b..<?h}"
      by (simp_all add: after_cut_def)
    have live: "live ?s1 = take k (live s) @ ?e' # drop (Suc k) (live s)"
      using set_slot_ok(2) [OF arr k] arr k by (simp add: upd_conv_take_nth_drop)
    have size: "g_pmm_map_size ?s1 < PMM_MAP_MAX_ENTRIES" "g_pmm_map_size ?s1 = g_pmm_map_size s"
      using set_slot_ok(4) [OF arr k] cap by simp_all
    have zs: "?h \<le> lo e" if "e \<in> set (?e' # drop (Suc k) (live s))" for e
      using that after [of e] e' fit' by auto
    obtain s2 where s2: "pmm_map_set_insert base len t ?s1 = ok s2"
      "g_pmm_map_size s2 + of_bool (joins s k base t) \<le> Suc (g_pmm_map_size ?s1)"
      by (rule insert_size [OF s1 size(1) r live arr wf k at zs]) auto
    have next_k: "unat (of_nat k + 1 :: u64) = Suc k"
      using unat_Suc_index [OF arr, of "of_nat k"] k by (simp add: k64)
    have "pmm_map_set_iter base len t True (of_nat k) s = Iter_next base len (of_nat k + 1) ?s1"
      using iter_end [of s "of_nat k" base len t True] arr k ok r(1) lo pos fit' by (simp add: k64 Let_def)
    then have "pmm_map_set base len t True s = pmm_map_set_loop base len t True (of_nat k + 1) ?s1"
      using skip k by (subst (asm) pmm_map_set_loop.simps) (simp add: k64)
    also have "\<dots> = pmm_map_set_insert base len t ?s1"
    proof (rule loop_clear [OF s1(1,2) r(1)])
      fix e assume "e \<in> set (drop (unat (of_nat k + 1 :: u64)) (live ?s1))"
      then have "e \<in> set (drop (Suc k) (live s))"
        using set_slot_rest(2) [OF arr k, of ?e'] by (simp add: next_k)
      from after [OF this] show "clear_of ?b ?h e"
        using fit by (simp add: clear_of_def)
    qed
    finally show ?thesis
      using set s2 size(2) False by simp
  qed
qed

section \<open>Whole pages\<close>

text \<open>Free memory comes in whole pages: with a free address its entry holds the page around it.\<close>

definition pagewise :: "pmm_state \<Rightarrow> bool" where
  "pagewise s \<longleftrightarrow> (\<forall>x. type_at (live s) x = Some PMM_MAP_TYPE_FREE \<longrightarrow>
     held (live s) (x div 4096 * 4096) (x div 4096 * 4096 + 4096))"

lemma page_inside:
  fixes a n x :: nat
  assumes "4096 dvd a" and "4096 dvd n" and "a \<le> x" and "x < a + n"
  shows "a \<le> x div 4096 * 4096" and "x div 4096 * 4096 + 4096 \<le> a + n"
proof -
  obtain p q where "a = 4096 * p" "n = 4096 * q"
    using assms(1,2) by (auto simp: dvd_def)
  moreover from this have "p \<le> x div 4096" "x div 4096 < p + q"
    using assms(3,4) by (simp_all add: less_eq_div_iff_mult_less_eq div_less_iff_less_mult algebra_simps)
  ultimately show "a \<le> x div 4096 * 4096" "x div 4096 * 4096 + 4096 \<le> a + n"
    by simp_all
qed

lemma pagewiseI:
  assumes "wf_map (live s)"
    and "\<And>e. e \<in> set (live s) \<Longrightarrow> me_type e = PMM_MAP_TYPE_FREE \<Longrightarrow> 4096 dvd lo e \<and> 4096 dvd hi e"
  shows "pagewise s"
  unfolding pagewise_def
proof (intro allI impI)
  fix x assume "type_at (live s) x = Some PMM_MAP_TYPE_FREE"
  then obtain e where e: "e \<in> set (live s)" "contains e x" "me_type e = PMM_MAP_TYPE_FREE"
    using type_at_Some_iff [OF assms(1)] by auto
  have al: "4096 dvd lo e" "4096 dvd hi e - lo e" "lo e \<le> x" "x < lo e + (hi e - lo e)"
    using assms(2) [OF e(1,3)] e(2) by (auto simp: contains_def)
  show "held (live s) (x div 4096 * 4096) (x div 4096 * 4096 + 4096)"
    using page_inside [OF al] al(3,4) e(1) by (auto simp: held_def)
qed

text \<open>Overriding whole pages keeps it.\<close>

lemma pagewise_set:
  assumes pw: "pagewise s" and al: "4096 dvd a" "4096 dvd n" and held: "held (live s') a (a + n)"
    and keeps: "keeps_held (live s) a (a + n) (live s')"
    and type: "\<And>x. type_at (live s') x = (if a \<le> x \<and> x < a + n then Some t else type_at (live s) x)"
  shows "pagewise s'"
  unfolding pagewise_def
proof (intro allI impI)
  fix x assume x: "type_at (live s') x = Some PMM_MAP_TYPE_FREE"
  let ?p = "x div 4096 * 4096"
  show "held (live s') ?p (?p + 4096)"
  proof (cases "a \<le> x \<and> x < a + n")
    case True
    then show ?thesis
      using page_inside [OF al, of x] by (intro held_mono [OF held]) simp_all
  next
    case False
    then have "type_at (live s) x = Some PMM_MAP_TYPE_FREE"
      using x type [of x] by (simp split: if_splits)
    then have "held (live s) ?p (?p + 4096)"
      using pw by (simp add: pagewise_def)
    moreover have "?p + 4096 \<le> a \<or> a + n \<le> ?p"
    proof (rule ccontr)
      assume "\<not> ?thesis"
      moreover obtain u v where "a = 4096 * u" "n = 4096 * v"
        using al by (auto simp: dvd_def)
      ultimately have "u \<le> x div 4096" "x div 4096 < u + v"
        by auto
      then show False
        using False \<open>a = 4096 * u\<close> \<open>n = 4096 * v\<close>
        by (simp add: less_eq_div_iff_mult_less_eq div_less_iff_less_mult algebra_simps)
    qed
    ultimately show ?thesis
      using keeps by (simp add: keeps_held_def)
  qed
qed

lemma took_pagewise: "pagewise s \<Longrightarrow> 4096 dvd a \<Longrightarrow> 4096 dvd n \<Longrightarrow> took s a n t s' \<Longrightarrow> pagewise s'"
  by (rule pagewise_set [where a = a and n = n and t = t and s = s]) (simp_all add: took_def)

section \<open>Runs of used pages\<close>

text \<open>The memory before the first free address is used.\<close>

definition first_free :: "pmm_state \<Rightarrow> nat \<Rightarrow> bool" where
  "first_free s f \<longleftrightarrow> type_at (live s) f = Some PMM_MAP_TYPE_FREE \<and>
     (\<forall>x<f. type_at (live s) x \<noteq> Some PMM_MAP_TYPE_FREE)"

definition used_run :: "pmm_state \<Rightarrow> bool" where
  "used_run s \<longleftrightarrow> (\<exists>f. first_free s f \<and> 0 < f \<and> type_at (live s) (f - 1) = Some PMM_MAP_TYPE_USED)"

definition slots :: "pmm_state \<Rightarrow> nat \<Rightarrow> bool" where
  "slots s r \<longleftrightarrow> g_pmm_map_size s + 3 * r + (if used_run s then 2 else 3) \<le> PMM_MAP_MAX_ENTRIES"

lemma slotsI: "g_pmm_map_size s + 3 * r + 3 \<le> PMM_MAP_MAX_ENTRIES \<Longrightarrow> slots s r"
  by (simp add: slots_def)

lemma slots_room: "slots s r \<Longrightarrow> pmm_room s (Suc r)"
  by (simp add: slots_def pmm_room_def split: if_splits)

lemma slots_mono: "slots s r \<Longrightarrow> q \<le> r \<Longrightarrow> slots s q"
  by (simp add: slots_def split: if_splits)

lemma slots_next: "slots s (Suc r) \<Longrightarrow> g_pmm_map_size s' \<le> g_pmm_map_size s + 2 \<Longrightarrow> slots s' r"
  by (simp add: slots_def split: if_splits)

lemma first_free_unique: "first_free s f \<Longrightarrow> first_free s g \<Longrightarrow> f = g"
  unfolding first_free_def by (metis linorder_neqE_nat)

text \<open>A single page comes from the first free address.\<close>

lemma first_page:
  assumes wf: "wf_map (live s)" and pw: "pagewise s" and fit: "fits_at s a 4096" and al: "4096 dvd a"
    and first: "\<And>k. 4096 dvd k \<Longrightarrow> fits_at s k 4096 \<Longrightarrow> a \<le> k"
  shows "first_free s a"
proof -
  have "a \<le> x" if x: "type_at (live s) x = Some PMM_MAP_TYPE_FREE" for x
  proof -
    let ?p = "x div 4096 * 4096"
    have "held (live s) ?p (?p + 4096)"
      using pw x by (simp add: pagewise_def)
    then obtain e where e: "e \<in> set (live s)" "lo e \<le> ?p" "?p + 4096 \<le> hi e"
      by (auto simp: held_def)
    have "x < ?p + 4096"
      using div_mult_mod_eq [of x 4096] mod_less_divisor [of 4096 x] by linarith
    then have "contains e x"
      using e by (simp add: contains_def order_trans [OF e(2)])
    then have "me_type e = PMM_MAP_TYPE_FREE"
      using type_at_mem [OF wf e(1)] x by simp
    then have "fits_at s ?p 4096"
      using e by (auto simp: fits_at_def)
    then have "a \<le> ?p"
      by (intro first) simp_all
    then show ?thesis
      by (rule order_trans) simp
  qed
  moreover have "type_at (live s) a = Some PMM_MAP_TYPE_FREE"
    using fits_at_free [OF wf fit, of a] by simp
  ultimately show ?thesis
    unfolding first_free_def by (metis not_le)
qed

text \<open>The entry of the first free address begins there; the run before it, if there is one, is the entry before.\<close>

lemma first_free_slot:
  assumes inv: "pmm_inv s" and f: "first_free s f"
  obtains k where "k < g_pmm_map_size s" and "lo (g_pmm_map s ! k) = f"
    and "me_type (g_pmm_map s ! k) = PMM_MAP_TYPE_FREE"
    and "0 < f \<and> type_at (live s) (f - 1) = Some t \<longrightarrow> joins s k (me_base (g_pmm_map s ! k)) t"
proof -
  have arr: "arr_ok s" and wf: "wf_map (live s)"
    using inv by (simp_all add: pmm_inv_def)
  obtain e where e: "e \<in> set (live s)" "contains e f" "me_type e = PMM_MAP_TYPE_FREE"
    using f type_at_Some_iff [OF wf] by (auto simp: first_free_def)
  obtain k where k: "k < g_pmm_map_size s" "e = live s ! k"
    using e(1) arr by (metis in_set_conv_nth length_live)
  then have slot: "g_pmm_map s ! k = e"
    by (simp add: slot_live)
  have "type_at (live s) (lo e) = Some PMM_MAP_TYPE_FREE"
    using type_at_mem [OF wf e(1), of "lo e"] e entry_ok_less [OF wf_map_entry [OF wf e(1)]] by (simp add: contains_def)
  then have lo: "lo e = f"
    using f e(2) unfolding first_free_def contains_def by (metis nat_less_le)
  have "joins s k (me_base e) t" if pos: "0 < f" and t: "type_at (live s) (f - 1) = Some t"
  proof -
    obtain d where d: "d \<in> set (live s)" "contains d (f - 1)" "me_type d = t"
      using t type_at_Some_iff [OF wf] by auto
    obtain j where j: "j < g_pmm_map_size s" "d = live s ! j"
      using d(1) arr by (metis in_set_conv_nth length_live)
    have dj: "g_pmm_map s ! j = d"
      using j by (simp add: slot_live)
    have "j < k"
    proof (rule ccontr)
      assume "\<not> j < k"
      moreover have "j \<noteq> k"
        using d(2) lo pos k(2) j(2) by (auto simp: contains_def)
      ultimately have "hi e \<le> lo d"
        using slot_order [OF arr wf _ j(1), of k] slot dj by simp
      then show False
        using d(2) e(2) unfolding contains_def by linarith
    qed
    then have hi: "hi d = f"
      using slot_order [OF arr wf _ k(1), of j] slot dj lo d(2) pos unfolding contains_def by auto
    have "j = k - 1"
    proof (rule ccontr)
      assume "j \<noteq> k - 1"
      then have jk: "j < k - 1" "k - 1 < g_pmm_map_size s" "k - 1 < k"
        using \<open>j < k\<close> k(1) by simp_all
      have "f \<le> lo (g_pmm_map s ! (k - 1))" "hi (g_pmm_map s ! (k - 1)) \<le> f"
        using slot_order [OF arr wf jk(1,2)] slot_order [OF arr wf jk(3) k(1)] slot dj lo hi by simp_all
      moreover have "lo (g_pmm_map s ! (k - 1)) < hi (g_pmm_map s ! (k - 1))"
        by (rule entry_ok_less [OF wf_map_entry [OF wf slot_mem_live [OF arr jk(2)]]])
      ultimately show False
        by simp
    qed
    then show ?thesis
      using \<open>j < k\<close> d(3) dj hi lo by (auto simp: joins_def lo_def)
  qed
  then show thesis
    using that [of k] k(1) slot lo e(3) by simp
qed

text \<open>Taking one more page of type used costs no slot.\<close>

lemma slots_used_page:
  assumes inv: "pmm_inv s" and pw: "pagewise s" and sl: "slots s r"
    and a: "4096 dvd unat a" "fits_at s (unat a) 4096" "\<And>k. 4096 dvd k \<Longrightarrow> fits_at s k 4096 \<Longrightarrow> unat a \<le> k"
    and set: "pmm_map_set a 4096 PMM_MAP_TYPE_USED True s = ok s'"
    and took: "took s (unat a) 4096 PMM_MAP_TYPE_USED s'"
  shows "slots s' r"
proof -
  have arr: "arr_ok s" and wf: "wf_map (live s)"
    using inv by (simp_all add: pmm_inv_def)
  note first = first_page [OF wf pw a(2,1,3)]
  obtain k where k: "k < g_pmm_map_size s" "lo (g_pmm_map s ! k) = unat a"
    "me_type (g_pmm_map s ! k) = PMM_MAP_TYPE_FREE"
    "0 < unat a \<and> type_at (live s) (unat a - 1) = Some PMM_MAP_TYPE_USED \<longrightarrow>
      joins s k (me_base (g_pmm_map s ! k)) PMM_MAP_TYPE_USED"
    by (rule first_free_slot [OF inv first, of PMM_MAP_TYPE_USED])
  let ?e = "g_pmm_map s ! k"
  have base: "me_base ?e = a"
    using k(2) by (simp add: lo_def word_eq_unat)
  have mem: "?e \<in> set (live s)"
    by (rule slot_mem_live [OF arr k(1)])
  have "contains ?e (unat a)"
    using k(2) entry_ok_less [OF wf_map_entry [OF wf mem]] by (simp add: contains_def)
  moreover obtain d where d: "d \<in> set (live s)" "lo d \<le> unat a" "unat a + 4096 \<le> hi d"
    using a(2) by (auto simp: fits_at_def)
  then have "contains d (unat a)"
    by (simp add: contains_def)
  ultimately have "d = ?e"
    using wf_map_unique [OF wf d(1) mem] by blast
  then have fit: "unat a + unat (4096 :: u64) \<le> hi ?e"
    using d(3) by simp
  have r: "region_ok a 4096" "(4096 :: u64) \<noteq> 0"
    using fits_at_region_ok [OF wf, of a 4096] a(2) by simp_all
  have cap: "g_pmm_map_size s < PMM_MAP_MAX_ENTRIES"
    using sl by (simp add: slots_def split: if_splits)
  have size: "g_pmm_map_size s' + of_bool (joins s k a PMM_MAP_TYPE_USED) + of_bool (unat a + 4096 = hi ?e) \<le>
      Suc (g_pmm_map_size s)"
    using front_size [OF inv k(1) cap base r fit set] by simp
  have "joins s k a PMM_MAP_TYPE_USED" if "used_run s"
    using that first_free_unique [OF first] k(4) unfolding used_run_def base by blast
  moreover have "used_run s'" if "unat a + 4096 \<noteq> hi ?e"
  proof -
    have type: "type_at (live s') x = (if unat a \<le> x \<and> x < unat a + 4096 then Some PMM_MAP_TYPE_USED
        else type_at (live s) x)" for x
      using took by (simp add: took_def)
    have "contains ?e (unat a + 4096)"
      using that fit k(2) by (simp add: contains_def)
    then have "type_at (live s) (unat a + 4096) = Some PMM_MAP_TYPE_FREE"
      using type_at_mem [OF wf mem] k(3) by simp
    then have "first_free s' (unat a + 4096)"
      using first by (auto simp: first_free_def type)
    moreover have "type_at (live s') (unat a + 4096 - 1) = Some PMM_MAP_TYPE_USED"
      by (simp add: type)
    ultimately show ?thesis
      unfolding used_run_def by (intro exI [of _ "unat a + 4096"]) simp
  qed
  ultimately show ?thesis
    using sl size by (cases "unat a + 4096 = hi ?e"; cases "used_run s") (auto simp: slots_def split: if_splits)
qed

end
