(* ===== verification/PmmSpare.thy ===== *)
theory PmmSpare
  imports PmmRun
begin

text \<open>
  When allocations succeed. \<open>spare r p\<close> says that the map has slots for \<open>r\<close> more allocations and
  one free entry with \<open>p\<close> whole pages. First fit keeps it: an allocation of \<open>j\<close> pages, wherever
  it comes from, leaves a spare of \<open>p - j\<close>. So any sequence of requests for at most \<open>p\<close> pages in
  total succeeds. Single pages of type used cost pages but no slots. \<open>frames_taken\<close> bounds the number of single pages a component has allocated.
\<close>

definition reserve :: "pmm_state \<Rightarrow> nat \<Rightarrow> bool" where
  "reserve s p \<longleftrightarrow> p = 0 \<or> (\<exists>k. 4096 dvd k \<and> fits_at s k (4096 * p))"

text \<open>The map knows no memory from \<open>2 ^ 51\<close> on, where the address masks of the x86-64 entries end.\<close>

definition spare :: "nat \<Rightarrow> nat \<Rightarrow> pmm_state \<Rightarrow> bool" where
  "spare r p s \<longleftrightarrow> pmm_inv s \<and> slots s r \<and> pagewise s \<and> (\<forall>x. 2 ^ 51 \<le> x \<longrightarrow> type_at (live s) x = None) \<and>
     reserve s p"

lemma fits_at_mono: "fits_at s k n \<Longrightarrow> k \<le> k' \<Longrightarrow> k' + n' \<le> k + n \<Longrightarrow> fits_at s k' n'"
  by (auto simp: fits_at_def intro: order_trans)

lemma fits_atI:
  assumes wf: "wf_map (live s)" and held: "held (live s) k (k + n)" and n: "0 < n"
    and free: "type_at (live s) k = Some PMM_MAP_TYPE_FREE"
  shows "fits_at s k n"
proof -
  obtain e where e: "e \<in> set (live s)" "lo e \<le> k" "k + n \<le> hi e"
    using held by (auto simp: held_def)
  moreover have "me_type e = PMM_MAP_TYPE_FREE"
    using type_at_mem [OF wf e(1), of k] e n free by (simp add: contains_def)
  ultimately show ?thesis
    by (auto simp: fits_at_def)
qed

lemma reserve_mono: "reserve s p \<Longrightarrow> q \<le> p \<Longrightarrow> reserve s q"
  unfolding reserve_def by (metis fits_at_mono mult_le_mono2 nat_add_left_cancel_le order_refl
      le_zero_eq)

lemma spare_mono: "spare r p s \<Longrightarrow> r' \<le> r \<Longrightarrow> p' \<le> p \<Longrightarrow> spare r' p' s"
  using reserve_mono slots_mono by (auto simp: spare_def)

text \<open>A map whose entries are whole pages.\<close>

lemma spareI:
  assumes "pmm_inv s" and "g_pmm_map_size s + 3 * r + 3 \<le> PMM_MAP_MAX_ENTRIES"
    and "\<And>e. e \<in> set (live s) \<Longrightarrow> 4096 dvd lo e \<and> 4096 dvd hi e \<and> hi e \<le> 2 ^ 51"
    and "4096 dvd k" and "fits_at s k (4096 * p)"
  shows "spare r p s"
  unfolding spare_def
proof (intro conjI allI impI)
  show "pagewise s"
    by (rule pagewiseI) (use assms(1,3) in \<open>auto simp: pmm_inv_def\<close>)
  fix x :: nat assume x: "2 ^ 51 \<le> x"
  have "\<not> contains e x" if "e \<in> set (live s)" for e
    using assms(3) [OF that] x by (simp add: contains_def)
  then show "type_at (live s) x = None"
    by (simp add: type_at_None_iff)
qed (use assms slotsI in \<open>auto simp: reserve_def\<close>)

text \<open>A free range that an allocation does not touch stays free, in one entry.\<close>

lemma took_fits:
  assumes wf: "wf_map (live s)" and took: "took s a n t s'" and fit: "fits_at s k m" and m: "0 < m"
    and apart: "k + m \<le> a \<or> a + n \<le> k"
  shows "fits_at s' k m"
proof (rule fits_atI)
  show "wf_map (live s')"
    using took by (simp add: took_def pmm_inv_def)
  have "held (live s) k (k + m)"
    using fit by (rule fits_at_held)
  then show "held (live s') k (k + m)"
    using took apart m unfolding took_def keeps_held_def by (metis less_add_same_cancel1)
  have "type_at (live s) k = Some PMM_MAP_TYPE_FREE"
    using fits_at_free [OF wf fit, of k] m by simp
  then show "type_at (live s') k = Some PMM_MAP_TYPE_FREE"
    using took apart m by (auto simp: took_def)
qed (fact m)

lemma took_reserve:
  assumes wf: "wf_map (live s)" and took: "took s a (4096 * j) t s'" and res: "reserve s p"
    and j: "0 < j" "j \<le> p" and al: "4096 dvd a"
    and first: "\<And>k. 4096 dvd k \<Longrightarrow> fits_at s k (4096 * j) \<Longrightarrow> a \<le> k"
  shows "reserve s' (p - j)"
proof (cases "j = p")
  case True
  then show ?thesis
    by (simp add: reserve_def)
next
  case False
  then obtain k where k: "4096 dvd k" "fits_at s k (4096 * p)"
    using res j by (auto simp: reserve_def)
  have a: "a \<le> k"
    using first [OF k(1)] fits_at_mono [OF k(2)] j(2) by simp
  have size: "4096 * (p - j) = 4096 * p - 4096 * j"
    by (simp add: diff_mult_distrib2)
  show ?thesis
  proof (cases "a + 4096 * j \<le> k")
    case True
    have "fits_at s k (4096 * (p - j))"
      by (rule fits_at_mono [OF k(2)]) simp_all
    then have "fits_at s' k (4096 * (p - j))"
      by (rule took_fits [OF wf took]) (use True False j in simp_all)
    then show ?thesis
      using k(1) by (auto simp: reserve_def)
  next
    case False2: False
    have "fits_at s (a + 4096 * j) (4096 * (p - j))"
      by (rule fits_at_mono [OF k(2)]) (use False2 a j(2) size in simp_all)
    then have "fits_at s' (a + 4096 * j) (4096 * (p - j))"
      by (rule took_fits [OF wf took]) (use False j in simp_all)
    then show ?thesis
      unfolding reserve_def using al by (intro disjI2 exI [of _ "a + 4096 * j"] conjI) simp_all
  qed
qed

lemma spare_top: "spare r p s \<Longrightarrow> top_clear s 4096"
  by (simp add: spare_def top_clear_def)

lemma spare_alloc_ext:
  assumes sup: "spare (Suc r) p s" and j: "0 < unat pc" "unat pc \<le> p"
  obtains a s' where "pmm_alloc_ext pc PTM_PAGE_GRANULARITY t s = ok (a, s')"
    and "4096 dvd unat a" and "fits_at s (unat a) (4096 * unat pc)"
    and "took s (unat a) (4096 * unat pc) t s'" and "spare r (p - unat pc) s'"
proof -
  have inv: "pmm_inv s" and wf: "wf_map (live s)" and room: "pmm_room s 1" and sl: "slots s (Suc r)" and pw: "pagewise s"
    and low: "\<And>x. 2 ^ 51 \<le> x \<Longrightarrow> type_at (live s) x = None" and res: "reserve s p"
    using sup slots_room [of s "Suc r"] by (simp_all add: spare_def pmm_inv_def pmm_room_def)
  obtain k where k: "4096 dvd k" "fits_at s k (4096 * unat pc)"
    using reserve_mono [OF res j(2)] j(1) by (auto simp: reserve_def)
  have "k + 4096 * unat pc < 2 ^ 64"
    using k(2) wf by (auto simp: fits_at_def entry_ok_def dest: wf_map_entry)
  then have pc: "pages_ok pc"
    using j(1) by (auto simp: pages_ok_def page_bytes_def unat_gt_0)
  have below: "below_top s (unat PTM_PAGE_GRANULARITY)"
    using top_clear_below [OF wf] spare_top [OF sup] by simp
  have "PTM_PAGE_GRANULARITY \<noteq> 0"
    by (simp add: page_size_defs)
  then obtain a s' where a: "pmm_alloc_ext pc PTM_PAGE_GRANULARITY t s = ok (a, s')" "4096 dvd unat a"
    "fits_at s (unat a) (4096 * unat pc)" "took s (unat a) (4096 * unat pc) t s'"
    "\<And>k. 4096 dvd k \<Longrightarrow> fits_at s k (4096 * unat pc) \<Longrightarrow> unat a \<le> k"
    using alloc_ext_cases [OF inv room pc _ below, of t] k by (auto simp: page_bytes_def mult.commute)
  have free: "type_at (live s) x = Some PMM_MAP_TYPE_FREE"
    if "unat a \<le> x" "x < unat a + 4096 * unat pc" for x
    using fits_at_free [OF wf a(3) that] .
  have "type_at (live s') x = None" if "2 ^ 51 \<le> x" for x
    using a(4) low [OF that] free [of x] by (auto simp: took_def)
  moreover have "reserve s' (p - unat pc)"
    using took_reserve [OF wf a(4) res j a(2,5)] by simp
  moreover have "slots s' r" "pmm_inv s'" "pagewise s'"
    using a(4) slots_next [OF sl] took_pagewise [OF pw a(2) _ a(4)] by (simp_all add: took_def)
  ultimately show thesis
    using a(1-4) by (intro that [of a s']) (simp_all add: spare_def)
qed

lemma pmm_alloc_ext_sets:
  assumes "pmm_inv s" and "pmm_alloc_ext n PTM_PAGE_GRANULARITY t s = ok (a, s')"
  shows "pmm_map_set a (n * PTM_PAGE_GRANULARITY) t True s = ok s'"
  using assms pmm_alloc_ext_loop_find [of s PTM_PAGE_GRANULARITY]
  by (auto simp: pmm_alloc_ext_def pmm_inv_def page_size_defs res_bind_ok_iff split: option.splits)

text \<open>A page of type used.\<close>

lemma spare_used_page:
  assumes sup: "spare r (Suc p) s"
  obtains a s' where "pmm_alloc_ext 1 PTM_PAGE_GRANULARITY PMM_MAP_TYPE_USED s = ok (a, s')"
    and "4096 dvd unat a" and "fits_at s (unat a) 4096" and "took s (unat a) 4096 PMM_MAP_TYPE_USED s'" and "spare r p s'"
proof -
  have inv: "pmm_inv s" and wf: "wf_map (live s)" and room: "pmm_room s 1" and sl: "slots s r" and pw: "pagewise s"
    and low: "\<And>x. 2 ^ 51 \<le> x \<Longrightarrow> type_at (live s) x = None" and res: "reserve s (Suc p)"
    using sup slots_room [of s r] by (simp_all add: spare_def pmm_inv_def pmm_room_def)
  obtain k where k: "4096 dvd k" "fits_at s k 4096"
    using reserve_mono [OF res, of 1] by (auto simp: reserve_def)
  have below: "below_top s (unat PTM_PAGE_GRANULARITY)"
    using top_clear_below [OF wf] spare_top [OF sup] by simp
  have "PTM_PAGE_GRANULARITY \<noteq> 0" "page_bytes 1 = 4096"
    by (simp_all add: page_size_defs page_bytes_def)
  then obtain a s' where a: "pmm_alloc_ext 1 PTM_PAGE_GRANULARITY PMM_MAP_TYPE_USED s = ok (a, s')" "4096 dvd unat a"
    "fits_at s (unat a) 4096" "took s (unat a) 4096 PMM_MAP_TYPE_USED s'"
    "\<And>k. 4096 dvd k \<Longrightarrow> fits_at s k 4096 \<Longrightarrow> unat a \<le> k"
    using alloc_ext_cases [OF inv room pages_ok_1(1) _ below, of PMM_MAP_TYPE_USED] k unfolding unat_page_granularity by metis
  have "pmm_map_set a 4096 PMM_MAP_TYPE_USED True s = ok s'"
    using pmm_alloc_ext_sets [OF inv a(1)] by (simp add: page_size_defs)
  note slots_used_page [OF inv pw sl a(2,3,5) this a(4)]
  moreover have "type_at (live s') x = None" if "2 ^ 51 \<le> x" for x
    using a(4) low [OF that] fits_at_free [OF wf a(3), of x] by (auto simp: took_def)
  moreover have "reserve s' p"
    using took_reserve [OF wf _ res _ _ a(2), of 1 PMM_MAP_TYPE_USED s'] a(4,5) by simp
  moreover have "pmm_inv s'" "pagewise s'"
    using a(4) took_pagewise [OF pw a(2) _ a(4)] by (simp_all add: took_def)
  ultimately show thesis
    using a(1-4) by (intro that [of a s']) (simp_all add: spare_def)
qed

lemma spare_fits_low:
  assumes "spare r q s" and "fits_at s a N" and "0 < N" shows "a + N \<le> 2 ^ 51"
proof (rule ccontr)
  assume "\<not> a + N \<le> 2 ^ 51"
  then have x: "a \<le> a + N - 1" "a + N - 1 < a + N" "2 ^ 51 \<le> a + N - 1"
    using assms(3) by linarith+
  have "wf_map (live s)"
    using assms(1) by (simp add: spare_def pmm_inv_def)
  from fits_at_free [OF this assms(2) x(1,2)] show False
    using assms(1) x(3) by (simp add: spare_def)
qed

section \<open>Single pages\<close>

primrec frames_taken :: "nat \<Rightarrow> pmm_state \<Rightarrow> pmm_state \<Rightarrow> bool" where
  "frames_taken 0 s s' \<longleftrightarrow> s' = s"
| "frames_taken (Suc j) s s' \<longleftrightarrow>
     s' = s \<or> (\<exists>a s1. pmm_alloc 1 s = ok (a, s1) \<and> frames_taken j s1 s')"

lemma frames_taken_refl [simp]: "frames_taken j s s"
  by (cases j) simp_all

lemma frames_taken_mono: "frames_taken i s s' \<Longrightarrow> i \<le> j \<Longrightarrow> frames_taken j s s'"
proof (induction i arbitrary: j s)
  case (Suc i)
  then show ?case
    by (cases j) auto
qed simp

lemma frames_taken_trans:
  "frames_taken i s s1 \<Longrightarrow> frames_taken j s1 s2 \<Longrightarrow> frames_taken (i + j) s s2"
proof (induction i arbitrary: s)
  case (Suc i)
  then show ?case
    using frames_taken_mono [of j s1 s2 "Suc (i + j)"] by auto
qed simp

lemma spare_frames_taken:
  "frames_taken j s s' \<Longrightarrow> spare (r + j) (p + j) s \<Longrightarrow> spare r p s'"
proof (induction j arbitrary: s)
  case (Suc j)
  show ?case
  proof (cases "s' = s")
    case True
    then show ?thesis
      using spare_mono [OF Suc.prems(2)] by simp
  next
    case False
    then obtain a s1 where a: "pmm_alloc 1 s = ok (a, s1)" "frames_taken j s1 s'"
      using Suc.prems(1) by auto
    have "spare (r + j) (p + Suc j - unat (1 :: u64)) s1"
      by (rule spare_alloc_ext [of "r + j" "p + Suc j" s 1 PMM_MAP_TYPE_ALLOCATED])
        (use Suc.prems(2) a(1) in \<open>auto simp: pmm_alloc_def\<close>)
    then show ?thesis
      using Suc.IH [OF a(2)] by simp
  qed
qed simp

section \<open>Memory that is only taken\<close>

definition only_taken :: "pmm_state \<Rightarrow> pmm_state \<Rightarrow> bool" where
  "only_taken s s' \<longleftrightarrow>
     (\<forall>x. type_at (live s') x \<noteq> type_at (live s) x \<longrightarrow>
        type_at (live s) x = Some PMM_MAP_TYPE_FREE \<and>
        (type_at (live s') x = Some PMM_MAP_TYPE_ALLOCATED \<or> type_at (live s') x = Some PMM_MAP_TYPE_USED)) \<and>
     (\<forall>b h. b < h \<longrightarrow> held (live s) b h \<longrightarrow>
        (\<forall>x. b \<le> x \<longrightarrow> x < h \<longrightarrow> type_at (live s) x \<noteq> Some PMM_MAP_TYPE_FREE) \<longrightarrow> held (live s') b h)"

lemma only_taken_refl [simp]: "only_taken s s"
  by (simp add: only_taken_def)

lemma only_taken_used:
  "only_taken s s' \<Longrightarrow> type_at (live s) x = Some t \<Longrightarrow> t \<noteq> PMM_MAP_TYPE_FREE \<Longrightarrow> type_at (live s') x = Some t"
  unfolding only_taken_def by (metis option.inject)

lemma only_taken_free:
  "only_taken s s' \<Longrightarrow> type_at (live s') x = Some PMM_MAP_TYPE_FREE \<Longrightarrow> type_at (live s) x = Some PMM_MAP_TYPE_FREE"
  unfolding only_taken_def by (metis option.inject pmm_map_type.distinct(1,3))

lemma only_taken_trans:
  assumes "only_taken s s1" and "only_taken s1 s2" shows "only_taken s s2"
proof -
  have "type_at (live s) x = Some PMM_MAP_TYPE_FREE \<and>
      (type_at (live s2) x = Some PMM_MAP_TYPE_ALLOCATED \<or> type_at (live s2) x = Some PMM_MAP_TYPE_USED)"
    if "type_at (live s2) x \<noteq> type_at (live s) x" for x
    using assms that unfolding only_taken_def by (metis option.inject pmm_map_type.distinct(1,3))
  moreover have "held (live s2) b h" if "b < h" "held (live s) b h"
    and used: "\<And>x. b \<le> x \<Longrightarrow> x < h \<Longrightarrow> type_at (live s) x \<noteq> Some PMM_MAP_TYPE_FREE" for b h
  proof -
    have "held (live s1) b h"
      using assms(1) that unfolding only_taken_def by blast
    moreover have "type_at (live s1) x \<noteq> Some PMM_MAP_TYPE_FREE" if "b \<le> x" "x < h" for x
      using only_taken_free [OF assms(1)] used [OF that] by blast
    ultimately show ?thesis
      using assms(2) \<open>b < h\<close> unfolding only_taken_def by blast
  qed
  ultimately show ?thesis
    unfolding only_taken_def by blast
qed

lemma took_only_taken:
  assumes "took s a n t s'" and "0 < n" and "t = PMM_MAP_TYPE_ALLOCATED \<or> t = PMM_MAP_TYPE_USED"
    and free: "\<And>x. a \<le> x \<Longrightarrow> x < a + n \<Longrightarrow> type_at (live s) x = Some PMM_MAP_TYPE_FREE"
  shows "only_taken s s'"
  unfolding only_taken_def
proof (intro conjI allI impI)
  fix b h assume "b < h" "held (live s) b h"
    and used: "\<forall>x. b \<le> x \<longrightarrow> x < h \<longrightarrow> type_at (live s) x \<noteq> Some PMM_MAP_TYPE_FREE"
  have "h \<le> a \<or> a + n \<le> b"
  proof (rule ccontr)
    assume "\<not> ?thesis"
    then have "a \<le> max a b" "max a b < a + n" "b \<le> max a b" "max a b < h"
      using \<open>b < h\<close> \<open>0 < n\<close> by auto
    then show False
      using free used by metis
  qed
  then show "held (live s') b h"
    using assms(1) \<open>b < h\<close> \<open>held (live s) b h\<close> unfolding took_def keeps_held_def by auto
qed (use assms in \<open>auto simp: took_def split: if_splits\<close>)

lemma frames_only_taken: "frames_taken j s s' \<Longrightarrow> spare (r + j) (p + j) s \<Longrightarrow> only_taken s s'"
proof (induction j arbitrary: s)
  case (Suc j)
  show ?case
  proof (cases "s' = s")
    case False
    then obtain a s1 where a: "pmm_alloc 1 s = ok (a, s1)" "frames_taken j s1 s'"
      using Suc.prems(1) by auto
    have wf: "wf_map (live s)"
      using Suc.prems(2) by (simp add: spare_def pmm_inv_def)
    obtain s2 where s2: "pmm_alloc_ext 1 PTM_PAGE_GRANULARITY PMM_MAP_TYPE_ALLOCATED s = ok (a, s2)"
      "fits_at s (unat a) 4096" "took s (unat a) 4096 PMM_MAP_TYPE_ALLOCATED s2" "spare (r + j) (p + j) s2"
      by (rule spare_alloc_ext [of "r + j" "p + Suc j" s 1 PMM_MAP_TYPE_ALLOCATED])
        (use Suc.prems(2) a(1) in \<open>auto simp: pmm_alloc_def\<close>)
    have "only_taken s s2"
      by (rule took_only_taken [OF s2(3)]) (use fits_at_free [OF wf s2(2)] in simp_all)
    moreover have "s2 = s1"
      using s2(1) a(1) by (simp add: pmm_alloc_def)
    ultimately show ?thesis
      using Suc.IH [OF a(2)] s2(4) only_taken_trans by blast
  qed simp
qed simp

end
