(* ===== verification/VmState.thy ===== *)
theory VmState
  imports RtMem PmmSpare
begin

text \<open>
  What the page table code works on: the byte memory, read and written in 64-bit words, the
  memory map its frames come from, the direct map offset \<open>g_globals_boot_info->hhdm_offset\<close> and
  \<open>g_ptm\<close>. A table at the physical address \<open>t\<close> is accessed at \<open>t + hhdm_offset\<close>; \<open>table_view\<close>
  reads all tables as a function from frame and index to entry, and the lemmas say what a store
  and a page-wide \<open>memset\<close> do to that view.
\<close>

section \<open>64-bit words in memory\<close>

text \<open>Little endian, as on both targets.\<close>

fun from_bytes :: "u8 list \<Rightarrow> u64" where
  "from_bytes [] = 0"
| "from_bytes (b # bs) = ucast b OR push_bit 8 (from_bytes bs)"

primrec to_bytes :: "nat \<Rightarrow> u64 \<Rightarrow> u8 list" where
  "to_bytes 0 v = []"
| "to_bytes (Suc n) v = ucast v # to_bytes n (drop_bit 8 v)"

definition load64 :: "memory \<Rightarrow> u64 \<Rightarrow> u64" where
  "load64 m a = from_bytes (bytes_at m a 8)"

definition store64 :: "u64 \<Rightarrow> u64 \<Rightarrow> memory \<Rightarrow> memory" where
  "store64 a v m = (\<lambda>x. if unat (x - a) < 8 then to_bytes 8 v ! unat (x - a) else m x)"

lemma length_to_bytes [simp]: "length (to_bytes n v) = n"
  by (induction n arbitrary: v) simp_all

lemma from_bytes_to_bytes: "from_bytes (to_bytes n v) = take_bit (8 * n) v"
proof (induction n arbitrary: v)
  case (Suc n)
  show ?case
    by (rule bit_word_eqI) (auto simp: Suc bit_simps not_less)
qed simp

lemma bytes_at_store64: "bytes_at (store64 a v m) a 8 = to_bytes 8 v"
proof (rule nth_equalityI)
  fix i assume "i < length (bytes_at (store64 a v m) a 8)"
  then show "bytes_at (store64 a v m) a 8 ! i = to_bytes 8 v ! i"
    by (simp add: store64_def unat_of_nat_64 del: to_bytes.simps)
qed simp

lemma load64_store64: "load64 (store64 a v m) a = v"
  by (simp add: load64_def bytes_at_store64 from_bytes_to_bytes take_bit_word_eq_self)

lemma take_bit_from_bytes: "take_bit (8 * length bs) (from_bytes bs) = from_bytes bs"
proof (induction bs)
  case (Cons b bs)
  have byte: "\<not> bit b n" if "8 \<le> n" for n
    using that by (auto dest: bit_imp_le_length)
  have bits: "\<not> bit (from_bytes bs) n" if "8 * length bs \<le> n" for n
    using that by (metis Cons.IH bit_take_bit_iff not_le)
  show ?case
    by (rule bit_word_eqI) (auto simp: bit_simps byte bits not_less)
qed simp

lemma to_bytes_from_bytes: "length bs \<le> 8 \<Longrightarrow> to_bytes (length bs) (from_bytes bs) = bs"
proof (induction bs)
  case (Cons b bs)
  have low: "ucast (ucast b OR push_bit 8 (from_bytes bs)) = b"
    by (rule bit_word_eqI) (auto simp: bit_simps)
  have byte: "\<not> bit b n" if "8 \<le> n" for n
    using that by (auto dest: bit_imp_le_length)
  have bits: "\<not> bit (from_bytes bs) n" if "8 * length bs \<le> n" for n
    using that by (metis take_bit_from_bytes bit_take_bit_iff not_le)
  have "n < 56" if "bit (from_bytes bs) n" for n
  proof (rule ccontr)
    assume "\<not> n < 56"
    then have "8 * length bs \<le> n"
      using Cons.prems by simp
    then show False
      using bits that by blast
  qed
  then have "drop_bit 8 (ucast b OR push_bit 8 (from_bytes bs)) = from_bytes bs"
    by (intro bit_word_eqI) (auto simp: bit_simps byte bits not_less)
  then show ?case
    using Cons low by simp
qed simp

lemma store64_same: "store64 a (load64 m a) m = m"
proof
  fix x
  have "to_bytes 8 (load64 m a) = bytes_at m a 8"
    using to_bytes_from_bytes [of "bytes_at m a 8"] by (simp add: load64_def del: to_bytes.simps)
  then show "store64 a (load64 m a) m x = m x"
    by (simp add: store64_def del: to_bytes.simps)
qed

lemma load64_cong: "(\<And>i. i < 8 \<Longrightarrow> m (a + of_nat i) = m' (a + of_nat i)) \<Longrightarrow> load64 m a = load64 m' a"
  unfolding load64_def bytes_at_def by (intro arg_cong [of _ _ from_bytes] map_cong refl) simp

lemma store64_other: "\<not> unat (x - a) < 8 \<Longrightarrow> store64 a v m x = m x"
  by (simp add: store64_def)

lemma load64_other:
  assumes "\<And>i j. i < 8 \<Longrightarrow> j < 8 \<Longrightarrow> a + of_nat i \<noteq> b + of_nat j"
  shows "load64 (store64 b v m) a = load64 m a"
proof (rule load64_cong)
  fix i :: nat assume i: "i < 8"
  have "a + of_nat i = b + of_nat (unat (a + of_nat i - b))"
    by simp
  then have "\<not> unat (a + of_nat i - b) < 8"
    using assms [OF i] by metis
  then show "store64 b v m (a + of_nat i) = m (a + of_nat i)"
    by (rule store64_other)
qed

lemma offset_neq:
  fixes p :: u64
  assumes "i \<noteq> j" and "i < 4096" and "j < 4096" shows "p + of_nat i \<noteq> p + of_nat j"
  using assms of_nat_inj64 [of i j] by simp

lemma load64_next:
  assumes "c + 8 \<le> d \<or> d + 8 \<le> c" and "c < 1000" and "d < 1000"
  shows "load64 (store64 (p + of_nat d) v m) (p + of_nat c) = load64 m (p + of_nat c)"
proof (rule load64_other)
  fix i j :: nat assume "i < 8" "j < 8"
  then have "p + of_nat (c + i) \<noteq> p + of_nat (d + j)"
    using assms by (intro offset_neq) auto
  then show "p + of_nat c + of_nat i \<noteq> p + of_nat d + of_nat j"
    by (simp add: add.assoc)
qed

section \<open>The state\<close>

record ptm_t =
  tplt :: u64
  level_count :: nat

record vm_state =
  vm_mem :: memory
  vm_pmm :: pmm_state
  hhdm_offset :: u64
  g_ptm :: ptm_t

text \<open>\<open>pmm_alloc\<close> on the whole state.\<close>

definition vm_alloc :: "u64 \<Rightarrow> 'a vm_state_scheme \<Rightarrow> (u64 \<times> 'a vm_state_scheme) res" where
  "vm_alloc page_count st =
     res_bind (pmm_alloc page_count (vm_pmm st)) (\<lambda>(a, s). ok (a, st\<lparr>vm_pmm := s\<rparr>))"

definition read_table :: "'a vm_state_scheme \<Rightarrow> u64 \<Rightarrow> nat \<Rightarrow> u64" where
  "read_table st table index = load64 (vm_mem st) (table + 8 * of_nat index)"

definition write_table ::
  "u64 \<Rightarrow> nat \<Rightarrow> u64 \<Rightarrow> 'a vm_state_scheme \<Rightarrow> 'a vm_state_scheme" where
  "write_table table index entry st =
     st\<lparr>vm_mem := store64 (table + 8 * of_nat index) entry (vm_mem st)\<rparr>"

text \<open>The memset that clears a fresh table.\<close>

definition clear_table :: "u64 \<Rightarrow> 'a vm_state_scheme \<Rightarrow> 'a vm_state_scheme" where
  "clear_table frame st =
     st\<lparr>vm_mem := memset (frame + hhdm_offset st) 0 (unat PTM_PAGE_GRANULARITY) (vm_mem st)\<rparr>"

section \<open>Frames\<close>

definition page_aligned :: "u64 \<Rightarrow> bool" where
  "page_aligned a \<longleftrightarrow> take_bit 12 a = 0"

lemma page_aligned_dvd: "page_aligned a \<longleftrightarrow> 4096 dvd unat a"
proof -
  have "take_bit 12 a = 0 \<longleftrightarrow> take_bit 12 (unat a) = 0"
    by (metis unsigned_0 unsigned_eq_0_iff unsigned_take_bit_eq)
  then show ?thesis
    by (simp add: page_aligned_def take_bit_eq_mod dvd_eq_mod_eq_0)
qed

lemma page_aligned_add:
  assumes "page_aligned a" and "page_aligned b" shows "page_aligned (a + b)"
  using assms by (simp add: page_aligned_dvd unat_word_ariths dvd_mod_iff)

text \<open>Two addresses in different pages differ, whatever their offsets.\<close>

lemma page_offset_eq:
  assumes "page_aligned p" and "page_aligned q" and "i < 4096" and "j < 4096"
    and eq: "p + of_nat i = q + of_nat j"
  shows "p = q \<and> i = j"
proof -
  have off: "unat (p + of_nat i) mod 4096 = i" if "page_aligned p" "i < 4096" for p :: u64 and i
  proof -
    have "unat (p + of_nat i) mod 4096 = (unat p + i) mod 2 ^ 64 mod 4096"
      using that(2) by (simp add: unat_word_ariths unat_of_nat_64)
    also have "\<dots> = (unat p + i) mod 4096"
      by (rule mod_mod_cancel) simp
    also have "\<dots> = i"
      using that by (auto simp: page_aligned_dvd)
    finally show ?thesis .
  qed
  have "i = j"
    using off [OF assms(1,3)] off [OF assms(2,4)] eq by simp
  then show ?thesis
    using eq by simp
qed

definition table_view :: "memory \<Rightarrow> u64 \<Rightarrow> u64 \<Rightarrow> nat \<Rightarrow> u64" where
  "table_view m h frame index = load64 m (frame + h + 8 * of_nat index)"

lemma entry_byte: "frame + h + 8 * of_nat index + of_nat i = frame + h + of_nat (8 * index + i)"
  for frame h :: u64
  by simp

lemma table_view_store:
  assumes "page_aligned h" and "page_aligned frame" and "page_aligned frame'"
    and "index < 512" and "index' < 512"
  shows "table_view (store64 (frame + h + 8 * of_nat index) v m) h frame' index' =
    (if frame' = frame \<and> index' = index then v else table_view m h frame' index')"
proof (cases "frame' = frame \<and> index' = index")
  case True
  then show ?thesis
    by (simp add: table_view_def load64_store64)
next
  case False
  have "table_view (store64 (frame + h + 8 * of_nat index) v m) h frame' index' =
      table_view m h frame' index'"
    unfolding table_view_def
  proof (rule load64_cong)
    fix i :: nat assume i: "i < 8"
    let ?x = "frame' + h + 8 * of_nat index' + of_nat i" and ?a = "frame + h + 8 * of_nat index"
    have "\<not> unat (?x - ?a) < 8"
    proof
      assume k: "unat (?x - ?a) < 8"
      define j where "j = unat (?x - ?a)"
      have "?x = ?a + of_nat j"
        by (simp add: j_def)
      then have "frame' + h + of_nat (8 * index' + i) = frame + h + of_nat (8 * index + j)"
        by (simp only: entry_byte)
      then have "frame' + h = frame + h \<and> 8 * index' + i = 8 * index + j"
        using assms i k by (intro page_offset_eq page_aligned_add) (auto simp: j_def)
      then show False
        using False i k by (auto simp: j_def)
    qed
    then show "store64 ?a v m ?x = m ?x"
      by (simp add: store64_def)
  qed
  then show ?thesis
    using False by auto
qed

lemma table_view_memset:
  assumes "page_aligned h" and "page_aligned frame" and "page_aligned frame'" and "index' < 512"
  shows "table_view (memset (frame + h) 0 4096 m) h frame' index' =
    (if frame' = frame then 0 else table_view m h frame' index')"
proof (cases "frame' = frame")
  case True
  have "in_array (frame + h) 4096 (frame + h + of_nat (8 * index' + i))" if "i < 8" for i
    using assms(4) that by (intro in_array_index) simp_all
  then have "load64 (memset (frame + h) 0 4096 m) (frame + h + 8 * of_nat index') =
      load64 (\<lambda>_. 0) (frame + h + 8 * of_nat index')"
    by (intro load64_cong) (simp only: entry_byte memset_spec, simp add: memset_spec)
  then show ?thesis
    using True by (simp add: table_view_def load64_def bytes_at_def upt_rec)
next
  case False
  have "\<not> in_array (frame + h) 4096 (frame' + h + of_nat (8 * index' + i))" if "i < 8" for i
  proof
    assume "in_array (frame + h) 4096 (frame' + h + of_nat (8 * index' + i))"
    then obtain k where "k < 4096" "frame' + h + of_nat (8 * index' + i) = frame + h + of_nat k"
      by (rule in_arrayE)
    then have "frame' + h = frame + h"
      using assms that page_offset_eq [of "frame' + h" "frame + h" "8 * index' + i" k]
      by (simp only: page_aligned_add)
    then show False
      using False by simp
  qed
  then have "load64 (memset (frame + h) 0 4096 m) (frame' + h + 8 * of_nat index') =
      load64 m (frame' + h + 8 * of_nat index')"
    by (intro load64_cong) (simp only: entry_byte memset_spec, simp add: memset_spec)
  then show ?thesis
    using False by (simp add: table_view_def)
qed

end
