(* ===== verification/PageTree.thy ===== *)
theory PageTree
  imports VmState
begin

text \<open>
  The specification side of the page tables, shared by the two architectures. A \<open>pt_format\<close> says
  how an entry is decoded; \<open>mmu\<close> is the hardware's walk; \<open>tframes\<close> is the set of frames a
  table reaches, and \<open>tree_ok\<close> says that they form a tree without reserved entries whose upper
  entries never take away a permission a leaf gives. The two lemmas of the last two sections, writing a leaf and
  replacing a subtree, carry the proofs of both \<open>map_page\<close> functions.
\<close>

section \<open>Formats and translations\<close>

record xlate =
  x_base :: u64
  x_level :: nat
  x_read :: bool
  x_write :: bool
  x_exec :: bool

record pt_format =
  is_valid :: "u64 \<Rightarrow> bool"
  is_table :: "nat \<Rightarrow> u64 \<Rightarrow> bool"
  is_leaf :: "nat \<Rightarrow> u64 \<Rightarrow> bool"
  pt_addr :: "u64 \<Rightarrow> u64"
  leaf_of :: "nat \<Rightarrow> u64 \<Rightarrow> xlate"
  narrow :: "u64 \<Rightarrow> xlate \<Rightarrow> xlate"

text \<open>The index of an address at a level: nine bits above the \<open>9 * level + 3\<close> low ones.\<close>

definition vindex :: "u64 \<Rightarrow> nat \<Rightarrow> nat" where
  "vindex va level = unat (drop_bit (level * 9 + 3) va AND 0x1FF)"

lemma vindex_alt: "vindex va level = unat va div 2 ^ (level * 9 + 3) mod 512"
proof -
  have "drop_bit (level * 9 + 3) va AND 0x1FF = take_bit 9 (drop_bit (level * 9 + 3) va)"
    by (simp add: take_bit_eq_mask mask_eq_exp_minus_1)
  then have "vindex va level = take_bit 9 (unat (drop_bit (level * 9 + 3) va))"
    by (simp only: vindex_def unsigned_take_bit_eq)
  also have "\<dots> = unat va div 2 ^ (level * 9 + 3) mod 512"
    by (simp only: unat_drop_bit_eq) (simp add: take_bit_eq_mod drop_bit_eq_div)
  finally show ?thesis .
qed

lemma vindex_less [simp]: "vindex va level < 512"
  by (simp add: vindex_alt)

fun mmu :: "pt_format \<Rightarrow> (u64 \<Rightarrow> nat \<Rightarrow> u64) \<Rightarrow> nat \<Rightarrow> u64 \<Rightarrow> u64 \<Rightarrow> xlate option" where
  "mmu fmt tb 0 t va = None"
| "mmu fmt tb (Suc l) t va =
     (let e = tb t (vindex va (Suc l))
      in if is_table fmt (Suc l) e then map_option (narrow fmt e) (mmu fmt tb l (pt_addr fmt e) va)
         else if is_leaf fmt (Suc l) e then Some (leaf_of fmt (Suc l) e)
         else None)"

fun tframes :: "pt_format \<Rightarrow> (u64 \<Rightarrow> nat \<Rightarrow> u64) \<Rightarrow> nat \<Rightarrow> u64 \<Rightarrow> u64 set" where
  "tframes fmt tb 0 t = {}"
| "tframes fmt tb (Suc l) t =
     insert t (\<Union>i<512. if is_table fmt (Suc l) (tb t i)
                       then tframes fmt tb l (pt_addr fmt (tb t i)) else {})"

definition keeps_perms :: "pt_format \<Rightarrow> (u64 \<Rightarrow> nat \<Rightarrow> u64) \<Rightarrow> nat \<Rightarrow> u64 \<Rightarrow> u64 \<Rightarrow> bool" where
  "keeps_perms fmt tb l e t \<longleftrightarrow> (\<forall>va x. mmu fmt tb l t va = Some x \<longrightarrow> narrow fmt e x = x)"

fun tree_ok :: "pt_format \<Rightarrow> (u64 \<Rightarrow> nat \<Rightarrow> u64) \<Rightarrow> nat \<Rightarrow> u64 \<Rightarrow> bool" where
  "tree_ok fmt tb 0 t = True"
| "tree_ok fmt tb (Suc l) t \<longleftrightarrow>
     (\<forall>i<512. is_valid fmt (tb t i) \<longrightarrow>
        is_table fmt (Suc l) (tb t i) \<or> is_leaf fmt (Suc l) (tb t i)) \<and>
     (\<forall>i<512. is_table fmt (Suc l) (tb t i) \<longrightarrow>
        tree_ok fmt tb l (pt_addr fmt (tb t i)) \<and>
        t \<notin> tframes fmt tb l (pt_addr fmt (tb t i)) \<and>
        keeps_perms fmt tb l (tb t i) (pt_addr fmt (tb t i))) \<and>
     (\<forall>i<512. \<forall>j<512. i \<noteq> j \<and> is_table fmt (Suc l) (tb t i) \<and> is_table fmt (Suc l) (tb t j) \<longrightarrow>
        tframes fmt tb l (pt_addr fmt (tb t i)) \<inter> tframes fmt tb l (pt_addr fmt (tb t j)) = {})"

text \<open>What a walk reads: two views that agree on the frames of a tree give the same tree.\<close>

definition agree_on :: "u64 set \<Rightarrow> (u64 \<Rightarrow> nat \<Rightarrow> u64) \<Rightarrow> (u64 \<Rightarrow> nat \<Rightarrow> u64) \<Rightarrow> bool" where
  "agree_on F tb tb' \<longleftrightarrow> (\<forall>t\<in>F. \<forall>i<512. tb' t i = tb t i)"

lemma agree_on_mono: "agree_on F tb tb' \<Longrightarrow> G \<subseteq> F \<Longrightarrow> agree_on G tb tb'"
  by (auto simp: agree_on_def)

lemma agree_on_trans: "agree_on F tb tb' \<Longrightarrow> agree_on F tb' tb'' \<Longrightarrow> agree_on F tb tb''"
  by (simp add: agree_on_def)

lemma tree_cong:
  assumes "agree_on (tframes fmt tb l t) tb tb'"
  shows "tframes fmt tb' l t = tframes fmt tb l t" and "mmu fmt tb' l t va = mmu fmt tb l t va"
    and "tree_ok fmt tb' l t = tree_ok fmt tb l t"
proof -
  have "tframes fmt tb' l t = tframes fmt tb l t \<and> (\<forall>va. mmu fmt tb' l t va = mmu fmt tb l t va) \<and>
      tree_ok fmt tb' l t = tree_ok fmt tb l t"
    using assms
  proof (induction l arbitrary: t)
    case (Suc l)
    have e: "tb' t i = tb t i" if "i < 512" for i
      using Suc.prems that by (simp add: agree_on_def)
    have IH: "tframes fmt tb' l (pt_addr fmt (tb t i)) = tframes fmt tb l (pt_addr fmt (tb t i))"
      "mmu fmt tb' l (pt_addr fmt (tb t i)) va = mmu fmt tb l (pt_addr fmt (tb t i)) va"
      "tree_ok fmt tb' l (pt_addr fmt (tb t i)) = tree_ok fmt tb l (pt_addr fmt (tb t i))"
      if "i < 512" "is_table fmt (Suc l) (tb t i)" for i va
    proof -
      have "agree_on (tframes fmt tb l (pt_addr fmt (tb t i))) tb tb'"
        by (rule agree_on_mono [OF Suc.prems]) (use that in auto)
      from Suc.IH [OF this] show
        "tframes fmt tb' l (pt_addr fmt (tb t i)) = tframes fmt tb l (pt_addr fmt (tb t i))"
        "mmu fmt tb' l (pt_addr fmt (tb t i)) va = mmu fmt tb l (pt_addr fmt (tb t i)) va"
        "tree_ok fmt tb' l (pt_addr fmt (tb t i)) = tree_ok fmt tb l (pt_addr fmt (tb t i))"
        by auto
    qed
    have "tframes fmt tb' (Suc l) t = tframes fmt tb (Suc l) t"
      using e IH(1) by (auto split: if_splits)
    moreover have "mmu fmt tb' (Suc l) t va = mmu fmt tb (Suc l) t va" for va
      using e [of "vindex va (Suc l)"] IH(2) [of "vindex va (Suc l)"] by (simp add: Let_def)
    moreover have "tree_ok fmt tb' (Suc l) t = tree_ok fmt tb (Suc l) t"
      using e IH by (simp add: keeps_perms_def cong: conj_cong)
    ultimately show ?case
      by simp
  qed simp
  then show "tframes fmt tb' l t = tframes fmt tb l t" "mmu fmt tb' l t va = mmu fmt tb l t va"
    "tree_ok fmt tb' l t = tree_ok fmt tb l t"
    by simp_all
qed

lemma tframes_sub:
  "i < 512 \<Longrightarrow> is_table fmt (Suc l) (tb t i) \<Longrightarrow>
    tframes fmt tb l (pt_addr fmt (tb t i)) \<subseteq> tframes fmt tb (Suc l) t"
  by auto

section \<open>Writing a leaf\<close>

lemma write_leaf:
  assumes ok: "tree_ok fmt tb (Suc l) t" and i: "i < 512"
    and e: "\<not> is_table fmt (Suc l) e" "is_leaf fmt (Suc l) e"
    and t: "\<And>j. j < 512 \<Longrightarrow> tb' t j = (if j = i then e else tb t j)"
    and rest: "\<And>f. f \<in> tframes fmt tb (Suc l) t \<Longrightarrow> f \<noteq> t \<Longrightarrow> agree_on {f} tb tb'"
  shows "tree_ok fmt tb' (Suc l) t" and "tframes fmt tb' (Suc l) t \<subseteq> tframes fmt tb (Suc l) t"
    and "mmu fmt tb' (Suc l) t va =
      (if vindex va (Suc l) = i then Some (leaf_of fmt (Suc l) e)
       else mmu fmt tb (Suc l) t va)"
proof -
  have child: "tframes fmt tb' l (pt_addr fmt (tb t j)) = tframes fmt tb l (pt_addr fmt (tb t j))"
    "mmu fmt tb' l (pt_addr fmt (tb t j)) va = mmu fmt tb l (pt_addr fmt (tb t j)) va"
    "tree_ok fmt tb' l (pt_addr fmt (tb t j)) = tree_ok fmt tb l (pt_addr fmt (tb t j))"
    if "j < 512" "is_table fmt (Suc l) (tb t j)" for j va
  proof -
    have "t \<notin> tframes fmt tb l (pt_addr fmt (tb t j))"
      using ok that by simp
    then have "agree_on (tframes fmt tb l (pt_addr fmt (tb t j))) tb tb'"
      using rest tframes_sub [of j fmt l tb t] that unfolding agree_on_def by (metis singletonI subsetD)
    from tree_cong [OF this]
    show "tframes fmt tb' l (pt_addr fmt (tb t j)) = tframes fmt tb l (pt_addr fmt (tb t j))"
      "mmu fmt tb' l (pt_addr fmt (tb t j)) va = mmu fmt tb l (pt_addr fmt (tb t j)) va"
      "tree_ok fmt tb' l (pt_addr fmt (tb t j)) = tree_ok fmt tb l (pt_addr fmt (tb t j))" .
  qed
  show "mmu fmt tb' (Suc l) t va =
      (if vindex va (Suc l) = i then Some (leaf_of fmt (Suc l) e)
       else mmu fmt tb (Suc l) t va)"
    using child(2) [of "vindex va (Suc l)"] t [of "vindex va (Suc l)"] e by (simp add: Let_def)
  show "tframes fmt tb' (Suc l) t \<subseteq> tframes fmt tb (Suc l) t"
    using child(1) t e by (auto split: if_splits)
  have table: "is_table fmt (Suc l) (tb' t j) \<longleftrightarrow> j \<noteq> i \<and> is_table fmt (Suc l) (tb t j)" if "j < 512" for j
    using t [OF that] e by simp
  show "tree_ok fmt tb' (Suc l) t"
    using ok child t table e(2) by (auto simp: keeps_perms_def)
qed

section \<open>Replacing a subtree\<close>

lemma replace_child:
  assumes ok: "tree_ok fmt tb (Suc l) t" and i: "i < 512"
    and e: "is_table fmt (Suc l) (tb' t i)"
    and t: "\<And>j. j < 512 \<Longrightarrow> j \<noteq> i \<Longrightarrow> tb' t j = tb t j"
    and c: "tree_ok fmt tb' l (pt_addr fmt (tb' t i))"
      "keeps_perms fmt tb' l (tb' t i) (pt_addr fmt (tb' t i))"
      "tframes fmt tb' l (pt_addr fmt (tb' t i)) \<subseteq> K" "t \<notin> K"
    and K: "\<And>j. j < 512 \<Longrightarrow> j \<noteq> i \<Longrightarrow> is_table fmt (Suc l) (tb t j) \<Longrightarrow>
      tframes fmt tb l (pt_addr fmt (tb t j)) \<inter> K = {}"
    and rest: "\<And>f. f \<in> tframes fmt tb (Suc l) t \<Longrightarrow> f \<noteq> t \<Longrightarrow> f \<notin> K \<Longrightarrow> agree_on {f} tb tb'"
  shows "tree_ok fmt tb' (Suc l) t" and "tframes fmt tb' (Suc l) t \<subseteq>
      tframes fmt tb (Suc l) t \<union> tframes fmt tb' l (pt_addr fmt (tb' t i))"
    and "mmu fmt tb' (Suc l) t va =
      (if vindex va (Suc l) = i then mmu fmt tb' l (pt_addr fmt (tb' t i)) va
       else mmu fmt tb (Suc l) t va)"
proof -
  have child: "tframes fmt tb' l (pt_addr fmt (tb t j)) = tframes fmt tb l (pt_addr fmt (tb t j))"
    "mmu fmt tb' l (pt_addr fmt (tb t j)) va = mmu fmt tb l (pt_addr fmt (tb t j)) va"
    "tree_ok fmt tb' l (pt_addr fmt (tb t j)) = tree_ok fmt tb l (pt_addr fmt (tb t j))"
    if "j < 512" "j \<noteq> i" "is_table fmt (Suc l) (tb t j)" for j va
  proof -
    have "t \<notin> tframes fmt tb l (pt_addr fmt (tb t j))"
      using ok that by simp
    then have "agree_on (tframes fmt tb l (pt_addr fmt (tb t j))) tb tb'"
      using rest K [OF that] tframes_sub [of j fmt l tb t] that unfolding agree_on_def
      by (metis disjoint_iff singletonI subsetD)
    from tree_cong [OF this]
    show "tframes fmt tb' l (pt_addr fmt (tb t j)) = tframes fmt tb l (pt_addr fmt (tb t j))"
      "mmu fmt tb' l (pt_addr fmt (tb t j)) va = mmu fmt tb l (pt_addr fmt (tb t j)) va"
      "tree_ok fmt tb' l (pt_addr fmt (tb t j)) = tree_ok fmt tb l (pt_addr fmt (tb t j))" .
  qed
  show "mmu fmt tb' (Suc l) t va =
      (if vindex va (Suc l) = i then mmu fmt tb' l (pt_addr fmt (tb' t i)) va
       else mmu fmt tb (Suc l) t va)"
  proof (cases "vindex va (Suc l) = i")
    case True
    have "map_option (narrow fmt (tb' t i)) (mmu fmt tb' l (pt_addr fmt (tb' t i)) va) =
        mmu fmt tb' l (pt_addr fmt (tb' t i)) va"
      using c(2) by (cases "mmu fmt tb' l (pt_addr fmt (tb' t i)) va") (auto simp: keeps_perms_def)
    then show ?thesis
      using True e by (simp add: Let_def)
  next
    case False
    then show ?thesis
      using child(2) [of "vindex va (Suc l)"] t [of "vindex va (Suc l)"] by (simp add: Let_def)
  qed
  show "tframes fmt tb' (Suc l) t \<subseteq>
      tframes fmt tb (Suc l) t \<union> tframes fmt tb' l (pt_addr fmt (tb' t i))"
  proof
    fix f assume "f \<in> tframes fmt tb' (Suc l) t"
    then consider "f = t" | j where "j < 512" "is_table fmt (Suc l) (tb' t j)"
      "f \<in> tframes fmt tb' l (pt_addr fmt (tb' t j))"
      by (auto split: if_splits)
    then show "f \<in> tframes fmt tb (Suc l) t \<union> tframes fmt tb' l (pt_addr fmt (tb' t i))"
    proof cases
      case 2
      then show ?thesis
        using child(1) [of j] t [of j] tframes_sub [of j fmt l tb t] by (cases "j = i") auto
    qed simp
  qed
  show "tree_ok fmt tb' (Suc l) t"
    unfolding tree_ok.simps
  proof (intro conjI allI impI; (elim conjE)?)
    fix j assume "j < 512" "is_valid fmt (tb' t j)"
    then show "is_table fmt (Suc l) (tb' t j) \<or> is_leaf fmt (Suc l) (tb' t j)"
      using ok e t [of j] by (cases "j = i") simp_all
  next
    fix j assume j: "j < 512" "is_table fmt (Suc l) (tb' t j)"
    show "tree_ok fmt tb' l (pt_addr fmt (tb' t j))"
      "t \<notin> tframes fmt tb' l (pt_addr fmt (tb' t j))"
      "keeps_perms fmt tb' l (tb' t j) (pt_addr fmt (tb' t j))"
      using c j ok child [of j] t [of j] by (cases "j = i"; auto simp: keeps_perms_def)+
  next
    fix j k assume jk: "j < 512" "k < 512" "j \<noteq> k"
      "is_table fmt (Suc l) (tb' t j)" "is_table fmt (Suc l) (tb' t k)"
    have sep: "tframes fmt tb' l (pt_addr fmt (tb' t i)) \<inter> tframes fmt tb' l (pt_addr fmt (tb' t n)) = {}"
      if "n < 512" "n \<noteq> i" "is_table fmt (Suc l) (tb' t n)" for n
      using c(3) K [of n] child(1) [of n] t [of n] that by auto
    show "tframes fmt tb' l (pt_addr fmt (tb' t j)) \<inter> tframes fmt tb' l (pt_addr fmt (tb' t k)) = {}"
    proof (cases "j = i \<or> k = i")
      case True
      then show ?thesis
        using sep jk by (metis Int_commute)
    next
      case False
      then show ?thesis
        using jk child(1) t ok by simp
    qed
  qed
qed

end
