(* ===== verification/PageWalk.thy ===== *)
theory PageWalk
  imports PageTree
begin

text \<open>
  Mapping one page, for both architectures. \<open>frame_source\<close> is what the page table code relies on
  in the allocator, interpreted on \<open>pmm_alloc 1\<close>. \<open>walk_map\<close> is the common shape of the two
  \<open>map_page\<close> functions, with the bits they write as parameters; \<open>page_walker\<close> states what those
  bits must satisfy and proves the effect of the walk on every translation.
\<close>

section \<open>The frame allocator\<close>

definition frame_ok :: "u64 \<Rightarrow> bool" where
  "frame_ok f \<longleftrightarrow> page_aligned f \<and> unat f < 2 ^ 51"

primrec can_alloc :: "('s \<Rightarrow> (u64 \<times> 's) res) \<Rightarrow> nat \<Rightarrow> 's \<Rightarrow> bool" where
  "can_alloc alloc 0 s \<longleftrightarrow> True"
| "can_alloc alloc (Suc n) s \<longleftrightarrow>
     (case alloc s of Some (Inr (a, s')) \<Rightarrow> can_alloc alloc n s' | _ \<Rightarrow> False)"

lemma can_alloc_mono: "can_alloc alloc n s \<Longrightarrow> m \<le> n \<Longrightarrow> can_alloc alloc m s"
proof (induction n arbitrary: m s)
  case (Suc n)
  then show ?case
    by (cases m) (auto split: option.splits sum.splits)
qed simp

lemma can_allocE:
  assumes "can_alloc alloc (Suc n) s"
  obtains a s' where "alloc s = ok (a, s')" and "can_alloc alloc n s'"
  using assms by (auto split: option.splits sum.splits)

locale frame_source =
  fixes alloc :: "'s \<Rightarrow> (u64 \<times> 's) res" and inv :: "nat \<Rightarrow> 's \<Rightarrow> bool"
    and free :: "'s \<Rightarrow> u64 \<Rightarrow> bool"
  assumes alloc_ok:
    "inv (Suc k) s \<Longrightarrow> alloc s = ok (a, s') \<Longrightarrow>
      inv k s' \<and> frame_ok a \<and> free s a \<and> \<not> free s' a \<and> (\<forall>f. free s' f \<longrightarrow> free s f)"
begin

text \<open>A frame in use is never handed out, and stays in use.\<close>

lemma alloc_fresh:
  assumes "inv (Suc k) s" "alloc s = ok (a, s')" "\<forall>f\<in>F. \<not> free s f"
  shows "a \<notin> F" and "\<forall>f\<in>insert a F. \<not> free s' f" and "frame_ok a" and "inv k s'"
    and "free s a" and "free s' f \<Longrightarrow> free s f"
  using alloc_ok [OF assms(1,2)] assms(3) by auto

end

definition frame_free :: "pmm_state \<Rightarrow> u64 \<Rightarrow> bool" where
  "frame_free s f \<longleftrightarrow> type_at (live s) (unat f) = Some PMM_MAP_TYPE_FREE"

text \<open>The map is well-formed, has slots for \<open>k\<close> more allocations and knows no memory from
  \<open>2 ^ 51\<close> on, where the address masks of the x86 entries end.\<close>

definition frames_inv :: "nat \<Rightarrow> pmm_state \<Rightarrow> bool" where
  "frames_inv k s \<longleftrightarrow> pmm_inv s \<and> pmm_room s k \<and> (\<forall>x. 2 ^ 51 \<le> x \<longrightarrow> type_at (live s) x = None)"

lemma pages_ok_one: "pages_ok 1" "page_bytes 1 = 4096"
  by (simp_all add: pages_ok_def page_bytes_def)

interpretation fs: frame_source "pmm_alloc 1" frames_inv frame_free
proof (unfold_locales, goal_cases)
  case (1 k s a s')
  have inv: "pmm_inv s" and room: "pmm_room s 1" and low: "\<And>x. 2 ^ 51 \<le> x \<Longrightarrow> type_at (live s) x = None"
    using 1(1) by (simp_all add: frames_inv_def pmm_room_def)
  have top: "top_clear s 4096"
    using low by (simp add: top_clear_def)
  note a = pmm_alloc_ok [OF inv room pages_ok_one(1) top 1(2), unfolded pages_ok_one(2)]
  have free: "type_at (live s) x = Some PMM_MAP_TYPE_FREE" if "unat a \<le> x" "x < unat a + 4096" for x
    using fits_at_free [OF _ a(2)] inv that by (simp add: pmm_inv_def)
  have "frame_ok a"
    using a(1) free [of "unat a"] low [of "unat a"]
    by (auto simp: frame_ok_def page_aligned_dvd not_less[symmetric])
  moreover have "\<not> (unat a \<le> x \<and> x < unat a + 4096)" if "2 ^ 51 \<le> x" for x
    using free [of x] low [OF that] by auto
  ultimately show ?case
    using 1(1) a(3,5) low free
    by (auto simp: frames_inv_def took_def frame_free_def pmm_room_def)
qed

section \<open>The common walk\<close>

record pt_writer =
  w_lowest :: nat
  w_new :: "u64 \<Rightarrow> u64"
  w_upd :: "u64 \<Rightarrow> u64"
  w_addr :: "u64 \<Rightarrow> u64"
  w_stop :: "u64 \<Rightarrow> bool"
  w_leaf :: u64
  w_fault :: fault

definition view :: "'a vm_state_scheme \<Rightarrow> u64 \<Rightarrow> nat \<Rightarrow> u64" where
  "view st = table_view (vm_mem st) (hhdm_offset st)"

lemma view_pmm [simp]: "view (st\<lparr>vm_pmm := s\<rparr>) = view st"
  by (simp add: view_def)

text \<open>Only the memory and the memory map differ.\<close>

definition same_config :: "'a vm_state_scheme \<Rightarrow> 'a vm_state_scheme \<Rightarrow> bool" where
  "same_config st st' \<longleftrightarrow> hhdm_offset st' = hhdm_offset st \<and> g_ptm st' = g_ptm st \<and>
     vm_state.more st' = vm_state.more st"

lemma same_config_trans: "same_config st st' \<Longrightarrow> same_config st' st'' \<Longrightarrow> same_config st st''"
  by (simp add: same_config_def)

lemma same_config_hhdm: "same_config st st' \<Longrightarrow> hhdm_offset st' = hhdm_offset st"
  by (simp add: same_config_def)

definition write_entry :: "u64 \<Rightarrow> nat \<Rightarrow> u64 \<Rightarrow> 'a vm_state_scheme \<Rightarrow> 'a vm_state_scheme" where
  "write_entry t i e st = write_table (t + hhdm_offset st) i e st"

fun walk_map ::
  "pt_format \<Rightarrow> pt_writer \<Rightarrow> u64 \<Rightarrow> nat \<Rightarrow> u64 \<Rightarrow> 'a vm_state_scheme \<Rightarrow> 'a vm_state_scheme res" where
  "walk_map fmt w va 0 t st = ok st"
| "walk_map fmt w va (Suc l) t st =
     (let i = vindex va (Suc l); e = view st t i
      in if Suc l \<le> w_lowest w then ok (write_entry t i (w_leaf w) st)
         else if \<not> is_valid fmt e then
           res_bind (vm_alloc 1 st)
             (\<lambda>(a, st1). walk_map fmt w va l (w_addr w (w_new w a))
                          (write_entry t i (w_new w a) (clear_table a st1)))
         else if w_stop w e then fail (w_fault w)
         else walk_map fmt w va l (w_addr w (w_upd w e)) (write_entry t i (w_upd w e) st))"

text \<open>A walk is blocked when it meets a valid entry that is no table above the level it wants.\<close>

fun blocked :: "pt_format \<Rightarrow> nat \<Rightarrow> (u64 \<Rightarrow> nat \<Rightarrow> u64) \<Rightarrow> u64 \<Rightarrow> nat \<Rightarrow> u64 \<Rightarrow> bool" where
  "blocked fmt lowest tb va 0 t \<longleftrightarrow> False"
| "blocked fmt lowest tb va (Suc l) t \<longleftrightarrow>
     (let e = tb t (vindex va (Suc l))
      in lowest < Suc l \<and> is_valid fmt e \<and>
         (is_table fmt (Suc l) e \<longrightarrow> blocked fmt lowest tb va l (pt_addr fmt e)))"

lemma blocked_cong:
  "agree_on (tframes fmt tb l t) tb tb' \<Longrightarrow> blocked fmt lowest tb' va l t = blocked fmt lowest tb va l t"
proof (induction l arbitrary: t)
  case (Suc l)
  let ?i = "vindex va (Suc l)"
  have e: "tb' t ?i = tb t ?i"
    using Suc.prems by (simp add: agree_on_def)
  show ?case
  proof (cases "is_table fmt (Suc l) (tb t ?i)")
    case True
    have "agree_on (tframes fmt tb l (pt_addr fmt (tb t ?i))) tb tb'"
      by (rule agree_on_mono [OF Suc.prems]) (use tframes_sub [of ?i fmt l tb t] True in simp)
    then show ?thesis
      using Suc.IH e by (simp add: Let_def)
  qed (simp add: e Let_def)
qed simp

text \<open>How many tables a walk down to level 1 still lacks.\<close>

fun missing :: "pt_format \<Rightarrow> (u64 \<Rightarrow> nat \<Rightarrow> u64) \<Rightarrow> u64 \<Rightarrow> nat \<Rightarrow> u64 \<Rightarrow> nat" where
  "missing fmt tb va 0 t = 0"
| "missing fmt tb va (Suc l) t =
     (let e = tb t (vindex va (Suc l)) in if is_table fmt (Suc l) e then missing fmt tb va l (pt_addr fmt e) else l)"

lemma missing_less: "missing fmt tb va l t \<le> l - 1"
proof (induction l arbitrary: t)
  case (Suc l)
  have "missing fmt tb va l (pt_addr fmt (tb t (vindex va (Suc l)))) \<le> l"
    by (rule le_trans [OF Suc.IH]) simp
  then show ?case
    by (simp add: Let_def)
qed simp

lemma missing_cong:
  "agree_on (tframes fmt tb l t) tb tb' \<Longrightarrow> missing fmt tb' va l t = missing fmt tb va l t"
proof (induction l arbitrary: t)
  case (Suc l)
  let ?i = "vindex va (Suc l)"
  have e: "tb' t ?i = tb t ?i"
    using Suc.prems by (simp add: agree_on_def)
  show ?case
  proof (cases "is_table fmt (Suc l) (tb t ?i)")
    case True
    have "agree_on (tframes fmt tb l (pt_addr fmt (tb t ?i))) tb tb'"
      by (rule agree_on_mono [OF Suc.prems]) (use tframes_sub [of ?i fmt l tb t] True in simp)
    then show ?thesis
      using Suc.IH e by (simp add: Let_def)
  qed (simp add: e Let_def)
qed simp

text \<open>An address that has its indices above level \<open>k\<close> in common with another lacks no more than that,
  or what lies below \<open>k\<close>.\<close>

lemma missing_shared:
  "(\<And>j. k < j \<Longrightarrow> j \<le> l \<Longrightarrow> vindex va' j = vindex va j) \<Longrightarrow>
    missing fmt tb va' l t \<le> max (missing fmt tb va l t) (k - 1)"
proof (induction l arbitrary: t)
  case (Suc l)
  show ?case
  proof (cases "k < Suc l")
    case True
    then have i: "vindex va' (Suc l) = vindex va (Suc l)"
      using Suc.prems by simp
    show ?thesis
      using Suc.IH [of "pt_addr fmt (tb t (vindex va (Suc l)))"] Suc.prems by (auto simp: Let_def i)
  next
    case False
    then show ?thesis
      using missing_less [of fmt tb va' "Suc l" t] unfolding le_max_iff_disj by linarith
  qed
qed simp

definition same_page :: "nat \<Rightarrow> nat \<Rightarrow> u64 \<Rightarrow> u64 \<Rightarrow> bool" where
  "same_page lowest l va va' \<longleftrightarrow> (\<forall>k. lowest \<le> k \<and> k \<le> l \<longrightarrow> vindex va' k = vindex va k)"

lemma same_page_Suc:
  "lowest \<le> Suc l \<Longrightarrow>
    same_page lowest (Suc l) va va' \<longleftrightarrow> vindex va' (Suc l) = vindex va (Suc l) \<and> same_page lowest l va va'"
  by (auto simp: same_page_def le_Suc_eq)

text \<open>The tables of a state: a tree of frames that are all in use.\<close>

definition tables_ok :: "pt_format \<Rightarrow> nat \<Rightarrow> u64 \<Rightarrow> 'a vm_state_scheme \<Rightarrow> bool" where
  "tables_ok fmt l t st \<longleftrightarrow>
     page_aligned (hhdm_offset st) \<and> tree_ok fmt (view st) l t \<and>
     (\<forall>f\<in>tframes fmt (view st) l t. frame_ok f \<and> \<not> frame_free (vm_pmm st) f)"

definition page_mapped ::
  "pt_format \<Rightarrow> nat \<Rightarrow> xlate \<Rightarrow> u64 \<Rightarrow> nat \<Rightarrow> u64 \<Rightarrow> 'a vm_state_scheme \<Rightarrow> 'a vm_state_scheme \<Rightarrow> bool" where
  "page_mapped fmt lowest x va l t st st' \<longleftrightarrow>
     same_config st st' \<and> tables_ok fmt l t st' \<and>
     frames_taken (missing fmt (view st) va l t - (lowest - 1)) (vm_pmm st) (vm_pmm st') \<and>
     missing fmt (view st') va l t \<le> lowest - 1 \<and>
     (\<forall>f. frame_free (vm_pmm st') f \<longrightarrow> frame_free (vm_pmm st) f) \<and>
     (\<forall>f\<in>tframes fmt (view st') l t. f \<in> tframes fmt (view st) l t \<or> frame_free (vm_pmm st) f) \<and>
     (\<forall>f. page_aligned f \<longrightarrow> f \<notin> tframes fmt (view st) l t \<longrightarrow> \<not> frame_free (vm_pmm st) f \<longrightarrow>
        agree_on {f} (view st) (view st')) \<and>
     (\<forall>va'. mmu fmt (view st') l t va' =
        (if same_page lowest l va va' then Some x else mmu fmt (view st) l t va'))"

section \<open>The effect of the walk\<close>

lemma write_entry_fields [simp]:
  "hhdm_offset (write_entry t i e st) = hhdm_offset st"
  "vm_pmm (write_entry t i e st) = vm_pmm st"
  by (simp_all add: write_entry_def write_table_def)

lemma clear_table_fields [simp]:
  "hhdm_offset (clear_table a st) = hhdm_offset st" "vm_pmm (clear_table a st) = vm_pmm st"
  by (simp_all add: clear_table_def)

lemma view_write_entry:
  assumes "page_aligned (hhdm_offset st)" "page_aligned t" "page_aligned f" "i < 512" "j < 512"
  shows "view (write_entry t i e st) f j = (if f = t \<and> j = i then e else view st f j)"
  using table_view_store [OF assms] by (simp add: view_def write_entry_def write_table_def)

lemma view_clear_table:
  assumes "page_aligned (hhdm_offset st)" "page_aligned a" "page_aligned f" "j < 512"
  shows "view (clear_table a st) f j = (if f = a then 0 else view st f j)"
  using table_view_memset [OF assms] by (simp add: view_def clear_table_def)

lemma same_config_steps [simp]:
  "same_config st (write_entry t i e st)" "same_config st (clear_table a st)"
  "same_config st (st\<lparr>vm_pmm := s\<rparr>)" "same_config st st"
  by (simp_all add: same_config_def write_entry_def write_table_def clear_table_def)

lemma frames_inv_mono: "frames_inv n s \<Longrightarrow> m \<le> n \<Longrightarrow> frames_inv m s"
  by (simp add: frames_inv_def pmm_room_def)

locale page_walker =
  fixes fmt :: pt_format and w :: pt_writer
  assumes lowest: "0 < w_lowest w"
    and table_valid: "is_table fmt l e \<Longrightarrow> is_valid fmt e"
    and leaf_valid: "is_leaf fmt l e \<Longrightarrow> is_valid fmt e"
    and zero_invalid: "\<not> is_valid fmt 0"
    and new_table: "frame_ok a \<Longrightarrow> is_table fmt (Suc (Suc l)) (w_new w a) \<and> pt_addr fmt (w_new w a) = a"
    and upd_table: "is_table fmt l e \<Longrightarrow>
      is_table fmt l (w_upd w e) \<and> pt_addr fmt (w_upd w e) = pt_addr fmt e"
    and addr: "is_table fmt l e \<Longrightarrow> frame_ok (pt_addr fmt e) \<Longrightarrow> w_addr w e = pt_addr fmt e"
    and stop: "2 \<le> l \<Longrightarrow> is_table fmt l e \<Longrightarrow> \<not> w_stop w e"
      "2 \<le> l \<Longrightarrow> \<not> is_table fmt l e \<Longrightarrow> is_leaf fmt l e \<Longrightarrow> w_stop w e"
    and leaf: "\<not> is_table fmt (w_lowest w) (w_leaf w)" "is_leaf fmt (w_lowest w) (w_leaf w)"
    and narrow_leaf:
      "narrow fmt (w_new w a) (leaf_of fmt (w_lowest w) (w_leaf w)) = leaf_of fmt (w_lowest w) (w_leaf w)"
      "narrow fmt (w_upd w e) (leaf_of fmt (w_lowest w) (w_leaf w)) = leaf_of fmt (w_lowest w) (w_leaf w)"
    and levels: "x_level (leaf_of fmt l e) = l" "x_level (narrow fmt e x) = x_level x"
    and narrow_upd: "narrow fmt e x = x \<Longrightarrow> narrow fmt (w_upd w e) x = x"
begin

abbreviation new_leaf :: xlate where
  "new_leaf \<equiv> leaf_of fmt (w_lowest w) (w_leaf w)"

lemma empty_tree:
  assumes "\<And>i. i < 512 \<Longrightarrow> tb a i = 0"
  shows "tree_ok fmt tb (Suc l) a" and "tframes fmt tb (Suc l) a = {a}"
    and "mmu fmt tb (Suc l) a va = None" and "\<not> blocked fmt n tb va (Suc l) a"
  using assms zero_invalid table_valid leaf_valid by (auto simp: Let_def)

lemma walk_leaf:
  assumes ok: "tables_ok fmt (Suc l) t st" and l: "Suc l = w_lowest w"
  shows "page_mapped fmt (w_lowest w) new_leaf va (Suc l) t st
    (write_entry t (vindex va (Suc l)) (w_leaf w) st)"
proof -
  let ?i = "vindex va (Suc l)"
  let ?st = "write_entry t ?i (w_leaf w) st"
  have h: "page_aligned (hhdm_offset st)" and tree: "tree_ok fmt (view st) (Suc l) t"
    and used: "\<And>f. f \<in> tframes fmt (view st) (Suc l) t \<Longrightarrow> frame_ok f \<and> \<not> frame_free (vm_pmm st) f"
    using ok by (auto simp: tables_ok_def)
  have t: "page_aligned t"
    using used by (simp add: frame_ok_def)
  have leaf': "\<not> is_table fmt (Suc l) (w_leaf w)" and leaf'': "is_leaf fmt (Suc l) (w_leaf w)"
    using leaf l by simp_all
  have view: "view ?st f j = (if f = t \<and> j = ?i then w_leaf w else view st f j)"
    if "page_aligned f" "j < 512" for f j
    using h t that by (simp add: view_write_entry)
  have agree: "agree_on {f} (view st) (view ?st)" if "page_aligned f" "f \<noteq> t" for f
    using view that by (simp add: agree_on_def)
  have w1: "view ?st t j = (if j = ?i then w_leaf w else view st t j)" if "j < 512" for j
    using view t that by simp
  have w2: "agree_on {f} (view st) (view ?st)"
    if "f \<in> tframes fmt (view st) (Suc l) t" "f \<noteq> t" for f
    using agree used [OF that(1)] that(2) by (simp add: frame_ok_def)
  have wl: "tree_ok fmt (view ?st) (Suc l) t"
      "tframes fmt (view ?st) (Suc l) t \<subseteq> tframes fmt (view st) (Suc l) t"
    by (rule write_leaf [OF tree vindex_less leaf' leaf'']; fact w1 w2)+
  have wm: "mmu fmt (view ?st) (Suc l) t va' = (if vindex va' (Suc l) = ?i then
        Some (leaf_of fmt (Suc l) (w_leaf w)) else mmu fmt (view st) (Suc l) t va')" for va'
    by (rule write_leaf [OF tree vindex_less leaf' leaf'']; fact w1 w2)
  have "tables_ok fmt (Suc l) t ?st"
    using wl(1,2) h used by (auto simp: tables_ok_def)
  moreover have "mmu fmt (view ?st) (Suc l) t va' =
      (if same_page (w_lowest w) (Suc l) va va' then Some new_leaf else mmu fmt (view st) (Suc l) t va')" for va'
  proof -
    have "same_page (w_lowest w) (Suc l) va va' \<longleftrightarrow> vindex va' (Suc l) = ?i"
      using l by (auto simp: same_page_def le_Suc_eq)
    then show ?thesis
      using wm l by auto
  qed
  moreover have "missing fmt (view ?st) va (Suc l) t \<le> w_lowest w - 1"
    using missing_less [of fmt "view ?st" va "Suc l" t] l by simp
  ultimately show ?thesis
    using wl(2) agree by (auto simp: page_mapped_def simp del: missing.simps)
qed

lemma mmu_level: "mmu fmt tb l t va = Some x \<Longrightarrow> x_level x \<le> l"
  by (induction l arbitrary: t x) (fastforce simp: Let_def levels split: if_splits)+

text \<open>What blocks a walk is a larger page at the address.\<close>

lemma blocked_iff:
  "tree_ok fmt tb l t \<Longrightarrow>
    blocked fmt n tb va l t \<longleftrightarrow> (\<exists>x. mmu fmt tb l t va = Some x \<and> n < x_level x)"
proof (induction l arbitrary: t)
  case (Suc l)
  let ?e = "tb t (vindex va (Suc l))"
  consider "is_table fmt (Suc l) ?e" | "\<not> is_table fmt (Suc l) ?e" "is_leaf fmt (Suc l) ?e"
    | "\<not> is_valid fmt ?e"
    using Suc.prems vindex_less [of va "Suc l"] unfolding tree_ok.simps by blast
  then show ?case
  proof cases
    case 1
    then have "blocked fmt n tb va l (pt_addr fmt ?e) \<longleftrightarrow>
        (\<exists>x. mmu fmt tb l (pt_addr fmt ?e) va = Some x \<and> n < x_level x)"
      using Suc by simp
    then show ?thesis
      using 1 table_valid [OF 1] mmu_level [of tb l "pt_addr fmt ?e" va]
      by (fastforce simp: Let_def levels)
  next
    case 2
    then show ?thesis
      using leaf_valid [OF 2(2)] by (auto simp: Let_def levels)
  next
    case 3
    then show ?thesis
      using table_valid leaf_valid by (auto simp: Let_def)
  qed
qed simp

text \<open>Going down one level: from the child's outcome to the table's.\<close>

lemma walk_step:
  assumes ok: "tables_ok fmt (Suc l) t st" and low: "w_lowest w \<le> l"
    and i: "i = vindex va (Suc l)" and e: "is_table fmt (Suc l) e" "pt_addr fmt e = c"
    and conf: "same_config st st1"
    and taken: "frames_taken (missing fmt (view st) va (Suc l) t - (w_lowest w - 1)) (vm_pmm st) (vm_pmm st')"
    and child: "page_mapped fmt (w_lowest w) new_leaf va l c st1 st'"
    and t1: "\<And>j. j < 512 \<Longrightarrow> view st1 t j = (if j = i then e else view st t j)"
    and rest1: "\<And>f. page_aligned f \<Longrightarrow> f \<noteq> t \<Longrightarrow> f \<noteq> c \<or> \<not> frame_free (vm_pmm st) c \<Longrightarrow>
      agree_on {f} (view st) (view st1)"
    and c: "tframes fmt (view st1) l c \<subseteq> K" "t \<notin> K"
      "\<And>f. f \<in> K \<Longrightarrow> f \<in> tframes fmt (view st) (Suc l) t \<or> frame_free (vm_pmm st) f"
    and sep: "\<And>j. j < 512 \<Longrightarrow> j \<noteq> i \<Longrightarrow> is_table fmt (Suc l) (view st t j) \<Longrightarrow>
      tframes fmt (view st) l (pt_addr fmt (view st t j)) \<inter> K = {}"
    and free1: "\<And>f. frame_free (vm_pmm st1) f \<Longrightarrow> frame_free (vm_pmm st) f"
    and cK: "c \<in> K"
    and perms: "\<And>va' x. mmu fmt (view st1) l c va' = Some x \<Longrightarrow> narrow fmt e x = x"
      "narrow fmt e new_leaf = new_leaf"
    and old: "\<And>va'. vindex va' (Suc l) = i \<Longrightarrow>
      mmu fmt (view st) (Suc l) t va' = mmu fmt (view st1) l c va'"
  shows "page_mapped fmt (w_lowest w) new_leaf va (Suc l) t st st'"
proof -
  have h: "page_aligned (hhdm_offset st)" and tree: "tree_ok fmt (view st) (Suc l) t"
    and used: "\<And>f. f \<in> tframes fmt (view st) (Suc l) t \<Longrightarrow> frame_ok f \<and> \<not> frame_free (vm_pmm st) f"
    using ok by (auto simp: tables_ok_def)
  have t: "page_aligned t" "\<not> frame_free (vm_pmm st) t"
    using used by (simp_all add: frame_ok_def)
  have ii: "i < 512"
    by (simp add: i)
  have conf': "same_config st st'"
    using same_config_trans [OF conf] child by (simp add: page_mapped_def)
  have ok': "tables_ok fmt l c st'"
    and free': "\<And>f. frame_free (vm_pmm st') f \<Longrightarrow> frame_free (vm_pmm st1) f"
    and sub': "\<And>f. f \<in> tframes fmt (view st') l c \<Longrightarrow>
      f \<in> tframes fmt (view st1) l c \<or> frame_free (vm_pmm st1) f"
    and agree': "\<And>f. page_aligned f \<Longrightarrow> f \<notin> tframes fmt (view st1) l c \<Longrightarrow>
      \<not> frame_free (vm_pmm st1) f \<Longrightarrow> agree_on {f} (view st1) (view st')"
    and mmu': "\<And>va'. mmu fmt (view st') l c va' =
      (if same_page (w_lowest w) l va va' then Some new_leaf else mmu fmt (view st1) l c va')"
    using child by (auto simp: page_mapped_def)
  let ?K = "K \<union> {f. frame_free (vm_pmm st) f}"
  have agree: "agree_on {f} (view st) (view st')"
    if f: "page_aligned f" "f \<noteq> t" "f \<notin> ?K" for f
  proof -
    have "agree_on {f} (view st) (view st1)"
      using rest1 [OF f(1,2)] cK f(3) by auto
    moreover have "agree_on {f} (view st1) (view st')"
      using agree' [OF f(1)] f(3) c(1) free1 by auto
    ultimately show ?thesis
      by (rule agree_on_trans)
  qed
  have "agree_on {t} (view st1) (view st')"
    using agree' [OF t(1)] c(1,2) free1 t(2) by auto
  then have tt: "view st' t j = (if j = i then e else view st t j)" if "j < 512" for j
    using t1 [OF that] that by (simp add: agree_on_def)
  have ci: "pt_addr fmt (view st' t i) = c" "view st' t i = e"
    using tt ii e(2) by simp_all
  have perms': "keeps_perms fmt (view st') l e c"
    using perms mmu' by (auto simp: keeps_perms_def split: if_splits)
  have r: "tree_ok fmt (view st') (Suc l) t"
    "tframes fmt (view st') (Suc l) t \<subseteq> tframes fmt (view st) (Suc l) t \<union> tframes fmt (view st') l c"
    "\<And>va'. mmu fmt (view st') (Suc l) t va' =
      (if vindex va' (Suc l) = i then mmu fmt (view st') l c va' else mmu fmt (view st) (Suc l) t va')"
  proof -
    have k1: "\<And>j. j < 512 \<Longrightarrow> j \<noteq> i \<Longrightarrow> view st' t j = view st t j"
      using tt by simp
    have k2: "tree_ok fmt (view st') l c"
      using ok' by (simp add: tables_ok_def)
    have k3: "tframes fmt (view st') l c \<subseteq> ?K" "t \<notin> ?K"
      using sub' c(1,2) free1 t(2) by auto
    have k4: "\<And>j. j < 512 \<Longrightarrow> j \<noteq> i \<Longrightarrow> is_table fmt (Suc l) (view st t j) \<Longrightarrow>
        tframes fmt (view st) l (pt_addr fmt (view st t j)) \<inter> ?K = {}"
      using sep used tframes_sub [of _ fmt l "view st" t] by blast
    have k5: "\<And>f. f \<in> tframes fmt (view st) (Suc l) t \<Longrightarrow> f \<noteq> t \<Longrightarrow> f \<notin> ?K \<Longrightarrow>
        agree_on {f} (view st) (view st')"
      using agree used by (auto simp: frame_ok_def)
    show "tree_ok fmt (view st') (Suc l) t"
      "tframes fmt (view st') (Suc l) t \<subseteq> tframes fmt (view st) (Suc l) t \<union> tframes fmt (view st') l c"
      "mmu fmt (view st') (Suc l) t va' =
        (if vindex va' (Suc l) = i then mmu fmt (view st') l c va' else mmu fmt (view st) (Suc l) t va')" for va'
      by (rule replace_child [OF tree ii, of "view st'" ?K, unfolded ci(2) e(2)];
          fact e(1) k1 k2 perms' k3 k4 k5)+
  qed
  have "tables_ok fmt (Suc l) t st'"
  proof -
    have "frame_ok f \<and> \<not> frame_free (vm_pmm st') f"
      if "f \<in> tframes fmt (view st') (Suc l) t" for f
      using that r(2) used [of f] ok' free' [of f] free1 [of f] by (auto simp: tables_ok_def)
    then show ?thesis
      using r(1) h same_config_hhdm [OF conf'] by (simp add: tables_ok_def)
  qed
  moreover have "mmu fmt (view st') (Suc l) t va' =
      (if same_page (w_lowest w) (Suc l) va va' then Some new_leaf else mmu fmt (view st) (Suc l) t va')" for va'
    using r(3) mmu' old low i by (auto simp: same_page_Suc)
  moreover have "missing fmt (view st') va (Suc l) t \<le> w_lowest w - 1"
    using child ci e i by (simp add: page_mapped_def Let_def)
  ultimately show ?thesis
    unfolding page_mapped_def
  proof (intro conjI)
    show "\<forall>f. frame_free (vm_pmm st') f \<longrightarrow> frame_free (vm_pmm st) f"
      using free1 free' by blast
    show "\<forall>f\<in>tframes fmt (view st') (Suc l) t.
        f \<in> tframes fmt (view st) (Suc l) t \<or> frame_free (vm_pmm st) f"
      using r(2) sub' c(1,3) free1 by blast
    show "\<forall>f. page_aligned f \<longrightarrow> f \<notin> tframes fmt (view st) (Suc l) t \<longrightarrow>
        \<not> frame_free (vm_pmm st) f \<longrightarrow> agree_on {f} (view st) (view st')"
      using agree c(3) by auto
  qed (use conf' taken in \<open>simp_all del: missing.simps\<close>)
qed

text \<open>The whole walk: it stops at an entry that blocks it, and otherwise maps the page.\<close>

lemma walk_map_effect:
  assumes "tables_ok fmt l t st" and "w_lowest w \<le> l"
    and "frames_inv (missing fmt (view st) va l t - (w_lowest w - 1) + k) (vm_pmm st)"
    and "can_alloc (pmm_alloc 1) (missing fmt (view st) va l t - (w_lowest w - 1) + k) (vm_pmm st)"
  shows "if blocked fmt (w_lowest w) (view st) va l t then walk_map fmt w va l t st = fail (w_fault w)
    else \<exists>st'. walk_map fmt w va l t st = ok st' \<and> page_mapped fmt (w_lowest w) new_leaf va l t st st' \<and>
      frames_inv k (vm_pmm st') \<and> can_alloc (pmm_alloc 1) k (vm_pmm st')"
  using assms
proof (induction l arbitrary: t st)
  case 0
  then show ?case
    using lowest by simp
next
  case (Suc l)
  let ?i = "vindex va (Suc l)"
  let ?e = "view st t ?i"
  have h: "page_aligned (hhdm_offset st)" and tree: "tree_ok fmt (view st) (Suc l) t"
    and used: "\<And>f. f \<in> tframes fmt (view st) (Suc l) t \<Longrightarrow> frame_ok f \<and> \<not> frame_free (vm_pmm st) f"
    using Suc.prems(1) by (auto simp: tables_ok_def)
  have t: "page_aligned t" "frame_ok t" "\<not> frame_free (vm_pmm st) t"
    using used by (simp_all add: frame_ok_def)
  show ?case
  proof (cases "Suc l \<le> w_lowest w")
    case True
    then have l: "Suc l = w_lowest w"
      using Suc.prems(2) by simp
    have "walk_map fmt w va (Suc l) t st = ok (write_entry t ?i (w_leaf w) st)"
      "\<not> blocked fmt (w_lowest w) (view st) va (Suc l) t"
      using True by (simp_all add: Let_def)
    then show ?thesis
      using walk_leaf [OF Suc.prems(1) l, of va] frames_inv_mono [OF Suc.prems(3)] can_alloc_mono [OF Suc.prems(4)]
      by (auto simp del: walk_map.simps blocked.simps missing.simps)
  next
    case False
    then have low: "w_lowest w \<le> l"
      by simp
    obtain l' where l': "l = Suc l'"
      using low lowest by (cases l) auto
    consider "\<not> is_valid fmt ?e" | "is_valid fmt ?e" "\<not> is_table fmt (Suc l) ?e" | "is_table fmt (Suc l) ?e"
      by blast
    then show ?thesis
    proof cases
      case 1
      have diff: "missing fmt (view st) va (Suc l) t - (w_lowest w - 1) = Suc (l - w_lowest w)"
        using 1 table_valid low lowest by (auto simp: Let_def)
      have "can_alloc (pmm_alloc 1) (Suc (l - w_lowest w + k)) (vm_pmm st)"
        using Suc.prems(4) by (simp only: diff add_Suc)
      then obtain a s where alloc: "pmm_alloc 1 (vm_pmm st) = ok (a, s)"
        "can_alloc (pmm_alloc 1) (l - w_lowest w + k) s"
        by (rule can_allocE)
      have inv: "frames_inv (Suc (l - w_lowest w + k)) (vm_pmm st)"
        using Suc.prems(3) by (simp only: diff add_Suc)
      have "\<forall>f\<in>tframes fmt (view st) (Suc l) t. \<not> frame_free (vm_pmm st) f"
        using used by blast
      note a = fs.alloc_fresh [OF inv alloc(1) this]
      have a': "page_aligned a" "a \<noteq> t"
        using a(1,3) by (auto simp: frame_ok_def)
      let ?e1 = "w_new w a"
      let ?cleared = "clear_table a (st\<lparr>vm_pmm := s\<rparr>)"
      let ?st = "write_entry t ?i ?e1 ?cleared"
      have e1: "is_table fmt (Suc l) ?e1" "pt_addr fmt ?e1 = a"
        using new_table [OF a(3)] by (simp_all add: l')
      have view: "view ?st f j = (if f = t \<and> j = ?i then ?e1 else if f = a then 0 else view st f j)"
        if "page_aligned f" "j < 512" for f j
        using view_write_entry [where st = ?cleared and t = t and f = f and i = ?i and j = j and e = ?e1] view_clear_table [of "st\<lparr>vm_pmm := s\<rparr>" a f j] h t(1) a'(1) that
        by auto
      have zero: "view ?st a j = 0" if "j < 512" for j
        using view [OF a'(1) that] a'(2) by simp
      have ok: "tables_ok fmt l a ?st"
        using empty_tree [of "view ?st", OF zero] a(2,3) h by (auto simp: tables_ok_def l' simp del: tframes.simps tree_ok.simps)
      have lack: "missing fmt (view ?st) va l a - (w_lowest w - 1) = l - w_lowest w"
        using zero [of "vindex va (Suc l')"] zero_invalid table_valid lowest by (auto simp: l' Let_def)
      have inv1: "frames_inv (missing fmt (view ?st) va l a - (w_lowest w - 1) + k) (vm_pmm ?st)"
        "can_alloc (pmm_alloc 1) (missing fmt (view ?st) va l a - (w_lowest w - 1) + k) (vm_pmm ?st)"
        using a(4) alloc(2) unfolding lack by simp_all
      have walk: "walk_map fmt w va (Suc l) t st = walk_map fmt w va l a ?st"
        using False 1 alloc(1) addr [OF e1(1)] e1(2) a(3) by (simp add: Let_def vm_alloc_def)
      have block: "\<not> blocked fmt (w_lowest w) (view st) va (Suc l) t"
        using 1 by (simp add: Let_def)
      have block1: "\<not> blocked fmt (w_lowest w) (view ?st) va l a"
        using empty_tree(4) [of "view ?st", OF zero] by (simp add: l')
      have step: "page_mapped fmt (w_lowest w) new_leaf va (Suc l) t st st'"
        if child: "page_mapped fmt (w_lowest w) new_leaf va l a ?st st'" for st'
      proof (rule walk_step [OF Suc.prems(1) low refl e1 _ _ child, where K = "{a}"])
        show "frames_taken (missing fmt (view st) va (Suc l) t - (w_lowest w - 1)) (vm_pmm st) (vm_pmm st')"
          using child alloc(1) unfolding page_mapped_def lack diff by auto
        show "agree_on {f} (view st) (view ?st)"
          if "page_aligned f" "f \<noteq> t" "f \<noteq> a \<or> \<not> frame_free (vm_pmm st) a" for f
          using view that a(5) by (auto simp: agree_on_def)
        show "tframes fmt (view st) l (pt_addr fmt (view st t j)) \<inter> {a} = {}"
          if "j < 512" "j \<noteq> ?i" "is_table fmt (Suc l) (view st t j)" for j
          using a(1) tframes_sub [of j fmt l "view st" t] that by auto
        show "narrow fmt ?e1 x = x" if "mmu fmt (view ?st) l a va' = Some x" for va' x
          using that empty_tree(3) [of "view ?st", OF zero] by (simp add: l')
        show "mmu fmt (view st) (Suc l) t va' = mmu fmt (view ?st) l a va'" if "vindex va' (Suc l) = ?i" for va'
          using that 1 table_valid leaf_valid empty_tree(3) [of "view ?st", OF zero]
          by (auto simp: l' Let_def)
        show "tframes fmt (view ?st) l a \<subseteq> {a}"
          using empty_tree(2) [of "view ?st", OF zero] by (simp add: l')
        show "view ?st t j = (if j = ?i then ?e1 else view st t j)" if "j < 512" for j
          using view [OF t(1) that] a'(2) by simp
        show "same_config st ?st"
          by (simp add: same_config_def write_entry_def write_table_def clear_table_def)
      qed (use a a'(2) narrow_leaf(1) in simp_all)
      show ?thesis
        using Suc.IH [OF ok low inv1] walk block block1 step by auto
    next
      case 2
      then have "is_leaf fmt (Suc l) ?e"
        using tree vindex_less [of va "Suc l"] unfolding tree_ok.simps by blast
      then show ?thesis
        using 2 False stop(2) [of "Suc l" ?e] l' by (simp add: Let_def)
    next
      case 3
      let ?c = "pt_addr fmt ?e"
      let ?st = "write_entry t ?i (w_upd w ?e) st"
      have valid: "is_valid fmt ?e"
        using table_valid 3 .
      have c: "tree_ok fmt (view st) l ?c" "t \<notin> tframes fmt (view st) l ?c"
        "keeps_perms fmt (view st) l ?e ?c" "tframes fmt (view st) l ?c \<subseteq> tframes fmt (view st) (Suc l) t"
        using tree 3 tframes_sub [of ?i fmt l "view st" t] by (simp_all del: tframes.simps)
      have cc: "?c \<in> tframes fmt (view st) l ?c"
        by (simp add: l')
      have used_c: "frame_ok f \<and> \<not> frame_free (vm_pmm st) f" if "f \<in> tframes fmt (view st) l ?c" for f
        using used c(4) that by blast
      have frame: "frame_ok ?c"
        using used_c cc by blast
      have view: "view ?st f j = (if f = t \<and> j = ?i then w_upd w ?e else view st f j)"
        if "page_aligned f" "j < 512" for f j
        using view_write_entry [OF h t(1) that(1) vindex_less that(2)] .
      have agree: "agree_on {f} (view st) (view ?st)" if "page_aligned f" "f \<noteq> t" for f
        using view that by (simp add: agree_on_def)
      have sub: "agree_on (tframes fmt (view st) l ?c) (view st) (view ?st)"
        unfolding agree_on_def
      proof (intro ballI allI impI)
        fix f j assume f: "f \<in> tframes fmt (view st) l ?c" and j: "j < (512 :: nat)"
        have "page_aligned f" "f \<noteq> t"
          using f c(2) used_c [of f] by (auto simp: frame_ok_def)
        then show "view ?st f j = view st f j"
          using agree [of f] j by (simp add: agree_on_def)
      qed
      note same = tree_cong [OF sub]
      have ok: "tables_ok fmt l ?c ?st"
        using h c(1) same(1,3) used_c by (simp add: tables_ok_def)
      have lack: "missing fmt (view ?st) va l ?c = missing fmt (view st) va (Suc l) t"
        using missing_cong [OF sub] 3 by (simp add: Let_def)
      have inv: "frames_inv (missing fmt (view ?st) va l ?c - (w_lowest w - 1) + k) (vm_pmm ?st)"
          "can_alloc (pmm_alloc 1) (missing fmt (view ?st) va l ?c - (w_lowest w - 1) + k) (vm_pmm ?st)"
        using Suc.prems(3,4) by (simp_all only: lack write_entry_fields)
      have walk: "walk_map fmt w va (Suc l) t st = walk_map fmt w va l ?c ?st"
        using False valid 3 addr [of "Suc l" "w_upd w ?e"] upd_table [OF 3] frame
          stop(1) [of "Suc l" ?e] l' by (simp add: Let_def)
      have block: "blocked fmt (w_lowest w) (view st) va (Suc l) t \<longleftrightarrow>
          blocked fmt (w_lowest w) (view ?st) va l ?c"
        using False valid 3 blocked_cong [OF sub] by (simp add: Let_def)
      have step: "page_mapped fmt (w_lowest w) new_leaf va (Suc l) t st st'"
        if child: "page_mapped fmt (w_lowest w) new_leaf va l ?c ?st st'" for st'
      proof (rule walk_step [OF Suc.prems(1) low refl _ _ _ _ child, where K = "tframes fmt (view st) l ?c"])
        show "frames_taken (missing fmt (view st) va (Suc l) t - (w_lowest w - 1)) (vm_pmm st) (vm_pmm st')"
          using child by (simp only: page_mapped_def lack write_entry_fields)
        show "tframes fmt (view st) l (pt_addr fmt (view st t j)) \<inter> tframes fmt (view st) l ?c = {}"
          if "j < 512" "j \<noteq> ?i" "is_table fmt (Suc l) (view st t j)" for j
          using tree 3 that by auto
        show "narrow fmt (w_upd w ?e) x = x" if "mmu fmt (view ?st) l ?c va' = Some x" for va' x
          using that c(3) same(2) narrow_upd by (auto simp: keeps_perms_def)
        show "mmu fmt (view st) (Suc l) t va' = mmu fmt (view ?st) l ?c va'" if "vindex va' (Suc l) = ?i" for va'
          using that 3 c(3) same(2)
          by (cases "mmu fmt (view st) l ?c va'") (auto simp: Let_def keeps_perms_def)
        show "view ?st t j = (if j = ?i then w_upd w ?e else view st t j)" if "j < 512" for j
          using view [OF t(1) that] by simp
        show "agree_on {f} (view st) (view ?st)" if "page_aligned f" "f \<noteq> t" for f
          using agree that .
        show "is_table fmt (Suc l) (w_upd w ?e)" "pt_addr fmt (w_upd w ?e) = ?c"
          using upd_table [OF 3] by simp_all
        show "f \<in> tframes fmt (view st) (Suc l) t \<or> frame_free (vm_pmm st) f"
          if "f \<in> tframes fmt (view st) l ?c" for f
          using that c(4) by blast
      qed (use c(2) same cc narrow_leaf(2) in simp_all)
      show ?thesis
        using Suc.IH [OF ok low inv] walk block step by auto
    qed
  qed
qed

end

end
