(* ===== verification/PageSpan.thy ===== *)
theory PageSpan
  imports PageWalk
begin

text \<open>
  Translations by byte address. \<open>translate\<close> is the hardware's view of a virtual address: it must
  be canonical (its upper bits are a sign extension), and its physical address is the page's
  base plus the offset. \<open>region_mapped\<close> is the abstract effect of mapping a region; a page is a
  region, and regions compose, which is all the loops of \<open>ptm_map\<close> need.
\<close>

section \<open>Pages and offsets\<close>

lemma unat_take_bit: "unat (take_bit p x) = unat x mod 2 ^ p" for x :: u64
  by (metis take_bit_eq_mod unsigned_take_bit_eq)

lemma unat_less_pow2_iff: "unat x < 2 ^ p \<longleftrightarrow> take_bit p x = x" for x :: u64
proof -
  have "take_bit p x = x \<longleftrightarrow> unat x mod 2 ^ p = unat x"
    by (simp add: word_eq_unat unat_take_bit)
  also have "\<dots> \<longleftrightarrow> unat x < 2 ^ p"
    by (metis mod_less mod_less_divisor zero_less_numeral zero_less_power)
  finally show ?thesis
    by simp
qed

lemma add_offset:
  fixes v :: u64
  assumes "take_bit p v = 0" and "unat x < 2 ^ p"
  shows "v + x = v OR x" and "drop_bit p (v + x) = drop_bit p v" and "take_bit p (v + x) = x"
proof -
  have v: "bit v i \<Longrightarrow> p \<le> i" for i
    using assms(1) by (metis bit_0_eq bit_take_bit_iff bot_apply bot_bool_def not_le)
  have x: "take_bit p x = x"
    using assms(2) by (simp add: unat_less_pow2_iff)
  then have x': "bit x i \<Longrightarrow> i < p" for i
    by (metis bit_take_bit_iff)
  show sum: "v + x = v OR x"
    using v x' by (intro disjunctive_add) (auto simp: bit_eq_iff bit_simps dest: leD)
  show "drop_bit p (v + x) = drop_bit p v"
    unfolding sum by (rule bit_word_eqI) (auto simp: bit_simps dest: x')
  show "take_bit p (v + x) = x"
    unfolding sum using assms(1) x by (simp add: take_bit_or)
qed

lemma same_drop_iff:
  fixes v v' :: u64
  assumes "take_bit p v = 0" and "p < 64"
  shows "drop_bit p v' = drop_bit p v \<longleftrightarrow> unat (v' - v) < 2 ^ p"
proof
  assume eq: "drop_bit p v' = drop_bit p v"
  have "v' = push_bit p (drop_bit p v') + take_bit p v'"
    by (simp add: bits_ident)
  also have "push_bit p (drop_bit p v') = v"
    using assms(1) eq bits_ident [of p v] by simp
  finally have "v' - v = take_bit p v'"
    by (metis add_diff_cancel_left')
  then show "unat (v' - v) < 2 ^ p"
    by (simp add: unat_take_bit)
next
  assume "unat (v' - v) < 2 ^ p"
  from add_offset(2) [OF assms(1) this] show "drop_bit p v' = drop_bit p v"
    by simp
qed

section \<open>Canonical addresses\<close>

definition canonical :: "nat \<Rightarrow> u64 \<Rightarrow> bool" where
  "canonical n va \<longleftrightarrow> (\<forall>i<64. 9 * n + 11 \<le> i \<longrightarrow> bit va i = bit va (9 * n + 11))"

lemma take_bit_eq_iff: "take_bit n x = take_bit n y \<longleftrightarrow> (\<forall>j<n. bit x j = bit y j)" for x y :: u64
proof
  assume eq: "take_bit n x = take_bit n y"
  have "bit (take_bit n x) j = bit (take_bit n y) j" for j
    by (simp only: eq)
  then show "\<forall>j<n. bit x j = bit y j"
    unfolding bit_take_bit_iff by blast
next
  assume "\<forall>j<n. bit x j = bit y j"
  then show "take_bit n x = take_bit n y"
    by (intro bit_word_eqI) (auto simp: bit_simps)
qed

lemma drop_bit_eq_iff: "drop_bit p x = drop_bit p y \<longleftrightarrow> (\<forall>i\<ge>p. bit x i = bit y i)" for x y :: u64
proof
  assume eq: "drop_bit p x = drop_bit p y"
  show "\<forall>i\<ge>p. bit x i = bit y i"
  proof (intro allI impI)
    fix i assume "p \<le> i"
    moreover have "bit (drop_bit p x) (i - p) = bit (drop_bit p y) (i - p)"
      by (simp only: eq)
    ultimately show "bit x i = bit y i"
      by (simp add: bit_simps)
  qed
next
  assume "\<forall>i\<ge>p. bit x i = bit y i"
  then show "drop_bit p x = drop_bit p y"
    by (intro bit_word_eqI) (auto simp: bit_simps)
qed

lemma vindex_bits:
  "vindex va k = vindex va' k \<longleftrightarrow> (\<forall>j<9. bit va (9 * k + 3 + j) = bit va' (9 * k + 3 + j))"
proof -
  have mask: "x AND 0x1FF = take_bit 9 x" for x :: u64
    by (simp add: take_bit_eq_mask mask_eq_exp_minus_1)
  have "vindex va k = vindex va' k \<longleftrightarrow>
      take_bit 9 (drop_bit (9 * k + 3) va) = take_bit 9 (drop_bit (9 * k + 3) va')"
    by (simp only: vindex_def mask mult.commute [of k] word_eq_unat)
  also have "\<dots> \<longleftrightarrow> (\<forall>j<9. bit va (9 * k + 3 + j) = bit va' (9 * k + 3 + j))"
    by (simp only: take_bit_eq_iff) (simp add: bit_simps)
  finally show ?thesis .
qed

lemma same_page_iff:
  assumes can: "canonical n va" "canonical n va'" and l: "1 \<le> lowest" "lowest \<le> n"
  shows "same_page lowest n va va' \<longleftrightarrow> drop_bit (9 * lowest + 3) va' = drop_bit (9 * lowest + 3) va"
proof
  assume same: "same_page lowest n va va'"
  have low: "bit va' i = bit va i" if "9 * lowest + 3 \<le> i" "i < 9 * n + 12" for i
  proof -
    define k where "k = (i - 3) div 9"
    define j where "j = (i - 3) mod 9"
    have "i = 9 * k + 3 + j" "j < 9" "lowest \<le> k" "k \<le> n"
      using that l by (auto simp: k_def j_def)
    then show ?thesis
      using same vindex_bits [of va' k va] by (auto simp: same_page_def)
  qed
  have bits: "bit va' i = bit va i" if "9 * lowest + 3 \<le> i" "i < 64" for i
  proof (cases "i < 9 * n + 12")
    case False
    then have "9 * n + 11 \<le> i"
      by simp
    then have "bit va' i = bit va' (9 * n + 11)" "bit va i = bit va (9 * n + 11)"
      using can that(2) unfolding canonical_def by blast+
    then show ?thesis
      using low [of "9 * n + 11"] l by simp
  qed (use low that in simp)
  have "\<forall>i\<ge>9 * lowest + 3. bit va' i = bit va i"
  proof (intro allI impI)
    fix i assume "9 * lowest + 3 \<le> i"
    then show "bit va' i = bit va i"
      using bits by (cases "i < 64") (auto dest: bit_imp_le_length)
  qed
  then show "drop_bit (9 * lowest + 3) va' = drop_bit (9 * lowest + 3) va"
    by (simp only: drop_bit_eq_iff)
next
  assume eq: "drop_bit (9 * lowest + 3) va' = drop_bit (9 * lowest + 3) va"
  then have "\<forall>i\<ge>9 * lowest + 3. bit va' i = bit va i"
    by (simp only: drop_bit_eq_iff)
  then show "same_page lowest n va va'"
    by (auto simp: same_page_def vindex_bits)
qed

lemma canonical_low:
  assumes "unat va < 2 ^ (9 * n + 11)" shows "canonical n va"
proof -
  have "take_bit (9 * n + 11) va = va"
    using assms by (simp flip: unat_less_pow2_iff)
  then have "\<not> bit va i" if "9 * n + 11 \<le> i" for i
    using that by (metis bit_take_bit_iff not_le)
  then show ?thesis
    by (auto simp: canonical_def)
qed

section \<open>Translations\<close>

text \<open>Physical address, then read, write and execute permission.\<close>

definition byte_of :: "u64 \<Rightarrow> xlate \<Rightarrow> u64 \<times> bool \<times> bool \<times> bool" where
  "byte_of va x = (x_base x + take_bit (9 * x_level x + 3) va, x_read x, x_write x, x_exec x)"

definition translate ::
  "pt_format \<Rightarrow> 'a vm_state_scheme \<Rightarrow> nat \<Rightarrow> u64 \<Rightarrow> u64 \<Rightarrow> (u64 \<times> bool \<times> bool \<times> bool) option" where
  "translate fmt st n root va =
     (if canonical n va then map_option (byte_of va) (mmu fmt (view st) n root va) else None)"

text \<open>Frames in use outside the tables keep their contents, and the tables only grow by free
  frames.\<close>

definition others_kept ::
  "pt_format \<Rightarrow> nat \<Rightarrow> u64 \<Rightarrow> 'a vm_state_scheme \<Rightarrow> 'a vm_state_scheme \<Rightarrow> bool" where
  "others_kept fmt n root st st' \<longleftrightarrow>
     (\<forall>f. frame_free (vm_pmm st') f \<longrightarrow> frame_free (vm_pmm st) f) \<and>
     (\<forall>f\<in>tframes fmt (view st') n root. f \<in> tframes fmt (view st) n root \<or> frame_free (vm_pmm st) f) \<and>
     (\<forall>f. page_aligned f \<longrightarrow> f \<notin> tframes fmt (view st) n root \<longrightarrow> \<not> frame_free (vm_pmm st) f \<longrightarrow>
        agree_on {f} (view st) (view st'))"

lemma others_kept_refl: "others_kept fmt n root st st"
  by (simp add: others_kept_def agree_on_def)

lemma others_kept_trans:
  assumes "others_kept fmt n root st st1" and "others_kept fmt n root st1 st2"
  shows "others_kept fmt n root st st2"
proof -
  have "agree_on {f} (view st) (view st2)"
    if "page_aligned f" "f \<notin> tframes fmt (view st) n root" "\<not> frame_free (vm_pmm st) f" for f
    using assms that unfolding others_kept_def by (blast intro: agree_on_trans)
  then show ?thesis
    using assms unfolding others_kept_def by blast
qed

definition region_mapped ::
  "pt_format \<Rightarrow> nat \<Rightarrow> u64 \<Rightarrow> bool \<times> bool \<times> bool \<Rightarrow> u64 \<Rightarrow> u64 \<Rightarrow> nat \<Rightarrow>
    'a vm_state_scheme \<Rightarrow> 'a vm_state_scheme \<Rightarrow> bool" where
  "region_mapped fmt n root perms v p len st st' \<longleftrightarrow>
     same_config st st' \<and> tables_ok fmt n root st' \<and> others_kept fmt n root st st' \<and>
     frames_taken (len div 4096 * (n - 1)) (vm_pmm st) (vm_pmm st') \<and>
     (\<forall>va. translate fmt st' n root va =
       (if unat (va - v) < len then Some (p + (va - v), perms) else translate fmt st n root va))"

definition region_canonical :: "nat \<Rightarrow> u64 \<Rightarrow> nat \<Rightarrow> bool" where
  "region_canonical n v len \<longleftrightarrow> (\<forall>va. unat (va - v) < len \<longrightarrow> canonical n va)"

lemma canonical_drop:
  assumes "canonical n v" and "p \<le> 9 * n + 11" and "drop_bit p v' = drop_bit p v"
  shows "canonical n v'"
proof -
  have "\<forall>i\<ge>p. bit v' i = bit v i"
    using assms(3) by (simp only: drop_bit_eq_iff)
  then have "bit v' i = bit v i" "bit v' (9 * n + 11) = bit v (9 * n + 11)"
    if "9 * n + 11 \<le> i" for i
    using that assms(2) by simp_all
  then show ?thesis
    using assms(1) unfolding canonical_def by metis
qed

lemma page_region:
  assumes page: "page_mapped fmt lowest x v n root st st'" and l: "1 \<le> lowest" "lowest \<le> n" "n \<le> 5"
    and v: "canonical n v" "take_bit (9 * lowest + 3) v = 0"
    and x: "x_base x = p" "x_level x = lowest"
  shows "region_mapped fmt n root (x_read x, x_write x, x_exec x) v p (2 ^ (9 * lowest + 3)) st st'"
proof -
  let ?b = "9 * lowest + 3"
  have mmu: "mmu fmt (view st') n root va =
      (if same_page lowest n v va then Some x else mmu fmt (view st) n root va)" for va
    using page by (simp add: page_mapped_def)
  have "translate fmt st' n root va = (if unat (va - v) < 2 ^ ?b
      then Some (p + (va - v), x_read x, x_write x, x_exec x) else translate fmt st n root va)" for va
  proof -
    have page_iff: "drop_bit ?b va = drop_bit ?b v \<longleftrightarrow> unat (va - v) < 2 ^ ?b"
      using l by (intro same_drop_iff v(2)) simp
    have off: "take_bit ?b va = va - v" if "unat (va - v) < 2 ^ ?b"
      using add_offset(3) [OF v(2) that] by simp
    show ?thesis
    proof (cases "canonical n va")
      case True
      then show ?thesis
        using same_page_iff [OF v(1) True l(1,2)] page_iff off x
        by (simp add: translate_def mmu byte_of_def)
    next
      case False
      then have "\<not> unat (va - v) < 2 ^ ?b"
        using canonical_drop [OF v(1), of ?b va] page_iff l by auto
      then show ?thesis
        using False by (simp add: translate_def)
    qed
  qed
  moreover have "missing fmt (view st) v n root - (lowest - 1) \<le> 2 ^ ?b div 4096 * (n - 1)"
  proof -
    have "(1 :: nat) \<le> 2 ^ ?b div 4096"
      using l power_increasing [of 12 ?b "2 :: nat"] by (simp add: div_greater_zero_iff Suc_le_eq)
    then have "1 * (n - 1) \<le> 2 ^ ?b div 4096 * (n - 1)"
      by (rule mult_le_mono1)
    moreover have "missing fmt (view st) v n root - (lowest - 1) \<le> 1 * (n - 1)"
      using missing_less [of fmt "view st" v n root] l by simp
    ultimately show ?thesis
      by (rule le_trans [rotated])
  qed
  ultimately show ?thesis
    using page frames_taken_mono [of "missing fmt (view st) v n root - (lowest - 1)"] by (simp add: region_mapped_def page_mapped_def others_kept_def)
qed

lemma region_refl:
  "tables_ok fmt n root st \<Longrightarrow> region_mapped fmt n root perms v p 0 st st"
  by (simp add: region_mapped_def others_kept_refl)

lemma region_split:
  fixes va v :: u64
  assumes "n \<le> len" and "len < 2 ^ 64" and "n < 2 ^ 64"
  shows "unat (va - v) < len \<longleftrightarrow>
    unat (va - v) < n \<or> unat (va - (v + of_nat n)) < len - n"
proof (cases "unat (va - v) < n")
  case True
  then show ?thesis
    using assms by simp
next
  case False
  have n: "unat (of_nat n :: u64) = n"
    using assms by (simp add: unat_of_nat_64)
  have "unat (va - v - of_nat n) = unat (va - v) - n"
    using False n by (subst unat_diff_nowrap) simp_all
  then show ?thesis
    using False assms(1) by (auto simp: diff_diff_eq)
qed

lemma region_split_disjoint:
  fixes va v :: u64
  assumes "n \<le> len" and "len < 2 ^ 64" and "unat (va - v) < n"
  shows "\<not> unat (va - (v + of_nat n)) < len - n"
proof -
  have n: "unat (of_nat n :: u64) = n"
    using assms by (simp add: unat_of_nat_64)
  have "va - (v + of_nat n) = (va - v) - of_nat n"
    by simp
  also have "unat \<dots> = 2 ^ 64 + unat (va - v) - n"
    using assms n by (simp add: unat_sub_if' unat_less_64)
  finally show ?thesis
    using assms(1,2) by simp
qed

lemma unat_lt_region:
  fixes va h b :: u64
  assumes "unat b + n < 2 ^ 64"
  shows "unat (va - (h + b)) < n \<longleftrightarrow> unat b \<le> unat (va - h) \<and> unat (va - h) < unat b + n"
proof -
  have split: "unat (va - h) < unat b + n \<longleftrightarrow>
      unat (va - h) < unat b \<or> unat (va - (h + of_nat (unat b))) < unat b + n - unat b"
    using assms by (intro region_split) simp_all
  have dis: "\<not> unat (va - (h + of_nat (unat b))) < unat b + n - unat b" if "unat (va - h) < unat b"
    using assms that by (intro region_split_disjoint) simp_all
  show ?thesis
    using split dis by (cases "unat (va - h) < unat b") (auto simp: not_less)
qed

lemma region_compose:
  assumes "region_mapped fmt m root perms v p n st st1"
    and "region_mapped fmt m root perms (v + of_nat n) (p + of_nat n) (len - n) st1 st2"
    and "n \<le> len" and "len < 2 ^ 64"
  shows "region_mapped fmt m root perms v p len st st2"
proof -
  have n: "n < 2 ^ 64"
    using assms(3,4) by simp
  have "translate fmt st2 m root va = (if unat (va - v) < len then Some (p + (va - v), perms)
      else translate fmt st m root va)" for va
    using assms(1,2) region_split [OF assms(3,4) n, of va v] region_split_disjoint [OF assms(3,4), of va v]
    by (auto simp: region_mapped_def)
  moreover have "frames_taken (len div 4096 * (m - 1)) (vm_pmm st) (vm_pmm st2)"
  proof (rule frames_taken_mono)
    show "frames_taken (n div 4096 * (m - 1) + (len - n) div 4096 * (m - 1)) (vm_pmm st) (vm_pmm st2)"
      using assms(1,2) by (auto simp: region_mapped_def intro: frames_taken_trans)
    have "n div 4096 + (len - n) div 4096 \<le> (n + (len - n)) div 4096"
      by (simp add: less_eq_div_iff_mult_less_eq add_mult_distrib add_mono)
    then have "(n div 4096 + (len - n) div 4096) * (m - 1) \<le> len div 4096 * (m - 1)"
      using assms(3) by (intro mult_le_mono1) simp
    then show "n div 4096 * (m - 1) + (len - n) div 4096 * (m - 1) \<le> len div 4096 * (m - 1)"
      by (simp add: add_mult_distrib)
  qed
  ultimately show ?thesis
    using assms(1,2) by (auto simp: region_mapped_def intro: same_config_trans others_kept_trans)
qed

lemma region_canonical_sub:
  assumes "region_canonical m v len" and "n \<le> len" and "len < 2 ^ 64"
  shows "region_canonical m (v + of_nat n) (len - n)"
  using assms region_split [of n len] by (auto simp: region_canonical_def)

end
