(* ===== verification/X86Cpuid.thy ===== *)
theory X86Cpuid
  imports Prelude
begin

text \<open>
  CPU feature detection of \<open>pre_kernel/src/arch/x86_64/cpuid.c\<close> and the feature table of
  \<open>pre_kernel/include/arch/x86_64/arch/cpuid.h\<close>. The \<open>cpuid\<close> instruction is a parameter: a
  function from leaf and subleaf to the four result registers.
\<close>

datatype arch_cpuid_reg_t = ARCH_CPUID_EAX | ARCH_CPUID_EBX | ARCH_CPUID_ECX | ARCH_CPUID_EDX

record arch_cpuid_feature_t =
  feat_leaf :: u32
  feat_subleaf :: u32
  feat_reg :: arch_cpuid_reg_t
  feat_mask :: u32

definition ARCH_CPUID_VENDOR_ID :: u32 where "ARCH_CPUID_VENDOR_ID = 0"
definition ARCH_CPUID_GET_FEATURES :: u32 where "ARCH_CPUID_GET_FEATURES = 1"
definition ARCH_CPUID_GET_EXTENDED_FEATURES :: u32 where "ARCH_CPUID_GET_EXTENDED_FEATURES = 7"
definition ARCH_CPUID_EXTENDED_PROCESSOR_INFO :: u32 where
  "ARCH_CPUID_EXTENDED_PROCESSOR_INFO = 0x80000001"

datatype cpu_feature =
    X2APIC | LA57 | GLOBAL_PAGES | PDPE1GB_PAGES | NX_PAGES | PAT | FXSR | XSAVE | OSXSAVE
  | AVX | AVX512 | SMAP | SMEP | UMIP | FRED | LKGS

definition CPUID_FEATURE_DEFINE ::
  "u32 \<Rightarrow> u32 \<Rightarrow> arch_cpuid_reg_t \<Rightarrow> nat \<Rightarrow> arch_cpuid_feature_t" where
  "CPUID_FEATURE_DEFINE leaf subleaf reg b =
     \<lparr>feat_leaf = leaf, feat_subleaf = subleaf, feat_reg = reg, feat_mask = push_bit b 1\<rparr>"

primrec ARCH_CPUID_FEATURE :: "cpu_feature \<Rightarrow> arch_cpuid_feature_t" where
  "ARCH_CPUID_FEATURE X2APIC = CPUID_FEATURE_DEFINE ARCH_CPUID_GET_FEATURES 0 ARCH_CPUID_ECX 21"
| "ARCH_CPUID_FEATURE LA57 = CPUID_FEATURE_DEFINE ARCH_CPUID_GET_EXTENDED_FEATURES 0 ARCH_CPUID_ECX 16"
| "ARCH_CPUID_FEATURE GLOBAL_PAGES = CPUID_FEATURE_DEFINE ARCH_CPUID_GET_FEATURES 0 ARCH_CPUID_EDX 13"
| "ARCH_CPUID_FEATURE PDPE1GB_PAGES =
     CPUID_FEATURE_DEFINE ARCH_CPUID_EXTENDED_PROCESSOR_INFO 0 ARCH_CPUID_EDX 26"
| "ARCH_CPUID_FEATURE NX_PAGES =
     CPUID_FEATURE_DEFINE ARCH_CPUID_EXTENDED_PROCESSOR_INFO 0 ARCH_CPUID_EDX 20"
| "ARCH_CPUID_FEATURE PAT = CPUID_FEATURE_DEFINE ARCH_CPUID_GET_FEATURES 0 ARCH_CPUID_EDX 16"
| "ARCH_CPUID_FEATURE FXSR = CPUID_FEATURE_DEFINE ARCH_CPUID_GET_FEATURES 0 ARCH_CPUID_EDX 24"
| "ARCH_CPUID_FEATURE XSAVE = CPUID_FEATURE_DEFINE ARCH_CPUID_GET_FEATURES 0 ARCH_CPUID_ECX 26"
| "ARCH_CPUID_FEATURE OSXSAVE = CPUID_FEATURE_DEFINE ARCH_CPUID_GET_FEATURES 0 ARCH_CPUID_ECX 27"
| "ARCH_CPUID_FEATURE AVX = CPUID_FEATURE_DEFINE ARCH_CPUID_GET_FEATURES 0 ARCH_CPUID_ECX 28"
| "ARCH_CPUID_FEATURE AVX512 = CPUID_FEATURE_DEFINE ARCH_CPUID_GET_EXTENDED_FEATURES 0 ARCH_CPUID_EBX 16"
| "ARCH_CPUID_FEATURE SMAP = CPUID_FEATURE_DEFINE ARCH_CPUID_GET_EXTENDED_FEATURES 0 ARCH_CPUID_EBX 20"
| "ARCH_CPUID_FEATURE SMEP = CPUID_FEATURE_DEFINE ARCH_CPUID_GET_EXTENDED_FEATURES 0 ARCH_CPUID_EBX 7"
| "ARCH_CPUID_FEATURE UMIP = CPUID_FEATURE_DEFINE ARCH_CPUID_GET_EXTENDED_FEATURES 0 ARCH_CPUID_ECX 2"
| "ARCH_CPUID_FEATURE FRED = CPUID_FEATURE_DEFINE ARCH_CPUID_GET_EXTENDED_FEATURES 1 ARCH_CPUID_EAX 17"
| "ARCH_CPUID_FEATURE LKGS = CPUID_FEATURE_DEFINE ARCH_CPUID_GET_EXTENDED_FEATURES 1 ARCH_CPUID_EAX 18"

type_synonym cpuid_instr = "u32 \<Rightarrow> u32 \<Rightarrow> u32 \<times> u32 \<times> u32 \<times> u32"

definition arch_cpuid :: "cpuid_instr \<Rightarrow> u32 \<Rightarrow> u32 \<Rightarrow> arch_cpuid_reg_t \<Rightarrow> u32" where
  "arch_cpuid cpuid leaf subleaf reg =
     (let (eax, ebx, ecx, edx) = cpuid leaf subleaf
      in case reg of
           ARCH_CPUID_EAX \<Rightarrow> eax
         | ARCH_CPUID_EBX \<Rightarrow> ebx
         | ARCH_CPUID_ECX \<Rightarrow> ecx
         | ARCH_CPUID_EDX \<Rightarrow> edx)"

definition arch_cpuid_get_feature_value :: "cpuid_instr \<Rightarrow> arch_cpuid_feature_t \<Rightarrow> u32" where
  "arch_cpuid_get_feature_value cpuid feature =
     arch_cpuid cpuid (feat_leaf feature) (feat_subleaf feature) (feat_reg feature) AND feat_mask feature"

definition arch_cpuid_is_feature_supported :: "cpuid_instr \<Rightarrow> arch_cpuid_feature_t \<Rightarrow> bool" where
  "arch_cpuid_is_feature_supported cpuid feature \<longleftrightarrow>
     arch_cpuid cpuid (feat_leaf feature) (feat_subleaf feature) (feat_reg feature) AND feat_mask feature \<noteq> 0"

lemma supported_bit:
  "arch_cpuid_is_feature_supported cpuid (CPUID_FEATURE_DEFINE leaf subleaf reg b) \<longleftrightarrow>
    bit (arch_cpuid cpuid leaf subleaf reg) b"
  by (simp add: arch_cpuid_is_feature_supported_def CPUID_FEATURE_DEFINE_def and_push_bit_one
      del: push_bit_of_1)

end
