(* ===== verification/PtmX86.thy ===== *)
theory PtmX86
  imports PageSpan X86Cpuid
begin

text \<open>
  The x86-64 page tables of \<open>pre_kernel/src/arch/x86_64/ptm.c\<close>: \<open>ptm_init\<close>, \<open>map_page\<close>,
  \<open>ptm_map\<close>, \<open>ptm_map_at\<close> and \<open>ptm_create_hhdm_mappings\<close>. The two static feature flags extend
  the state. A log line has no effect on the state and is left out.
\<close>

section \<open>Constants\<close>

definition ENTRY_FLAG_PRESENT :: u64 where "ENTRY_FLAG_PRESENT = 1"
definition ENTRY_FLAG_RW :: u64 where "ENTRY_FLAG_RW = 2"
definition ENTRY_FLAG_NX :: u64 where "ENTRY_FLAG_NX = 0x8000000000000000"
definition ENTRYH_FLAG_PS :: u64 where "ENTRYH_FLAG_PS = 0x80"

definition ENTRY_4K_ADDRESS_MASK :: u64 where "ENTRY_4K_ADDRESS_MASK = 0x0007FFFFFFFFF000"
definition ENTRY_2M_ADDRESS_MASK :: u64 where "ENTRY_2M_ADDRESS_MASK = 0x0007FFFFFFE00000"
definition ENTRY_1G_ADDRESS_MASK :: u64 where "ENTRY_1G_ADDRESS_MASK = 0x0007FFFFC0000000"

definition PTM_FLAG_EXEC :: u8 where "PTM_FLAG_EXEC = 1"
definition PTM_FLAG_WRITE :: u8 where "PTM_FLAG_WRITE = 2"
definition PTM_FLAG_READ :: u8 where "PTM_FLAG_READ = 4"

definition VADDR_TO_INDEX :: "u64 \<Rightarrow> nat \<Rightarrow> nat" where
  "VADDR_TO_INDEX vaddr level = unat (drop_bit (level * 9 + 3) vaddr AND 0x1FF)"

datatype ptm_page_size_t = PAGE_4K | PAGE_2M | PAGE_1G

primrec page_size_bytes :: "ptm_page_size_t \<Rightarrow> u64" where
  "page_size_bytes PAGE_4K = PTM_PAGE_SIZE_4K"
| "page_size_bytes PAGE_2M = PTM_PAGE_SIZE_2M"
| "page_size_bytes PAGE_1G = PTM_PAGE_SIZE_1G"

primrec lowest_level :: "ptm_page_size_t \<Rightarrow> nat" where
  "lowest_level PAGE_4K = 1"
| "lowest_level PAGE_2M = 2"
| "lowest_level PAGE_1G = 3"

primrec address_mask :: "ptm_page_size_t \<Rightarrow> u64" where
  "address_mask PAGE_4K = ENTRY_4K_ADDRESS_MASK"
| "address_mask PAGE_2M = ENTRY_2M_ADDRESS_MASK"
| "address_mask PAGE_1G = ENTRY_1G_ADDRESS_MASK"

record x86_state = vm_state +
  g_x86_64_cpu_nx_support :: bool
  g_x86_64_cpu_pdpe1gb_support :: bool

section \<open>ptm_init\<close>

definition ptm_init :: "cpuid_instr \<Rightarrow> u64 \<Rightarrow> x86_state \<Rightarrow> x86_state res" where
  "ptm_init cpuid cr4 st =
     (let supported = (\<lambda>f. arch_cpuid_is_feature_supported cpuid (ARCH_CPUID_FEATURE f))
      in res_bind (vm_alloc 1 st)
           (\<lambda>(top_pagemap, st).
              let st = clear_table top_pagemap st;
                  levels = (if supported LA57 then (if cr4 AND push_bit 12 1 \<noteq> 0 then 5 else 4) else 4)
              in ok (st\<lparr>g_ptm := \<lparr>tplt = top_pagemap, level_count = levels\<rparr>,
                        g_x86_64_cpu_nx_support := supported NX_PAGES,
                        g_x86_64_cpu_pdpe1gb_support := supported PDPE1GB_PAGES\<rparr>)))"

section \<open>map_page\<close>

text \<open>One iteration of the walk for an absent and for a present entry; both end in the entry the
  loop may write back. The message's argument is left out.\<close>

definition map_page_entry ::
  "u64 \<Rightarrow> bool \<Rightarrow> bool \<Rightarrow> x86_state \<Rightarrow> (u64 \<times> x86_state) res" where
  "map_page_entry entry rw nx st =
     res_bind
       (if entry AND ENTRY_FLAG_PRESENT = 0 then
          res_bind (vm_alloc 1 st)
            (\<lambda>(new_table, st).
               let st = clear_table new_table st;
                   entry = ENTRY_FLAG_PRESENT OR (new_table AND ENTRY_4K_ADDRESS_MASK)
               in ok (if nx then entry OR ENTRY_FLAG_NX else entry, st))
        else if entry AND ENTRYH_FLAG_PS \<noteq> 0 then
          fail (Panic ''cannot remap over a non-4k page %lx'')
        else ok (if \<not> nx then entry AND NOT ENTRY_FLAG_NX else entry, st))
       (\<lambda>(entry, st). ok (if rw then entry OR ENTRY_FLAG_RW else entry, st))"

fun map_page_walk ::
  "nat \<Rightarrow> nat \<Rightarrow> u64 \<Rightarrow> u64 \<Rightarrow> bool \<Rightarrow> bool \<Rightarrow> x86_state \<Rightarrow> (u64 \<times> x86_state) res" where
  "map_page_walk level lowest current_table vaddr rw nx st =
     (if level > lowest then
        (let index = VADDR_TO_INDEX vaddr level
         in res_bind (map_page_entry (read_table st current_table index) rw nx st)
              (\<lambda>(entry, st).
                 let st = (if read_table st current_table index \<noteq> entry
                           then write_table current_table index entry st else st)
                 in map_page_walk (level - 1) lowest
                      ((entry AND ENTRY_4K_ADDRESS_MASK) + hhdm_offset st) vaddr rw nx st))
      else ok (current_table, st))"

declare map_page_walk.simps [simp del]

definition leaf_entry :: "u64 \<Rightarrow> ptm_page_size_t \<Rightarrow> bool \<Rightarrow> bool \<Rightarrow> u64" where
  "leaf_entry paddr page_size rw nx =
     (let entry = ENTRY_FLAG_PRESENT OR (paddr AND address_mask page_size);
          entry = (if page_size \<noteq> PAGE_4K then entry OR ENTRYH_FLAG_PS else entry);
          entry = (if rw then entry OR ENTRY_FLAG_RW else entry)
      in if nx then entry OR ENTRY_FLAG_NX else entry)"

definition map_page ::
  "u64 \<Rightarrow> nat \<Rightarrow> u64 \<Rightarrow> u64 \<Rightarrow> ptm_page_size_t \<Rightarrow> bool \<Rightarrow> bool \<Rightarrow> x86_state \<Rightarrow> x86_state res" where
  "map_page cr3 levels vaddr paddr page_size rw nx st =
     res_bind (map_page_walk levels (lowest_level page_size) (cr3 + hhdm_offset st) vaddr rw nx st)
       (\<lambda>(current_table, st).
          ok (write_table current_table (VADDR_TO_INDEX vaddr (lowest_level page_size))
                (leaf_entry paddr page_size rw nx) st))"

section \<open>Mapping a region\<close>

definition choose_page_size :: "u64 \<Rightarrow> u64 \<Rightarrow> u64 \<Rightarrow> bool \<Rightarrow> ptm_page_size_t" where
  "choose_page_size paddr vaddr remain pdpe1gb =
     (let page_size =
        (if paddr mod PTM_PAGE_SIZE_2M = 0 \<and> vaddr mod PTM_PAGE_SIZE_2M = 0 \<and>
            remain \<ge> PTM_PAGE_SIZE_2M then PAGE_2M else PAGE_4K)
      in if pdpe1gb \<and> paddr mod PTM_PAGE_SIZE_1G = 0 \<and> vaddr mod PTM_PAGE_SIZE_1G = 0 \<and>
            remain \<ge> PTM_PAGE_SIZE_1G then PAGE_1G else page_size)"

partial_function (option) ptm_map_loop ::
  "u64 \<Rightarrow> nat \<Rightarrow> u64 \<Rightarrow> u64 \<Rightarrow> u64 \<Rightarrow> u64 \<Rightarrow> u8 \<Rightarrow> x86_state \<Rightarrow> x86_state res" where
  "ptm_map_loop cr3 levels offset vaddr paddr len flags st =
     (if offset < len then
        (let page_size = choose_page_size paddr vaddr (len - offset) (g_x86_64_cpu_pdpe1gb_support st)
         in res_bind
              (map_page cr3 levels vaddr paddr page_size (flags AND PTM_FLAG_WRITE \<noteq> 0)
                 (g_x86_64_cpu_nx_support st \<and> flags AND PTM_FLAG_EXEC = 0) st)
              (\<lambda>st. ptm_map_loop cr3 levels (offset + page_size_bytes page_size)
                      (vaddr + page_size_bytes page_size) (paddr + page_size_bytes page_size)
                      len flags st))
      else ok st)"

declare ptm_map_loop.simps [code]

definition ptm_map_at ::
  "u64 \<Rightarrow> nat \<Rightarrow> u64 \<Rightarrow> u64 \<Rightarrow> u64 \<Rightarrow> u8 \<Rightarrow> x86_state \<Rightarrow> x86_state res" where
  "ptm_map_at cr3 levels vaddr paddr len flags st =
     (if paddr mod PTM_PAGE_GRANULARITY \<noteq> 0 \<or> vaddr mod PTM_PAGE_GRANULARITY \<noteq> 0 \<or>
         len mod PTM_PAGE_GRANULARITY \<noteq> 0
      then fail (Panic ''unaligned mapping (%lx -> %lx / %lx)'')
      else ptm_map_loop cr3 levels 0 vaddr paddr len flags st)"

text \<open>\<open>ptm_map\<close> repeats the body of \<open>ptm_map_at\<close> for the tables of \<open>g_ptm\<close>.\<close>

definition ptm_map :: "u64 \<Rightarrow> u64 \<Rightarrow> u64 \<Rightarrow> u8 \<Rightarrow> x86_state \<Rightarrow> x86_state res" where
  "ptm_map vaddr paddr len flags st =
     (if paddr mod PTM_PAGE_GRANULARITY \<noteq> 0 \<or> vaddr mod PTM_PAGE_GRANULARITY \<noteq> 0 \<or>
         len mod PTM_PAGE_GRANULARITY \<noteq> 0
      then fail (Panic ''unaligned mapping (%lx -> %lx / %lx)'')
      else ptm_map_loop (tplt (g_ptm st)) (level_count (g_ptm st)) 0 vaddr paddr len flags st)"

section \<open>The direct map\<close>

definition hhdm_type :: "pmm_map_type \<Rightarrow> bool" where
  "hhdm_type t \<longleftrightarrow> (case t of
       PMM_MAP_TYPE_FREE \<Rightarrow> True
     | PMM_MAP_TYPE_USED \<Rightarrow> True
     | PMM_MAP_TYPE_ALLOCATED \<Rightarrow> True
     | PMM_MAP_TYPE_BOOTLOADER_RECLAIMABLE \<Rightarrow> True
     | PMM_MAP_TYPE_EFI_RECLAIMABLE \<Rightarrow> True
     | PMM_MAP_TYPE_ACPI_RECLAIMABLE \<Rightarrow> True
     | PMM_MAP_TYPE_ACPI_NVS \<Rightarrow> True
     | PMM_MAP_TYPE_RESERVED \<Rightarrow> True
     | _ \<Rightarrow> False)"

definition page_extent :: "u64 \<Rightarrow> u64 \<Rightarrow> u64 \<times> u64" where
  "page_extent base len =
     (let (base, len) = (if base mod PTM_PAGE_GRANULARITY \<noteq> 0
                         then (base - base mod PTM_PAGE_GRANULARITY, len + base mod PTM_PAGE_GRANULARITY)
                         else (base, len))
      in if len mod PTM_PAGE_GRANULARITY \<noteq> 0
         then (base, len + (PTM_PAGE_GRANULARITY - len mod PTM_PAGE_GRANULARITY)) else (base, len))"

fun hhdm_loop :: "pmm_map_entry list \<Rightarrow> x86_state \<Rightarrow> x86_state res" where
  "hhdm_loop [] st = ok st"
| "hhdm_loop (e # es) st =
     (if \<not> hhdm_type (me_type e) then hhdm_loop es st
      else (let (base, len) = page_extent (me_base e) (me_length e)
            in res_bind (ptm_map (hhdm_offset st + base) base len (PTM_FLAG_READ OR PTM_FLAG_WRITE) st)
                 (\<lambda>st. hhdm_loop es st)))"

definition ptm_create_hhdm_mappings :: "x86_state \<Rightarrow> x86_state res" where
  "ptm_create_hhdm_mappings st =
     res_bind (pmm_create_snapshot (vm_pmm st))
       (\<lambda>(snapshot, s).
          res_bind (hhdm_loop (snap_entries snapshot) (st\<lparr>vm_pmm := s\<rparr>))
            (\<lambda>st. res_bind (pmm_free_snapshot snapshot (vm_pmm st))
                    (\<lambda>s. ok (st\<lparr>vm_pmm := s\<rparr>))))"

end
