(* ===== verification/PageCost.thy ===== *)
theory PageCost
  imports PageSpan
begin

text \<open>
  How many tables a region needs. Mapping a page leaves all tables on its path in place, so the next page
  lacks one table for every level whose boundary lies at its address (\<open>carries\<close>). Summed over a region
  this gives \<open>region_tables\<close>: at most one table per level for every page and for every 2M, with two more for
  the ends. Where physical and virtual addresses agree modulo 2M, so that 2M pages are used, it is a few tables
  and one per level for every 1G.
\<close>

section \<open>Boundaries\<close>

definition carries :: "nat \<Rightarrow> nat \<Rightarrow> nat" where
  "carries n x = card {j \<in> {2..n}. 2 ^ (9 * j + 3) dvd x}"

lemma carries_le: "carries n x \<le> n - 1"
proof -
  have "carries n x \<le> card {2..n}"
    unfolding carries_def by (rule card_mono) auto
  then show ?thesis
    by simp
qed

lemma carries_ge:
  assumes "2 ^ (9 * k + 3) dvd x" and "k \<le> n" shows "k - 1 \<le> carries n x"
proof -
  have "2 ^ (9 * j + 3) dvd x" if "j \<le> k" for j
    by (rule dvd_trans [OF le_imp_power_dvd assms(1)]) (use that in simp)
  then have "{2..k} \<subseteq> {j \<in> {2..n}. 2 ^ (9 * j + 3) dvd x}"
    using assms(2) by auto
  then have "card {2..k} \<le> carries n x"
    unfolding carries_def by (rule card_mono [rotated]) simp
  then show ?thesis
    by simp
qed

lemma unat_add_of_nat: "unat (v + of_nat i) = (unat v + i) mod 2 ^ 64" for v :: u64
  by (simp add: unat_word_ariths unsigned_of_nat take_bit_eq_mod mod_add_right_eq)

text \<open>The index at a level whose boundary is not at \<open>v + 2 ^ b\<close> is that of \<open>v\<close>.\<close>

lemma vindex_before:
  fixes v :: u64
  assumes v: "take_bit b v = 0" and b: "b \<le> 9 * j + 3" "9 * j + 3 < 64"
    and nb: "\<not> 2 ^ (9 * j + 3) dvd unat (v + of_nat (2 ^ b))"
  shows "vindex (v + of_nat (2 ^ b)) j = vindex v j"
proof -
  let ?S = "2 ^ b :: nat" and ?D = "2 ^ (9 * j + 3) :: nat"
  have S: "?S dvd unat v"
    using v unat_take_bit [of b v] by (simp add: dvd_eq_mod_eq_0)
  have SD: "?S dvd ?D"
    by (rule le_imp_power_dvd) (rule b(1))
  have S64: "?S dvd 2 ^ 64"
    by (rule le_imp_power_dvd) (use b in simp)
  have nowrap: "unat v + ?S < 2 ^ 64"
  proof (rule ccontr)
    assume "\<not> unat v + ?S < 2 ^ 64"
    moreover have "unat v < 2 ^ 64"
      using unat_less_64 [of v] by simp
    moreover obtain x y where "unat v = ?S * x" "2 ^ 64 = ?S * y"
      using S S64 by (auto simp: dvd_def)
    ultimately have "?S * x < ?S * y" "\<not> ?S * Suc x < ?S * y"
      by simp_all
    then have "x < y" "\<not> Suc x < y"
      by (simp_all only: mult_less_cancel1 zero_less_power zero_less_numeral simp_thms)
    then have "y = Suc x"
      by simp
    then have "unat v + ?S = 2 ^ 64"
      using \<open>unat v = ?S * x\<close> \<open>2 ^ 64 = ?S * y\<close> by simp
    then have "unat (v + of_nat ?S) = 0"
      by (simp only: unat_add_of_nat mod_self)
    then show False
      using nb by (simp only: dvd_0_right not_True_eq_False)
  qed
  then have a: "unat (v + of_nat ?S) = unat v + ?S"
    by (simp only: unat_add_of_nat mod_less)
  have "?S dvd unat v mod ?D"
    using S SD by (simp add: dvd_mod)
  then obtain x where x: "unat v mod ?D = ?S * x"
    by (auto simp: dvd_def)
  obtain y where y: "?D = ?S * y"
    using SD by (auto simp: dvd_def)
  have "?S * x < ?S * y"
    using mod_less_divisor [of ?D "unat v"] unfolding x y [symmetric] by simp
  then have "Suc x \<le> y"
    by simp
  moreover have "Suc x \<noteq> y"
  proof
    assume "Suc x = y"
    then have "(unat v + ?S) mod ?D = 0"
      using x y by (metis add.commute mod_add_right_eq mod_self mult_Suc_right)
    then show False
      using nb a by (simp add: dvd_eq_mod_eq_0)
  qed
  ultimately have "?S * x + ?S < ?D"
    unfolding y by (metis add.commute le_neq_implies_less mult_Suc_right mult_less_cancel1 zero_less_numeral zero_less_power)
  then have "(unat v mod ?D + ?S) div ?D = 0"
    by (simp add: x)
  then have "(unat v + ?S) div ?D = unat v div ?D"
    using div_mult_self1 [of ?D "unat v mod ?D + ?S" "unat v div ?D"]
    by (simp only: ac_simps power_eq_0_iff numeral_neq_zero simp_thms mod_mult_div_eq add_0)
  then show ?thesis
    by (simp only: vindex_alt a mult.commute [of j])
qed

text \<open>What the next page lacks: what this one lacks, or a table for every level with a boundary there.\<close>

lemma next_aligned:
  fixes v :: u64
  assumes "take_bit b v = 0" and "b \<le> 64" shows "2 ^ b dvd unat (v + of_nat (2 ^ b))"
proof -
  have "2 ^ b dvd unat v"
    using assms(1) unat_take_bit [of b v] by (simp add: dvd_eq_mod_eq_0)
  moreover have "(2 :: nat) ^ b dvd 2 ^ 64"
    by (rule le_imp_power_dvd) (rule assms(2))
  ultimately show ?thesis
    unfolding unat_add_of_nat by (intro dvd_mod dvd_add) simp_all
qed

lemma missing_next:
  assumes l: "1 \<le> lowest" "lowest \<le> n" "n \<le> 5" and v: "take_bit (9 * lowest + 3) v = 0"
  defines "v' \<equiv> v + of_nat (2 ^ (9 * lowest + 3))"
  shows "missing fmt tb v' n t \<le> max (missing fmt tb v n t) (carries n (unat v'))"
proof -
  let ?J = "{j. lowest \<le> j \<and> j \<le> n \<and> 2 ^ (9 * j + 3) dvd unat v'}"
  define k where "k = Max ?J"
  have fin: "finite ?J"
    by simp
  have "2 ^ (9 * lowest + 3) dvd unat v'"
    unfolding v'_def by (rule next_aligned [OF v]) (use l in simp)
  then have "lowest \<in> ?J"
    using l by simp
  then have k: "k \<in> ?J"
    unfolding k_def by (intro Max_in [OF fin]) blast
  have "vindex v' j = vindex v j" if "k < j" "j \<le> n" for j
  proof -
    have "j \<notin> ?J"
      using that(1) Max_ge [OF fin, of j, folded k_def] by (metis not_le)
    then have "\<not> 2 ^ (9 * j + 3) dvd unat v'"
      using that k by simp
    then show ?thesis
      unfolding v'_def using that k l by (intro vindex_before [OF v]) simp_all
  qed
  then have "missing fmt tb v' n t \<le> max (missing fmt tb v n t) (k - 1)"
    by (rule missing_shared)
  moreover have "k - 1 \<le> carries n (unat v')"
    using k by (intro carries_ge) simp_all
  ultimately show ?thesis
    by simp
qed

lemma page_next:
  assumes page: "page_mapped fmt lowest x v n root st st'" and l: "1 \<le> lowest" "lowest \<le> n" "n \<le> 5"
    and v: "take_bit (9 * lowest + 3) v = 0"
  defines "v' \<equiv> v + of_nat (2 ^ (9 * lowest + 3))"
  shows "missing fmt (view st') v' n root \<le> carries n (unat v')"
proof -
  have "missing fmt (view st') v n root \<le> lowest - 1"
    using page by (simp add: page_mapped_def)
  also have "\<dots> \<le> carries n (unat v')"
    unfolding v'_def by (rule carries_ge [OF next_aligned [OF v]]) (use l in simp_all)
  finally show ?thesis
    using missing_next [OF l v, of fmt "view st'" root] by (simp add: v'_def)
qed

section \<open>What a page is charged\<close>

definition page_level :: "u64 \<Rightarrow> nat" where
  "page_level sz = (if 2 ^ 30 \<le> unat sz then 3 else if 2 ^ 21 \<le> unat sz then 2 else 1)"

lemma page_level_pow: "unat sz = 2 ^ (9 * lowest + 3) \<Longrightarrow> 1 \<le> lowest \<Longrightarrow> lowest \<le> 3 \<Longrightarrow> page_level sz = lowest"
  by (auto simp: page_level_def le_Suc_eq numeral_3_eq_3)

definition big_carries :: "nat \<Rightarrow> nat \<Rightarrow> nat" where
  "big_carries n x = card {j \<in> {3..n}. 2 ^ (9 * j + 3) dvd x}"

text \<open>The page at \<open>x\<close> with \<open>rem\<close> bytes left; \<open>big\<close> says that the addresses agree modulo 2M. Then a table of
  4K pages is only needed at a 2M boundary with less than 2M left.\<close>

definition charge :: "nat \<Rightarrow> bool \<Rightarrow> nat \<Rightarrow> nat \<Rightarrow> nat" where
  "charge n big x rem = (if big then big_carries n x + of_bool (2 ^ 21 dvd x \<and> rem < 2 ^ 21) else carries n x)"

lemma dvd_2M: "2 ^ (9 * j + 3) dvd x \<Longrightarrow> 2 \<le> j \<Longrightarrow> 2 ^ 21 dvd x" for x :: nat
  by (erule dvd_trans [OF le_imp_power_dvd, rotated]) simp

lemma carries_big:
  assumes "2 \<le> n" shows "carries n x = (if 2 ^ 21 dvd x then Suc (big_carries n x) else 0)"
proof (cases "2 ^ 21 dvd x")
  case True
  have "{j \<in> {2..n}. 2 ^ (9 * j + 3) dvd x} = insert 2 {j \<in> {3..n}. 2 ^ (9 * j + 3) dvd x}"
    using True assms by (auto simp: le_Suc_eq numeral_3_eq_3)
  then show ?thesis
    using True by (simp add: carries_def big_carries_def)
next
  case False
  then have "{j \<in> {2..n}. 2 ^ (9 * j + 3) dvd x} = {}"
    using dvd_2M by auto
  then show ?thesis
    using False by (simp only: carries_def card.empty if_False)
qed

lemma big_carries_less:
  assumes "\<not> 2 ^ 21 dvd x" shows "big_carries n x = 0"
proof -
  have "\<not> 2 ^ (9 * j + 3) dvd x" if "3 \<le> j" for j
    using assms dvd_2M [of j x] that by linarith
  then have "{j \<in> {3..n}. 2 ^ (9 * j + 3) dvd x} = {}"
    by auto
  then show ?thesis
    by (simp only: big_carries_def card.empty)
qed

lemma charge_le_carries: "2 \<le> n \<Longrightarrow> charge n big x rem \<le> carries n x"
  by (simp add: charge_def carries_big big_carries_less)

lemma charge_enough:
  assumes "m \<le> carries n x" and "2 \<le> n" and "big \<Longrightarrow> 2 ^ 21 dvd x \<Longrightarrow> 2 ^ 21 \<le> rem \<Longrightarrow> 2 \<le> lv"
  shows "m - (lv - 1) \<le> charge n big x rem"
  using assms carries_big [of n x] by (cases "2 ^ 21 dvd x"; cases big) (auto simp: charge_def not_less)

lemma power_dvd_wrap: "j \<le> 64 \<Longrightarrow> (2 :: nat) ^ j dvd a mod 2 ^ 64 + b \<longleftrightarrow> 2 ^ j dvd a + b"
proof -
  assume "j \<le> 64"
  then have "(2 :: nat) ^ j dvd 2 ^ 64 * (a div 2 ^ 64)"
    by (intro dvd_mult2 le_imp_power_dvd)
  moreover have "a + b = 2 ^ 64 * (a div 2 ^ 64) + (a mod 2 ^ 64 + b)"
    by (simp only: add.assoc [symmetric] mult_div_mod_eq)
  ultimately show ?thesis
    by (metis dvd_add_right_iff)
qed

lemma charge_wrap:
  assumes "n \<le> 5" shows "charge n big (a mod 2 ^ 64 + b) rem = charge n big (a + b) rem"
proof -
  have "{j \<in> {m..n}. 2 ^ (9 * j + 3) dvd a mod 2 ^ 64 + b} = {j \<in> {m..n}. 2 ^ (9 * j + 3) dvd a + b}" for m
    using power_dvd_wrap assms by auto
  then show ?thesis
    using power_dvd_wrap [of 21 a b] by (simp only: charge_def carries_def big_carries_def)
qed

section \<open>The sum over a region\<close>

text \<open>Over the pages of a region of \<open>q\<close> pages at \<open>x\<close>, but the first.\<close>

definition charge_sum :: "nat \<Rightarrow> bool \<Rightarrow> nat \<Rightarrow> nat \<Rightarrow> nat" where
  "charge_sum n big x q = (\<Sum>i\<in>{1..<q}. charge n big (x + 4096 * i) (4096 * (q - i)))"

lemma charge_sum_wrap: "n \<le> 5 \<Longrightarrow> charge_sum n big (unat (v + of_nat i)) q = charge_sum n big (unat v + i) q"
  for v :: u64
  by (simp only: charge_sum_def unat_add_of_nat charge_wrap)

lemma charge_sum_next:
  assumes "0 < s" and "s < q"
  shows "charge n big (x + 4096 * s) (4096 * (q - s)) + charge_sum n big (x + 4096 * s) (q - s) \<le> charge_sum n big x q"
proof -
  let ?f = "\<lambda>i. charge n big (x + 4096 * i) (4096 * (q - i))"
  have "charge_sum n big (x + 4096 * s) (q - s) = (\<Sum>i\<in>{1..<q - s}. ?f (i + s))"
    by (simp add: charge_sum_def algebra_simps)
  also have "\<dots> = (\<Sum>i\<in>{1 + s..<q - s + s}. ?f i)"
    by (rule sum.shift_bounds_nat_ivl [symmetric])
  also have "\<dots> = (\<Sum>i\<in>{Suc s..<q}. ?f i)"
    using assms(2) by simp
  finally have "?f s + charge_sum n big (x + 4096 * s) (q - s) = (\<Sum>i\<in>{s..<q}. ?f i)"
    using assms(2) by (simp add: sum.atLeast_Suc_lessThan)
  also have "\<dots> \<le> charge_sum n big x q"
    unfolding charge_sum_def using assms by (intro sum_mono2) auto
  finally show ?thesis .
qed

lemma card_multiples:
  fixes d y q :: nat
  assumes d: "0 < d" shows "card {i \<in> {1..<q}. d dvd y + i} \<le> q div d + 1"
proof -
  let ?M = "{i \<in> {1..<q}. d dvd y + i}"
  have "inj_on (\<lambda>i. (y + i) div d) ?M"
    by (intro inj_onI) (auto simp: dvd_div_eq_iff)
  moreover have "(\<lambda>i. (y + i) div d) ` ?M \<subseteq> {y div d <.. y div d + (q div d + 1)}"
  proof (clarsimp)
    fix i assume i: "Suc 0 \<le> i" "i < q" "d dvd y + i"
    then obtain z where z: "y + i = d * z"
      by (auto simp: dvd_def)
    have zi: "z = (y + i) div d"
      using z d by simp
    have "y div d < z"
      using z i(1) d by (simp add: div_less_iff_less_mult mult.commute)
    moreover have "z \<le> y div d + (q div d + 1)"
    proof -
      have "z \<le> (y + q) div d"
        unfolding zi using i(2) by (intro div_le_mono) simp
      also have "\<dots> \<le> y div d + (q div d + 1)"
      proof -
        have "y mod d + q mod d < 2 * d"
          using mod_less_divisor [OF d, of y] mod_less_divisor [OF d, of q] by linarith
        then have "(y mod d + q mod d) div d < 2"
          by (rule less_mult_imp_div_less)
        then show ?thesis
          by (simp add: div_add1_eq [of y q])
      qed
      finally show ?thesis .
    qed
    ultimately show "y div d < (y + i) div d \<and> (y + i) div d \<le> Suc (y div d + q div d)"
      using zi by simp
  qed
  ultimately have "card ?M \<le> card {y div d <.. y div d + (q div d + 1)}"
    by (intro card_inj_on_le [where f = "\<lambda>i. (y + i) div d"]) auto
  then show ?thesis
    by simp
qed

text \<open>Boundaries of the levels from \<open>m\<close> on, in pages.\<close>

lemma boundaries_le:
  assumes "4096 dvd x" and "1 \<le> m"
  shows "(\<Sum>i\<in>{1..<q}. card {j \<in> {m..n}. 2 ^ (9 * j + 3) dvd x + 4096 * i}) \<le> (Suc n - m) * (q div 2 ^ (9 * m - 9) + 1)"
proof -
  obtain y where y: "x = 4096 * y"
    using assms(1) by (auto simp: dvd_def)
  let ?d = "2 ^ (9 * m - 9) :: nat"
  have "card {j \<in> {m..n}. 2 ^ (9 * j + 3) dvd a} = (\<Sum>j\<in>{m..n}. of_bool (2 ^ (9 * j + 3) dvd a))" for a :: nat
    by (simp only: sum_of_bool_eq finite_atLeastAtMost Int_def mem_Collect_eq of_nat_id)
  then have "(\<Sum>i\<in>{1..<q}. card {j \<in> {m..n}. 2 ^ (9 * j + 3) dvd x + 4096 * i}) =
      (\<Sum>i\<in>{1..<q}. \<Sum>j\<in>{m..n}. of_bool (2 ^ (9 * j + 3) dvd x + 4096 * i))"
    by (simp only:)
  also have "\<dots> = (\<Sum>j\<in>{m..n}. \<Sum>i\<in>{1..<q}. of_bool (2 ^ (9 * j + 3) dvd x + 4096 * i))"
    by (rule sum.swap)
  also have "\<dots> = (\<Sum>j\<in>{m..n}. card {i \<in> {1..<q}. 2 ^ (9 * j + 3) dvd x + 4096 * i})"
    by (simp only: sum_of_bool_eq finite_atLeastLessThan Int_def mem_Collect_eq of_nat_id)
  also have "\<dots> \<le> (\<Sum>j\<in>{m..n}. q div ?d + 1)"
  proof (rule sum_mono)
    fix j assume j: "j \<in> {m..n}"
    have "?d dvd y + i" if "2 ^ (9 * j + 3) dvd x + 4096 * i" for i
    proof -
      have "9 * m - 9 + 12 \<le> 9 * j + 3"
        using j assms(2) by simp
      then have "(2 :: nat) ^ (9 * m - 9 + 12) dvd 2 ^ (9 * j + 3)"
        by (rule le_imp_power_dvd)
      then have "2 ^ (9 * m - 9 + 12) dvd x + 4096 * i"
        using that by (rule dvd_trans)
      then have "?d * 4096 dvd (y + i) * 4096"
        by (simp add: y power_add algebra_simps)
      then show ?thesis
        by (simp only: nat_mult_dvd_cancel_disj mult.commute [of _ 4096]) simp
    qed
    then have "card {i \<in> {1..<q}. 2 ^ (9 * j + 3) dvd x + 4096 * i} \<le> card {i \<in> {1..<q}. ?d dvd y + i}"
      by (intro card_mono) auto
    then show "card {i \<in> {1..<q}. 2 ^ (9 * j + 3) dvd x + 4096 * i} \<le> q div ?d + 1"
      using card_multiples [of ?d q y] by simp
  qed
  also have "\<dots> = (Suc n - m) * (q div ?d + 1)"
    by simp
  finally show ?thesis .
qed

lemma last_2M: "card {i \<in> {1..<q}. 2 ^ 21 dvd x + 4096 * i \<and> 4096 * (q - i) < 2 ^ 21} \<le> 1" for x q :: nat
proof -
  have "i = k" if "i < q" "2 ^ 21 dvd x + 4096 * i" "4096 * (q - i) < 2 ^ 21"
    and "k < q" "2 ^ 21 dvd x + 4096 * k" "4096 * (q - k) < 2 ^ 21" "i \<le> k" for i k
  proof -
    have "2 ^ 21 dvd (x + 4096 * k) - (x + 4096 * i)"
      using that by (intro dvd_diff_nat)
    moreover have "(x + 4096 * k) - (x + 4096 * i) < 2 ^ 21"
      using that by simp
    ultimately have "(x + 4096 * k) - (x + 4096 * i) = 0"
      by (metis dvd_imp_le not_gr_zero not_le)
    then show ?thesis
      using that by simp
  qed
  note below = this
  have "i = k" if "i \<in> {i \<in> {1..<q}. 2 ^ 21 dvd x + 4096 * i \<and> 4096 * (q - i) < 2 ^ 21}"
    "k \<in> {i \<in> {1..<q}. 2 ^ 21 dvd x + 4096 * i \<and> 4096 * (q - i) < 2 ^ 21}" for i k
    using that below [of i k] below [of k i] by (cases "i \<le> k") simp_all
  then show ?thesis
    by (subst One_nat_def, subst card_le_Suc0_iff_eq) auto
qed

definition tables_for :: "nat \<Rightarrow> nat \<Rightarrow> nat" where
  "tables_for n len = (n - 1) * min (len div 4096) (len div 2 ^ 21 + 2)"

definition region_tables :: "nat \<Rightarrow> bool \<Rightarrow> nat \<Rightarrow> nat" where
  "region_tables n big len =
     (if big then min (tables_for n len) (n + (n - 2) * (len div 2 ^ 30 + 1)) else tables_for n len)"

lemma tables_for_simps [simp]: "tables_for n 0 = 0" "tables_for n 4096 = n - 1" "region_tables n big 0 = 0"
  by (simp_all add: tables_for_def region_tables_def)

lemma region_tables_le: "region_tables n big len \<le> tables_for n len"
  by (simp add: region_tables_def)

lemma region_tables_coarse: "region_tables n big len \<le> len div 4096 * (n - 1)"
proof (rule le_trans [OF region_tables_le])
  have "min (len div 4096) (len div 2 ^ 21 + 2) * (n - 1) \<le> len div 4096 * (n - 1)"
    by (rule mult_le_mono1) (rule min.cobounded1)
  then show "tables_for n len \<le> len div 4096 * (n - 1)"
    by (simp only: tables_for_def mult.commute [of "n - 1"])
qed

lemma region_tables_enough:
  assumes q: "0 < q" and x: "4096 dvd x" and n: "2 \<le> n"
  shows "n - 1 + charge_sum n big x q \<le> region_tables n big (4096 * q)"
proof -
  have le: "charge_sum n big x q \<le> (\<Sum>i\<in>{1..<q}. carries n (x + 4096 * i))"
    unfolding charge_sum_def using n by (intro sum_mono charge_le_carries)
  have units: "4096 * q div 4096 = q" "4096 * q div 2 ^ 21 = q div 512" "4096 * q div 2 ^ 30 = q div 2 ^ 18"
    using div_mult_mult1 [of 4096 q 512] div_mult_mult1 [of 4096 q "2 ^ 18"] by simp_all
  have pages: "n - 1 + charge_sum n big x q \<le> (n - 1) * q"
  proof -
    have "charge_sum n big x q \<le> (q - 1) * (n - 1)"
      using le sum_bounded_above [of "{1..<q}" "\<lambda>i. carries n (x + 4096 * i)" "n - 1"] carries_le by force
    then show ?thesis
      using q by (cases q) (simp_all add: mult.commute)
  qed
  have "n - 1 + charge_sum n big x q \<le> (n - 1) * (q div 512 + 2)"
  proof -
    have "charge_sum n big x q \<le> (n - 1) * (q div 512 + 1)"
      using le boundaries_le [OF x, of 2 n q] unfolding carries_def by simp
    then show ?thesis
      by simp
  qed
  with pages have "n - 1 + charge_sum n big x q \<le> tables_for n (4096 * q)"
    unfolding tables_for_def units nat_mult_min_right by (rule min.boundedI)
  moreover have "n - 1 + charge_sum n big x q \<le> n + (n - 2) * (q div 2 ^ 18 + 1)" if big
  proof -
    have "charge_sum n big x q = (\<Sum>i\<in>{1..<q}. big_carries n (x + 4096 * i)) +
        card {i \<in> {1..<q}. 2 ^ 21 dvd x + 4096 * i \<and> 4096 * (q - i) < 2 ^ 21}"
      using that unfolding charge_sum_def charge_def
      by (simp only: if_True sum.distrib sum_of_bool_eq finite_atLeastLessThan Int_def mem_Collect_eq of_nat_id)
    moreover have "(\<Sum>i\<in>{1..<q}. big_carries n (x + 4096 * i)) \<le> (n - 2) * (q div 2 ^ 18 + 1)"
      using boundaries_le [OF x, of 3 n q] unfolding big_carries_def by simp
    ultimately show ?thesis
      using last_2M [of q x] n by linarith
  qed
  ultimately show ?thesis
    unfolding region_tables_def units by (auto simp only: min.bounded_iff split: if_split)
qed

section \<open>Page by page\<close>

text \<open>What the tables still need for \<open>q\<close> pages from \<open>v\<close> on, mapped or skipped one after the other.\<close>

definition path_need :: "pt_format \<Rightarrow> nat \<Rightarrow> (u64 \<Rightarrow> nat \<Rightarrow> u64) \<Rightarrow> u64 \<Rightarrow> u64 \<Rightarrow> nat \<Rightarrow> nat" where
  "path_need fmt n tb root v q = (if q = 0 then 0 else missing fmt tb v n root + charge_sum n False (unat v) q)"

lemma path_need_0 [simp]: "path_need fmt n tb root v 0 = 0"
  by (simp add: path_need_def)

lemma path_need_charge:
  assumes "missing fmt tb (v + 4096) n root \<le> m + carries n (unat (v + 4096))" and "n \<le> 5"
  shows "path_need fmt n tb root (v + 4096) q \<le> m + charge_sum n False (unat v) (Suc q)"
proof (cases "q = 0")
  case False
  have wrap: "carries n (unat (v + 4096)) = carries n (unat v + 4096)"
    "charge_sum n False (unat (v + 4096)) q = charge_sum n False (unat v + 4096) q"
    using charge_wrap [OF assms(2), of False "unat v + 4096" 0 0] charge_sum_wrap [OF assms(2), of False v 4096 q]
    by (simp_all add: charge_def unat_word_ariths)
  have "carries n (unat v + 4096) + charge_sum n False (unat v + 4096) q \<le> charge_sum n False (unat v) (Suc q)"
    using charge_sum_next [of 1 "Suc q" n False "unat v"] False by (simp add: charge_def)
  then show ?thesis
    using assms(1) False unfolding path_need_def wrap by simp
qed simp

lemma path_need_skip:
  assumes "2 \<le> n" and "n \<le> 5" and "4096 dvd unat v"
  shows "path_need fmt n tb root (v + 4096) q \<le> path_need fmt n tb root v (Suc q)"
proof -
  have "take_bit 12 v = 0"
    using assms(3) by (simp add: page_aligned_dvd [symmetric] page_aligned_def)
  from missing_next [of 1 n v fmt tb root] this assms(1,2)
  have "missing fmt tb (v + 4096) n root \<le> missing fmt tb v n root + carries n (unat (v + 4096))"
    by (simp add: max_def split: if_splits)
  from path_need_charge [OF this assms(2), of q] show ?thesis
    by (simp add: path_need_def)
qed

lemma path_need_le:
  assumes "2 \<le> n" and "4096 dvd unat v"
  shows "path_need fmt n tb root v q \<le> tables_for n (4096 * q)"
proof (cases "q = 0")
  case False
  have "path_need fmt n tb root v q \<le> n - 1 + charge_sum n False (unat v) q"
    using missing_less [of fmt tb v n root] False by (simp add: path_need_def)
  also have "\<dots> \<le> region_tables n False (4096 * q)"
    using False assms by (intro region_tables_enough) simp_all
  finally show ?thesis
    by (simp add: region_tables_def)
qed simp

end
