(* ===== verification/RegionMap.thy ===== *)
theory RegionMap
  imports PageCost
begin

text \<open>
  Mapping a region page by page. The locale \<open>region_mapper\<close> is the interface between the loop of
  \<open>ptm_map\<close> and the page it maps in each round: the loop's equation, sizes that fit what is left
  of the region, and pages whose effect is \<open>region_mapped\<close>. Its lemma gives the effect of the
  whole loop; it is interpreted on both architectures.
\<close>

text \<open>Enough slots and frames for \<open>k\<close> tables.\<close>

definition frame_budget :: "nat \<Rightarrow> pmm_state \<Rightarrow> bool" where
  "frame_budget k s \<longleftrightarrow> frames_inv k s \<and> can_alloc (pmm_alloc 1) k s"

lemma frame_budget_mono: "frame_budget n s \<Longrightarrow> m \<le> n \<Longrightarrow> frame_budget m s"
  using frames_inv_mono can_alloc_mono by (auto simp: frame_budget_def)

definition unmapped :: "pt_format \<Rightarrow> nat \<Rightarrow> u64 \<Rightarrow> u64 \<Rightarrow> nat \<Rightarrow> 'a vm_state_scheme \<Rightarrow> bool" where
  "unmapped fmt n root v len st \<longleftrightarrow>
     (\<forall>va. unat (va - v) < len \<longrightarrow> translate fmt st n root va = None)"

lemma mod_zero_dvd: "a mod s = 0 \<longleftrightarrow> unat s dvd unat a" for a s :: u64
  by (simp add: dvd_eq_mod_eq_0 unat_mod_distrib unat_eq_zero [of "a mod s", symmetric])

lemma mod_2M_dvd: "a mod 0x200000 = 0 \<longleftrightarrow> 0x200000 dvd unat a" for a :: u64
  by (simp add: mod_zero_dvd)

lemma mod_4096_dvd: "a mod PTM_PAGE_GRANULARITY = 0 \<longleftrightarrow> 4096 dvd unat a"
  by (simp add: mod_zero_dvd)

lemma add_aligned:
  "4096 dvd unat a \<Longrightarrow> 4096 dvd unat b \<Longrightarrow> 4096 dvd unat (a + b)" for a b :: u64
  using page_aligned_add [of a b] by (simp add: page_aligned_dvd)

text \<open>A page takes what its path lacks, and leaves the next page to take only what the levels with a
  boundary there lack.\<close>

definition page_cost :: "pt_format \<Rightarrow> nat \<Rightarrow> u64 \<Rightarrow> u64 \<Rightarrow> u64 \<Rightarrow> 'a vm_state_scheme \<Rightarrow> 'a vm_state_scheme \<Rightarrow> bool" where
  "page_cost fmt n root v sz st st' \<longleftrightarrow>
     frames_taken (missing fmt (view st) v n root - (page_level sz - 1)) (vm_pmm st) (vm_pmm st') \<and>
     missing fmt (view st') (v + sz) n root \<le> carries n (unat (v + sz))"

lemma page_mapped_cost:
  assumes "page_mapped fmt lowest x v n root st st'" and "1 \<le> lowest" and "lowest \<le> n" and "n \<le> 5" and "lowest \<le> 3"
    and "take_bit (9 * lowest + 3) v = 0" and "unat sz = 2 ^ (9 * lowest + 3)"
  shows "page_cost fmt n root v sz st st'"
proof -
  have "sz = of_nat (2 ^ (9 * lowest + 3))"
    by (subst assms(7) [symmetric]) simp
  moreover have "frames_taken (missing fmt (view st) v n root - (page_level sz - 1)) (vm_pmm st) (vm_pmm st')"
    using assms(1) page_level_pow [OF assms(7,2,5)] by (simp add: page_mapped_def)
  ultimately show ?thesis
    using page_next [OF assms(1-4,6)] by (simp add: page_cost_def del: of_nat_power)
qed

locale region_mapper =
  fixes loop :: "u64 \<Rightarrow> u64 \<Rightarrow> u64 \<Rightarrow> u64 \<Rightarrow> 'a vm_state_scheme \<Rightarrow> 'a vm_state_scheme res"
    and size :: "u64 \<Rightarrow> u64 \<Rightarrow> u64 \<Rightarrow> u64"
    and page :: "u64 \<Rightarrow> u64 \<Rightarrow> u64 \<Rightarrow> 'a vm_state_scheme \<Rightarrow> 'a vm_state_scheme res"
    and fmt :: pt_format and n :: nat and root :: u64 and perms :: "bool \<times> bool \<times> bool"
    and cfg :: "'a vm_state_scheme \<Rightarrow> bool"
  assumes levels: "2 \<le> n" "n \<le> 5"
    and loop: "cfg st \<Longrightarrow> loop offset v p len st =
      (if offset < len
       then (let sz = size v p (len - offset)
             in res_bind (page v p sz st) (\<lambda>st. loop (offset + sz) (v + sz) (p + sz) len st))
       else ok st)"
    and cfg: "cfg st \<Longrightarrow> same_config st st' \<Longrightarrow> cfg st'"
    and size: "4096 dvd unat rem \<Longrightarrow> rem \<noteq> 0 \<Longrightarrow> 4096 dvd unat v \<Longrightarrow> 4096 dvd unat p \<Longrightarrow>
      4096 dvd unat (size v p rem) \<and> size v p rem \<noteq> 0 \<and> size v p rem \<le> rem \<and>
      (2 ^ 21 dvd unat v \<longrightarrow> 2 ^ 21 dvd unat p \<longrightarrow> 2 ^ 21 \<le> unat rem \<longrightarrow> 2 \<le> page_level (size v p rem))"
    and page: "cfg st \<Longrightarrow> tables_ok fmt n root st \<Longrightarrow> canonical n v \<Longrightarrow> 4096 dvd unat v \<Longrightarrow>
      4096 dvd unat p \<Longrightarrow> unat p < 2 ^ 51 \<Longrightarrow> 4096 dvd unat rem \<Longrightarrow> rem \<noteq> 0 \<Longrightarrow>
      translate fmt st n root v = None \<Longrightarrow> 
      frame_budget (missing fmt (view st) v n root - (page_level (size v p rem) - 1) + k) (vm_pmm st) \<Longrightarrow>
      \<exists>st'. page v p (size v p rem) st = ok st' \<and>
        region_mapped fmt n root perms v p (unat (size v p rem)) st st' \<and> frame_budget k (vm_pmm st') \<and>
        page_cost fmt n root v (size v p rem) st st'"
begin

abbreviation lacks :: "u64 \<Rightarrow> u64 \<Rightarrow> u64 \<Rightarrow> 'a vm_state_scheme \<Rightarrow> nat" where
  "lacks v p rem st \<equiv> missing fmt (view st) v n root - (page_level (size v p rem) - 1)"

definition near :: "u64 \<Rightarrow> u64 \<Rightarrow> bool" where
  "near v p \<longleftrightarrow> unat v mod 2 ^ 21 = unat p mod 2 ^ 21"

lemma near_next: "near v p \<Longrightarrow> near (v + s) (p + s)"
proof -
  assume "near v p"
  then have "(unat v + unat s) mod 2 ^ 21 = (unat p + unat s) mod 2 ^ 21"
    unfolding near_def by (rule mod_add_cong) simp
  moreover have "unat (a + s) mod 2 ^ 21 = (unat a + unat s) mod 2 ^ 21" for a
    by (simp add: unat_word_ariths mod_mod_cancel)
  ultimately show ?thesis
    by (simp only: near_def)
qed

text \<open>What the page after one of \<open>sz\<close> bytes lacks is charged to its boundary.\<close>

lemma lacks_next:
  assumes "page_cost fmt n root v s st st1" and "4096 dvd unat rem" and "rem \<noteq> 0"
    and "4096 dvd unat (v + s)" and "4096 dvd unat (p + s)" and "near v p = big"
  shows "lacks (v + s) (p + s) rem st1 \<le> charge n big (unat v + unat s) (unat rem)"
proof -
  have "lacks (v + s) (p + s) rem st1 \<le> charge n big (unat (v + s)) (unat rem)"
  proof (rule charge_enough)
    show "missing fmt (view st1) (v + s) n root \<le> carries n (unat (v + s))"
      using assms(1) by (simp add: page_cost_def)
    assume "big" "2 ^ 21 dvd unat (v + s)" "2 ^ 21 \<le> unat rem"
    moreover have "2 ^ 21 dvd unat (p + s)"
      using near_next [of v p s] assms(6) calculation(1,2) by (simp add: near_def dvd_eq_mod_eq_0)
    ultimately show "2 \<le> page_level (size (v + s) (p + s) rem)"
      using size [OF assms(2-5)] by simp
  qed (rule levels(1))
  also have "\<dots> = charge n big (unat v + unat s) (unat rem)"
    using charge_wrap [OF levels(2), of big "unat v + unat s" 0] by (simp add: unat_word_ariths)
  finally show ?thesis .
qed

lemma loop_region:
  assumes "r = unat len - unat offset" and "offset \<le> len" and "4096 dvd unat len" and "4096 dvd unat offset"
    and "4096 dvd unat v" and "4096 dvd unat p" and "cfg st"
    and "tables_ok fmt n root st" and "region_canonical n v r" and "unat p + r \<le> 2 ^ 51"
    and "unmapped fmt n root v r st" and "0 < r" and "near v p = big"
    and "frame_budget (lacks v p (len - offset) st + charge_sum n big (unat v) (r div 4096) + k) (vm_pmm st)"
  shows "\<exists>st'. loop offset v p len st = ok st' \<and>
    region_mapped fmt n root perms v p r st st' \<and> frame_budget k (vm_pmm st') \<and>
    frames_taken (lacks v p (len - offset) st + charge_sum n big (unat v) (r div 4096)) (vm_pmm st) (vm_pmm st')"
  using assms
proof (induction r arbitrary: offset v p st rule: less_induct)
  case (less r)
  let ?s = "size v p (len - offset)" and ?m = "lacks v p (len - offset) st"
  let ?sz = "unat ?s" and ?c = "charge_sum n big (unat v) (r div 4096)"
  have True: "offset < len"
    using less.prems(1,12) by (simp add: word_less_nat_alt)
  have rem: "unat (len - offset) = r" "len - offset \<noteq> 0"
    using True less.prems(1,2) by (auto simp: unat_diff_nowrap word_le_nat_alt)
  have r64: "r < 2 ^ 64"
    using rem(1) unat_less_64 [of "len - offset"] by simp
  have dvd: "4096 dvd r"
    using less.prems(1,3,4) by (simp add: dvd_diff_nat)
  then have rem_dvd: "4096 dvd unat (len - offset)"
    by (simp add: rem)
  have sz: "4096 dvd ?sz" "0 < ?sz" "?sz \<le> r"
    using size [OF rem_dvd rem(2) less.prems(5,6)] by (auto simp: word_le_nat_alt rem unat_gt_0)
  have can: "canonical n v" and low: "unat p < 2 ^ 51" and un: "translate fmt st n root v = None"
    using less.prems(9-12) by (simp_all add: region_canonical_def unmapped_def)
  from page [OF less.prems(7,8) can less.prems(5,6) low rem_dvd rem(2) un, of "?c + k"] less.prems(14)
  obtain st1 where st1: "page v p ?s st = ok st1" "region_mapped fmt n root perms v p ?sz st st1"
    "frame_budget (?c + k) (vm_pmm st1)" "page_cost fmt n root v ?s st st1"
    by (auto simp: add.assoc)
  have cfg1: "cfg st1"
    using cfg [OF less.prems(7)] st1(2) by (simp add: region_mapped_def)
  let ?v = "v + ?s" and ?p = "p + ?s" and ?o = "offset + ?s"
  have o: "unat ?o = unat offset + ?sz" "unat ?p = unat p + ?sz"
    using sz(3) less.prems(1,2,10) unat_less_64 [of len]
    by (auto simp: word_le_nat_alt intro!: unat_add_nowrap)
  have step: "loop offset v p len st = loop ?o ?v ?p len st1"
    using True st1(1) loop [OF less.prems(7), of offset v p len] by (simp add: Let_def)
  have taken: "frames_taken ?m (vm_pmm st) (vm_pmm st1)"
    using st1(4) by (simp add: page_cost_def)
  show ?case
  proof (cases "?sz = r")
    case True
    then have "?o = len"
      using o(1) less.prems(1,2) by (simp add: word_eq_unat word_le_nat_alt)
    then have "loop offset v p len st = ok st1"
      using step loop [OF cfg1, of len] by simp
    moreover have "frames_taken (?m + ?c) (vm_pmm st) (vm_pmm st1)"
      by (rule frames_taken_mono [OF taken]) simp
    ultimately show ?thesis
      using st1(2) frame_budget_mono [OF st1(3), of k] True by auto
  next
    case False
    then have lt: "?sz < r" and r1: "0 < r - ?sz"
      using sz(3) by simp_all
    have ol: "?o \<le> len"
      using o sz(3) less.prems(1,2) by (simp add: word_le_nat_alt)
    have d: "4096 dvd unat ?o" "4096 dvd unat ?v" "4096 dvd unat ?p"
      using add_aligned less.prems(4-6) sz(1) by simp_all
    have sub: "r - ?sz < r" "r - ?sz = unat len - unat ?o" "unat ?p + (r - ?sz) \<le> 2 ^ 51"
      using sz lt less.prems(1,10) o by simp_all
    have rem1: "unat (len - ?o) = r - ?sz" "len - ?o \<noteq> 0"
      using ol sub(2) r1 by (auto simp: unat_diff_nowrap word_le_nat_alt)
    let ?m1 = "lacks ?v ?p (len - ?o) st1" and ?c1 = "charge_sum n big (unat ?v) ((r - ?sz) div 4096)"
    have cost: "?m1 + ?c1 \<le> ?c"
    proof -
      have q1: "4096 * ((r - ?sz) div 4096) = r - ?sz"
        using sz(1) dvd by (intro dvd_mult_div_cancel dvd_diff_nat)
      have q: "r div 4096 - ?sz div 4096 = (r - ?sz) div 4096"
        "0 < ?sz div 4096" "?sz div 4096 < r div 4096" "4096 * (?sz div 4096) = ?sz"
        using sz(1,2) dvd lt by (auto simp: dvd_def)
      have "4096 dvd unat (len - ?o)"
        unfolding rem1(1) using sz(1) dvd by (intro dvd_diff_nat)
      from lacks_next [OF st1(4) this rem1(2) d(2,3) less.prems(13)]
      have "?m1 \<le> charge n big (unat v + ?sz) (r - ?sz)"
        by (simp only: rem1)
      moreover have "?c1 = charge_sum n big (unat v + ?sz) ((r - ?sz) div 4096)"
        using charge_sum_wrap [OF levels(2), of big v ?sz] by simp
      ultimately show ?thesis
        using charge_sum_next [OF q(2,3), of n big "unat v"] unfolding q(1,4) q1 by simp
    qed
    have un1: "unmapped fmt n root ?v (r - ?sz) st1"
      unfolding unmapped_def
    proof (intro allI impI)
      fix va assume va: "unat (va - ?v) < r - ?sz"
      then have va': "unat (va - (v + of_nat ?sz)) < r - ?sz"
        by simp
      have sz64: "?sz < 2 ^ 64"
        using sz(3) r64 by simp
      have "unat (va - v) < r"
        using region_split [OF sz(3) r64 sz64, of va v] va' by blast
      moreover have "\<not> unat (va - v) < ?sz"
        using region_split_disjoint [OF sz(3) r64, of va v] va' by blast
      ultimately show "translate fmt st1 n root va = None"
        using st1(2) less.prems(11) by (simp add: region_mapped_def unmapped_def)
    qed
    have canr: "region_canonical n ?v (r - ?sz)"
      using region_canonical_sub [OF less.prems(9) sz(3) r64] by simp
    have ok1: "tables_ok fmt n root st1"
      using st1(2) by (simp add: region_mapped_def)
    have budget: "frame_budget (?m1 + ?c1 + k) (vm_pmm st1)"
      by (rule frame_budget_mono [OF st1(3)]) (use cost in simp)
    have near1: "near ?v ?p = big"
      using near_next [of v p ?s] near_next [of ?v ?p "- ?s"] less.prems(13) by auto
    obtain st' where st': "loop ?o ?v ?p len st1 = ok st'"
      "region_mapped fmt n root perms ?v ?p (r - ?sz) st1 st'" "frame_budget k (vm_pmm st')"
      "frames_taken (?m1 + ?c1) (vm_pmm st1) (vm_pmm st')"
      using less.IH [OF sub(1,2) ol less.prems(3) d cfg1 ok1 canr sub(3) un1 r1 near1 budget] by blast
    have "region_mapped fmt n root perms v p r st st'"
      using region_compose [OF st1(2) _ sz(3) r64, of st'] st'(2) by simp
    moreover have "frames_taken (?m + ?c) (vm_pmm st) (vm_pmm st')"
      by (rule frames_taken_mono [OF frames_taken_trans [OF taken st'(4)]]) (use cost in simp)
    ultimately show ?thesis
      using step st' by auto
  qed
qed

text \<open>One page of 4K, in terms of what its path lacks.\<close>

lemma loop_page:
  assumes "unat len = 4096" and "4096 dvd unat v" and "4096 dvd unat p" and "cfg st"
    and "tables_ok fmt n root st" and "canonical n v" and "unat p < 2 ^ 51"
    and "translate fmt st n root v = None" and "frame_budget (missing fmt (view st) v n root + k) (vm_pmm st)"
  shows "\<exists>st'. loop 0 v p len st = ok st' \<and> region_mapped fmt n root perms v p 4096 st st' \<and>
    page_cost fmt n root v len st st'"
proof -
  have len: "4096 dvd unat len" "len \<noteq> 0" "0 < len"
    using assms(1) by (auto simp: word_less_nat_alt)
  have "unat (size v p len) = 4096"
    using size [OF len(1,2) assms(2,3)] assms(1) by (auto simp: word_le_nat_alt unat_gt_0 dest: dvd_imp_le)
  then have sz: "size v p len = len"
    using assms(1) by (simp add: word_eq_unat)
  have lv: "page_level len = 1"
    using assms(1) by (simp add: page_level_def)
  from page [OF assms(4-6,2,3,7) len(1,2) assms(8), of k, unfolded sz lv] assms(9)
  obtain st1 where st1: "page v p len st = ok st1" "region_mapped fmt n root perms v p (unat len) st st1"
    "page_cost fmt n root v len st st1"
    by auto
  have "cfg st1"
    using cfg [OF assms(4)] st1(2) by (simp add: region_mapped_def)
  then have "loop 0 v p len st = ok st1"
    using loop [OF assms(4), of 0 v p len] loop [of st1 len] len(3) st1(1) by (simp add: Let_def sz)
  then show ?thesis
    using st1(2,3) assms(1) by auto
qed

text \<open>In terms of the length alone.\<close>

lemma loop_tables:
  assumes "r = unat len - unat offset" and "offset \<le> len" and "4096 dvd unat len" and "4096 dvd unat offset"
    and "4096 dvd unat v" and "4096 dvd unat p" and "cfg st"
    and "tables_ok fmt n root st" and "region_canonical n v r" and "unat p + r \<le> 2 ^ 51"
    and "unmapped fmt n root v r st"
    and "frame_budget (region_tables n (unat v mod 2 ^ 21 = unat p mod 2 ^ 21) r + k) (vm_pmm st)"
  shows "\<exists>st'. loop offset v p len st = ok st' \<and>
    region_mapped fmt n root perms v p r st st' \<and> frame_budget k (vm_pmm st') \<and>
    frames_taken (region_tables n (unat v mod 2 ^ 21 = unat p mod 2 ^ 21) r) (vm_pmm st) (vm_pmm st')"
proof (cases "r = 0")
  case True
  then have "\<not> offset < len"
    using assms(1) by (simp add: word_less_nat_alt)
  then show ?thesis
    using True assms(8,12) loop [OF assms(7)] by (auto intro: region_refl)
next
  case False
  then have r: "0 < r" by simp
  have dvd: "4096 dvd r"
    using assms(1,3,4) by (simp add: dvd_diff_nat)
  let ?need = "lacks v p (len - offset) st + charge_sum n (near v p) (unat v) (r div 4096)"
  have need: "?need \<le> region_tables n (near v p) r"
  proof -
    have "?need \<le> n - 1 + charge_sum n (near v p) (unat v) (r div 4096)"
      using missing_less [of fmt "view st" v n root] by simp
    also have "\<dots> \<le> region_tables n (near v p) r"
      using region_tables_enough [of "r div 4096" "unat v" n "near v p"] dvd r assms(5) levels(1) by (auto simp: dvd_def)
    finally show ?thesis .
  qed
  have "frame_budget (?need + k) (vm_pmm st)"
    by (rule frame_budget_mono [OF assms(12)]) (use need in \<open>simp add: near_def\<close>)
  from loop_region [OF assms(1-11) r refl this] show ?thesis
    using frames_taken_mono [OF _ need] by (fastforce simp: near_def)
qed

end

section \<open>Fresh tables\<close>

lemma vm_alloc_ok:
  assumes "frame_budget (Suc k) (vm_pmm st)"
  obtains a s where "vm_alloc 1 st = ok (a, st\<lparr>vm_pmm := s\<rparr>)" and "frame_ok a"
    and "\<not> frame_free s a" and "frame_budget k s"
proof -
  obtain a s where a: "pmm_alloc 1 (vm_pmm st) = ok (a, s)" "can_alloc (pmm_alloc 1) k s"
    using assms by (auto simp: frame_budget_def simp del: can_alloc.simps elim: can_allocE)
  have "frames_inv (Suc k) (vm_pmm st)"
    using assms by (simp add: frame_budget_def)
  note fresh = fs.alloc_fresh [OF this a(1), of "{}"]
  show thesis
    using that [of a s] a fresh(2-4) by (simp add: vm_alloc_def frame_budget_def del: can_alloc.simps)
qed

lemma tables_ok_config [simp]:
  "tables_ok fmt n a (st\<lparr>g_ptm := p\<rparr>) = tables_ok fmt n a st"
  "translate fmt (st\<lparr>g_ptm := p\<rparr>) n a va = translate fmt st n a va"
  by (simp_all add: tables_ok_def view_def translate_def)

context page_walker
begin

lemma fresh_tables:
  assumes "page_aligned (hhdm_offset st)" and "frame_ok a" and "\<not> frame_free (vm_pmm st) a" and "0 < n"
  shows "tables_ok fmt n a (clear_table a st)" and "translate fmt (clear_table a st) n a va = None"
    and "tframes fmt (view (clear_table a st)) n a = {a}"
proof -
  obtain l where n: "n = Suc l"
    using assms(4) by (cases n) auto
  have zero: "view (clear_table a st) a i = 0" if "i < 512" for i
    using view_clear_table [OF assms(1) _ _ that, of a a] assms(2) by (simp add: frame_ok_def)
  note empty = empty_tree [of "view (clear_table a st)" a l, OF zero]
  show "tables_ok fmt n a (clear_table a st)"
    using empty(1,2) assms by (simp add: tables_ok_def n del: tree_ok.simps tframes.simps)
  show "translate fmt (clear_table a st) n a va = None"
    using empty(3) by (simp add: translate_def n del: mmu.simps)
  show "tframes fmt (view (clear_table a st)) n a = {a}"
    unfolding n by (rule empty(2))
qed

end

section \<open>Frames for the sample states\<close>

lemma sample_budget: "frame_budget 7 sample"
proof -
  have "can_alloc (pmm_alloc 1) 7 sample"
    by code_simp
  moreover have "\<forall>x. 2 ^ 51 \<le> x \<longrightarrow> type_at (live sample) x = None"
    by (auto simp: type_at_None_iff sample_map_def contains_def lo_def hi_def)
  ultimately show ?thesis
    using sample_inv by (simp add: frame_budget_def frames_inv_def pmm_room_def PMM_MAP_MAX_ENTRIES_def)
qed

end
