(* ===== verification/PtmX86Walk.thy ===== *)
theory PtmX86Walk
  imports PtmX86 RegionMap
begin

text \<open>
  The x86-64 entries as a page table format and a writer: the hardware's decoding of an entry
  (Intel SDM, 4-level and 5-level paging), the bits \<open>map_page\<close> writes, the interpretation of
  \<open>page_walker\<close> on them, and the equation between \<open>map_page\<close> and the common walk.
\<close>

section \<open>The hardware's reading of an entry\<close>

text \<open>Bits 51 down to \<open>9 * l + 3\<close> hold the base of a page of level \<open>l\<close>.\<close>

definition hw_mask :: "nat \<Rightarrow> u64" where
  "hw_mask l = push_bit (9 * l + 3) (mask (49 - 9 * l))"

definition x86_fmt :: pt_format where
  "x86_fmt = \<lparr>
     is_valid = (\<lambda>e. bit e 0),
     is_table = (\<lambda>l e. bit e 0 \<and> \<not> bit e 7 \<and> 2 \<le> l),
     is_leaf = (\<lambda>l e. bit e 0 \<and> (l = 1 \<or> (bit e 7 \<and> (l = 2 \<or> l = 3)))),
     pt_addr = (\<lambda>e. e AND hw_mask 1),
     leaf_of = (\<lambda>l e. \<lparr>x_base = e AND hw_mask l, x_level = l, x_read = True,
                      x_write = bit e 1, x_exec = (\<not> bit e 63)\<rparr>),
     narrow = (\<lambda>e x. x\<lparr>x_write := x_write x \<and> bit e 1, x_exec := x_exec x \<and> \<not> bit e 63\<rparr>)\<rparr>"

section \<open>What map_page writes\<close>

definition new_entry :: "bool \<Rightarrow> bool \<Rightarrow> u64 \<Rightarrow> u64" where
  "new_entry rw nx a =
     (let entry = ENTRY_FLAG_PRESENT OR (a AND ENTRY_4K_ADDRESS_MASK);
          entry = (if nx then entry OR ENTRY_FLAG_NX else entry)
      in if rw then entry OR ENTRY_FLAG_RW else entry)"

definition upd_entry :: "bool \<Rightarrow> bool \<Rightarrow> u64 \<Rightarrow> u64" where
  "upd_entry rw nx entry =
     (let entry = (if \<not> nx then entry AND NOT ENTRY_FLAG_NX else entry)
      in if rw then entry OR ENTRY_FLAG_RW else entry)"

definition x86_writer :: "u64 \<Rightarrow> ptm_page_size_t \<Rightarrow> bool \<Rightarrow> bool \<Rightarrow> pt_writer" where
  "x86_writer paddr ps rw nx = \<lparr>
     w_lowest = lowest_level ps,
     w_new = new_entry rw nx,
     w_upd = upd_entry rw nx,
     w_addr = (\<lambda>e. e AND ENTRY_4K_ADDRESS_MASK),
     w_stop = (\<lambda>e. bit e 7),
     w_leaf = leaf_entry paddr ps rw nx,
     w_fault = Panic ''cannot remap over a non-4k page %lx''\<rparr>"

section \<open>Bits\<close>

named_theorems entry_bits

lemma bit_mask_range:
  "bit (push_bit m (mask n) :: u64) i \<longleftrightarrow> m \<le> i \<and> i < m + n \<and> i < 64"
  by (auto simp: bit_simps)

lemma hw_mask_bit [entry_bits]: "bit (hw_mask l) i \<longleftrightarrow> 9 * l + 3 \<le> i \<and> i < 9 * l + 3 + (49 - 9 * l) \<and> i < 64"
  by (simp add: hw_mask_def bit_mask_range)

lemma flag_exps: "ENTRY_FLAG_PRESENT = push_bit 0 1" "ENTRY_FLAG_RW = push_bit 1 1"
    "ENTRY_FLAG_NX = push_bit 63 1" "ENTRYH_FLAG_PS = push_bit 7 1"
  by code_simp+

lemma flag_bits [entry_bits]:
  "bit ENTRY_FLAG_PRESENT i \<longleftrightarrow> i = 0" "bit ENTRY_FLAG_RW i \<longleftrightarrow> i = 1"
  "bit ENTRY_FLAG_NX i \<longleftrightarrow> i = 63" "bit ENTRYH_FLAG_PS i \<longleftrightarrow> i = 7"
  unfolding flag_exps bit_flag by simp_all

lemma mask_bits [entry_bits]:
  "bit ENTRY_4K_ADDRESS_MASK i \<longleftrightarrow> 12 \<le> i \<and> i < 51"
  "bit (address_mask ps) i \<longleftrightarrow> 9 * lowest_level ps + 3 \<le> i \<and> i < 51"
proof -
  have masks: "ENTRY_4K_ADDRESS_MASK = push_bit 12 (mask 39)"
    "ENTRY_2M_ADDRESS_MASK = push_bit 21 (mask 30)" "ENTRY_1G_ADDRESS_MASK = push_bit 30 (mask 21)"
    by code_simp+
  show "bit ENTRY_4K_ADDRESS_MASK i \<longleftrightarrow> 12 \<le> i \<and> i < 51"
    "bit (address_mask ps) i \<longleftrightarrow> 9 * lowest_level ps + 3 \<le> i \<and> i < 51"
    by (cases ps; auto simp: masks bit_mask_range)+
qed

lemma test_bit [entry_bits]:
  "e AND ENTRY_FLAG_PRESENT = 0 \<longleftrightarrow> \<not> bit e 0" "e AND ENTRYH_FLAG_PS = 0 \<longleftrightarrow> \<not> bit e 7"
  unfolding flag_exps using and_push_bit_one by blast+

text \<open>An upper entry narrows nothing exactly when it keeps the permissions a leaf has.\<close>

lemma narrow_same:
  "x\<lparr>x_write := p, x_exec := q\<rparr> = x \<longleftrightarrow> p = x_write x \<and> q = x_exec x"
  by (cases x) auto

lemma new_entry_bits [entry_bits]:
  "bit (new_entry rw nx a) i \<longleftrightarrow>
    i = 0 \<or> (i = 63 \<and> nx) \<or> (i = 1 \<and> rw) \<or> (bit a i \<and> 12 \<le> i \<and> i < 51)"
  by (auto simp: new_entry_def Let_def bit_simps flag_bits mask_bits)

lemma upd_entry_bits [entry_bits]:
  "bit (upd_entry rw nx e) i \<longleftrightarrow> (if i = 63 then bit e i \<and> nx else if i = 1 then bit e i \<or> rw else bit e i)"
  using bit_imp_le_length [of e i] by (auto simp: upd_entry_def Let_def bit_simps flag_bits)

lemma leaf_entry_bits [entry_bits]:
  "bit (leaf_entry paddr ps rw nx) i \<longleftrightarrow>
    i = 0 \<or> (i = 7 \<and> ps \<noteq> PAGE_4K) \<or> (i = 1 \<and> rw) \<or> (i = 63 \<and> nx) \<or>
    (bit paddr i \<and> 9 * lowest_level ps + 3 \<le> i \<and> i < 51)"
  by (auto simp: leaf_entry_def Let_def bit_simps flag_bits mask_bits)

lemma frame_ok_bits: "frame_ok f \<Longrightarrow> bit f i \<Longrightarrow> 12 \<le> i \<and> i < 51"
proof -
  assume f: "frame_ok f" and i: "bit f i"
  have "take_bit 12 f = 0" "take_bit 51 f = f"
    using f by (simp_all add: frame_ok_def page_aligned_def flip: unat_less_pow2_iff)
  then have "\<not> bit f i" if "i < 12"
    using that by (metis bit_0_eq bit_take_bit_iff bot_apply bot_bool_def)
  moreover have "i < 51"
    using \<open>take_bit 51 f = f\<close> i by (metis bit_take_bit_iff)
  ultimately show ?thesis
    using i by (meson not_le)
qed

lemma lowest_level_range: "1 \<le> lowest_level ps" "lowest_level ps \<le> 3"
  "lowest_level ps = 1 \<longleftrightarrow> ps = PAGE_4K" "ps \<noteq> PAGE_4K \<Longrightarrow> lowest_level ps = 2 \<or> lowest_level ps = 3"
  by (cases ps; simp)+

interpretation xw: page_walker x86_fmt "x86_writer paddr ps rw nx" for paddr ps rw nx
proof (unfold_locales, goal_cases)
  case (5 a l)
  have "new_entry rw nx a AND hw_mask 1 = a"
    by (rule bit_word_eqI) (auto simp: bit_simps entry_bits dest: frame_ok_bits [OF 5])
  then show ?case
    by (simp add: x86_fmt_def x86_writer_def entry_bits)
next
  case (6 l e)
  have "upd_entry rw nx e AND hw_mask 1 = e AND hw_mask 1"
    by (rule bit_word_eqI) (auto simp: bit_simps entry_bits)
  then show ?case
    using 6 by (simp add: x86_fmt_def x86_writer_def entry_bits)
next
  case (7 l e)
  have "e AND hw_mask 1 = e AND ENTRY_4K_ADDRESS_MASK"
  proof (rule bit_word_eqI)
    fix i
    have "bit (e AND hw_mask 1) i \<Longrightarrow> i < 51"
      using frame_ok_bits [OF 7(2), of i] by (simp add: x86_fmt_def)
    then show "bit (e AND hw_mask 1) i \<longleftrightarrow> bit (e AND ENTRY_4K_ADDRESS_MASK) i"
      by (auto simp: bit_simps entry_bits)
  qed
  then show ?case
    by (simp add: x86_fmt_def x86_writer_def)
qed (use lowest_level_range [of ps] in
    \<open>auto simp: x86_fmt_def x86_writer_def entry_bits narrow_same\<close>)

section \<open>map_page is the common walk\<close>

lemma VADDR_TO_INDEX_vindex: "VADDR_TO_INDEX va l = vindex va l"
  by (simp add: VADDR_TO_INDEX_def vindex_def)

lemma write_table_same:
  "(if read_table st t i \<noteq> e then write_table t i e st else st) = write_table t i e st"
  by (auto simp: read_table_def write_table_def store64_same)

lemma read_table_view: "read_table st (t + hhdm_offset st) i = view st t i"
  by (simp add: read_table_def view_def table_view_def)

lemma map_page_entry_new:
  "\<not> bit e 0 \<Longrightarrow> map_page_entry e rw nx st =
    res_bind (vm_alloc 1 st) (\<lambda>(a, st). ok (new_entry rw nx a, clear_table a st))"
  by (auto simp: map_page_entry_def entry_bits new_entry_def Let_def res_bind_assoc prod.case_distrib
      intro!: arg_cong [of _ _ "res_bind (vm_alloc 1 st)"])

lemma map_page_entry_present:
  "bit e 0 \<Longrightarrow> map_page_entry e rw nx st =
    (if bit e 7 then fail (Panic ''cannot remap over a non-4k page %lx'') else ok (upd_entry rw nx e, st))"
  by (auto simp: map_page_entry_def entry_bits upd_entry_def Let_def)

lemma vm_alloc_hhdm: "vm_alloc n st = ok (a, st') \<Longrightarrow> hhdm_offset st' = hhdm_offset st"
  by (auto simp: vm_alloc_def res_bind_ok_iff)

lemma map_page_walk_common:
  "lowest_level ps \<le> l \<Longrightarrow>
    res_bind (map_page_walk l (lowest_level ps) (t + hhdm_offset st) va rw nx st)
      (\<lambda>(tbl, st). ok (write_table tbl (VADDR_TO_INDEX va (lowest_level ps)) (leaf_entry paddr ps rw nx) st)) =
    walk_map x86_fmt (x86_writer paddr ps rw nx) va l t st"
proof (induction l arbitrary: t st)
  case 0
  then show ?case
    using lowest_level_range(1) [of ps] by simp
next
  case (Suc l)
  let ?e = "view st t (vindex va (Suc l))"
  show ?case
  proof (cases "lowest_level ps < Suc l")
    case False
    then have "lowest_level ps = Suc l"
      using Suc.prems by simp
    then show ?thesis
      by (simp add: map_page_walk.simps x86_writer_def Let_def write_entry_def VADDR_TO_INDEX_vindex)
  next
    case True
    then have level: "2 \<le> Suc l" "\<not> Suc l \<le> lowest_level ps" "lowest_level ps \<le> l"
      using lowest_level_range(1) [of ps] by simp_all
    note step = map_page_walk.simps [of "Suc l" "lowest_level ps"]
    show ?thesis
    proof (cases "bit ?e 0")
      case False
      have "res_bind (vm_alloc 1 st) f = res_bind (vm_alloc 1 st) g"
        if "\<And>a st'. vm_alloc 1 st = ok (a, st') \<Longrightarrow> f (a, st') = g (a, st')" for f g
        using that by (cases "vm_alloc 1 st") (auto simp: res_bind_def split: sum.split)
      note alloc_cong = this
      show ?thesis
        using False level True Suc.IH [OF level(3)]
        by (auto simp: step Let_def read_table_view VADDR_TO_INDEX_vindex write_table_same
            map_page_entry_new x86_fmt_def x86_writer_def res_bind_assoc write_entry_def
            dest!: vm_alloc_hhdm intro!: alloc_cong)
    next
      case True
      then show ?thesis
        using level Suc.IH [OF level(3)]
        by (auto simp: step Let_def read_table_view VADDR_TO_INDEX_vindex write_table_same
            map_page_entry_present x86_fmt_def x86_writer_def write_entry_def)
    qed
  qed
qed

lemma map_page_common:
  "lowest_level ps \<le> n \<Longrightarrow>
    map_page root n va paddr ps rw nx st = walk_map x86_fmt (x86_writer paddr ps rw nx) va n root st"
  by (simp add: map_page_def map_page_walk_common)

end
