(* ===== verification/PtmX86Map.thy ===== *)
theory PtmX86Map
  imports PtmX86Walk RegionMap
begin

text \<open>
  Mapping on x86-64: one page, then a region with the page sizes \<open>ptm_map\<close> chooses. The outcome
  is \<open>region_mapped\<close>: every byte of the region translates to its counterpart with the requested
  permissions, and every other address translates as before.
\<close>

lemma page_size_unat: "unat (page_size_bytes ps) = 2 ^ (9 * lowest_level ps + 3)"
  by (cases ps) (simp_all add: page_size_defs)

lemma page_size_pow: "page_size_bytes ps = 2 ^ (9 * lowest_level ps + 3)"
  by (cases ps) (simp_all add: page_size_defs)

lemma mod_page_size: "a mod page_size_bytes ps = 0 \<longleftrightarrow> take_bit (9 * lowest_level ps + 3) a = 0"
  by (simp add: page_size_pow take_bit_eq_mod)

lemma leaf_base:
  assumes "paddr mod page_size_bytes ps = 0" and "unat paddr < 2 ^ 51"
  shows "leaf_entry paddr ps rw nx AND hw_mask (lowest_level ps) = paddr"
proof (rule bit_word_eqI)
  fix i
  have "take_bit (9 * lowest_level ps + 3) paddr = 0" "take_bit 51 paddr = paddr"
    using assms by (simp_all add: mod_page_size flip: unat_less_pow2_iff)
  then have "bit paddr i \<Longrightarrow> 9 * lowest_level ps + 3 \<le> i \<and> i < 51"
    by (metis bit_0_eq bit_take_bit_iff bot_apply bot_bool_def not_le)
  then show "bit (leaf_entry paddr ps rw nx AND hw_mask (lowest_level ps)) i \<longleftrightarrow> bit paddr i"
    using lowest_level_range [of ps] by (auto simp: bit_simps entry_bits)
qed

lemma map_page_region:
  assumes ok: "tables_ok x86_fmt n root st" and n: "n = 4 \<or> n = 5" and can: "canonical n vaddr"
    and al: "vaddr mod page_size_bytes ps = 0" "paddr mod page_size_bytes ps = 0"
    and low: "unat paddr < 2 ^ 51"
    and budget: "frame_budget (missing x86_fmt (view st) vaddr n root - (lowest_level ps - 1) + k) (vm_pmm st)"
  shows "if \<exists>x. mmu x86_fmt (view st) n root vaddr = Some x \<and> lowest_level ps < x_level x
    then map_page root n vaddr paddr ps rw nx st = fail (Panic ''cannot remap over a non-4k page %lx'')
    else \<exists>st'. map_page root n vaddr paddr ps rw nx st = ok st' \<and>
      region_mapped x86_fmt n root (True, rw, \<not> nx) vaddr paddr (unat (page_size_bytes ps)) st st' \<and>
      frame_budget k (vm_pmm st') \<and> page_cost x86_fmt n root vaddr (page_size_bytes ps) st st'"
proof -
  let ?w = "x86_writer paddr ps rw nx"
  let ?x = "leaf_of x86_fmt (w_lowest ?w) (w_leaf ?w)"
  have levels: "1 \<le> lowest_level ps" "lowest_level ps \<le> n" "n \<le> 5"
    using lowest_level_range [of ps] n by auto
  have wl: "w_lowest ?w = lowest_level ps" "w_fault ?w = Panic ''cannot remap over a non-4k page %lx''"
    by (simp_all add: x86_writer_def)
  have x: "?x = \<lparr>x_base = paddr, x_level = lowest_level ps, x_read = True, x_write = rw, x_exec = (\<not> nx)\<rparr>"
    using leaf_base [OF al(2) low, of rw nx] lowest_level_range [of ps]
    by (auto simp: x86_fmt_def x86_writer_def entry_bits)
  have tree: "tree_ok x86_fmt (view st) n root"
    using ok by (simp add: tables_ok_def)
  have region: "region_mapped x86_fmt n root (True, rw, \<not> nx) vaddr paddr (unat (page_size_bytes ps)) st st'"
    "page_cost x86_fmt n root vaddr (page_size_bytes ps) st st'"
    if "page_mapped x86_fmt (lowest_level ps) ?x vaddr n root st st'" for st'
    using page_region [OF that levels can, of paddr] page_mapped_cost [OF that levels lowest_level_range(2), of "page_size_bytes ps"] al(1)
    by (simp_all add: x mod_page_size page_size_unat)
  show ?thesis
    using xw.walk_map_effect [where paddr = paddr and ps = ps and rw = rw and nx = nx and l = n and
        t = root and st = st and k = k and va = vaddr]
      xw.blocked_iff [OF tree, of "lowest_level ps" vaddr] ok levels budget region
    by (auto simp: wl map_page_common frame_budget_def split: if_splits)
qed

section \<open>The page sizes of a region\<close>

lemma choose_fits:
  fixes g :: bool
  assumes "4096 dvd unat remain" and "remain \<noteq> 0"
    and "paddr mod PTM_PAGE_GRANULARITY = 0" and "vaddr mod PTM_PAGE_GRANULARITY = 0"
  defines "ps \<equiv> choose_page_size paddr vaddr remain g"
  shows "paddr mod page_size_bytes ps = 0" and "vaddr mod page_size_bytes ps = 0"
    and "page_size_bytes ps \<le> remain"
proof -
  have "4096 \<le> unat remain"
    using assms(1,2) by (auto simp: dvd_imp_le unat_gt_0)
  then show "paddr mod page_size_bytes ps = 0" "vaddr mod page_size_bytes ps = 0"
    "page_size_bytes ps \<le> remain"
    using assms(3,4) by (auto simp: ps_def choose_page_size_def Let_def word_le_nat_alt page_size_defs)
qed

lemma page_size_nonzero: "page_size_bytes ps \<noteq> 0"
  by (cases ps) (simp_all add: page_size_defs)

lemma size_page:
  "(if page_size_bytes ps = PTM_PAGE_SIZE_1G then PAGE_1G
    else if page_size_bytes ps = PTM_PAGE_SIZE_2M then PAGE_2M else PAGE_4K) = ps"
  by (cases ps) (simp_all add: page_size_defs)

lemma page_size_dvd: "4096 dvd unat (page_size_bytes ps)"
  by (cases ps) (simp_all add: page_size_defs)

lemma page_level_bytes: "page_level (page_size_bytes ps) = lowest_level ps"
  by (rule page_level_pow [OF page_size_unat lowest_level_range(1,2)])

text \<open>No 4K page where a 2M page fits.\<close>

lemma choose_2M:
  assumes "2 ^ 21 dvd unat v" and "2 ^ 21 dvd unat p" and "2 ^ 21 \<le> unat rem"
  shows "2 \<le> lowest_level (choose_page_size p v rem g)"
  using assms by (simp add: choose_page_size_def Let_def mod_2M_dvd word_le_nat_alt page_size_defs)

definition levels_of :: "bool \<Rightarrow> nat" where
  "levels_of la57 = (if la57 then 5 else 4)"

text \<open>The loop of \<open>ptm_map\<close> as a region mapper, for either number of levels, any flags and any
  setting of the two feature flags.\<close>

interpretation xm: region_mapper
    "\<lambda>offset v p len. ptm_map_loop root (levels_of la57) offset v p len flags"
    "\<lambda>v p rem. page_size_bytes (choose_page_size p v rem gb)"
    "\<lambda>v p sz. map_page root (levels_of la57) v p
       (if sz = PTM_PAGE_SIZE_1G then PAGE_1G else if sz = PTM_PAGE_SIZE_2M then PAGE_2M else PAGE_4K)
       (flags AND PTM_FLAG_WRITE \<noteq> 0) (nx \<and> flags AND PTM_FLAG_EXEC = 0)"
    x86_fmt "levels_of la57" root
    "(True, flags AND PTM_FLAG_WRITE \<noteq> 0, \<not> (nx \<and> flags AND PTM_FLAG_EXEC = 0))"
    "\<lambda>st. g_x86_64_cpu_nx_support st = nx \<and> g_x86_64_cpu_pdpe1gb_support st = gb"
  for root la57 flags nx gb
proof (unfold_locales, goal_cases)
  case (3 st offset v p len)
  then show ?case
    by (subst ptm_map_loop.simps) (simp add: Let_def size_page)
next
  case (4 st st')
  then show ?case
    by (cases st; cases st') (simp add: same_config_def)
next
  case (5 rem v p)
  then show ?case
    using choose_fits(3) [of rem p v gb] page_size_dvd choose_2M [of v p rem gb]
    by (auto simp: mod_4096_dvd page_size_nonzero page_level_bytes)
next
  case (6 st v p rem k)
  have mmu: "mmu x86_fmt (view st) (levels_of la57) root v = None"
    using 6(3,9) by (simp add: translate_def)
  note budget = 6(10) [unfolded page_level_bytes]
  have n: "levels_of la57 = 4 \<or> levels_of la57 = 5"
    by (simp add: levels_of_def)
  show ?case
    using map_page_region [OF 6(2) n 6(3) _ _ 6(6) budget, of "flags AND PTM_FLAG_WRITE \<noteq> 0"
        "nx \<and> flags AND PTM_FLAG_EXEC = 0"] choose_fits [OF 6(7,8), of p v gb] 6(4,5) mmu
    by (auto simp: size_page mod_4096_dvd)
qed (simp_all add: levels_of_def)

lemma ptm_map_loop_region:
  assumes "r = unat len - unat offset" and "offset \<le> len" and "4096 dvd unat len" and "4096 dvd unat offset"
    and "4096 dvd unat v" and "4096 dvd unat p" and "n = 4 \<or> n = 5"
    and "tables_ok x86_fmt n root st" and "region_canonical n v r" and "unat p + r \<le> 2 ^ 51"
    and "unmapped x86_fmt n root v r st" 
    and "frame_budget (region_tables n (unat v mod 2 ^ 21 = unat p mod 2 ^ 21) r + k) (vm_pmm st)"
  shows "\<exists>st'. ptm_map_loop root n offset v p len flags st = ok st' \<and>
    region_mapped x86_fmt n root
      (True, flags AND PTM_FLAG_WRITE \<noteq> 0, \<not> (g_x86_64_cpu_nx_support st \<and> flags AND PTM_FLAG_EXEC = 0))
      v p r st st' \<and> frame_budget k (vm_pmm st') \<and>
    frames_taken (region_tables n (unat v mod 2 ^ 21 = unat p mod 2 ^ 21) r) (vm_pmm st) (vm_pmm st')"
proof -
  have "n = levels_of (n = 5)"
    using assms(7) by (auto simp: levels_of_def)
  then obtain la57 where n: "n = levels_of la57" ..
  show ?thesis
    using xm.loop_tables [of r len offset v p st _ _ la57 root k flags] assms by (simp add: n)
qed

text \<open>One page of 4K.\<close>

lemma ptm_map_loop_page:
  assumes "unat len = 4096" and "tables_ok x86_fmt (levels_of la57) root st" and "4096 dvd unat v" and "4096 dvd unat p"
    and "canonical (levels_of la57) v" and "unat p < 2 ^ 51" and "translate x86_fmt st (levels_of la57) root v = None"
    and "frame_budget (missing x86_fmt (view st) v (levels_of la57) root) (vm_pmm st)"
  shows "\<exists>st'. ptm_map_loop root (levels_of la57) 0 v p len flags st = ok st' \<and>
    region_mapped x86_fmt (levels_of la57) root
      (True, flags AND PTM_FLAG_WRITE \<noteq> 0, \<not> (g_x86_64_cpu_nx_support st \<and> flags AND PTM_FLAG_EXEC = 0))
      v p 4096 st st' \<and> page_cost x86_fmt (levels_of la57) root v len st st'"
  using xm.loop_page [of len v p st _ _ la57 root 0 flags] assms by simp

end
