(* ===== verification/PtmX86Props.thy ===== *)
theory PtmX86Props
  imports PtmX86Map
begin

text \<open>
  The properties of the x86-64 page tables: initialisation, the exact effect of \<open>map_page\<close> and
  of \<open>ptm_map_at\<close> on every translation, and the direct map.
\<close>

section \<open>Fresh tables\<close>

lemma tables_ok_x86_flags [simp]:
  "tables_ok fmt n a (st\<lparr>g_x86_64_cpu_nx_support := b\<rparr>) = tables_ok fmt n a st"
  "tables_ok fmt n a (st\<lparr>g_x86_64_cpu_pdpe1gb_support := b\<rparr>) = tables_ok fmt n a st"
  "translate fmt (st\<lparr>g_x86_64_cpu_nx_support := b\<rparr>) n a va = translate fmt st n a va"
  "translate fmt (st\<lparr>g_x86_64_cpu_pdpe1gb_support := b\<rparr>) n a va = translate fmt st n a va"
  by (simp_all add: tables_ok_def view_def translate_def)

definition la57_enabled :: "cpuid_instr \<Rightarrow> u64 \<Rightarrow> bool" where
  "la57_enabled cpuid cr4 \<longleftrightarrow> bit (arch_cpuid cpuid 7 0 ARCH_CPUID_ECX) 16 \<and> bit cr4 12"

lemma ptm_init_fresh:
  assumes "page_aligned (hhdm_offset st)" and "frame_budget (Suc k) (vm_pmm st)"
  shows "\<exists>st' n root. ptm_init cpuid cr4 st = ok st' \<and> g_ptm st' = \<lparr>tplt = root, level_count = n\<rparr> \<and>
    n = (if la57_enabled cpuid cr4 then 5 else 4) \<and> tables_ok x86_fmt n root st' \<and>
    (\<forall>va. translate x86_fmt st' n root va = None) \<and> frame_budget k (vm_pmm st') \<and>
    hhdm_offset st' = hhdm_offset st"
proof -
  obtain a s where a: "vm_alloc 1 st = ok (a, st\<lparr>vm_pmm := s\<rparr>)" "frame_ok a" "\<not> frame_free s a"
    "frame_budget k s"
    using vm_alloc_ok [OF assms(2)] .
  let ?n = "if la57_enabled cpuid cr4 then 5 else 4 :: nat"
  have n: "(if arch_cpuid_is_feature_supported cpuid (ARCH_CPUID_FEATURE LA57)
      then if cr4 AND push_bit 12 1 \<noteq> 0 then 5 else 4 else 4) = ?n"
    by (simp add: la57_enabled_def supported_bit and_push_bit_zero ARCH_CPUID_GET_EXTENDED_FEATURES_def
        del: push_bit_of_1)
  note fresh = xw.fresh_tables [of "st\<lparr>vm_pmm := s\<rparr>" a ?n]
  show ?thesis
    using a assms(1) fresh unfolding ptm_init_def Let_def n by simp
qed

section \<open>Sample states\<close>

definition x86_sample :: x86_state where
  "x86_sample = \<lparr>vm_mem = (\<lambda>_. 0xFF), vm_pmm = sample, hhdm_offset = 0xFFFF800000000000,
     g_ptm = \<lparr>tplt = 0, level_count = 0\<rparr>, g_x86_64_cpu_nx_support = False,
     g_x86_64_cpu_pdpe1gb_support = False\<rparr>"

definition x86_ready :: x86_state where
  "x86_ready = the_ok (ptm_init (\<lambda>_ _. (0, 0, 0x10000, 0x4000000)) 0 x86_sample)"

lemma x86_sample_hhdm: "page_aligned (hhdm_offset x86_sample)"
  by (simp add: x86_sample_def page_aligned_def)

lemma x86_ready_tables:
  "tables_ok x86_fmt 4 (tplt (g_ptm x86_ready)) x86_ready" "frame_budget 6 (vm_pmm x86_ready)"
  "translate x86_fmt x86_ready 4 (tplt (g_ptm x86_ready)) va = None"
  "hhdm_offset x86_ready = 0xFFFF800000000000" "level_count (g_ptm x86_ready) = 4"
proof -
  have budget: "frame_budget (Suc 6) (vm_pmm x86_sample)"
    using sample_budget by (simp add: x86_sample_def)
  have "\<not> la57_enabled (\<lambda>_ _. (0, 0, 0x10000, 0x4000000)) 0"
    by (simp add: la57_enabled_def)
  then obtain st root where st: "ptm_init (\<lambda>_ _. (0, 0, 0x10000, 0x4000000)) 0 x86_sample = ok st"
    "g_ptm st = \<lparr>tplt = root, level_count = 4\<rparr>" "tables_ok x86_fmt 4 root st"
    "\<forall>va. translate x86_fmt st 4 root va = None" "frame_budget 6 (vm_pmm st)"
    "hhdm_offset st = 0xFFFF800000000000"
    using ptm_init_fresh [OF x86_sample_hhdm budget, of "\<lambda>_ _. (0, 0, 0x10000, 0x4000000)" 0]
    by (auto simp: x86_sample_def)
  then have "x86_ready = st"
    by (simp add: x86_ready_def)
  then show "tables_ok x86_fmt 4 (tplt (g_ptm x86_ready)) x86_ready" "frame_budget 6 (vm_pmm x86_ready)"
    "translate x86_fmt x86_ready 4 (tplt (g_ptm x86_ready)) va = None"
    "hhdm_offset x86_ready = 0xFFFF800000000000" "level_count (g_ptm x86_ready) = 4"
    using st by simp_all
qed

text \<open>C14. \<open>ptm_init\<close> succeeds when a frame can be allocated: the new tables are well-formed, map
  nothing, and have five levels exactly when the CPU supports LA57 and CR4.LA57 is set.\<close>

theorem ptm_init_empty:
  assumes "page_aligned (hhdm_offset st)" and "frame_budget 1 (vm_pmm st)"
  shows "\<exists>st'. ptm_init cpuid cr4 st = ok st' \<and>
    level_count (g_ptm st') =
      (if bit (arch_cpuid cpuid 7 0 ARCH_CPUID_ECX) 16 \<and> bit cr4 12 then 5 else 4) \<and>
    tables_ok x86_fmt (level_count (g_ptm st')) (tplt (g_ptm st')) st' \<and>
    (\<forall>va. translate x86_fmt st' (level_count (g_ptm st')) (tplt (g_ptm st')) va = None)"
  using ptm_init_fresh [OF assms(1), of 0 cpuid cr4] assms(2)
  by (auto simp: la57_enabled_def split: if_splits)

theorem ptm_init_empty_witness:
  "\<exists>st'. ptm_init (\<lambda>_ _. (0, 0, 0x10000, 0)) 0x1000 x86_sample = ok st' \<and>
    level_count (g_ptm st') =
      (if bit (arch_cpuid (\<lambda>_ _. (0, 0, 0x10000, 0)) 7 0 ARCH_CPUID_ECX) 16 \<and> bit (0x1000 :: u64) 12
       then 5 else 4) \<and>
    tables_ok x86_fmt (level_count (g_ptm st')) (tplt (g_ptm st')) st' \<and>
    (\<forall>va. translate x86_fmt st' (level_count (g_ptm st')) (tplt (g_ptm st')) va = None)"
  by (rule ptm_init_empty [OF x86_sample_hhdm])
    (use frame_budget_mono [OF sample_budget] in \<open>simp add: x86_sample_def\<close>)

section \<open>One page and a region\<close>

text \<open>C15. On well-formed tables, with frames to allocate, \<open>map_page\<close> panics exactly when a larger
  page already covers the address. Otherwise every byte of the page translates to its
  counterpart with the requested permissions, and every other address of the address space
  keeps its translation and its permissions.\<close>

theorem x86_map_page_exact:
  assumes "tables_ok x86_fmt n root st" and "n = 4 \<or> n = 5" and "canonical n vaddr"
    and "vaddr mod page_size_bytes ps = 0" and "paddr mod page_size_bytes ps = 0"
    and "unat paddr < 2 ^ 51" and "frame_budget (n - lowest_level ps) (vm_pmm st)"
  shows "if \<exists>x. mmu x86_fmt (view st) n root vaddr = Some x \<and> lowest_level ps < x_level x
    then map_page root n vaddr paddr ps rw nx st = fail (Panic ''cannot remap over a non-4k page %lx'')
    else \<exists>st'. map_page root n vaddr paddr ps rw nx st = ok st' \<and> tables_ok x86_fmt n root st' \<and>
      (\<forall>va. translate x86_fmt st' n root va =
        (if unat (va - vaddr) < unat (page_size_bytes ps)
         then Some (paddr + (va - vaddr), True, rw, \<not> nx) else translate x86_fmt st n root va))"
proof -
  have "missing x86_fmt (view st) vaddr n root - (lowest_level ps - 1) \<le> n - lowest_level ps"
    using missing_less [of x86_fmt "view st" vaddr n root] lowest_level_range [of ps] assms(2) by auto
  then have "frame_budget (missing x86_fmt (view st) vaddr n root - (lowest_level ps - 1) + 0) (vm_pmm st)"
    using frame_budget_mono [OF assms(7)] by simp
  from map_page_region [OF assms(1-6) this, of rw nx] show ?thesis
    by (auto simp: region_mapped_def split: if_splits)
qed

theorem x86_map_page_exact_witness:
  "if \<exists>x. mmu x86_fmt (view x86_ready) 4 (tplt (g_ptm x86_ready)) 0x400000 = Some x \<and>
      lowest_level PAGE_2M < x_level x
    then map_page (tplt (g_ptm x86_ready)) 4 0x400000 0x600000 PAGE_2M True False x86_ready =
      fail (Panic ''cannot remap over a non-4k page %lx'')
    else \<exists>st'. map_page (tplt (g_ptm x86_ready)) 4 0x400000 0x600000 PAGE_2M True False x86_ready = ok st' \<and>
      tables_ok x86_fmt 4 (tplt (g_ptm x86_ready)) st' \<and>
      (\<forall>va. translate x86_fmt st' 4 (tplt (g_ptm x86_ready)) va =
        (if unat (va - 0x400000) < unat (page_size_bytes PAGE_2M)
         then Some (0x600000 + (va - 0x400000), True, True, \<not> False)
         else translate x86_fmt x86_ready 4 (tplt (g_ptm x86_ready)) va))"
proof (rule x86_map_page_exact [OF x86_ready_tables(1)])
  show "canonical 4 0x400000"
    by (rule canonical_low) simp
qed (use frame_budget_mono [OF x86_ready_tables(2)] in \<open>simp_all add: page_size_defs\<close>)

text \<open>C16. Mapping an unmapped, page-aligned region returns, with whatever mix of 4K, 2M and 1G
  pages: exactly the bytes of the region are mapped, each to its counterpart, writable and
  executable as the flags say.\<close>

theorem ptm_map_at_exact:
  assumes "tables_ok x86_fmt n root st" and "n = 4 \<or> n = 5"
    and "4096 dvd unat vaddr" and "4096 dvd unat paddr" and "4096 dvd unat len"
    and "\<forall>va. unat (va - vaddr) < unat len \<longrightarrow> canonical n va \<and> translate x86_fmt st n root va = None"
    and "unat paddr + unat len \<le> 2 ^ 51"
    and "frame_budget (region_tables n (unat vaddr mod 2 ^ 21 = unat paddr mod 2 ^ 21) (unat len)) (vm_pmm st)"
  shows "\<exists>st'. ptm_map_at root n vaddr paddr len flags st = ok st' \<and> tables_ok x86_fmt n root st' \<and>
    (\<forall>va. translate x86_fmt st' n root va =
      (if unat (va - vaddr) < unat len
       then Some (paddr + (va - vaddr), True, flags AND PTM_FLAG_WRITE \<noteq> 0,
         \<not> (g_x86_64_cpu_nx_support st \<and> flags AND PTM_FLAG_EXEC = 0))
       else translate x86_fmt st n root va))"
proof -
  have "region_canonical n vaddr (unat len)" "unmapped x86_fmt n root vaddr (unat len) st"
    using assms(6) by (auto simp: region_canonical_def unmapped_def)
  then obtain st' where "ptm_map_loop root n 0 vaddr paddr len flags st = ok st'"
    "region_mapped x86_fmt n root (True, flags AND PTM_FLAG_WRITE \<noteq> 0,
      \<not> (g_x86_64_cpu_nx_support st \<and> flags AND PTM_FLAG_EXEC = 0)) vaddr paddr (unat len) st st'"
    using ptm_map_loop_region [of "unat len" len 0 vaddr paddr n root st 0 flags] assms by auto
  then show ?thesis
    using assms(3-5) by (auto simp: ptm_map_at_def mod_4096_dvd region_mapped_def)
qed

theorem ptm_map_at_exact_witness:
  "\<exists>st'. ptm_map_at (tplt (g_ptm x86_ready)) 4 0x400000 0x600000 0x2000 PTM_FLAG_READ x86_ready = ok st' \<and>
    tables_ok x86_fmt 4 (tplt (g_ptm x86_ready)) st' \<and>
    (\<forall>va. translate x86_fmt st' 4 (tplt (g_ptm x86_ready)) va =
      (if unat (va - 0x400000) < unat (0x2000 :: u64)
       then Some (0x600000 + (va - 0x400000), True, PTM_FLAG_READ AND PTM_FLAG_WRITE \<noteq> 0,
         \<not> (g_x86_64_cpu_nx_support x86_ready \<and> PTM_FLAG_READ AND PTM_FLAG_EXEC = 0))
       else translate x86_fmt x86_ready 4 (tplt (g_ptm x86_ready)) va))"
proof (rule ptm_map_at_exact [OF x86_ready_tables(1)])
  show "\<forall>va. unat (va - 0x400000) < unat (0x2000 :: u64) \<longrightarrow>
      canonical 4 va \<and> translate x86_fmt x86_ready 4 (tplt (g_ptm x86_ready)) va = None"
  proof (intro allI impI conjI)
    fix va :: u64 assume va: "unat (va - 0x400000) < unat (0x2000 :: u64)"
    have "unat (0x400000 + (va - 0x400000)) = 0x400000 + unat (va - 0x400000)"
      using va by (subst unat_add_nowrap) simp_all
    then show "canonical 4 va"
      using va by (intro canonical_low) simp
    show "translate x86_fmt x86_ready 4 (tplt (g_ptm x86_ready)) va = None"
      by (rule x86_ready_tables)
  qed
qed (use frame_budget_mono [OF x86_ready_tables(2)] in \<open>simp_all add: region_tables_def tables_for_def\<close>)

end
