(* ===== verification/PtmX86Hhdm.thy ===== *)
theory PtmX86Hhdm
  imports PtmX86Props
begin

text \<open>
  The direct map on x86-64. For page-aligned, disjoint entries the loop of
  \<open>ptm_create_hhdm_mappings\<close> maps exactly the bytes of the entries whose type is not bad, each at
  the direct map offset. An entry that is not page-aligned can stop the boot: its first page may
  already be part of a large page of the entry before it.
\<close>

lemma page_extent_aligned:
  "4096 dvd unat b \<Longrightarrow> 4096 dvd unat l \<Longrightarrow> page_extent b l = (b, l)"
  by (simp add: page_extent_def mod_4096_dvd)

definition entry_aligned :: "pmm_map_entry \<Rightarrow> bool" where
  "entry_aligned e \<longleftrightarrow> 4096 dvd lo e \<and> 4096 dvd unat (me_length e)"

text \<open>An entry and its image agree modulo 2M when the direct map offset is a multiple of 2M, and
  then take a table for each gigabyte rather than one for each 2M.\<close>

definition hhdm_tables :: "nat \<Rightarrow> u64 \<Rightarrow> pmm_map_entry list \<Rightarrow> nat" where
  "hhdm_tables n h es = sum_list (map (\<lambda>e. region_tables n (2 ^ 21 dvd unat h) (unat (me_length e))) es)"

lemma unat_add_mod_2M:
  fixes h b :: u64
  assumes "2 ^ 21 dvd unat h" shows "unat (h + b) mod 2 ^ 21 = unat b mod 2 ^ 21"
proof -
  have "(2 :: nat) ^ 21 dvd 2 ^ 64"
    by (simp add: le_imp_power_dvd)
  then have "unat (h + b) mod 2 ^ 21 = (unat h + unat b) mod 2 ^ 21"
    by (simp add: unat_word_ariths mod_mod_cancel)
  also have "\<dots> = unat b mod 2 ^ 21"
    using assms by (auto elim!: dvdE)
  finally show ?thesis .
qed

lemma entry_tables_le:
  "region_tables n (unat (h + b) mod 2 ^ 21 = unat b mod 2 ^ 21) len \<le> region_tables n (2 ^ 21 dvd unat h) len"
    for h b :: u64
  using unat_add_mod_2M [of h b] region_tables_le by (cases "2 ^ 21 dvd unat h") (auto simp: region_tables_def)

definition hhdm_covers :: "pmm_map_entry list \<Rightarrow> nat \<Rightarrow> bool" where
  "hhdm_covers es a \<longleftrightarrow> (\<exists>e\<in>set es. hhdm_type (me_type e) \<and> contains e a)"

lemma hhdm_loop_region:
  assumes "g_ptm st = \<lparr>tplt = root, level_count = n\<rparr>" and "n = 4 \<or> n = 5"
    and "tables_ok x86_fmt n root st" and "h = hhdm_offset st" and "4096 dvd unat h"
    and "wf_map es" and "\<forall>e\<in>set es. entry_aligned e \<and> hi e \<le> m" and "m \<le> 2 ^ 51"
    and "region_canonical n h m"
    and "\<forall>va. hhdm_covers es (unat (va - h)) \<longrightarrow> translate x86_fmt st n root va = None"
    and "frame_budget (hhdm_tables n h es + k) (vm_pmm st)"
  shows "\<exists>st'. hhdm_loop es st = ok st' \<and> same_config st st' \<and> tables_ok x86_fmt n root st' \<and>
    (\<forall>va. translate x86_fmt st' n root va =
      (if hhdm_covers es (unat (va - h))
       then Some (va - h, True, True, \<not> g_x86_64_cpu_nx_support st)
       else translate x86_fmt st n root va)) \<and> frame_budget k (vm_pmm st')"
  using assms
proof (induction es arbitrary: st)
  case Nil
  then show ?case
    by (simp add: hhdm_covers_def hhdm_tables_def)
next
  case (Cons e es)
  have e: "entry_ok e" "4096 dvd unat (me_base e)" "4096 dvd unat (me_length e)" "hi e \<le> m"
    and es: "wf_map es" "\<forall>x\<in>set es. hi e \<le> lo x"
    using Cons.prems(6,7) by (auto simp: entry_aligned_def lo_def)
  have covers: "hhdm_covers (e # es) a \<longleftrightarrow> hhdm_type (me_type e) \<and> contains e a \<or> hhdm_covers es a" for a
    by (auto simp: hhdm_covers_def)
  show ?case
  proof (cases "hhdm_type (me_type e)")
    case False
    moreover have "frame_budget (hhdm_tables n h es + k) (vm_pmm st)"
      by (rule frame_budget_mono [OF Cons.prems(11)]) (simp add: hhdm_tables_def)
    ultimately show ?thesis
      using Cons.IH [OF Cons.prems(1-5) es(1) _ Cons.prems(8,9)] Cons.prems(7,10) covers by simp
  next
    case True
    let ?b = "me_base e" and ?l = "me_length e"
    have size: "unat ?b + unat ?l \<le> 2 ^ 51" "unat ?b + unat ?l < 2 ^ 64"
      using e(1,4) Cons.prems(8) by (auto simp: hi_def entry_ok_def)
    have inside: "unat (va - (h + ?b)) < unat ?l \<longleftrightarrow> contains e (unat (va - h))" for va
      using unat_lt_region [OF size(2)] by (simp add: contains_def lo_def hi_def)
    have can: "region_canonical n (h + ?b) (unat ?l)"
      using Cons.prems(9) inside e(4) by (auto simp: region_canonical_def contains_def)
    have unm: "unmapped x86_fmt n root (h + ?b) (unat ?l) st"
      using Cons.prems(10) inside covers True by (simp add: unmapped_def)
    have vdvd: "4096 dvd unat (h + ?b)"
      using page_aligned_add [of h ?b] Cons.prems(5) e(2) by (simp add: page_aligned_dvd)
    have budget: "frame_budget (region_tables n (unat (h + ?b) mod 2 ^ 21 = unat ?b mod 2 ^ 21) (unat ?l) +
        (hhdm_tables n h es + k)) (vm_pmm st)"
      by (rule frame_budget_mono [OF Cons.prems(11)])
        (use entry_tables_le [of n h ?b "unat ?l"] in \<open>simp add: hhdm_tables_def\<close>)
    have flags: "(PTM_FLAG_READ OR PTM_FLAG_WRITE) AND PTM_FLAG_WRITE \<noteq> 0"
      "(PTM_FLAG_READ OR PTM_FLAG_WRITE) AND PTM_FLAG_EXEC = 0"
      by code_simp+
    obtain st1 where st1: "ptm_map_loop root n 0 (h + ?b) ?b ?l (PTM_FLAG_READ OR PTM_FLAG_WRITE) st = ok st1"
      "region_mapped x86_fmt n root (True, True, \<not> g_x86_64_cpu_nx_support st) (h + ?b) ?b (unat ?l) st st1"
      "frame_budget (hhdm_tables n h es + k) (vm_pmm st1)"
      using ptm_map_loop_region [of "unat ?l" ?l 0 "h + ?b" ?b n root st "hhdm_tables n h es + k"
          "PTM_FLAG_READ OR PTM_FLAG_WRITE"] e(2,3) vdvd Cons.prems(2,3) can size(1) unm budget flags
      by auto
    have conf: "same_config st st1" and ok1: "tables_ok x86_fmt n root st1"
      and tr1: "\<And>va. translate x86_fmt st1 n root va = (if contains e (unat (va - h))
        then Some (va - h, True, True, \<not> g_x86_64_cpu_nx_support st) else translate x86_fmt st n root va)"
      using st1(2) inside by (auto simp: region_mapped_def)
    have "ptm_map (hhdm_offset st + ?b) ?b ?l (PTM_FLAG_READ OR PTM_FLAG_WRITE) st = ok st1"
      using st1(1) e(2,3) vdvd Cons.prems(1,4) by (simp add: ptm_map_def mod_4096_dvd)
    then have step: "hhdm_loop (e # es) st = hhdm_loop es st1"
      using True e(2,3) by (simp add: page_extent_aligned)
    have g1: "g_ptm st1 = \<lparr>tplt = root, level_count = n\<rparr>" "h = hhdm_offset st1"
      using conf Cons.prems(1,4) by (simp_all add: same_config_def)
    have nx: "g_x86_64_cpu_nx_support st1 = g_x86_64_cpu_nx_support st"
      using conf by (cases st; cases st1) (simp add: same_config_def)
    have apart: "\<not> contains e a" if "hhdm_covers es a" for a
      using that es(2) by (auto simp: hhdm_covers_def contains_def)
    have "\<forall>va. hhdm_covers es (unat (va - h)) \<longrightarrow> translate x86_fmt st1 n root va = None"
      using Cons.prems(10) covers apart tr1 by simp
    then obtain st' where st': "hhdm_loop es st1 = ok st'" "same_config st1 st'" "tables_ok x86_fmt n root st'"
      "\<forall>va. translate x86_fmt st' n root va = (if hhdm_covers es (unat (va - h))
        then Some (va - h, True, True, \<not> g_x86_64_cpu_nx_support st) else translate x86_fmt st1 n root va)"
      "frame_budget k (vm_pmm st')"
      using Cons.IH [OF g1(1) Cons.prems(2) ok1 g1(2) Cons.prems(5) es(1) _ Cons.prems(8,9) _ st1(3)]
        Cons.prems(7) nx by auto
    have "translate x86_fmt st' n root va = (if hhdm_covers (e # es) (unat (va - h))
        then Some (va - h, True, True, \<not> g_x86_64_cpu_nx_support st) else translate x86_fmt st n root va)" for va
      using st'(4) tr1 covers True by simp
    then show ?thesis
      using step st' same_config_trans [OF conf st'(2)] by auto
  qed
qed


definition hhdm_sample :: "pmm_map_entry list" where
  "hhdm_sample =
     [\<lparr>me_base = 0x1000, me_length = 0x1000, me_type = PMM_MAP_TYPE_USED\<rparr>,
      \<lparr>me_base = 0x2000, me_length = 0x1000, me_type = PMM_MAP_TYPE_BAD\<rparr>]"

lemma canonical_high:
  fixes va :: u64
  assumes "unat (va - 0xFFFF800000000000) < 2 ^ 46" shows "canonical 4 va"
proof (rule canonical_drop [of 4 "0xFFFF800000000000" 46])
  have h: "(0xFFFF800000000000 :: u64) = push_bit 47 (mask 17)"
    by (simp add: mask_eq_exp_minus_1)
  show "canonical 4 0xFFFF800000000000"
    unfolding h canonical_def by (auto simp: bit_push_bit_iff bit_mask_iff)
  show "drop_bit 46 va = drop_bit 46 0xFFFF800000000000"
    using assms by (subst same_drop_iff) simp_all
qed simp


end
