(* ===== verification/AddressSpace.thy ===== *)
theory AddressSpace
  imports RegionMap
begin

text \<open>
  The page tables as the rest of the boot code uses them. \<open>kept\<close> names the addresses whose frame
  is in use and is no page table: mapping leaves them alone, and writing to them leaves every
  translation alone. The locale \<open>address_space\<close> is the contract of \<open>ptm_map\<close>, interpreted on both
  architectures; the ELF loader and the page database are proved against it.
\<close>

section \<open>The frame of an address\<close>

definition page_of :: "u64 \<Rightarrow> u64 \<Rightarrow> u64" where
  "page_of h a = (a - h) AND NOT (mask 12)"

lemma page_of_aligned: "page_aligned (page_of h a)"
  unfolding page_aligned_def page_of_def by (rule bit_word_eqI) (auto simp: bit_simps)

lemma page_of_offset:
  obtains k where "k < 4096" and "a = page_of h a + h + of_nat k"
proof -
  have "a - h = page_of h a + take_bit 12 (a - h)"
    unfolding page_of_def
    by (subst disjunctive_add_eq_or) (auto simp: bit_eq_iff bit_simps)
  then have "a = page_of h a + h + of_nat (unat (take_bit 12 (a - h)))"
    by (simp add: algebra_simps)
  moreover have "unat (take_bit 12 (a - h)) < 4096"
    by (simp add: unat_take_bit)
  ultimately show thesis
    by (rule that [rotated])
qed

lemma page_of_unique:
  assumes "page_aligned h" and "page_aligned f" and "k < 4096"
  shows "page_of h (f + h + of_nat k) = f"
proof -
  obtain j where j: "j < 4096" "f + h + of_nat k = page_of h (f + h + of_nat k) + h + of_nat j"
    by (rule page_of_offset)
  have "f + h = page_of h (f + h + of_nat k) + h"
    using page_offset_eq [OF _ _ assms(3) j(1,2)] page_aligned_add assms(1,2) page_of_aligned by blast
  then show ?thesis
    by simp
qed

lemma load64_byte:
  assumes "load64 m a = load64 m' a" and "i < 8" shows "m (a + of_nat i) = m' (a + of_nat i)"
proof -
  have bytes: "bytes_at m a 8 = to_bytes 8 (load64 m a)" for m
    using to_bytes_from_bytes [of "bytes_at m a 8"] by (simp add: load64_def del: to_bytes.simps)
  have "bytes_at m a 8 ! i = bytes_at m' a 8 ! i"
    by (simp only: bytes assms(1))
  then show ?thesis
    using assms(2) by simp
qed

lemma agree_byte:
  assumes "agree_on {page_of h a} (table_view m h) (table_view m' h)" shows "m' a = m a"
proof -
  obtain k where k: "k < 4096" "a = page_of h a + h + of_nat k"
    by (rule page_of_offset)
  have "table_view m' h (page_of h a) (k div 8) = table_view m h (page_of h a) (k div 8)"
    using assms k(1) by (simp add: agree_on_def)
  then have "m' (page_of h a + h + 8 * of_nat (k div 8) + of_nat (k mod 8)) =
      m (page_of h a + h + 8 * of_nat (k div 8) + of_nat (k mod 8))"
    unfolding table_view_def by (rule load64_byte) simp
  then show ?thesis
    using k(2) by (simp add: entry_byte)
qed

lemma byte_agree:
  assumes "\<And>k. k < 4096 \<Longrightarrow> m' (f + h + of_nat k) = m (f + h + of_nat k)"
  shows "agree_on {f} (table_view m h) (table_view m' h)"
proof -
  have "table_view m' h f j = table_view m h f j" if "j < 512" for j
    unfolding table_view_def
  proof (rule load64_cong)
    fix i :: nat assume "i < 8"
    then have "8 * j + i < 4096"
      using that by simp
    from assms [OF this] show "m' (f + h + 8 * of_nat j + of_nat i) = m (f + h + 8 * of_nat j + of_nat i)"
      by (simp only: entry_byte)
  qed
  then show ?thesis
    by (simp add: agree_on_def)
qed

section \<open>Kept addresses\<close>

definition kept :: "pt_format \<Rightarrow> nat \<Rightarrow> u64 \<Rightarrow> 'a vm_state_scheme \<Rightarrow> u64 \<Rightarrow> bool" where
  "kept fmt n root st a \<longleftrightarrow>
     page_of (hhdm_offset st) a \<notin> tframes fmt (view st) n root \<and>
     \<not> frame_free (vm_pmm st) (page_of (hhdm_offset st) a)"

lemma others_kept_kept:
  assumes "others_kept fmt n root st st'" and "same_config st st'" and "kept fmt n root st a"
  shows "vm_mem st' a = vm_mem st a" and "kept fmt n root st' a"
proof -
  let ?f = "page_of (hhdm_offset st) a"
  have h: "hhdm_offset st' = hhdm_offset st"
    using assms(2) by (simp add: same_config_def)
  have "agree_on {?f} (view st) (view st')"
    using assms(1,3) page_of_aligned by (simp add: others_kept_def kept_def)
  then show "vm_mem st' a = vm_mem st a"
    using h by (intro agree_byte) (simp add: view_def)
  show "kept fmt n root st' a"
    using assms(1,3) h by (auto simp: others_kept_def kept_def)
qed

text \<open>Writing at kept addresses.\<close>

lemma write_kept:
  assumes ok: "tables_ok fmt n root st"
    and only: "\<And>a. \<not> kept fmt n root st a \<Longrightarrow> m a = vm_mem st a"
  defines "st' \<equiv> st\<lparr>vm_mem := m\<rparr>"
  shows "tables_ok fmt n root st'" and "translate fmt st' n root va = translate fmt st n root va"
    and "kept fmt n root st' a = kept fmt n root st a" and "same_config st st'"
    and "tframes fmt (view st') n root = tframes fmt (view st) n root"
proof -
  have h: "page_aligned (hhdm_offset st)"
    and used: "\<And>f. f \<in> tframes fmt (view st) n root \<Longrightarrow> frame_ok f \<and> \<not> frame_free (vm_pmm st) f"
    using ok by (auto simp: tables_ok_def)
  have "agree_on {f} (view st) (view st')" if f: "f \<in> tframes fmt (view st) n root" for f
    unfolding view_def st'_def
  proof (simp, rule byte_agree)
    fix k :: nat assume "k < 4096"
    then have "page_of (hhdm_offset st) (f + hhdm_offset st + of_nat k) = f"
      using h used [OF f] by (intro page_of_unique) (simp_all add: frame_ok_def)
    then show "m (f + hhdm_offset st + of_nat k) = vm_mem st (f + hhdm_offset st + of_nat k)"
      using f by (intro only) (simp add: kept_def)
  qed
  then have agree: "agree_on (tframes fmt (view st) n root) (view st) (view st')"
    by (simp add: agree_on_def)
  note same = tree_cong [OF agree]
  show "tframes fmt (view st') n root = tframes fmt (view st) n root"
    using same by simp
  then show "tables_ok fmt n root st'" "translate fmt st' n root va = translate fmt st n root va"
    "kept fmt n root st' a = kept fmt n root st a"
    using same ok by (simp_all add: tables_ok_def translate_def kept_def st'_def)
  show "same_config st st'"
    by (simp add: same_config_def st'_def)
qed

text \<open>Allocating pages: they become kept.\<close>

lemma took_frame_free: "took s a n t s' \<Longrightarrow> t \<noteq> PMM_MAP_TYPE_FREE \<Longrightarrow> frame_free s' f \<Longrightarrow> frame_free s f"
  by (auto simp: took_def frame_free_def split: if_splits)

lemma alloc_kept:
  assumes ok: "tables_ok fmt n root st" and took: "took (vm_pmm st) (unat p) (4096 * j) t s"
    and t: "t \<noteq> PMM_MAP_TYPE_FREE"
  defines "st' \<equiv> st\<lparr>vm_pmm := s\<rparr>"
  shows "tables_ok fmt n root st'" and "translate fmt st' n root va = translate fmt st n root va"
    and "kept fmt n root st a \<Longrightarrow> kept fmt n root st' a" and "same_config st st'"
    and "tframes fmt (view st') n root = tframes fmt (view st) n root"
proof -
  show "same_config st st'" "tframes fmt (view st') n root = tframes fmt (view st) n root"
    "translate fmt st' n root va = translate fmt st n root va"
    by (simp_all add: st'_def translate_def)
  show "tables_ok fmt n root st'" "kept fmt n root st a \<Longrightarrow> kept fmt n root st' a"
    using ok took_frame_free [OF took t] by (auto simp: st'_def tables_ok_def kept_def)
qed

lemma unat_page_of:
  assumes "unat (a - h) = x" shows "unat (page_of h a) = x div 4096 * 4096"
  using unat_clear_low [of "a - h" 12] assms by (simp add: page_of_def mask_eq_exp_minus_1)

lemma new_page_free:
  assumes al: "4096 dvd unat p" and fit: "fits_at s (unat p) (4096 * j)" and wf: "wf_map (live s)"
    and a: "unat p \<le> unat (a - h)" "unat (a - h) < unat p + 4096 * j"
  shows "frame_free s (page_of h a)" and "unat p \<le> unat (page_of h a)"
    and "unat (page_of h a) < unat p + 4096 * j"
proof -
  obtain q where q: "unat p = 4096 * q"
    using al by (auto simp: dvd_def)
  have f: "unat (page_of h a) = unat (a - h) div 4096 * 4096"
    by (rule unat_page_of) simp
  show "unat p \<le> unat (page_of h a)" "unat (page_of h a) < unat p + 4096 * j"
    using a unfolding f q by (auto simp: less_mult_imp_div_less div_le_mono algebra_simps
        intro: le_less_trans [OF div_times_less_eq_dividend])
  then show "frame_free s (page_of h a)"
    using fits_at_free [OF wf fit] by (simp add: frame_free_def)
qed

lemma alloc_new_kept:
  assumes ok: "tables_ok fmt n root st" and took: "took (vm_pmm st) (unat p) (4096 * j) t s"
    and t: "t \<noteq> PMM_MAP_TYPE_FREE" and al: "4096 dvd unat p" and fit: "fits_at (vm_pmm st) (unat p) (4096 * j)"
    and wf: "wf_map (live (vm_pmm st))"
    and a: "unat p \<le> unat (a - hhdm_offset st)" "unat (a - hhdm_offset st) < unat p + 4096 * j"
  shows "kept fmt n root (st\<lparr>vm_pmm := s\<rparr>) a"
proof -
  note page = new_page_free [OF al fit wf a]
  have "\<not> frame_free s (page_of (hhdm_offset st) a)"
    using took t page(2,3) by (auto simp: took_def frame_free_def)
  then show ?thesis
    using ok page(1) by (auto simp: kept_def tables_ok_def)
qed

section \<open>The contract of ptm_map\<close>

lemma spare_can_alloc: "spare k k s \<Longrightarrow> can_alloc (pmm_alloc 1) k s"
proof (induction k arbitrary: s)
  case (Suc k)
  obtain a s' where "pmm_alloc 1 s = ok (a, s')" "spare k k s'"
    by (rule spare_alloc_ext [OF Suc.prems, of 1 PMM_MAP_TYPE_ALLOCATED]) (auto simp: pmm_alloc_def)
  then show ?case
    using Suc.IH by simp
qed simp

lemma spare_budget: "spare r p s \<Longrightarrow> k \<le> r \<Longrightarrow> k \<le> p \<Longrightarrow> frame_budget k s"
  using spare_can_alloc [OF spare_mono [of r p s k k]]
  using slots_room [of s r] by (auto simp: frame_budget_def frames_inv_def spare_def pmm_room_def)

locale address_space =
  fixes map_region :: "u64 \<Rightarrow> u64 \<Rightarrow> u64 \<Rightarrow> u8 \<Rightarrow> 'a vm_state_scheme \<Rightarrow> 'a vm_state_scheme res"
    and fmt :: pt_format and n :: nat and root :: u64
    and cfg :: "'a vm_state_scheme \<Rightarrow> bool"
    and flags_ok :: "u8 \<Rightarrow> bool" and perms :: "u8 \<Rightarrow> bool \<times> bool \<times> bool"
  assumes levels: "2 \<le> n" "n \<le> 5"
    and cfg: "cfg st \<Longrightarrow> same_config st st' \<Longrightarrow> cfg st'"
    and map_page: "cfg st \<Longrightarrow> flags_ok flags \<Longrightarrow> tables_ok fmt n root st \<Longrightarrow>
      4096 dvd unat v \<Longrightarrow> 4096 dvd unat p \<Longrightarrow> canonical n v \<Longrightarrow> unat p < 2 ^ 51 \<Longrightarrow>
      translate fmt st n root v = None \<Longrightarrow> frame_budget (missing fmt (view st) v n root) (vm_pmm st) \<Longrightarrow>
      \<exists>st'. map_region v p PTM_PAGE_GRANULARITY flags st = ok st' \<and>
        region_mapped fmt n root (perms flags) v p 4096 st st' \<and> page_cost fmt n root v PTM_PAGE_GRANULARITY st st'"
    and map_region: "cfg st \<Longrightarrow> flags_ok flags \<Longrightarrow> tables_ok fmt n root st \<Longrightarrow>
      4096 dvd unat v \<Longrightarrow> 4096 dvd unat p \<Longrightarrow> 4096 dvd unat len \<Longrightarrow>
      region_canonical n v (unat len) \<Longrightarrow> unat p + unat len \<le> 2 ^ 51 \<Longrightarrow>
      unmapped fmt n root v (unat len) st \<Longrightarrow>
      frame_budget (region_tables n (unat v mod 2 ^ 21 = unat p mod 2 ^ 21) (unat len)) (vm_pmm st) \<Longrightarrow>
      \<exists>st'. map_region v p len flags st = ok st' \<and>
        region_mapped fmt n root (perms flags) v p (unat len) st st' \<and>
        frames_taken (region_tables n (unat v mod 2 ^ 21 = unat p mod 2 ^ 21) (unat len)) (vm_pmm st) (vm_pmm st')"
begin

text \<open>Mapping a page uses up the tables its path lacks: what the pages after it need is what was there for them.\<close>

lemma map_spare_page:
  assumes "cfg st" and "flags_ok flags" and "tables_ok fmt n root st" and "4096 dvd unat v" and "4096 dvd unat p"
    and "canonical n v" and "unat p < 2 ^ 51" and "translate fmt st n root v = None"
    and "spare (r + path_need fmt n (view st) root v (Suc k)) (q + path_need fmt n (view st) root v (Suc k)) (vm_pmm st)"
  obtains st' where "map_region v p PTM_PAGE_GRANULARITY flags st = ok st'"
    and "region_mapped fmt n root (perms flags) v p 4096 st st'"
    and "spare (r + path_need fmt n (view st') root (v + 4096) k) (q + path_need fmt n (view st') root (v + 4096) k) (vm_pmm st')"
    and "cfg st'" and "only_taken (vm_pmm st) (vm_pmm st')"
proof -
  let ?m = "missing fmt (view st) v n root" and ?c = "charge_sum n False (unat v) (Suc k)"
  have sp: "spare (r + ?c + ?m) (q + ?c + ?m) (vm_pmm st)"
    using assms(9) by (simp add: path_need_def ac_simps)
  have "frame_budget ?m (vm_pmm st)"
    by (rule spare_budget [OF sp]) simp_all
  then obtain st' where st': "map_region v p PTM_PAGE_GRANULARITY flags st = ok st'"
    "region_mapped fmt n root (perms flags) v p 4096 st st'" "page_cost fmt n root v PTM_PAGE_GRANULARITY st st'"
    using map_page [OF assms(1-8)] by blast
  have cost: "frames_taken ?m (vm_pmm st) (vm_pmm st')"
    "missing fmt (view st') (v + 4096) n root \<le> 0 + carries n (unat (v + 4096))"
    using st'(3) by (simp_all add: page_cost_def page_level_def page_size_defs)
  have "spare (r + ?c) (q + ?c) (vm_pmm st')"
    by (rule spare_frames_taken [OF cost(1) sp])
  then have "spare (r + path_need fmt n (view st') root (v + 4096) k) (q + path_need fmt n (view st') root (v + 4096) k) (vm_pmm st')"
    by (rule spare_mono) (use path_need_charge [OF cost(2) levels(2), of k] in simp_all)
  moreover have "cfg st'"
    using cfg [OF assms(1)] st'(2) by (simp add: region_mapped_def)
  ultimately show thesis
    using st'(1,2) frames_only_taken [OF cost(1) sp] by (intro that)
qed

text \<open>Mapping a region uses up what its tables need and no more.\<close>

lemma map_spare_tables:
  assumes "cfg st" and "flags_ok flags" and "tables_ok fmt n root st"
    and "4096 dvd unat v" and "4096 dvd unat p" and "4096 dvd unat len"
    and "region_canonical n v (unat len)" and "unat p + unat len \<le> 2 ^ 51"
    and "unmapped fmt n root v (unat len) st"
    and "t = region_tables n (unat v mod 2 ^ 21 = unat p mod 2 ^ 21) (unat len)"
    and "spare (r + t) (q + t) (vm_pmm st)"
  obtains st' where "map_region v p len flags st = ok st'"
    and "region_mapped fmt n root (perms flags) v p (unat len) st st'"
    and "spare r q (vm_pmm st')" and "cfg st'"
proof -
  have "frame_budget t (vm_pmm st)"
    by (rule spare_budget [OF assms(11)]) simp_all
  then obtain st' where st': "map_region v p len flags st = ok st'"
    "region_mapped fmt n root (perms flags) v p (unat len) st st'"
    "frames_taken t (vm_pmm st) (vm_pmm st')"
    using map_region [OF assms(1-9)] unfolding assms(10) by blast
  moreover have "cfg st'"
    using cfg [OF assms(1)] st'(2) by (simp add: region_mapped_def)
  ultimately show thesis
    using spare_frames_taken [OF st'(3) assms(11)] by (intro that)
qed

lemma map_spare:
  assumes "cfg st" and "flags_ok flags" and "tables_ok fmt n root st"
    and "4096 dvd unat v" and "4096 dvd unat p" and "4096 dvd unat len"
    and "region_canonical n v (unat len)" and "unat p + unat len \<le> 2 ^ 51"
    and "unmapped fmt n root v (unat len) st"
    and "spare (r + unat len div 4096 * (n - 1)) (q + unat len div 4096 * (n - 1)) (vm_pmm st)"
  obtains st' where "map_region v p len flags st = ok st'"
    and "region_mapped fmt n root (perms flags) v p (unat len) st st'"
    and "spare r q (vm_pmm st')" and "cfg st'"
proof -
  let ?t = "region_tables n (unat v mod 2 ^ 21 = unat p mod 2 ^ 21) (unat len)"
  have "spare (r + ?t) (q + ?t) (vm_pmm st)"
    by (rule spare_mono [OF assms(10)]) (use region_tables_coarse in simp_all)
  with map_spare_tables [OF assms(1-9) refl] that show thesis
    by blast
qed

end

end
