(* ===== verification/PtmX86Space.thy ===== *)
theory PtmX86Space
  imports AddressSpace PtmX86Hhdm
begin

text \<open>\<open>ptm_map\<close> on x86-64 keeps the contract \<open>address_space\<close>, for any flags.\<close>

definition x86_perms :: "bool \<Rightarrow> u8 \<Rightarrow> bool \<times> bool \<times> bool" where
  "x86_perms nx flags = (True, flags AND PTM_FLAG_WRITE \<noteq> 0, \<not> (nx \<and> flags AND PTM_FLAG_EXEC = 0))"

definition x86_cfg :: "u64 \<Rightarrow> bool \<Rightarrow> bool \<Rightarrow> bool \<Rightarrow> x86_state \<Rightarrow> bool" where
  "x86_cfg root la57 nx gb st \<longleftrightarrow> g_ptm st = \<lparr>tplt = root, level_count = levels_of la57\<rparr> \<and>
     g_x86_64_cpu_nx_support st = nx \<and> g_x86_64_cpu_pdpe1gb_support st = gb"

interpretation xs: address_space ptm_map x86_fmt "levels_of la57" root "x86_cfg root la57 nx gb"
    "\<lambda>_. True" "x86_perms nx"
  for root la57 nx gb
proof (unfold_locales, goal_cases)
  case (3 st st')
  then show ?case
    by (cases st; cases st') (simp add: same_config_def x86_cfg_def)
next
  case (4 st flags v p)
  have g: "g_ptm st = \<lparr>tplt = root, level_count = levels_of la57\<rparr>" "g_x86_64_cpu_nx_support st = nx"
    "g_x86_64_cpu_pdpe1gb_support st = gb"
    using 4(1) by (simp_all add: x86_cfg_def)
  show ?case
    using ptm_map_loop_page [OF _ 4(3-8), of PTM_PAGE_GRANULARITY flags] 4(4,5,9) g
    by (auto simp: ptm_map_def mod_4096_dvd x86_perms_def)
next
  case (5 st flags v p len)
  have n: "levels_of la57 = 4 \<or> levels_of la57 = 5"
    by (simp add: levels_of_def)
  have g: "g_ptm st = \<lparr>tplt = root, level_count = levels_of la57\<rparr>" "g_x86_64_cpu_nx_support st = nx"
    using 5(1) by (simp_all add: x86_cfg_def)
  show ?case
    using ptm_map_loop_region [OF _ _ 5(6) _ 5(4,5) n 5(3), of "unat len" 0 0 flags] 5(4-10) g
    by (auto simp: ptm_map_def mod_4096_dvd x86_perms_def)
qed (simp_all add: levels_of_def)

end
