(* ===== verification/PtmRiscv.thy ===== *)
theory PtmRiscv
  imports PageSpan
begin

text \<open>
  The RISC-V page tables of \<open>pre_kernel/src/arch/riscv64/ptm.c\<close> (Sv39, Sv48 and Sv57). The
  level counts that ACPI and the device tree report are arguments of \<open>ptm_init\<close>; the second is
  only asked for when the first is 0. The static \<open>g_level_count\<close> extends the state.
\<close>

section \<open>Constants\<close>

definition PTE_V :: u64 where "PTE_V = 1"
definition PTE_R :: u64 where "PTE_R = 2"
definition PTE_W :: u64 where "PTE_W = 4"
definition PTE_X :: u64 where "PTE_X = 8"

definition PTE_PPN_SHIFT :: nat where "PTE_PPN_SHIFT = 10"
definition PTE_PPN_MASK :: u64 where "PTE_PPN_MASK = push_bit 44 1 - 1"

definition PA_TO_PPN :: "u64 \<Rightarrow> u64" where "PA_TO_PPN pa = drop_bit 12 pa AND PTE_PPN_MASK"
definition PTE_TO_PA :: "u64 \<Rightarrow> u64" where "PTE_TO_PA pte = push_bit 12 (drop_bit PTE_PPN_SHIFT pte)"

definition VADDR_VPN :: "u64 \<Rightarrow> nat \<Rightarrow> nat" where
  "VADDR_VPN vaddr level = unat (drop_bit (12 + 9 * (level - 1)) vaddr AND 0x1FF)"

definition PAGE_SIZE_AT_LEVEL :: "nat \<Rightarrow> u64" where
  "PAGE_SIZE_AT_LEVEL level = push_bit (9 * (level - 1)) PTM_PAGE_SIZE_4K"

definition RV_PTM_FLAG_EXEC :: u8 where "RV_PTM_FLAG_EXEC = 1"
definition RV_PTM_FLAG_WRITE :: u8 where "RV_PTM_FLAG_WRITE = 2"
definition RV_PTM_FLAG_READ :: u8 where "RV_PTM_FLAG_READ = 4"

record riscv_state = vm_state +
  g_level_count :: nat

section \<open>Initialisation\<close>

definition detect_max_level_count :: "nat res \<Rightarrow> nat res \<Rightarrow> nat res" where
  "detect_max_level_count acpi_levels dtb_levels =
     res_bind acpi_levels
       (\<lambda>acpi. if acpi \<noteq> 0 then ok acpi
               else res_bind dtb_levels
                 (\<lambda>dtb. if dtb = 0 then fail (Panic ''ptm: failed to detect supported paging modes'')
                        else ok dtb))"

definition rv_ptm_init :: "nat res \<Rightarrow> nat res \<Rightarrow> riscv_state \<Rightarrow> riscv_state res" where
  "rv_ptm_init acpi_levels dtb_levels st =
     res_bind (detect_max_level_count acpi_levels dtb_levels)
       (\<lambda>levels. res_bind (vm_alloc 1 (st\<lparr>g_level_count := levels\<rparr>))
          (\<lambda>(root, st). ok ((clear_table root st)\<lparr>g_ptm := \<lparr>tplt = root, level_count = levels\<rparr>\<rparr>)))"

section \<open>map_page\<close>

definition leaf_flags :: "u8 \<Rightarrow> u64" where
  "leaf_flags flags =
     (let f = PTE_V;
          f = (if flags AND RV_PTM_FLAG_READ \<noteq> 0 then f OR PTE_R else f);
          f = (if flags AND RV_PTM_FLAG_WRITE \<noteq> 0 then f OR PTE_W else f)
      in if flags AND RV_PTM_FLAG_EXEC \<noteq> 0 then f OR PTE_X else f)"

text \<open>The loop ends with the table the leaf goes into.\<close>

fun rv_map_walk :: "nat \<Rightarrow> nat \<Rightarrow> u64 \<Rightarrow> u64 \<Rightarrow> riscv_state \<Rightarrow> (u64 \<times> riscv_state) res" where
  "rv_map_walk level target_level table vaddr st =
     (if level > target_level then
        (let idx = VADDR_VPN vaddr level;
             entry = read_table st table idx
         in if entry AND PTE_V = 0 then
              res_bind (vm_alloc 1 st)
                (\<lambda>(child_phys, st).
                   let st = clear_table child_phys st;
                       entry = push_bit PTE_PPN_SHIFT (PA_TO_PPN child_phys) OR PTE_V;
                       st = write_table table idx entry st
                   in rv_map_walk (level - 1) target_level (PTE_TO_PA entry + hhdm_offset st) vaddr st)
            else if entry AND (PTE_R OR PTE_W OR PTE_X) \<noteq> 0 then
              fail (Panic ''ptm: walked into existing leaf PTE at level %d (vaddr=0x%lx)'')
            else rv_map_walk (level - 1) target_level (PTE_TO_PA entry + hhdm_offset st) vaddr st)
      else ok (table, st))"

declare rv_map_walk.simps [simp del]

definition rv_map_page ::
  "u64 \<Rightarrow> nat \<Rightarrow> u64 \<Rightarrow> u64 \<Rightarrow> nat \<Rightarrow> u8 \<Rightarrow> riscv_state \<Rightarrow> riscv_state res" where
  "rv_map_page root_pa total_levels vaddr paddr target_level flags st =
     (if target_level < 1 \<or> target_level > total_levels then
        fail (Panic ''ptm: invalid target_level %d (total=%zu)'')
      else res_bind (rv_map_walk total_levels target_level (root_pa + hhdm_offset st) vaddr st)
             (\<lambda>(table, st).
                ok (write_table table (VADDR_VPN vaddr target_level)
                      (push_bit PTE_PPN_SHIFT (PA_TO_PPN paddr) OR leaf_flags flags) st)))"

section \<open>Mapping a region\<close>

fun choose_level_loop :: "nat \<Rightarrow> u64 \<Rightarrow> u64 \<Rightarrow> u64 \<Rightarrow> nat" where
  "choose_level_loop level vaddr paddr remain =
     (if level > 1 then
        (if vaddr mod PAGE_SIZE_AT_LEVEL level = 0 \<and> paddr mod PAGE_SIZE_AT_LEVEL level = 0 \<and>
            remain \<ge> PAGE_SIZE_AT_LEVEL level then level
         else choose_level_loop (level - 1) vaddr paddr remain)
      else 1)"

declare choose_level_loop.simps [simp del]

definition choose_target_level :: "u64 \<Rightarrow> u64 \<Rightarrow> u64 \<Rightarrow> nat \<Rightarrow> nat" where
  "choose_target_level vaddr paddr remain max_levels =
     choose_level_loop (if max_levels < 3 then max_levels else 3) vaddr paddr remain"

partial_function (option) rv_map_loop ::
  "u64 \<Rightarrow> nat \<Rightarrow> u64 \<Rightarrow> u64 \<Rightarrow> u64 \<Rightarrow> u64 \<Rightarrow> u8 \<Rightarrow> riscv_state \<Rightarrow> riscv_state res" where
  "rv_map_loop root_pa levels offset vaddr paddr len flags st =
     (if offset < len then
        (let tl = choose_target_level vaddr paddr (len - offset) levels;
             pgsz = PAGE_SIZE_AT_LEVEL tl
         in res_bind (rv_map_page root_pa levels vaddr paddr tl flags st)
              (\<lambda>st. rv_map_loop root_pa levels (offset + pgsz) (vaddr + pgsz) (paddr + pgsz) len flags st))
      else ok st)"

declare rv_map_loop.simps [code]

definition rv_ptm_map_at ::
  "u64 \<Rightarrow> nat \<Rightarrow> u64 \<Rightarrow> u64 \<Rightarrow> u64 \<Rightarrow> u8 \<Rightarrow> riscv_state \<Rightarrow> riscv_state res" where
  "rv_ptm_map_at root_pa levels vaddr paddr len flags st =
     (if paddr mod PTM_PAGE_GRANULARITY \<noteq> 0 \<or> vaddr mod PTM_PAGE_GRANULARITY \<noteq> 0 \<or>
         len mod PTM_PAGE_GRANULARITY \<noteq> 0
      then fail (Panic ''ptm_map_at: unaligned (vaddr=0x%lx paddr=0x%lx len=0x%lx)'')
      else rv_map_loop root_pa levels 0 vaddr paddr len flags st)"

definition rv_ptm_map :: "u64 \<Rightarrow> u64 \<Rightarrow> u64 \<Rightarrow> u8 \<Rightarrow> riscv_state \<Rightarrow> riscv_state res" where
  "rv_ptm_map vaddr paddr len flags st =
     (if paddr mod PTM_PAGE_GRANULARITY \<noteq> 0 \<or> vaddr mod PTM_PAGE_GRANULARITY \<noteq> 0 \<or>
         len mod PTM_PAGE_GRANULARITY \<noteq> 0
      then fail (Panic ''ptm_map: unaligned (vaddr=0x%lx paddr=0x%lx len=0x%lx)'')
      else rv_map_loop (tplt (g_ptm st)) (g_level_count st) 0 vaddr paddr len flags st)"

section \<open>The direct map\<close>

definition rv_page_extent :: "u64 \<Rightarrow> u64 \<Rightarrow> u64 \<times> u64" where
  "rv_page_extent base len =
     (let (base, len) = (if base mod PTM_PAGE_GRANULARITY \<noteq> 0
                         then (base - base mod PTM_PAGE_GRANULARITY, len + base mod PTM_PAGE_GRANULARITY)
                         else (base, len))
      in if len mod PTM_PAGE_GRANULARITY \<noteq> 0
         then (base, len + (PTM_PAGE_GRANULARITY - len mod PTM_PAGE_GRANULARITY)) else (base, len))"

fun rv_hhdm_loop :: "pmm_map_entry list \<Rightarrow> riscv_state \<Rightarrow> riscv_state res" where
  "rv_hhdm_loop [] st = ok st"
| "rv_hhdm_loop (e # es) st =
     (if me_type e = PMM_MAP_TYPE_BAD then rv_hhdm_loop es st
      else (let (base, len) = rv_page_extent (me_base e) (me_length e)
            in res_bind (rv_ptm_map (hhdm_offset st + base) base len
                           (RV_PTM_FLAG_READ OR RV_PTM_FLAG_WRITE) st)
                 (\<lambda>st. rv_hhdm_loop es st)))"

definition rv_ptm_create_hhdm_mappings :: "riscv_state \<Rightarrow> riscv_state res" where
  "rv_ptm_create_hhdm_mappings st =
     res_bind (pmm_create_snapshot (vm_pmm st))
       (\<lambda>(snapshot, s).
          res_bind (rv_hhdm_loop (snap_entries snapshot) (st\<lparr>vm_pmm := s\<rparr>))
            (\<lambda>st. res_bind (pmm_free_snapshot snapshot (vm_pmm st))
                    (\<lambda>s. ok (st\<lparr>vm_pmm := s\<rparr>))))"

end
