(* ===== verification/PtmRiscvWalk.thy ===== *)
theory PtmRiscvWalk
  imports PtmRiscv RegionMap
begin

text \<open>
  The RISC-V entries as a page table format (the privileged specification's Sv39, Sv48 and Sv57)
  and a writer, with the interpretations of \<open>page_walker\<close> and \<open>region_mapper\<close>. A leaf must be
  readable or executable, and writable only if readable: entries with other flags are pointers
  or reserved, so the permissions are those of \<open>leaf_perm\<close>.
\<close>

section \<open>The hardware's reading of an entry\<close>

definition ppn_base :: "nat \<Rightarrow> u64 \<Rightarrow> u64" where
  "ppn_base l e = push_bit 12 (take_bit 44 (drop_bit 10 e)) AND NOT (mask (9 * l + 3))"

definition riscv_fmt :: pt_format where
  "riscv_fmt = \<lparr>
     is_valid = (\<lambda>e. bit e 0),
     is_table = (\<lambda>l e. bit e 0 \<and> \<not> bit e 1 \<and> \<not> bit e 2 \<and> \<not> bit e 3 \<and> 2 \<le> l \<and> drop_bit 54 e = 0),
     is_leaf = (\<lambda>l e. bit e 0 \<and> (bit e 1 \<or> bit e 3) \<and> (bit e 2 \<longrightarrow> bit e 1) \<and>
                  ppn_base l e = ppn_base 1 e),
     pt_addr = ppn_base 1,
     leaf_of = (\<lambda>l e. \<lparr>x_base = ppn_base l e, x_level = l, x_read = bit e 1, x_write = bit e 2,
                      x_exec = bit e 3\<rparr>),
     narrow = (\<lambda>e x. x)\<rparr>"

datatype leaf_perm = PERM_R | PERM_RW | PERM_X | PERM_RX | PERM_RWX

primrec perm_flags :: "leaf_perm \<Rightarrow> u8" where
  "perm_flags PERM_R = RV_PTM_FLAG_READ"
| "perm_flags PERM_RW = RV_PTM_FLAG_READ OR RV_PTM_FLAG_WRITE"
| "perm_flags PERM_X = RV_PTM_FLAG_EXEC"
| "perm_flags PERM_RX = RV_PTM_FLAG_READ OR RV_PTM_FLAG_EXEC"
| "perm_flags PERM_RWX = RV_PTM_FLAG_READ OR RV_PTM_FLAG_WRITE OR RV_PTM_FLAG_EXEC"

primrec perm_bits :: "leaf_perm \<Rightarrow> bool \<times> bool \<times> bool" where
  "perm_bits PERM_R = (True, False, False)"
| "perm_bits PERM_RW = (True, True, False)"
| "perm_bits PERM_X = (False, False, True)"
| "perm_bits PERM_RX = (True, False, True)"
| "perm_bits PERM_RWX = (True, True, True)"

section \<open>What map_page writes\<close>

definition rv_new_entry :: "u64 \<Rightarrow> u64" where
  "rv_new_entry a = push_bit PTE_PPN_SHIFT (PA_TO_PPN a) OR PTE_V"

definition rv_leaf :: "u64 \<Rightarrow> u8 \<Rightarrow> u64" where
  "rv_leaf paddr flags = push_bit PTE_PPN_SHIFT (PA_TO_PPN paddr) OR leaf_flags flags"

text \<open>The writer for a page of level \<open>Suc lv\<close>; the page's address is rounded down to its size.\<close>

definition riscv_writer :: "u64 \<Rightarrow> nat \<Rightarrow> leaf_perm \<Rightarrow> pt_writer" where
  "riscv_writer paddr lv perm = \<lparr>
     w_lowest = Suc lv,
     w_new = rv_new_entry,
     w_upd = (\<lambda>e. e),
     w_addr = PTE_TO_PA,
     w_stop = (\<lambda>e. bit e 1 \<or> bit e 2 \<or> bit e 3),
     w_leaf = rv_leaf (paddr AND NOT (mask (9 * Suc lv + 3))) (perm_flags perm),
     w_fault = Panic ''ptm: walked into existing leaf PTE at level %d (vaddr=0x%lx)''\<rparr>"

section \<open>Bits\<close>

named_theorems pte_bits

lemma ppn_base_bit [pte_bits]:
  "bit (ppn_base l e) i \<longleftrightarrow> 12 \<le> i \<and> i < 56 \<and> 9 * l + 3 \<le> i \<and> bit e (i - 2)"
  by (auto simp: ppn_base_def bit_simps)

lemma pte_flag_exps: "PTE_V = push_bit 0 1" "PTE_R = push_bit 1 1" "PTE_W = push_bit 2 1"
    "PTE_X = push_bit 3 1" "PTE_PPN_MASK = mask 44"
  by (code_simp, code_simp, code_simp, code_simp, simp add: PTE_PPN_MASK_def mask_eq_exp_minus_1)

lemma pte_flag_bits [pte_bits]:
  "bit PTE_V i \<longleftrightarrow> i = 0" "bit PTE_R i \<longleftrightarrow> i = 1" "bit PTE_W i \<longleftrightarrow> i = 2" "bit PTE_X i \<longleftrightarrow> i = 3"
  "bit PTE_PPN_MASK i \<longleftrightarrow> i < 44"
  unfolding pte_flag_exps bit_flag by (auto simp: bit_simps)

lemma pte_test [pte_bits]:
  "e AND PTE_V = 0 \<longleftrightarrow> \<not> bit e 0"
  "e AND (PTE_R OR PTE_W OR PTE_X) = 0 \<longleftrightarrow> \<not> bit e 1 \<and> \<not> bit e 2 \<and> \<not> bit e 3"
proof -
  show "e AND PTE_V = 0 \<longleftrightarrow> \<not> bit e 0"
    unfolding pte_flag_exps by (rule and_push_bit_zero)
  show "e AND (PTE_R OR PTE_W OR PTE_X) = 0 \<longleftrightarrow> \<not> bit e 1 \<and> \<not> bit e 2 \<and> \<not> bit e 3"
    unfolding bit.conj_disj_distrib or_eq_0_iff unfolding pte_flag_exps and_push_bit_zero ..
qed

lemma rv_new_entry_bits [pte_bits]:
  "bit (rv_new_entry a) i \<longleftrightarrow> i = 0 \<or> (10 \<le> i \<and> i < 54 \<and> bit a (i + 2))"
  by (auto simp: rv_new_entry_def PA_TO_PPN_def PTE_PPN_SHIFT_def bit_simps pte_flag_bits)

lemma leaf_flags_bits [pte_bits]:
  "bit (leaf_flags flags) i \<longleftrightarrow> i = 0 \<or> (i = 1 \<and> flags AND RV_PTM_FLAG_READ \<noteq> 0) \<or>
     (i = 2 \<and> flags AND RV_PTM_FLAG_WRITE \<noteq> 0) \<or> (i = 3 \<and> flags AND RV_PTM_FLAG_EXEC \<noteq> 0)"
  by (auto simp: leaf_flags_def Let_def bit_simps pte_flag_bits)

lemma rv_leaf_bits [pte_bits]:
  "bit (rv_leaf p flags) i \<longleftrightarrow> bit (leaf_flags flags) i \<or> (10 \<le> i \<and> i < 54 \<and> bit p (i + 2))"
  by (auto simp: rv_leaf_def PA_TO_PPN_def PTE_PPN_SHIFT_def bit_simps pte_flag_bits)

lemma PTE_TO_PA_bits [pte_bits]: "bit (PTE_TO_PA e) i \<longleftrightarrow> 12 \<le> i \<and> i < 64 \<and> bit e (i - 2)"
  by (auto simp: PTE_TO_PA_def PTE_PPN_SHIFT_def bit_simps)

lemma perm_flags_tests:
  "perm_flags perm AND RV_PTM_FLAG_READ \<noteq> 0 \<longleftrightarrow> fst (perm_bits perm)"
  "perm_flags perm AND RV_PTM_FLAG_WRITE \<noteq> 0 \<longleftrightarrow> fst (snd (perm_bits perm))"
  "perm_flags perm AND RV_PTM_FLAG_EXEC \<noteq> 0 \<longleftrightarrow> snd (snd (perm_bits perm))"
  by (cases perm; simp add: RV_PTM_FLAG_READ_def RV_PTM_FLAG_WRITE_def RV_PTM_FLAG_EXEC_def)+

lemma perm_sane: "fst (perm_bits perm) \<or> snd (snd (perm_bits perm))"
  "fst (snd (perm_bits perm)) \<Longrightarrow> fst (perm_bits perm)"
  by (cases perm; simp)+

lemma Suc_Suc_minus_2: "2 \<le> i \<Longrightarrow> Suc (Suc (i - 2)) = i"
  by simp

lemma aligned_bits: "frame_ok f \<Longrightarrow> bit f i \<Longrightarrow> 12 \<le> i \<and> i < 51"
proof -
  assume f: "frame_ok f" and i: "bit f i"
  have "take_bit 12 f = 0" "take_bit 51 f = f"
    using f by (simp_all add: frame_ok_def page_aligned_def flip: unat_less_pow2_iff)
  then have "\<not> bit f i" if "i < 12"
    using that by (metis bit_0_eq bit_take_bit_iff bot_apply bot_bool_def)
  moreover have "i < 51"
    using \<open>take_bit 51 f = f\<close> i by (metis bit_take_bit_iff)
  ultimately show ?thesis
    using i by (meson not_le)
qed

interpretation rw: page_walker riscv_fmt "riscv_writer paddr lv perm" for paddr lv perm
proof (unfold_locales, goal_cases)
  case (5 a l)
  have "ppn_base 1 (rv_new_entry a) = a"
    by (rule bit_word_eqI) (auto simp: pte_bits Suc_Suc_minus_2 dest: aligned_bits [OF 5])
  moreover have "drop_bit 54 (rv_new_entry a) = 0"
    by (rule bit_word_eqI) (auto simp: bit_simps pte_bits)
  ultimately show ?case
    by (simp add: riscv_fmt_def riscv_writer_def pte_bits)
next
  case (7 l e)
  have "drop_bit 54 e = 0"
    using 7(1) by (simp add: riscv_fmt_def)
  then have "\<not> bit e i" if "54 \<le> i" for i
    using that drop_bit_eq_iff [of 54 e 0] by simp
  then have "bit (PTE_TO_PA e) i \<longleftrightarrow> bit (ppn_base 1 e) i" for i
    by (cases "i < 56") (auto simp: pte_bits)
  then have "PTE_TO_PA e = ppn_base 1 e"
    by (intro bit_word_eqI)
  then show ?case
    by (simp add: riscv_fmt_def riscv_writer_def)
next
  case 11
  have "ppn_base (Suc lv) e = ppn_base 1 e"
    if "e = rv_leaf (paddr AND NOT (mask (9 * Suc lv + 3))) (perm_flags perm)" for e
    unfolding that by (rule bit_word_eqI) (auto simp: bit_simps pte_bits)
  then show ?case
    using perm_sane [of perm]
    by (auto simp: riscv_fmt_def riscv_writer_def pte_bits perm_flags_tests)
qed (use perm_sane [of perm] in
    \<open>auto simp: riscv_fmt_def riscv_writer_def pte_bits perm_flags_tests\<close>)

section \<open>map_page is the common walk\<close>

lemma VADDR_VPN_vindex: "1 \<le> l \<Longrightarrow> VADDR_VPN va l = vindex va l"
proof -
  assume "1 \<le> l"
  then have "12 + 9 * (l - 1) = l * 9 + 3"
    by (cases l) simp_all
  then show ?thesis
    unfolding VADDR_VPN_def vindex_def by (simp only:)
qed

lemma rv_read_table_view: "read_table st (t + hhdm_offset st) i = view st t i"
  by (simp add: read_table_def view_def table_view_def)

lemma write_back_same: "write_entry t i (view st t i) st = st"
  by (simp add: write_entry_def write_table_def view_def table_view_def store64_same)

lemma rv_alloc_hhdm: "vm_alloc n st = ok (a, st') \<Longrightarrow> hhdm_offset st' = hhdm_offset st"
  by (auto simp: vm_alloc_def res_bind_ok_iff)

lemma alloc_cong:
  assumes "\<And>a st'. vm_alloc 1 st = ok (a, st') \<Longrightarrow> f (a, st') = g (a, st')"
  shows "res_bind (vm_alloc 1 st) f = res_bind (vm_alloc 1 st) g"
  using assms by (cases "vm_alloc 1 st") (auto simp: res_bind_def split: sum.split)

lemma rv_map_walk_common:
  "Suc lv \<le> l \<Longrightarrow> paddr AND NOT (mask (9 * Suc lv + 3)) = paddr \<Longrightarrow>
    res_bind (rv_map_walk l (Suc lv) (t + hhdm_offset st) va st)
      (\<lambda>(tbl, st). ok (write_table tbl (VADDR_VPN va (Suc lv)) (rv_leaf paddr (perm_flags perm)) st)) =
    walk_map riscv_fmt (riscv_writer paddr lv perm) va l t st"
proof (induction l arbitrary: t st)
  case (Suc l)
  let ?e = "view st t (vindex va (Suc l))"
  note step = rv_map_walk.simps [of "Suc l" "Suc lv"]
  show ?case
  proof (cases "Suc lv < Suc l")
    case False
    then have "lv = l"
      using Suc.prems by simp
    then show ?thesis
      using Suc.prems(2)
      by (simp add: rv_map_walk.simps riscv_writer_def Let_def write_entry_def VADDR_VPN_vindex)
  next
    case True
    then have level: "Suc lv \<le> l" "\<not> Suc l \<le> Suc lv"
      by simp_all
    note IH = Suc.IH [OF level(1) Suc.prems(2)]
    show ?thesis
    proof (cases "bit ?e 0")
      case False
      then show ?thesis
        using level True IH
        by (auto simp: step Let_def rv_read_table_view VADDR_VPN_vindex pte_bits riscv_fmt_def
            riscv_writer_def res_bind_assoc write_entry_def rv_new_entry_def
            dest!: rv_alloc_hhdm intro!: alloc_cong)
    next
      case valid: True
      show ?thesis
        using valid level True IH write_back_same [of t "vindex va (Suc l)" st]
        by (auto simp: step Let_def rv_read_table_view VADDR_VPN_vindex pte_bits riscv_fmt_def
            riscv_writer_def)
    qed
  qed
qed simp

lemma rv_map_page_common:
  assumes "Suc lv \<le> n" and "paddr AND NOT (mask (9 * Suc lv + 3)) = paddr"
  shows "rv_map_page root n va paddr (Suc lv) (perm_flags perm) st =
    walk_map riscv_fmt (riscv_writer paddr lv perm) va n root st"
  using assms(1) rv_map_walk_common [OF assms, of root st va perm, unfolded rv_leaf_def]
  unfolding rv_map_page_def by simp

end
