(* ===== verification/PtmRiscvProps.thy ===== *)
theory PtmRiscvProps
  imports PtmRiscvWalk
begin

text \<open>
  The properties of the RISC-V page tables: the effect of \<open>map_page\<close> and of \<open>ptm_map_at\<close> on
  every translation in Sv39, Sv48 and Sv57, and what a mapping without permissions does.
\<close>

datatype sv_mode = SV39 | SV48 | SV57

primrec sv_levels :: "sv_mode \<Rightarrow> nat" where
  "sv_levels SV39 = 3"
| "sv_levels SV48 = 4"
| "sv_levels SV57 = 5"

lemma sv_levels_range: "3 \<le> sv_levels sv" "sv_levels sv \<le> 5"
  by (cases sv; simp)+

section \<open>One page\<close>

lemma page_size_at_level: "PAGE_SIZE_AT_LEVEL (Suc lv) = 2 ^ (9 * Suc lv + 3)"
  by (simp add: PAGE_SIZE_AT_LEVEL_def page_size_defs push_bit_eq_mult power_add mult.commute)

lemma unat_page_size_at_level:
  "lv < 3 \<Longrightarrow> unat (PAGE_SIZE_AT_LEVEL (Suc lv)) = 2 ^ (9 * Suc lv + 3)"
  unfolding page_size_at_level by (rule unat_pow2_64) simp

lemma clear_low_same: "take_bit n p = 0 \<Longrightarrow> p AND NOT (mask n) = p" for p :: u64
proof (rule bit_word_eqI)
  fix i assume "take_bit n p = 0"
  then have "\<not> bit (take_bit n p) i"
    by simp
  then show "bit (p AND NOT (mask n)) i \<longleftrightarrow> bit p i"
    by (auto simp: bit_simps dest: bit_imp_le_length)
qed

lemma rv_leaf_base:
  assumes "take_bit (9 * Suc lv + 3) p = 0" and "unat p < 2 ^ 51"
  shows "ppn_base (Suc lv) (rv_leaf p flags) = p"
proof (rule bit_word_eqI)
  fix i
  have "take_bit 51 p = p"
    using assms(2) by (simp flip: unat_less_pow2_iff)
  then have "bit p i \<Longrightarrow> 9 * Suc lv + 3 \<le> i \<and> i < 51"
    using assms(1) by (metis bit_0_eq bit_take_bit_iff bot_apply bot_bool_def not_le)
  then show "bit (ppn_base (Suc lv) (rv_leaf p flags)) i \<longleftrightarrow> bit p i"
    by (cases "12 \<le> i") (auto simp: pte_bits Suc_Suc_minus_2)
qed

lemma rv_map_page_region:
  assumes ok: "tables_ok riscv_fmt n root st" and n: "Suc lv \<le> n" "n \<le> 5" and can: "canonical n vaddr"
    and al: "take_bit (9 * Suc lv + 3) vaddr = 0" "take_bit (9 * Suc lv + 3) paddr = 0"
    and low: "unat paddr < 2 ^ 51" and lv: "lv < 3"
    and budget: "frame_budget (missing riscv_fmt (view st) vaddr n root - lv + k) (vm_pmm st)"
  shows "if \<exists>x. mmu riscv_fmt (view st) n root vaddr = Some x \<and> Suc lv < x_level x
    then rv_map_page root n vaddr paddr (Suc lv) (perm_flags perm) st =
      fail (Panic ''ptm: walked into existing leaf PTE at level %d (vaddr=0x%lx)'')
    else \<exists>st'. rv_map_page root n vaddr paddr (Suc lv) (perm_flags perm) st = ok st' \<and>
      region_mapped riscv_fmt n root (perm_bits perm) vaddr paddr (2 ^ (9 * Suc lv + 3)) st st' \<and>
      frame_budget k (vm_pmm st') \<and> page_cost riscv_fmt n root vaddr (PAGE_SIZE_AT_LEVEL (Suc lv)) st st'"
proof -
  let ?w = "riscv_writer paddr lv perm"
  let ?x = "leaf_of riscv_fmt (w_lowest ?w) (w_leaf ?w)"
  note same = clear_low_same [OF al(2)]
  have wl: "w_lowest ?w = Suc lv"
    "w_fault ?w = Panic ''ptm: walked into existing leaf PTE at level %d (vaddr=0x%lx)''"
    by (simp_all add: riscv_writer_def)
  have x: "?x = \<lparr>x_base = paddr, x_level = Suc lv, x_read = fst (perm_bits perm),
      x_write = fst (snd (perm_bits perm)), x_exec = snd (snd (perm_bits perm))\<rparr>"
    using rv_leaf_base [OF al(2) low, of "perm_flags perm"]
    by (simp add: riscv_fmt_def riscv_writer_def same pte_bits perm_flags_tests del: mult_Suc_right)
  have tree: "tree_ok riscv_fmt (view st) n root"
    using ok by (simp add: tables_ok_def)
  have region: "region_mapped riscv_fmt n root (perm_bits perm) vaddr paddr (2 ^ (9 * Suc lv + 3)) st st'"
    "page_cost riscv_fmt n root vaddr (PAGE_SIZE_AT_LEVEL (Suc lv)) st st'"
    if "page_mapped riscv_fmt (Suc lv) ?x vaddr n root st st'" for st'
    using page_region [OF that _ n can al(1), of paddr]
      page_mapped_cost [OF that _ n _ al(1), of "PAGE_SIZE_AT_LEVEL (Suc lv)"] lv unat_page_size_at_level [OF lv]
    by (simp_all add: x del: mult_Suc_right)
  have budget': "frames_inv (missing riscv_fmt (view st) vaddr n root - (w_lowest ?w - 1) + k) (vm_pmm st)"
    "can_alloc (pmm_alloc 1) (missing riscv_fmt (view st) vaddr n root - (w_lowest ?w - 1) + k) (vm_pmm st)"
    using budget by (simp_all add: frame_budget_def wl)
  have low: "w_lowest ?w \<le> n"
    using n wl by simp
  note walk = rw.walk_map_effect [OF ok low budget', unfolded wl]
    and block = rw.blocked_iff [OF tree, of "Suc lv" vaddr]
  show ?thesis
  proof (cases "blocked riscv_fmt (Suc lv) (view st) vaddr n root")
    case True
    then show ?thesis
      using walk block by (simp add: rv_map_page_common [OF n(1) same])
  next
    case False
    then obtain st' where "walk_map riscv_fmt ?w vaddr n root st = ok st'"
      "page_mapped riscv_fmt (Suc lv) ?x vaddr n root st st'" "frame_budget k (vm_pmm st')"
      using walk by (auto simp: frame_budget_def wl)
    then show ?thesis
      using region False block by (auto simp: rv_map_page_common [OF n(1) same])
  qed
qed

section \<open>The levels of a region\<close>

lemma choose_target_level_cases:
  assumes "3 \<le> n"
  shows "choose_target_level v p rem n =
    (if v mod PAGE_SIZE_AT_LEVEL 3 = 0 \<and> p mod PAGE_SIZE_AT_LEVEL 3 = 0 \<and> rem \<ge> PAGE_SIZE_AT_LEVEL 3
     then 3
     else if v mod PAGE_SIZE_AT_LEVEL 2 = 0 \<and> p mod PAGE_SIZE_AT_LEVEL 2 = 0 \<and>
       rem \<ge> PAGE_SIZE_AT_LEVEL 2 then 2 else 1)"
  using assms unfolding choose_target_level_def
  by (simp add: choose_level_loop.simps [of 3] choose_level_loop.simps [of 2]
      choose_level_loop.simps [of "Suc 0"])

lemma level_sizes:
  "PAGE_SIZE_AT_LEVEL (Suc 0) = 0x1000" "PAGE_SIZE_AT_LEVEL 2 = 0x200000" "PAGE_SIZE_AT_LEVEL 3 = 0x40000000"
  by (simp_all add: PAGE_SIZE_AT_LEVEL_def page_size_defs)

lemma choose_level_fits:
  assumes "3 \<le> n" and "4096 dvd unat rem" and "rem \<noteq> 0" and "4096 dvd unat v" and "4096 dvd unat p"
  obtains lv where "choose_target_level v p rem n = Suc lv" and "lv < 3"
    and "take_bit (9 * Suc lv + 3) v = 0" and "take_bit (9 * Suc lv + 3) p = 0"
    and "PAGE_SIZE_AT_LEVEL (Suc lv) \<le> rem"
proof -
  have "4096 \<le> unat rem"
    using assms(2,3) by (auto simp: dvd_imp_le unat_gt_0)
  then have rem: "PAGE_SIZE_AT_LEVEL 1 \<le> rem"
    by (simp add: level_sizes word_le_nat_alt)
  have al: "take_bit (9 * Suc lv + 3) a = 0 \<longleftrightarrow> a mod PAGE_SIZE_AT_LEVEL (Suc lv) = 0" for a lv
    by (simp only: page_size_at_level take_bit_eq_mod)
  have page: "a mod PAGE_SIZE_AT_LEVEL 1 = 0" if "4096 dvd unat a" for a
    using that mod_4096_dvd [of a] by (simp add: level_sizes page_size_defs)
  let ?c = "choose_target_level v p rem n"
  have c: "?c = 1 \<or> ?c = 2 \<or> ?c = 3" "v mod PAGE_SIZE_AT_LEVEL ?c = 0"
    "p mod PAGE_SIZE_AT_LEVEL ?c = 0" "PAGE_SIZE_AT_LEVEL ?c \<le> rem"
    using rem page [OF assms(4)] page [OF assms(5)] by (simp_all add: choose_target_level_cases [OF assms(1)])
  then have "?c = Suc (?c - 1)" "?c - 1 < 3"
    by auto
  then show thesis
    using c(2-4) al by (metis that)
qed

definition level_of_size :: "u64 \<Rightarrow> nat" where
  "level_of_size sz = (if sz = PAGE_SIZE_AT_LEVEL 3 then 3 else if sz = PAGE_SIZE_AT_LEVEL 2 then 2 else 1)"

lemma level_of_size: "lv < 3 \<Longrightarrow> level_of_size (PAGE_SIZE_AT_LEVEL (Suc lv)) = Suc lv"
  by (auto simp: level_of_size_def less_Suc_eq numeral_3_eq_3 PAGE_SIZE_AT_LEVEL_def page_size_defs)

interpretation rvm: region_mapper
    "\<lambda>offset v p len. rv_map_loop root (sv_levels sv) offset v p len (perm_flags perm)"
    "\<lambda>v p rem. PAGE_SIZE_AT_LEVEL (choose_target_level v p rem (sv_levels sv))"
    "\<lambda>v p sz. rv_map_page root (sv_levels sv) v p (level_of_size sz) (perm_flags perm)"
    riscv_fmt "sv_levels sv" root "perm_bits perm" "\<lambda>_. True"
  for root sv perm
proof (unfold_locales, goal_cases)
  case (3 st offset v p len)
  have "level_of_size (PAGE_SIZE_AT_LEVEL (choose_target_level v p rem (sv_levels sv))) =
      choose_target_level v p rem (sv_levels sv)" for rem
    by (auto simp: choose_target_level_cases [OF sv_levels_range(1)] level_of_size_def level_sizes)
  then show ?case
    by (subst rv_map_loop.simps) (simp add: Let_def)
next
  case 4
  then show ?case
    by simp
next
  case (5 rem v p)
  from choose_level_fits [OF sv_levels_range(1) 5] obtain lv
    where lv: "choose_target_level v p rem (sv_levels sv) = Suc lv" "lv < 3" "PAGE_SIZE_AT_LEVEL (Suc lv) \<le> rem"
    by metis
  have "unat (PAGE_SIZE_AT_LEVEL (Suc lv)) = 4096 * 2 ^ (9 * lv)"
    using unat_page_size_at_level [OF lv(2)] by (simp add: power_add)
  moreover have "page_level (PAGE_SIZE_AT_LEVEL (Suc lv)) = Suc lv"
    using lv(2) by (intro page_level_pow [OF unat_page_size_at_level]) simp_all
  moreover have "2 \<le> Suc lv" if "2 ^ 21 dvd unat v" "2 ^ 21 dvd unat p" "2 ^ 21 \<le> unat rem"
    using that lv(1) by (simp add: choose_target_level_cases [OF sv_levels_range(1)] mod_2M_dvd word_le_nat_alt level_sizes
        split: if_splits)
  ultimately show ?case
    using lv by (auto simp: word_eq_unat)
next
  case (6 st v p rem k)
  from choose_level_fits [OF sv_levels_range(1) 6(7,8,4,5)] obtain lv
    where lv: "choose_target_level v p rem (sv_levels sv) = Suc lv" "lv < 3"
      "take_bit (9 * Suc lv + 3) v = 0" "take_bit (9 * Suc lv + 3) p = 0"
    by metis
  have mmu: "mmu riscv_fmt (view st) (sv_levels sv) root v = None"
    using 6(3,9) by (simp add: translate_def)
  have budget: "frame_budget (missing riscv_fmt (view st) v (sv_levels sv) root - lv + k) (vm_pmm st)"
    using 6(10) page_level_pow [OF unat_page_size_at_level [OF lv(2)]] lv(2) by (simp add: lv(1))
  have "Suc lv \<le> sv_levels sv"
    using lv(2) sv_levels_range(1) [of sv] by simp
  from rv_map_page_region [OF 6(2) this sv_levels_range(2) 6(3) lv(3,4) 6(6) lv(2) budget, of perm] mmu
  show ?case
    using unat_page_size_at_level [OF lv(2)] by (auto simp: lv(1) level_of_size [OF lv(2)])
next
  case 1
  then show ?case
    using sv_levels_range(1) [of sv] by linarith
next
  case 2
  then show ?case
    by (rule sv_levels_range)
qed

section \<open>Sample state\<close>

lemma tables_ok_rv_level [simp]:
  "tables_ok fmt n a (st\<lparr>g_level_count := b\<rparr>) = tables_ok fmt n a st"
  "translate fmt (st\<lparr>g_level_count := b\<rparr>) n a va = translate fmt st n a va"
  by (simp_all add: tables_ok_def view_def translate_def)

lemma rv_ptm_init_fresh:
  assumes "page_aligned (hhdm_offset st)" and "frame_budget (Suc k) (vm_pmm st)"
    and "detect_max_level_count acpi dtb = ok n" and "0 < n"
  shows "\<exists>st' root. rv_ptm_init acpi dtb st = ok st' \<and> g_ptm st' = \<lparr>tplt = root, level_count = n\<rparr> \<and>
    g_level_count st' = n \<and> tables_ok riscv_fmt n root st' \<and>
    (\<forall>va. translate riscv_fmt st' n root va = None) \<and> frame_budget k (vm_pmm st')"
proof -
  let ?st = "st\<lparr>g_level_count := n\<rparr>"
  have "frame_budget (Suc k) (vm_pmm ?st)"
    using assms(2) by simp
  from vm_alloc_ok [OF this] obtain a s where a: "vm_alloc 1 ?st = ok (a, ?st\<lparr>vm_pmm := s\<rparr>)"
    "frame_ok a" "\<not> frame_free s a" "frame_budget k s" .
  show ?thesis
    using a assms rw.fresh_tables [of "?st\<lparr>vm_pmm := s\<rparr>" a n] unfolding rv_ptm_init_def
    by (simp add: clear_table_def)
qed

definition rv_sample :: riscv_state where
  "rv_sample = \<lparr>vm_mem = (\<lambda>_. 0xFF), vm_pmm = sample, hhdm_offset = 0xFFFFFFC000000000,
     g_ptm = \<lparr>tplt = 0, level_count = 0\<rparr>, g_level_count = 3\<rparr>"

definition rv_ready :: riscv_state where
  "rv_ready = the_ok (rv_ptm_init (ok 0) (ok 3) rv_sample)"

lemma rv_ready_tables:
  "tables_ok riscv_fmt 3 (tplt (g_ptm rv_ready)) rv_ready" "frame_budget 6 (vm_pmm rv_ready)"
  "translate riscv_fmt rv_ready 3 (tplt (g_ptm rv_ready)) va = None"
proof -
  have budget: "frame_budget (Suc 6) (vm_pmm rv_sample)"
    using sample_budget by (simp add: rv_sample_def)
  have "page_aligned (hhdm_offset rv_sample)"
    by (simp add: rv_sample_def page_aligned_def)
  from rv_ptm_init_fresh [OF this budget, of "ok 0" "ok 3" 3]
  obtain st root where st: "rv_ptm_init (ok 0) (ok 3) rv_sample = ok st"
    "g_ptm st = \<lparr>tplt = root, level_count = 3\<rparr>" "tables_ok riscv_fmt 3 root st"
    "\<forall>va. translate riscv_fmt st 3 root va = None" "frame_budget 6 (vm_pmm st)"
    by (auto simp: detect_max_level_count_def)
  then have "rv_ready = st"
    by (simp add: rv_ready_def)
  then show "tables_ok riscv_fmt 3 (tplt (g_ptm rv_ready)) rv_ready" "frame_budget 6 (vm_pmm rv_ready)"
    "translate riscv_fmt rv_ready 3 (tplt (g_ptm rv_ready)) va = None"
    using st by simp_all
qed

section \<open>Properties\<close>

text \<open>C18. On RISC-V too, in each of the three paging modes, mapping an unmapped, page-aligned
  region with flags the hardware accepts for a leaf returns, with whatever mix of 4K, 2M and 1G
  pages, and maps exactly the bytes of the region with exactly these permissions.\<close>

theorem rv_ptm_map_at_exact:
  assumes "tables_ok riscv_fmt (sv_levels sv) root st"
    and "4096 dvd unat vaddr" and "4096 dvd unat paddr" and "4096 dvd unat len"
    and "\<forall>va. unat (va - vaddr) < unat len \<longrightarrow>
      canonical (sv_levels sv) va \<and> translate riscv_fmt st (sv_levels sv) root va = None"
    and "unat paddr + unat len \<le> 2 ^ 51"
    and "frame_budget (region_tables (sv_levels sv) (unat vaddr mod 2 ^ 21 = unat paddr mod 2 ^ 21) (unat len)) (vm_pmm st)"
  shows "\<exists>st'. rv_ptm_map_at root (sv_levels sv) vaddr paddr len (perm_flags perm) st = ok st' \<and>
    tables_ok riscv_fmt (sv_levels sv) root st' \<and>
    (\<forall>va. translate riscv_fmt st' (sv_levels sv) root va =
      (if unat (va - vaddr) < unat len then Some (paddr + (va - vaddr), perm_bits perm)
       else translate riscv_fmt st (sv_levels sv) root va))"
proof -
  have "region_canonical (sv_levels sv) vaddr (unat len)"
    "unmapped riscv_fmt (sv_levels sv) root vaddr (unat len) st"
    using assms(5) by (auto simp: region_canonical_def unmapped_def)
  then obtain st' where "rv_map_loop root (sv_levels sv) 0 vaddr paddr len (perm_flags perm) st = ok st'"
    "region_mapped riscv_fmt (sv_levels sv) root (perm_bits perm) vaddr paddr (unat len) st st'"
    using rvm.loop_tables [where r = "unat len" and len = len and offset = 0 and v = vaddr and p = paddr and st = st
        and sv = sv and root = root and k = 0 and perm = perm] assms by auto
  then show ?thesis
    using assms(2-4) by (auto simp: rv_ptm_map_at_def mod_4096_dvd region_mapped_def)
qed

theorem rv_ptm_map_at_exact_witness:
  "\<exists>st'. rv_ptm_map_at (tplt (g_ptm rv_ready)) (sv_levels SV39) 0x400000 0x600000 0x2000
      (perm_flags PERM_RX) rv_ready = ok st' \<and>
    tables_ok riscv_fmt (sv_levels SV39) (tplt (g_ptm rv_ready)) st' \<and>
    (\<forall>va. translate riscv_fmt st' (sv_levels SV39) (tplt (g_ptm rv_ready)) va =
      (if unat (va - 0x400000) < unat (0x2000 :: u64)
       then Some (0x600000 + (va - 0x400000), perm_bits PERM_RX)
       else translate riscv_fmt rv_ready (sv_levels SV39) (tplt (g_ptm rv_ready)) va))"
proof (rule rv_ptm_map_at_exact)
  show "\<forall>va. unat (va - 0x400000) < unat (0x2000 :: u64) \<longrightarrow>
      canonical (sv_levels SV39) va \<and>
      translate riscv_fmt rv_ready (sv_levels SV39) (tplt (g_ptm rv_ready)) va = None"
  proof (intro allI impI conjI)
    fix va :: u64 assume va: "unat (va - 0x400000) < unat (0x2000 :: u64)"
    have "unat (0x400000 + (va - 0x400000)) = 0x400000 + unat (va - 0x400000)"
      using va by (subst unat_add_nowrap) simp_all
    then show "canonical (sv_levels SV39) va"
      using va by (intro canonical_low) simp
    show "translate riscv_fmt rv_ready (sv_levels SV39) (tplt (g_ptm rv_ready)) va = None"
      using rv_ready_tables(3) by simp
  qed
qed (use rv_ready_tables(1) frame_budget_mono [OF rv_ready_tables(2)] in \<open>simp_all add: region_tables_def tables_for_def\<close>)



end
