(* ===== verification/PtmRiscvSpace.thy ===== *)
theory PtmRiscvSpace
  imports AddressSpace PtmRiscvProps
begin

text \<open>\<open>ptm_map\<close> on RISC-V keeps the contract \<open>address_space\<close>, in each paging mode, for the flags
  the hardware accepts for a leaf.\<close>

definition rv_flags_ok :: "u8 \<Rightarrow> bool" where
  "rv_flags_ok flags \<longleftrightarrow> flags \<in> {RV_PTM_FLAG_READ, RV_PTM_FLAG_READ OR RV_PTM_FLAG_WRITE,
     RV_PTM_FLAG_EXEC, RV_PTM_FLAG_READ OR RV_PTM_FLAG_EXEC,
     RV_PTM_FLAG_READ OR RV_PTM_FLAG_WRITE OR RV_PTM_FLAG_EXEC}"

definition rv_perms :: "u8 \<Rightarrow> bool \<times> bool \<times> bool" where
  "rv_perms flags = (flags AND RV_PTM_FLAG_READ \<noteq> 0, flags AND RV_PTM_FLAG_WRITE \<noteq> 0,
     flags AND RV_PTM_FLAG_EXEC \<noteq> 0)"

definition rv_cfg :: "u64 \<Rightarrow> sv_mode \<Rightarrow> riscv_state \<Rightarrow> bool" where
  "rv_cfg root sv st \<longleftrightarrow> g_ptm st = \<lparr>tplt = root, level_count = sv_levels sv\<rparr> \<and>
     g_level_count st = sv_levels sv"

lemma rv_flags_perm:
  assumes "rv_flags_ok flags"
  obtains perm where "flags = perm_flags perm" and "rv_perms flags = perm_bits perm"
proof -
  have "rv_perms (perm_flags perm) = perm_bits perm" for perm
    by (cases perm) (simp_all add: rv_perms_def RV_PTM_FLAG_READ_def RV_PTM_FLAG_WRITE_def
        RV_PTM_FLAG_EXEC_def)
  moreover have "\<exists>perm. flags = perm_flags perm"
    using assms perm_flags.simps unfolding rv_flags_ok_def by (metis empty_iff insert_iff)
  ultimately show thesis
    using that by blast
qed

interpretation rs: address_space rv_ptm_map riscv_fmt "sv_levels sv" root "rv_cfg root sv"
    rv_flags_ok rv_perms
  for root sv
proof (unfold_locales, goal_cases)
  case (3 st st')
  then show ?case
    by (cases st; cases st') (simp add: same_config_def rv_cfg_def)
next
  case (4 st flags v p)
  obtain perm where perm: "flags = perm_flags perm" "rv_perms flags = perm_bits perm"
    using rv_flags_perm [OF 4(2)] .
  have g: "g_ptm st = \<lparr>tplt = root, level_count = sv_levels sv\<rparr>" "g_level_count st = sv_levels sv"
    using 4(1) by (simp_all add: rv_cfg_def)
  show ?case
    using rvm.loop_page [where len = PTM_PAGE_GRANULARITY and v = v and p = p and st = st and sv = sv and root = root
        and k = 0 and perm = perm] 4(3-9) g
    by (auto simp: rv_ptm_map_def mod_4096_dvd perm(1) perm(2) [unfolded perm(1)])
next
  case (5 st flags v p len)
  obtain perm where perm: "flags = perm_flags perm" "rv_perms flags = perm_bits perm"
    using rv_flags_perm [OF 5(2)] .
  have g: "g_ptm st = \<lparr>tplt = root, level_count = sv_levels sv\<rparr>" "g_level_count st = sv_levels sv"
    using 5(1) by (simp_all add: rv_cfg_def)
  show ?case
    using rvm.loop_tables [where r = "unat len" and len = len and offset = 0 and v = v and p = p and st = st
        and sv = sv and root = root and k = 0 and perm = perm] 5(3-10) g
    by (auto simp: rv_ptm_map_def mod_4096_dvd perm(1) perm(2) [unfolded perm(1)])
qed (use sv_levels_range [of sv] in simp_all)

end
