(* ===== verification/Elf.thy ===== *)
theory Elf
  imports PtmX86Space PtmRiscvSpace
begin

text \<open>
  The kernel loader of \<open>pre_kernel/src/loader/elfldr.c\<close> and the part of
  \<open>pre_kernel/public/protocol/bootinfo.h\<close> it fills in. The image is in memory at \<open>elf\<close>
  (\<open>_binary_kernel_elf_start\<close>); headers are read from memory each time the code reads them, so a
  load that overwrote them would be seen. \<open>map_region\<close> and the expected machine number differ
  between the architectures and are parameters, as is the address \<open>lit\<close> of the string literal
  \<open>"prekernel_boot_info"\<close>. Log lines are left out.
\<close>

section \<open>Narrow loads and stores\<close>

definition load16 :: "memory \<Rightarrow> u64 \<Rightarrow> u16" where
  "load16 m a = ucast (from_bytes (bytes_at m a 2))"

definition load32 :: "memory \<Rightarrow> u64 \<Rightarrow> u32" where
  "load32 m a = ucast (from_bytes (bytes_at m a 4))"

section \<open>The headers\<close>

record elf64_elf_header_t =
  e_ident :: "u8 list"
  e_type :: u16
  e_machine :: u16
  e_version :: u32
  e_entry :: u64
  e_phoff :: u64
  e_shoff :: u64
  e_flags :: u32
  e_ehsize :: u16
  e_phentsize :: u16
  e_phnum :: u16
  e_shentsize :: u16
  e_shnum :: u16
  e_shstrndx :: u16

definition elf_header :: "memory \<Rightarrow> u64 \<Rightarrow> elf64_elf_header_t" where
  "elf_header m p = \<lparr>e_ident = bytes_at m p 16, e_type = load16 m (p + 16),
     e_machine = load16 m (p + 18), e_version = load32 m (p + 20), e_entry = load64 m (p + 24),
     e_phoff = load64 m (p + 32), e_shoff = load64 m (p + 40), e_flags = load32 m (p + 48),
     e_ehsize = load16 m (p + 52), e_phentsize = load16 m (p + 54), e_phnum = load16 m (p + 56),
     e_shentsize = load16 m (p + 58), e_shnum = load16 m (p + 60), e_shstrndx = load16 m (p + 62)\<rparr>"

record elf64_program_header_t =
  p_type :: u32
  p_flags :: u32
  p_offset :: u64
  p_vaddr :: u64
  p_paddr :: u64
  p_filesz :: u64
  p_memsz :: u64
  p_align :: u64

definition program_header :: "memory \<Rightarrow> u64 \<Rightarrow> elf64_program_header_t" where
  "program_header m p = \<lparr>p_type = load32 m p, p_flags = load32 m (p + 4),
     p_offset = load64 m (p + 8), p_vaddr = load64 m (p + 16), p_paddr = load64 m (p + 24),
     p_filesz = load64 m (p + 32), p_memsz = load64 m (p + 40), p_align = load64 m (p + 48)\<rparr>"

record elf64_section_header_t =
  sh_name :: u32
  sh_type :: u32
  sh_flags :: u64
  sh_addr :: u64
  sh_offset :: u64
  sh_size :: u64
  sh_link :: u32
  sh_info :: u32
  sh_addralign :: u64
  sh_entsize :: u64

definition section_header :: "memory \<Rightarrow> u64 \<Rightarrow> elf64_section_header_t" where
  "section_header m p = \<lparr>sh_name = load32 m p, sh_type = load32 m (p + 4),
     sh_flags = load64 m (p + 8), sh_addr = load64 m (p + 16), sh_offset = load64 m (p + 24),
     sh_size = load64 m (p + 32), sh_link = load32 m (p + 40), sh_info = load32 m (p + 44),
     sh_addralign = load64 m (p + 48), sh_entsize = load64 m (p + 56)\<rparr>"

definition sizeof_program_header :: u64 where "sizeof_program_header = 56"
definition sizeof_section_header :: u64 where "sizeof_section_header = 64"

definition ELF_CLASS_IDX :: nat where "ELF_CLASS_IDX = 4"
definition ELF_CLASS_64_BIT :: u8 where "ELF_CLASS_64_BIT = 2"
definition ELF_DATA_IDX :: nat where "ELF_DATA_IDX = 5"
definition ELF_DATA_2LSB :: u8 where "ELF_DATA_2LSB = 1"
definition ETYPE_REL :: u16 where "ETYPE_REL = 1"
definition ETYPE_EXEC :: u16 where "ETYPE_EXEC = 2"
definition ETYPE_DYN :: u16 where "ETYPE_DYN = 3"
definition EMACHINE_X86_64 :: u16 where "EMACHINE_X86_64 = 62"
definition EMACHINE_RISCV :: u16 where "EMACHINE_RISCV = 243"
definition PTYPE_LOAD :: u32 where "PTYPE_LOAD = 1"
definition PFLAGS_EXECUTE :: u32 where "PFLAGS_EXECUTE = 1"
definition PFLAGS_WRITE :: u32 where "PFLAGS_WRITE = 2"
definition PFLAGS_READ :: u32 where "PFLAGS_READ = 4"

definition elf_supported :: "u16 \<Rightarrow> memory \<Rightarrow> u64 \<Rightarrow> bool" where
  "elf_supported expected m header =
     (let h = elf_header m header
      in if header = 0 then False
         else if e_ident h ! 0 \<noteq> 0x7F \<or> e_ident h ! 1 \<noteq> 0x45 \<or> e_ident h ! 2 \<noteq> 0x4C \<or> e_ident h ! 3 \<noteq> 0x46
         then False
         else if e_ident h ! ELF_CLASS_IDX \<noteq> ELF_CLASS_64_BIT then False
         else if e_ident h ! ELF_DATA_IDX \<noteq> ELF_DATA_2LSB then False
         else if e_machine h \<noteq> expected then False
         else if e_type h \<noteq> ETYPE_EXEC \<and> e_type h \<noteq> ETYPE_DYN then False
         else True)"

section \<open>Segments\<close>

definition BOOTINFO_SEGMENT_FLAG_READ :: u8 where "BOOTINFO_SEGMENT_FLAG_READ = 1"
definition BOOTINFO_SEGMENT_FLAG_WRITE :: u8 where "BOOTINFO_SEGMENT_FLAG_WRITE = 2"
definition BOOTINFO_SEGMENT_FLAG_EXECUTE :: u8 where "BOOTINFO_SEGMENT_FLAG_EXECUTE = 4"

text \<open>A packed \<open>bootinfo_segment_t\<close>: three 64-bit words and a byte.\<close>

record bootinfo_segment_t =
  seg_vaddr :: u64
  seg_paddr :: u64
  seg_size :: u64
  seg_flags :: u8

definition sizeof_bootinfo_segment :: u64 where "sizeof_bootinfo_segment = 25"

definition segment_at :: "memory \<Rightarrow> u64 \<Rightarrow> bootinfo_segment_t" where
  "segment_at m p = \<lparr>seg_vaddr = load64 m p, seg_paddr = load64 m (p + 8), seg_size = load64 m (p + 16),
     seg_flags = m (p + 24)\<rparr>"

text \<open>The loader's result; the segments are an array in memory, at the address \<open>segments\<close>.\<close>

record elfldr_loader_info_t =
  entry_point :: u64
  kernel_base :: u64
  segments :: u64
  segment_count :: nat
  kernel_info :: u64

definition segment_flags :: "u32 \<Rightarrow> u8" where
  "segment_flags flags =
     (let f = 0;
          f = (if flags AND PFLAGS_READ \<noteq> 0 then f OR BOOTINFO_SEGMENT_FLAG_READ else f);
          f = (if flags AND PFLAGS_WRITE \<noteq> 0 then f OR BOOTINFO_SEGMENT_FLAG_WRITE else f)
      in if flags AND PFLAGS_EXECUTE \<noteq> 0 then f OR BOOTINFO_SEGMENT_FLAG_EXECUTE else f)"

definition ELF_PTM_FLAG_EXEC :: u8 where "ELF_PTM_FLAG_EXEC = 1"
definition ELF_PTM_FLAG_WRITE :: u8 where "ELF_PTM_FLAG_WRITE = 2"
definition ELF_PTM_FLAG_READ :: u8 where "ELF_PTM_FLAG_READ = 4"

definition page_flags :: "u32 \<Rightarrow> u8" where
  "page_flags flags =
     (let f = 0;
          f = (if flags AND PFLAGS_READ \<noteq> 0 then f OR ELF_PTM_FLAG_READ else f);
          f = (if flags AND PFLAGS_WRITE \<noteq> 0 then f OR ELF_PTM_FLAG_WRITE else f)
      in if flags AND PFLAGS_EXECUTE \<noteq> 0 then f OR ELF_PTM_FLAG_EXEC else f)"

type_synonym 's mapper = "u64 \<Rightarrow> u64 \<Rightarrow> u64 \<Rightarrow> u8 \<Rightarrow> 's \<Rightarrow> 's res"

text \<open>The loop that maps a segment page by page.\<close>

partial_function (option) elf_map_loop ::
  "'a vm_state_scheme mapper \<Rightarrow> u64 \<Rightarrow> u64 \<Rightarrow> u64 \<Rightarrow> u64 \<Rightarrow> u64 \<Rightarrow> 'a vm_state_scheme \<Rightarrow>
    'a vm_state_scheme res" where
  "elf_map_loop map_region phdr j start_vaddr end_vaddr paddr st =
     (if j < end_vaddr then
        res_bind (map_region j (paddr + (j - start_vaddr)) PTM_PAGE_GRANULARITY
                    (page_flags (p_flags (program_header (vm_mem st) phdr))) st)
          (\<lambda>st. elf_map_loop map_region phdr (j + PTM_PAGE_GRANULARITY) start_vaddr end_vaddr paddr st)
      else ok st)"

declare elf_map_loop.simps [code]

definition store_segment :: "u64 \<Rightarrow> u64 \<Rightarrow> u64 \<Rightarrow> u64 \<Rightarrow> u8 \<Rightarrow> memory \<Rightarrow> memory" where
  "store_segment seg phdr paddr start_vaddr flags m =
     (let m = store64 (seg + 8) (paddr + (p_vaddr (program_header m phdr) - start_vaddr)) m;
          m = store64 seg (p_vaddr (program_header m phdr)) m;
          m = store64 (seg + 16) (p_memsz (program_header m phdr)) m
      in m(seg + 24 := flags))"

definition internal_elf_handle_pt_load ::
  "'a vm_state_scheme mapper \<Rightarrow> u64 \<Rightarrow> u64 \<Rightarrow> elfldr_loader_info_t \<Rightarrow> 'a vm_state_scheme \<Rightarrow>
    (elfldr_loader_info_t \<times> 'a vm_state_scheme) res" where
  "internal_elf_handle_pt_load map_region elf phdr loader_info st =
     (let ph = program_header (vm_mem st) phdr;
          flags = segment_flags (p_flags ph);
          start_vaddr = MATH_FLOOR (p_vaddr ph) PTM_PAGE_GRANULARITY;
          end_vaddr = MATH_ALIGN_UP (p_vaddr ph + p_memsz ph) PTM_PAGE_GRANULARITY
      in res_bind (pmm_alloc_ext ((end_vaddr - start_vaddr) div PTM_PAGE_GRANULARITY) PTM_PAGE_GRANULARITY
                     PMM_MAP_TYPE_ALLOCATED (vm_pmm st))
           (\<lambda>(paddr, s). res_bind (elf_map_loop map_region phdr start_vaddr start_vaddr end_vaddr paddr
                                     (st\<lparr>vm_pmm := s\<rparr>))
              (\<lambda>st.
                 let m = memset (paddr + hhdm_offset st) 0 (unat (end_vaddr - start_vaddr)) (vm_mem st);
                     ph = program_header m phdr;
                     m = memcpy (paddr + (p_vaddr ph - start_vaddr) + hhdm_offset st) (p_offset ph + elf)
                           (unat (p_filesz ph)) m;
                     segment_idx = segment_count loader_info;
                     seg = segments loader_info + sizeof_bootinfo_segment * of_nat segment_idx;
                     m = store_segment seg phdr paddr start_vaddr flags m;
                     ph = program_header m phdr;
                     base = (if kernel_base loader_info > p_vaddr ph then p_vaddr ph
                             else kernel_base loader_info)
                 in ok (loader_info\<lparr>segment_count := segment_idx + 1, kernel_base := base\<rparr>,
                        st\<lparr>vm_mem := m\<rparr>))))"

section \<open>The image\<close>

text \<open>\<open>e_phnum\<close> is read again in every round; its 16 bits bound the loops.\<close>

lemma index16_measure:
  fixes w :: u16
  assumes "i < unat w" shows "65535 - i < 65536 - i"
proof -
  have "unat w < 65536"
    using unsigned_less [where 'a = nat and w = w] by simp
  then show ?thesis
    using assms by linarith
qed

function count_loads :: "memory \<Rightarrow> u64 \<Rightarrow> u64 \<Rightarrow> nat \<Rightarrow> nat \<Rightarrow> nat" where
  "count_loads m elf phdrs i load_count =
     (if i < unat (e_phnum (elf_header m elf)) then
        count_loads m elf phdrs (Suc i)
          (if p_type (program_header m (phdrs + sizeof_program_header * of_nat i)) = PTYPE_LOAD
           then load_count + 1 else load_count)
      else load_count)"
  by pat_completeness auto
termination
  by (relation "measure (\<lambda>(m, elf, phdrs, i, c). 65536 - i)")
    (auto dest: index16_measure)

function load_segments ::
  "'a vm_state_scheme mapper \<Rightarrow> u64 \<Rightarrow> u64 \<Rightarrow> nat \<Rightarrow> elfldr_loader_info_t \<Rightarrow> 'a vm_state_scheme \<Rightarrow>
    (elfldr_loader_info_t \<times> 'a vm_state_scheme) res" where
  "load_segments map_region elf phdrs i loader_info st =
     (if i < unat (e_phnum (elf_header (vm_mem st) elf)) then
        (let phdr = phdrs + sizeof_program_header * of_nat i
         in if p_type (program_header (vm_mem st) phdr) \<noteq> PTYPE_LOAD
            then load_segments map_region elf phdrs (Suc i) loader_info st
            else res_bind (internal_elf_handle_pt_load map_region elf phdr loader_info st)
                   (\<lambda>(loader_info, st). load_segments map_region elf phdrs (Suc i) loader_info st))
      else ok (loader_info, st))"
  by pat_completeness auto
termination
  by (relation "measure (\<lambda>(f, elf, phdrs, i, info, st). 65536 - i)")
    (auto dest: index16_measure)

text \<open>The segment that holds the section's address; \<open>0\<close> is the null pointer.\<close>

function find_segment :: "memory \<Rightarrow> u64 \<Rightarrow> u64 \<Rightarrow> u64 \<Rightarrow> nat \<Rightarrow> nat \<Rightarrow> u64" where
  "find_segment m hhdm addr segs j count =
     (if j < count then
        (let seg = segment_at m (segs + sizeof_bootinfo_segment * of_nat j)
         in if addr \<ge> seg_vaddr seg \<and> addr < seg_vaddr seg + seg_size seg
            then seg_paddr seg + (addr - seg_vaddr seg) + hhdm
            else find_segment m hhdm addr segs (Suc j) count)
      else 0)"
  by pat_completeness auto
termination
  by (relation "measure (\<lambda>(m, hhdm, addr, segs, j, count). count - j)") auto

function find_info ::
  "u64 \<Rightarrow> u64 \<Rightarrow> u64 \<Rightarrow> u64 \<Rightarrow> nat \<Rightarrow> elfldr_loader_info_t \<Rightarrow> 'a vm_state_scheme \<Rightarrow> u64" where
  "find_info lit elf shdrs shstrtab i loader_info st =
     (if i < unat (e_shnum (elf_header (vm_mem st) elf)) then
        (let sh = section_header (vm_mem st) (shdrs + sizeof_section_header * of_nat i);
             name = shstrtab + ucast (sh_name sh)
         in if memcmp name lit 20 (vm_mem st) \<noteq> 0
            then find_info lit elf shdrs shstrtab (Suc i) loader_info st
            else find_segment (vm_mem st) (hhdm_offset st) (sh_addr sh) (segments loader_info) 0
                   (segment_count loader_info))
      else 0)"
  by pat_completeness auto
termination
  by (relation "measure (\<lambda>(lit, elf, shdrs, tab, i, info, st). 65536 - i)")
    (auto dest: index16_measure)

declare count_loads.simps [simp del] load_segments.simps [simp del] find_segment.simps [simp del]
  find_info.simps [simp del]

definition internal_elf_load_image ::
  "'a vm_state_scheme mapper \<Rightarrow> u64 \<Rightarrow> u64 \<Rightarrow> elfldr_loader_info_t \<Rightarrow> 'a vm_state_scheme \<Rightarrow>
    (bool \<times> elfldr_loader_info_t \<times> 'a vm_state_scheme) res" where
  "internal_elf_load_image map_region lit elf loader_info st =
     (let phdrs = elf + e_phoff (elf_header (vm_mem st) elf);
          load_count = count_loads (vm_mem st) elf phdrs 0 0
      in res_bind (vm_alloc (MATH_ALIGN_UP (of_nat load_count * sizeof_bootinfo_segment)
                               PTM_PAGE_GRANULARITY div PTM_PAGE_GRANULARITY) st)
           (\<lambda>(segs, st).
              let loader_info = loader_info\<lparr>segments := segs + hhdm_offset st, segment_count := 0,
                                  entry_point := e_entry (elf_header (vm_mem st) elf)\<rparr>
              in res_bind (load_segments map_region elf phdrs 0 loader_info st)
                   (\<lambda>(loader_info, st).
                      let h = elf_header (vm_mem st) elf
                      in if e_shoff h = 0 \<or> e_shstrndx h = 0 then ok (False, loader_info, st)
                         else (let shdrs = elf + e_shoff h;
                                   shstrtab = elf + sh_offset (section_header (vm_mem st)
                                     (shdrs + sizeof_section_header * ucast (e_shstrndx h)));
                                   loader_info = loader_info\<lparr>kernel_info :=
                                     find_info lit elf shdrs shstrtab 0 loader_info st\<rparr>
                               in ok (kernel_info loader_info \<noteq> 0, loader_info, st)))))"

definition elfldr_load_kernel ::
  "'a vm_state_scheme mapper \<Rightarrow> u16 \<Rightarrow> u64 \<Rightarrow> u64 \<Rightarrow> elfldr_loader_info_t \<Rightarrow> 'a vm_state_scheme \<Rightarrow>
    (bool \<times> elfldr_loader_info_t \<times> 'a vm_state_scheme) res" where
  "elfldr_load_kernel map_region expected lit elf out_info st =
     (if \<not> elf_supported expected (vm_mem st) elf then ok (False, out_info, st)
      else internal_elf_load_image map_region lit elf
             \<lparr>entry_point = 0, kernel_base = - 1, segments = 0, segment_count = 0, kernel_info = 0\<rparr> st)"

end
