(* ===== verification/ElfSegment.thy ===== *)
theory ElfSegment
  imports Elf
begin

text \<open>
  One segment of the image. First the loop that maps its pages, then \<open>internal_elf_handle_pt_load\<close>
  as a whole: the pages it maps, the bytes it fills them with, the entry it adds to the segment
  table, and what it leaves alone. Both are proved inside the contract \<open>address_space\<close>.
\<close>

section \<open>Headers and stores\<close>

lemma bytes_at_cong:
  "(\<And>i. i < n \<Longrightarrow> m' (p + of_nat i) = m (p + of_nat i)) \<Longrightarrow> bytes_at m' p n = bytes_at m p n"
  by (simp add: bytes_at_def)

lemma bytes_at_offset_cong:
  assumes "\<And>i. i < N \<Longrightarrow> m' (p + of_nat i) = m (p + of_nat i)" and "c + n \<le> N"
  shows "bytes_at m' (p + of_nat c) n = bytes_at m (p + of_nat c) n"
proof (rule bytes_at_cong)
  fix i assume "i < n"
  then show "m' (p + of_nat c + of_nat i) = m (p + of_nat c + of_nat i)"
    using assms(1) [of "c + i"] assms(2) by (simp add: add.assoc)
qed

lemma program_header_cong:
  assumes "\<And>i. i < 56 \<Longrightarrow> m' (p + of_nat i) = m (p + of_nat i)"
  shows "program_header m' p = program_header m p"
  using bytes_at_offset_cong [of 56 m' p m 0 4, OF assms] bytes_at_offset_cong [of 56 m' p m 4 4, OF assms]
    bytes_at_offset_cong [of 56 m' p m 8 8, OF assms] bytes_at_offset_cong [of 56 m' p m 16 8, OF assms]
    bytes_at_offset_cong [of 56 m' p m 24 8, OF assms] bytes_at_offset_cong [of 56 m' p m 32 8, OF assms]
    bytes_at_offset_cong [of 56 m' p m 40 8, OF assms] bytes_at_offset_cong [of 56 m' p m 48 8, OF assms]
  by (simp add: program_header_def load32_def load64_def)

definition in_slot :: "u64 \<Rightarrow> u64 \<Rightarrow> bool" where
  "in_slot seg a \<longleftrightarrow> unat (a - seg) < 25"

lemma store64_slot: "\<not> in_slot seg a \<Longrightarrow> c \<le> 16 \<Longrightarrow> store64 (seg + of_nat c) v m a = m a"
proof (rule store64_other)
  assume a: "\<not> in_slot seg a" and c: "c \<le> 16"
  have "unat (a - seg - of_nat c) = unat (a - seg) - c"
    using a c by (subst unat_diff_nowrap) (simp_all add: in_slot_def unat_of_nat_64)
  then show "\<not> unat (a - (seg + of_nat c)) < 8"
    using a c by (simp add: in_slot_def diff_diff_eq)
qed

lemma store_segment_spec:
  fixes m :: memory and paddr start_vaddr :: u64 and flags :: u8
  assumes apart: "\<And>j. j < 56 \<Longrightarrow> \<not> in_slot seg (phdr + of_nat j)"
  defines "ph \<equiv> program_header m phdr" and "m' \<equiv> store_segment seg phdr paddr start_vaddr flags m"
  shows "\<not> in_slot seg a \<Longrightarrow> m' a = m a" and "program_header m' phdr = ph"
    and "segment_at m' seg = \<lparr>seg_vaddr = p_vaddr ph, seg_paddr = paddr + (p_vaddr ph - start_vaddr),
      seg_size = p_memsz ph, seg_flags = flags\<rparr>"
proof -
  let ?m1 = "store64 (seg + of_nat 8) (paddr + (p_vaddr ph - start_vaddr)) m"
  let ?m2 = "store64 (seg + of_nat 0) (p_vaddr ph) ?m1"
  let ?m3 = "store64 (seg + of_nat 16) (p_memsz ph) ?m2"
  have ph1: "program_header ?m1 phdr = ph"
    unfolding ph_def by (rule program_header_cong) (rule store64_slot [OF apart], simp_all)
  have "program_header ?m2 phdr = program_header ?m1 phdr"
    by (rule program_header_cong) (rule store64_slot [OF apart], simp_all)
  then have ph2: "program_header ?m2 phdr = ph"
    using ph1 by (rule trans)
  have m': "m' = ?m3(seg + 24 := flags)"
    using ph1 ph2 unfolding m'_def store_segment_def Let_def by (simp add: ph_def)
  have last: "in_slot seg (seg + 24)"
    by (simp add: in_slot_def)
  show other: "m' a = m a" if "\<not> in_slot seg a" for a
    using that last store64_slot [OF that, of 16] store64_slot [OF that, of 0] store64_slot [OF that, of 8]
    by (auto simp: m')
  show "program_header m' phdr = ph"
    unfolding ph_def by (rule program_header_cong) (rule other [OF apart])
  have upd: "load64 (f(seg + 24 := x)) (seg + of_nat c) = load64 f (seg + of_nat c)" if "c \<le> 16" for f x c
  proof (rule load64_cong)
    fix i :: nat assume "i < 8"
    then have "seg + of_nat (c + i) \<noteq> seg + of_nat 24"
      using that by (intro offset_neq) auto
    then show "(f(seg + 24 := x)) (seg + of_nat c + of_nat i) = f (seg + of_nat c + of_nat i)"
      by (simp add: add.assoc)
  qed
  have "load64 m' (seg + of_nat 16) = p_memsz ph"
    unfolding m' upd [OF order_refl] by (rule load64_store64)
  moreover have "load64 m' (seg + of_nat 0) = p_vaddr ph"
  proof -
    have "load64 m' (seg + of_nat 0) = load64 ?m2 (seg + of_nat 0)"
      unfolding m' upd [OF le0] by (rule load64_next) simp_all
    also have "\<dots> = p_vaddr ph"
      by (rule load64_store64)
    finally show ?thesis .
  qed
  moreover have "load64 m' (seg + of_nat 8) = paddr + (p_vaddr ph - start_vaddr)"
  proof -
    have c8: "(8 :: nat) \<le> 16"
      by simp
    have "load64 m' (seg + of_nat 8) = load64 ?m2 (seg + of_nat 8)"
      unfolding m' upd [OF c8] by (rule load64_next) simp_all
    also have "\<dots> = load64 ?m1 (seg + of_nat 8)"
      by (rule load64_next) simp_all
    also have "\<dots> = paddr + (p_vaddr ph - start_vaddr)"
      by (rule load64_store64)
    finally show ?thesis .
  qed
  moreover have "m' (seg + 24) = flags"
    by (simp add: m')
  ultimately show "segment_at m' seg = \<lparr>seg_vaddr = p_vaddr ph,
      seg_paddr = paddr + (p_vaddr ph - start_vaddr), seg_size = p_memsz ph, seg_flags = flags\<rparr>"
    by (simp add: segment_at_def)
qed

section \<open>The extent of a segment\<close>

definition seg_start :: "elf64_program_header_t \<Rightarrow> u64" where
  "seg_start ph = MATH_FLOOR (p_vaddr ph) PTM_PAGE_GRANULARITY"

definition seg_end :: "elf64_program_header_t \<Rightarrow> u64" where
  "seg_end ph = MATH_ALIGN_UP (p_vaddr ph + p_memsz ph) PTM_PAGE_GRANULARITY"

definition seg_pages :: "elf64_program_header_t \<Rightarrow> nat" where
  "seg_pages ph = (unat (p_vaddr ph) + unat (p_memsz ph) + 4095) div 4096 - unat (p_vaddr ph) div 4096"

text \<open>A segment the loader can place: not empty, not wrapping, no more file than memory.\<close>

definition seg_ok :: "elf64_program_header_t \<Rightarrow> bool" where
  "seg_ok ph \<longleftrightarrow> p_memsz ph \<noteq> 0 \<and> p_filesz ph \<le> p_memsz ph \<and>
     unat (p_vaddr ph) + unat (p_memsz ph) + 4096 < 2 ^ 64"

lemma seg_extent:
  assumes "seg_ok ph"
  shows "4096 dvd unat (seg_start ph)" and "unat (seg_end ph) = unat (seg_start ph) + 4096 * seg_pages ph"
    and "0 < seg_pages ph" and "unat (seg_start ph) \<le> unat (p_vaddr ph)"
    and "unat (p_vaddr ph) + unat (p_memsz ph) \<le> unat (seg_end ph)"
proof -
  let ?v = "unat (p_vaddr ph)" and ?m = "unat (p_memsz ph)"
  have m: "0 < ?m" "?v + ?m + 4096 < 2 ^ 64"
    using assms by (simp_all add: seg_ok_def unat_gt_0)
  have sum: "unat (p_vaddr ph + p_memsz ph) = ?v + ?m"
    using m by (subst unat_add_nowrap) simp_all
  have s: "unat (seg_start ph) = ?v div 4096 * 4096"
    by (simp add: seg_start_def unat_MATH_FLOOR)
  have e: "unat (seg_end ph) = (?v + ?m + 4095) div 4096 * 4096"
    unfolding seg_end_def using m by (subst unat_ALIGN_UP_page) (simp_all add: sum)
  have "?v div 4096 < (?v + ?m + 4095) div 4096"
    using m(1) by (simp add: less_eq_div_iff_mult_less_eq Suc_le_eq [symmetric] algebra_simps)
  then show "0 < seg_pages ph" "unat (seg_end ph) = unat (seg_start ph) + 4096 * seg_pages ph"
    by (simp_all add: seg_pages_def s e diff_mult_distrib2)
  show "4096 dvd unat (seg_start ph)" "unat (seg_start ph) \<le> ?v"
    by (simp_all add: s)
  show "?v + ?m \<le> unat (seg_end ph)"
    unfolding e using ceil_div_ge [of 4096 "?v + ?m"] by simp
qed

section \<open>Mapping its pages\<close>

context address_space
begin

lemma elf_map_loop_ok:
  assumes "cfg st" and "flags_ok flags" and "tables_ok fmt n root st"
    and "page_flags (p_flags (program_header (vm_mem st) phdr)) = flags"
    and "\<And>i. i < 56 \<Longrightarrow> kept fmt n root st (phdr + of_nat i)"
    and "unat last_v = unat j + 4096 * k" and "4096 dvd unat j"
    and "p = paddr + (j - start_v)" and "4096 dvd unat p" and "unat p + 4096 * k \<le> 2 ^ 51"
    and "region_canonical n j (4096 * k)" and "unmapped fmt n root j (4096 * k) st"
    and "spare (r + path_need fmt n (view st) root j k) (q + path_need fmt n (view st) root j k) (vm_pmm st)"
  shows "\<exists>st'. elf_map_loop map_region phdr j start_v last_v paddr st = ok st' \<and>
    region_mapped fmt n root (perms flags) j p (4096 * k) st st' \<and> spare r q (vm_pmm st') \<and> cfg st'"
  using assms
proof (induction k arbitrary: j p st)
  case 0
  then have "\<not> j < last_v"
    by (simp add: word_less_nat_alt)
  then show ?case
    using 0 region_refl by (subst elf_map_loop.simps) simp
next
  case (Suc k)
  have lt: "j < last_v"
    using Suc.prems(6) by (simp add: word_less_nat_alt)
  have low: "unat last_v < 2 ^ 64" "unat p + 4096 \<le> 2 ^ 51"
    using unat_less_64 [of last_v] Suc.prems(10) by simp_all
  have nat: "unat (j + 4096) = unat j + 4096" "unat (p + 4096) = unat p + 4096"
    using low Suc.prems(6) by (subst unat_add_nowrap; simp)+
  let ?N = "4096 * Suc k"
  have sz: "(4096 :: nat) \<le> ?N" "?N < 2 ^ 64" "(4096 :: nat) < 2 ^ 64" "?N - 4096 = 4096 * k"
    using low(1) Suc.prems(6) by simp_all
  have can1: "region_canonical n j 4096" and can2: "region_canonical n (j + of_nat 4096) (4096 * k)"
    using Suc.prems(11) region_canonical_sub [OF Suc.prems(11) sz(1,2)] by (auto simp: region_canonical_def)
  have un1: "unmapped fmt n root j 4096 st"
    using Suc.prems(12) by (simp add: unmapped_def)
  have g: "PTM_PAGE_GRANULARITY = 4096"
    by (simp add: page_size_defs)
  obtain st1 where st1: "map_region j p PTM_PAGE_GRANULARITY flags st = ok st1"
    "region_mapped fmt n root (perms flags) j p 4096 st st1"
    "spare (r + path_need fmt n (view st1) root (j + 4096) k) (q + path_need fmt n (view st1) root (j + 4096) k) (vm_pmm st1)"
    "cfg st1"
    by (rule map_spare_page [OF Suc.prems(1-3,7,9) _ _ _ Suc.prems(13)])
      (use can1 un1 low(2) in \<open>simp_all add: region_canonical_def unmapped_def\<close>)
  have conf: "same_config st st1" and ok1: "tables_ok fmt n root st1" and others: "others_kept fmt n root st st1"
    using st1(2) by (simp_all add: region_mapped_def)
  note keep = others_kept_kept [OF others conf]
  have ph1: "program_header (vm_mem st1) phdr = program_header (vm_mem st) phdr"
    by (rule program_header_cong) (rule keep(1) [OF Suc.prems(5)])
  have un2: "unmapped fmt n root (j + of_nat 4096) (4096 * k) st1"
    unfolding unmapped_def
  proof (intro allI impI)
    fix va assume va: "unat (va - (j + of_nat 4096)) < 4096 * k"
    have "unat (va - j) < ?N" "\<not> unat (va - j) < 4096"
      using region_split [OF sz(1,2,3), of va j] region_split_disjoint [OF sz(1,2), of va j] va
      by (auto simp: sz(4))
    then show "translate fmt st1 n root va = None"
      using st1(2) Suc.prems(12) by (simp add: region_mapped_def unmapped_def)
  qed
  have p1: "p + 4096 = paddr + (j + 4096 - start_v)"
    using Suc.prems(8) by simp
  have j1: "unat last_v = unat (j + 4096) + 4096 * k"
    using Suc.prems(6) nat(1) by simp
  have al1: "4096 dvd unat (j + 4096)" "4096 dvd unat (p + 4096)" "unat (p + 4096) + 4096 * k \<le> 2 ^ 51"
    using Suc.prems(7,9,10) nat by simp_all
  from Suc.IH [OF st1(4) Suc.prems(2) ok1 _ keep(2) [OF Suc.prems(5)] j1 al1(1) p1 al1(2,3) _ _ st1(3)]
  obtain st' where st': "elf_map_loop map_region phdr (j + 4096) start_v last_v paddr st1 = ok st'"
    "region_mapped fmt n root (perms flags) (j + 4096) (p + 4096) (4096 * k) st1 st'"
    "spare r q (vm_pmm st')" "cfg st'"
    using Suc.prems(4) ph1 can2 un2 by auto
  have "elf_map_loop map_region phdr j start_v last_v paddr st = ok st'"
    using lt st1(1) st'(1) Suc.prems(4,8) by (subst elf_map_loop.simps) (simp add: g)
  moreover have "region_mapped fmt n root (perms flags) j p ?N st st'"
    using region_compose [OF st1(2) _ sz(1,2), of st'] st'(2) by (simp add: sz(4))
  ultimately show ?case
    using st'(3,4) by blast
qed

end

section \<open>The pages of a segment\<close>

lemma in_array_frame:
  fixes p h a :: u64
  assumes "unat p + N \<le> 2 ^ 51" and "in_array (p + h) N a"
  shows "unat p \<le> unat (a - h)" and "unat (a - h) < unat p + N"
proof -
  have "unat (a - h) = unat (p + (a - (p + h)))"
    by simp
  also have "\<dots> = unat p + unat (a - (p + h))"
    using assms by (intro unat_add_nowrap) (simp add: in_array_def)
  finally show "unat p \<le> unat (a - h)" "unat (a - h) < unat p + N"
    using assms(2) by (simp_all add: in_array_def)
qed

text \<open>A kept address lies in no page the allocator still offers.\<close>

lemma kept_not_new:
  assumes wf: "wf_map (live (vm_pmm st))" and al: "4096 dvd unat p"
    and fit: "fits_at (vm_pmm st) (unat p) (4096 * j)" and low: "unat p + 4096 * j \<le> 2 ^ 51"
    and kept: "kept fmt n root st a"
  shows "\<not> in_array (p + hhdm_offset st) (4096 * j) a"
proof
  assume "in_array (p + hhdm_offset st) (4096 * j) a"
  note range = in_array_frame [OF low this]
  have "frame_free (vm_pmm st) (page_of (hhdm_offset st) a)"
    using range by (intro new_page_free [OF al fit wf])
  then show False
    using kept by (simp add: kept_def)
qed

text \<open>Clearing the pages and copying the file image into them.\<close>

definition fill_segment :: "memory \<Rightarrow> u64 \<Rightarrow> u64 \<Rightarrow> nat \<Rightarrow> u64 \<Rightarrow> u64 \<Rightarrow> nat \<Rightarrow> memory" where
  "fill_segment m base h len off src count = memcpy (base + off + h) src count (memset (base + h) 0 len m)"

lemma fill_segment_spec:
  assumes off: "unat off + count \<le> len" and len: "len \<le> 2 ^ 63"
    and apart: "\<And>i. i < count \<Longrightarrow> \<not> in_array (base + h) len (src + of_nat i)"
  shows "\<not> in_array (base + h) len a \<Longrightarrow> fill_segment m base h len off src count a = m a"
    and "unat x < len \<Longrightarrow> fill_segment m base h len off src count (base + x + h) =
      (if unat (x - off) < count then m (src + (x - off)) else 0)"
proof -
  have inside: "in_array (base + h) len (base + off + h + of_nat i)" if "i < count" for i
  proof -
    have "unat (off + of_nat i) = unat off + i"
      using that off len by (subst unat_add_nowrap) (simp_all add: unat_of_nat_64)
    then show ?thesis
      using that off by (simp add: in_array_def algebra_simps)
  qed
  have count: "count \<le> 2 ^ 64" "len \<le> 2 ^ 64"
    using off len by simp_all
  have copy: "fill_segment m base h len off src count a =
      (if unat (a - (base + off + h)) < count then memset (base + h) 0 len m (src + (a - (base + off + h)))
       else memset (base + h) 0 len m a)" for a
  proof -
    have "base + off + h + of_nat j \<noteq> src + of_nat k" if "j < k" "k < count" for j k
      using inside [of j] apart [of k] that by auto
    from memcpy_loop_spec [OF this] show ?thesis
      using count(1) by (simp add: fill_segment_def memcpy_def)
  qed
  show "fill_segment m base h len off src count a = m a" if a: "\<not> in_array (base + h) len a"
  proof -
    have "\<not> unat (a - (base + off + h)) < count"
      using inside [of "unat (a - (base + off + h))"] a by auto
    then show ?thesis
      using a by (simp add: copy memset_spec [OF count(2)])
  qed
  show "fill_segment m base h len off src count (base + x + h) =
      (if unat (x - off) < count then m (src + (x - off)) else 0)" if x: "unat x < len"
  proof -
    have diff: "base + x + h - (base + off + h) = x - off"
      by simp
    have "\<not> in_array (base + h) len (src + (x - off))" if "unat (x - off) < count"
      using apart [OF that] by simp
    then show ?thesis
      using x by (simp only: copy diff memset_spec [OF count(2)]) (simp add: in_array_def)
  qed
qed

end
