(* ===== verification/ElfLoad.thy ===== *)
theory ElfLoad
  imports ElfSegment
begin

text \<open>
  \<open>internal_elf_handle_pt_load\<close> as a whole. \<open>segment_loaded\<close> says what loading one segment means
  to the kernel that will run on it: its pages are mapped with the permissions of its header, they
  hold its bytes of the file and zeros around them, the segment table has its entry, and nothing
  that was in use before has changed.
\<close>

section \<open>What a loaded segment is\<close>

definition segment_loaded ::
  "pt_format \<Rightarrow> nat \<Rightarrow> u64 \<Rightarrow> bool \<times> bool \<times> bool \<Rightarrow> elf64_program_header_t \<Rightarrow> u64 \<Rightarrow> u64 \<Rightarrow> u64 \<Rightarrow>
    'a vm_state_scheme \<Rightarrow> 'a vm_state_scheme \<Rightarrow> bool" where
  "segment_loaded fmt n root perms ph elf seg p st st' \<longleftrightarrow>
     same_config st st' \<and> tables_ok fmt n root st' \<and> unat p + 4096 * seg_pages ph \<le> 2 ^ 51 \<and>
     (\<forall>va. translate fmt st' n root va =
        (if unat (va - seg_start ph) < 4096 * seg_pages ph then Some (p + (va - seg_start ph), perms)
         else translate fmt st n root va)) \<and>
     (\<forall>x. unat x < 4096 * seg_pages ph \<longrightarrow>
        \<not> kept fmt n root st (p + x + hhdm_offset st) \<and>
        kept fmt n root st' (p + x + hhdm_offset st) \<and>
        vm_mem st' (p + x + hhdm_offset st) =
          (if unat (x - (p_vaddr ph - seg_start ph)) < unat (p_filesz ph)
           then vm_mem st (p_offset ph + elf + (x - (p_vaddr ph - seg_start ph))) else 0)) \<and>
     segment_at (vm_mem st') seg = \<lparr>seg_vaddr = p_vaddr ph,
       seg_paddr = p + (p_vaddr ph - seg_start ph), seg_size = p_memsz ph,
       seg_flags = segment_flags (p_flags ph)\<rparr> \<and>
     (\<forall>a. kept fmt n root st a \<longrightarrow>
        kept fmt n root st' a \<and> (in_slot seg a \<or> vm_mem st' a = vm_mem st a))"

section \<open>The bytes the handler writes\<close>

definition segment_bytes :: "u64 \<Rightarrow> u64 \<Rightarrow> u64 \<Rightarrow> u64 \<Rightarrow> u64 \<Rightarrow> memory \<Rightarrow> memory" where
  "segment_bytes elf phdr seg h p m =
     (let ph = program_header m phdr
      in store_segment seg phdr p (seg_start ph) (segment_flags (p_flags ph))
           (fill_segment m p h (unat (seg_end ph - seg_start ph)) (p_vaddr ph - seg_start ph)
              (p_offset ph + elf) (unat (p_filesz ph))))"

lemma segment_bytes_spec:
  fixes m :: memory
  assumes ok: "seg_ok (program_header m phdr)"
    and slot: "\<And>i. i < 56 \<Longrightarrow> \<not> in_slot seg (phdr + of_nat i)"
    and low: "unat p + 4096 * seg_pages (program_header m phdr) \<le> 2 ^ 51"
    and new: "\<And>a. old a \<Longrightarrow> \<not> in_array (p + h) (4096 * seg_pages (program_header m phdr)) a"
    and oldphdr: "\<And>i. i < 56 \<Longrightarrow> old (phdr + of_nat i)"
    and oldslot: "\<And>a. in_slot seg a \<Longrightarrow> old a"
    and oldfile: "\<And>i. i < unat (p_filesz (program_header m phdr)) \<Longrightarrow>
      old (p_offset (program_header m phdr) + elf + of_nat i)"
  defines "ph \<equiv> program_header m phdr" and "m' \<equiv> segment_bytes elf phdr seg h p m"
  shows "\<not> in_slot seg a \<Longrightarrow> \<not> in_array (p + h) (4096 * seg_pages ph) a \<Longrightarrow> m' a = m a"
    and "unat x < 4096 * seg_pages ph \<Longrightarrow> m' (p + x + h) =
      (if unat (x - (p_vaddr ph - seg_start ph)) < unat (p_filesz ph)
       then m (p_offset ph + elf + (x - (p_vaddr ph - seg_start ph))) else 0)"
    and "segment_at m' seg = \<lparr>seg_vaddr = p_vaddr ph, seg_paddr = p + (p_vaddr ph - seg_start ph),
      seg_size = p_memsz ph, seg_flags = segment_flags (p_flags ph)\<rparr>"
    and "program_header m' phdr = ph"
    and "program_header (fill_segment m p h (unat (seg_end ph - seg_start ph))
      (p_vaddr ph - seg_start ph) (p_offset ph + elf) (unat (p_filesz ph))) phdr = ph"
proof -
  let ?N = "4096 * seg_pages ph"
  let ?m = "fill_segment m p h ?N (p_vaddr ph - seg_start ph) (p_offset ph + elf) (unat (p_filesz ph))"
  have ok': "seg_ok ph"
    using ok by (simp add: ph_def)
  note ext = seg_extent [OF ok']
  have N: "unat (seg_end ph - seg_start ph) = ?N"
    using ext by (subst unat_diff_nowrap) simp_all
  have off: "unat (p_vaddr ph - seg_start ph) + unat (p_filesz ph) \<le> ?N"
    using ext ok' by (subst unat_diff_nowrap) (auto simp: seg_ok_def word_le_nat_alt)
  have "?N \<le> 2 ^ 63"
    using low by (simp add: ph_def)
  note fill = fill_segment_spec [OF off this new [OF oldfile, folded ph_def]]
  have m': "m' = store_segment seg phdr p (seg_start ph) (segment_flags (p_flags ph)) ?m"
    by (simp add: m'_def segment_bytes_def Let_def N flip: ph_def)
  have ph1: "program_header ?m phdr = ph"
    unfolding ph_def by (rule program_header_cong) (rule fill(1) [unfolded ph_def, OF _ new [OF oldphdr]], simp_all)
  then show "program_header (fill_segment m p h (unat (seg_end ph - seg_start ph))
      (p_vaddr ph - seg_start ph) (p_offset ph + elf) (unat (p_filesz ph))) phdr = ph"
    by (simp only: N)
  note store = store_segment_spec [where m = ?m and paddr = p and
      start_vaddr = "seg_start ph" and flags = "segment_flags (p_flags ph)", OF slot, unfolded ph1, folded m']
  show "program_header m' phdr = ph"
    by (rule store(2))
  show "segment_at m' seg = \<lparr>seg_vaddr = p_vaddr ph, seg_paddr = p + (p_vaddr ph - seg_start ph),
      seg_size = p_memsz ph, seg_flags = segment_flags (p_flags ph)\<rparr>"
    by (rule store(3))
  show "m' a = m a" if "\<not> in_slot seg a" "\<not> in_array (p + h) ?N a"
    using store(1) [OF _ that(1)] fill(1) [OF _ that(2)] by simp
  show "m' (p + x + h) = (if unat (x - (p_vaddr ph - seg_start ph)) < unat (p_filesz ph)
       then m (p_offset ph + elf + (x - (p_vaddr ph - seg_start ph))) else 0)" if x: "unat x < ?N"
  proof -
    have "in_array (p + h) ?N (p + x + h)"
      using x by (simp add: in_array_def)
    then have "\<not> in_slot seg (p + x + h)"
      using new [OF oldslot] by (auto simp: ph_def)
    from store(1) [OF _ this] show ?thesis
      using fill(2) [OF _ x] by simp
  qed
qed

text \<open>The handler, once its pages are allocated and mapped.\<close>

lemma handle_shape:
  fixes st :: "'a vm_state_scheme"
  assumes alloc: "pmm_alloc_ext (of_nat (seg_pages ph)) PTM_PAGE_GRANULARITY PMM_MAP_TYPE_ALLOCATED (vm_pmm st) = ok (p, s)"
    and loop: "elf_map_loop f phdr (seg_start ph) (seg_start ph) (seg_end ph) p (st\<lparr>vm_pmm := s\<rparr>) = ok st2"
    and ph: "ph = program_header (vm_mem st) phdr" "ph = program_header (vm_mem st2) phdr" "seg_ok ph"
    and clear: "program_header (memset (p + hhdm_offset st2) 0 (4096 * seg_pages ph) (vm_mem st2)) phdr = ph"
    and seg: "seg = segments info + sizeof_bootinfo_segment * of_nat (segment_count info)"
    and finish: "program_header (segment_bytes elf phdr seg (hhdm_offset st2) p (vm_mem st2)) phdr = ph"
  shows "internal_elf_handle_pt_load f elf phdr info st =
    ok (info\<lparr>segment_count := segment_count info + 1, kernel_base := min (kernel_base info) (p_vaddr ph)\<rparr>,
        st2\<lparr>vm_mem := segment_bytes elf phdr seg (hhdm_offset st2) p (vm_mem st2)\<rparr>)"
proof -
  let ?N = "4096 * seg_pages ph"
  note ext = seg_extent [OF ph(3)]
  have N: "unat (seg_end ph - seg_start ph) = ?N"
    using ext by (subst unat_diff_nowrap) simp_all
  have "unat ((seg_end ph - seg_start ph) div PTM_PAGE_GRANULARITY) = seg_pages ph"
    by (simp add: unat_div_distrib N page_size_defs)
  then have count: "(seg_end ph - seg_start ph) div PTM_PAGE_GRANULARITY = of_nat (seg_pages ph)"
    by (metis unsigned_of_nat of_nat_unat ucast_id)
  let ?m = "memset (p + hhdm_offset st2) 0 ?N (vm_mem st2)"
  have bytes: "store_segment seg phdr p (seg_start ph) (segment_flags (p_flags ph))
      (memcpy (p + (p_vaddr ph - seg_start ph) + hhdm_offset st2) (p_offset ph + elf) (unat (p_filesz ph)) ?m) =
      segment_bytes elf phdr seg (hhdm_offset st2) p (vm_mem st2)"
    by (simp add: segment_bytes_def fill_segment_def Let_def N ph(2) [symmetric])
  show ?thesis
    by (simp add: internal_elf_handle_pt_load_def Let_def count alloc loop N bytes clear finish
        ph(1) [symmetric] seg [symmetric] seg_start_def [symmetric] seg_end_def [symmetric] min_def not_less)
qed

text \<open>Loading a segment, on any architecture that keeps the contract of the mapper.\<close>

context address_space
begin

lemma handle_segment:
  fixes st :: "'a vm_state_scheme" and info :: elfldr_loader_info_t
  defines "seg \<equiv> segments info + sizeof_bootinfo_segment * of_nat (segment_count info)"
  assumes conf: "cfg st" and tables: "tables_ok fmt n root st"
    and ph: "ph = program_header (vm_mem st) phdr" and okseg: "seg_ok ph"
    and flags: "flags_ok (page_flags (p_flags ph))"
    and keptphdr: "\<And>i. i < 56 \<Longrightarrow> kept fmt n root st (phdr + of_nat i)"
    and keptfile: "\<And>i. i < unat (p_filesz ph) \<Longrightarrow> kept fmt n root st (p_offset ph + elf + of_nat i)"
    and keptslot: "\<And>a. in_slot seg a \<Longrightarrow> kept fmt n root st a"
    and slot: "\<And>i. i < 56 \<Longrightarrow> \<not> in_slot seg (phdr + of_nat i)"
    and can: "region_canonical n (seg_start ph) (4096 * seg_pages ph)"
    and unm: "unmapped fmt n root (seg_start ph) (4096 * seg_pages ph) st"
    and spare: "spare (Suc r + tables_for n (4096 * seg_pages ph)) (q + seg_pages ph + tables_for n (4096 * seg_pages ph)) (vm_pmm st)"
  shows "\<exists>p st'. internal_elf_handle_pt_load map_region elf phdr info st =
      ok (info\<lparr>segment_count := segment_count info + 1,
               kernel_base := min (kernel_base info) (p_vaddr ph)\<rparr>, st') \<and>
    segment_loaded fmt n root (perms (page_flags (p_flags ph))) ph elf seg p st st' \<and>
    spare r q (vm_pmm st') \<and> cfg st'"
proof -
  let ?k = "seg_pages ph" and ?t = "tables_for n (4096 * seg_pages ph)"
  let ?pc = "of_nat ?k :: u64"
  let ?h = "hhdm_offset st"
  note ext = seg_extent [OF okseg]
  have "4096 * ?k < 2 ^ 64"
    using ext unat_less_64 [of "seg_end ph"] by simp
  then have pc: "unat ?pc = ?k"
    by (intro unat_of_nat_64) simp
  have wf: "wf_map (live (vm_pmm st))"
    using spare by (simp add: spare_def pmm_inv_def)
  obtain p s where p: "pmm_alloc_ext ?pc PTM_PAGE_GRANULARITY PMM_MAP_TYPE_ALLOCATED (vm_pmm st) = ok (p, s)"
    "4096 dvd unat p" "fits_at (vm_pmm st) (unat p) (4096 * ?k)"
    "took (vm_pmm st) (unat p) (4096 * ?k) PMM_MAP_TYPE_ALLOCATED s"
    "spare (r + ?t) (q + ?t) s"
    by (rule spare_alloc_ext [of "r + ?t" "q + ?k + ?t" "vm_pmm st" ?pc PMM_MAP_TYPE_ALLOCATED])
      (use spare ext(3) in \<open>simp_all add: pc algebra_simps\<close>)
  have low: "unat p + 4096 * ?k \<le> 2 ^ 51"
    using spare_fits_low [OF spare p(3)] ext(3) by simp
  define st1 where "st1 = st\<lparr>vm_pmm := s\<rparr>"
  have type: "PMM_MAP_TYPE_ALLOCATED \<noteq> PMM_MAP_TYPE_FREE"
    by simp
  note al = alloc_kept [OF tables p(4) type, folded st1_def]
  have new1: "kept fmt n root st1 a" if "in_array (p + ?h) (4096 * ?k) a" for a
    unfolding st1_def using in_array_frame [OF low that]
    by (intro alloc_new_kept [OF tables p(4) type p(2,3) wf])
  have cfg1: "cfg st1"
    using conf al(4) by (rule cfg)
  have budget: "spare (r + path_need fmt n (view st1) root (seg_start ph) ?k) (q + path_need fmt n (view st1) root (seg_start ph) ?k) s"
    by (rule spare_mono [OF p(5)]) (use path_need_le [OF levels(1) ext(1)] in simp_all)
  have loop: "\<exists>st2. elf_map_loop map_region phdr (seg_start ph) (seg_start ph) (seg_end ph) p st1 = ok st2 \<and>
      region_mapped fmt n root (perms (page_flags (p_flags ph))) (seg_start ph) p (4096 * ?k) st1 st2 \<and>
      spare r q (vm_pmm st2) \<and> cfg st2"
    using ph unm budget ext(2) low
    by (intro elf_map_loop_ok [OF cfg1 flags al(1) _ al(3) [OF keptphdr] _ ext(1) _ p(2) _ can])
      (simp_all add: st1_def unmapped_def al(2) [unfolded st1_def])
  then obtain st2 where st2: "elf_map_loop map_region phdr (seg_start ph) (seg_start ph) (seg_end ph) p st1 = ok st2"
    "region_mapped fmt n root (perms (page_flags (p_flags ph))) (seg_start ph) p (4096 * ?k) st1 st2"
    "spare r q (vm_pmm st2)" "cfg st2"
    by blast
  have same12: "same_config st1 st2" and ok2: "tables_ok fmt n root st2" and others: "others_kept fmt n root st1 st2"
    and tr: "\<And>va. translate fmt st2 n root va = (if unat (va - seg_start ph) < 4096 * ?k
      then Some (p + (va - seg_start ph), perms (page_flags (p_flags ph))) else translate fmt st1 n root va)"
    using st2(2) by (simp_all add: region_mapped_def)
  note keep = others_kept_kept [OF others same12]
  have h: "hhdm_offset st1 = ?h" "hhdm_offset st2 = ?h"
    using same12 al(4) by (simp_all add: same_config_def)
  have old: "kept fmt n root st2 a" "vm_mem st2 a = vm_mem st a" if "kept fmt n root st a" for a
    using keep [OF al(3) [OF that]] by (simp_all add: st1_def)
  have old_new: "\<not> in_array (p + ?h) (4096 * ?k) a" if "kept fmt n root st a" for a
    by (rule kept_not_new [OF wf p(2,3) low that])
  have ph2: "ph = program_header (vm_mem st2) phdr"
    unfolding ph by (rule program_header_cong [symmetric]) (rule old(2) [OF keptphdr])
  define m where "m = segment_bytes elf phdr seg ?h p (vm_mem st2)"
  define st' where "st' = st2\<lparr>vm_mem := m\<rparr>"
  note spec = segment_bytes_spec [where m = "vm_mem st2" and old = "kept fmt n root st" and h = ?h and
      elf = elf and phdr = phdr and seg = seg and p = p, folded ph2 m_def, OF okseg slot low old_new keptphdr keptslot keptfile]
  have bytes: "m a = vm_mem st2 a" if "\<not> in_slot seg a" "\<not> in_array (p + ?h) (4096 * ?k) a" for a
    using that by (intro spec(1))
  have inside: "m (p + x + ?h) = (if unat (x - (p_vaddr ph - seg_start ph)) < unat (p_filesz ph)
       then vm_mem st2 (p_offset ph + elf + (x - (p_vaddr ph - seg_start ph))) else 0)"
    if "unat x < 4096 * ?k" for x
    using that by (intro spec(2))
  have entry: "segment_at m seg = \<lparr>seg_vaddr = p_vaddr ph, seg_paddr = p + (p_vaddr ph - seg_start ph),
      seg_size = p_memsz ph, seg_flags = segment_flags (p_flags ph)\<rparr>"
    by (rule spec(3))
  have header: "program_header m phdr = ph"
    by (rule spec(4))
  have "program_header (memset (p + ?h) 0 (4096 * ?k) (vm_mem st2)) phdr = program_header (vm_mem st2) phdr"
    using old_new [OF keptphdr] \<open>4096 * ?k < 2 ^ 64\<close>
    by (intro program_header_cong) (simp add: memset_spec)
  then have clear: "program_header (memset (p + hhdm_offset st2) 0 (4096 * ?k) (vm_mem st2)) phdr = ph"
    by (simp add: h flip: ph2)
  have call: "internal_elf_handle_pt_load map_region elf phdr info st =
      ok (info\<lparr>segment_count := segment_count info + 1,
               kernel_base := min (kernel_base info) (p_vaddr ph)\<rparr>, st')"
    unfolding st'_def m_def h(2) [symmetric]
    using st2(1) header
    by (intro handle_shape [OF p(1) _ ph ph2 okseg clear meta_eq_to_obj_eq [OF seg_def]])
      (simp_all add: st1_def m_def h)
  have new2: "kept fmt n root st2 (p + x + ?h)" if "unat x < 4096 * ?k" for x
    using that by (intro keep(2) new1) (simp add: in_array_def)
  have only: "m a = vm_mem st2 a" if "\<not> kept fmt n root st2 a" for a
  proof (rule bytes)
    show "\<not> in_slot seg a"
      using that old(1) [OF keptslot] by blast
    show "\<not> in_array (p + ?h) (4096 * ?k) a"
      using that keep(2) [OF new1] by blast
  qed
  note wr = write_kept [where m = m, OF ok2 only, folded st'_def]
  have bin: "vm_mem st2 (p_offset ph + elf + y) = vm_mem st (p_offset ph + elf + y)"
    if "unat y < unat (p_filesz ph)" for y
    using old(2) [OF keptfile [OF that]] by simp
  have "segment_loaded fmt n root (perms (page_flags (p_flags ph))) ph elf seg p st st'"
    unfolding segment_loaded_def
  proof (intro conjI allI impI)
    show "same_config st st'"
      using al(4) same12 wr(4) by (simp add: same_config_def)
    show "tables_ok fmt n root st'"
      by (rule wr(1))
    show "unat p + 4096 * ?k \<le> 2 ^ 51"
      by (rule low)
    show "translate fmt st' n root va = (if unat (va - seg_start ph) < 4096 * ?k
        then Some (p + (va - seg_start ph), perms (page_flags (p_flags ph))) else translate fmt st n root va)" for va
      by (simp add: wr(2) tr al(2))
    show "segment_at (vm_mem st') seg = \<lparr>seg_vaddr = p_vaddr ph, seg_paddr = p + (p_vaddr ph - seg_start ph),
        seg_size = p_memsz ph, seg_flags = segment_flags (p_flags ph)\<rparr>"
      using entry by (simp add: st'_def)
    fix x :: u64 assume x: "unat x < 4096 * ?k"
    show "\<not> kept fmt n root st (p + x + hhdm_offset st)"
      using old_new [of "p + x + ?h"] x by (auto simp: in_array_def)
    show "kept fmt n root st' (p + x + hhdm_offset st)"
      using new2 [OF x] wr(3) by simp
    show "vm_mem st' (p + x + hhdm_offset st) =
        (if unat (x - (p_vaddr ph - seg_start ph)) < unat (p_filesz ph)
         then vm_mem st (p_offset ph + elf + (x - (p_vaddr ph - seg_start ph))) else 0)"
      using inside [OF x] bin by (simp add: st'_def)
  next
    fix a assume a: "kept fmt n root st a"
    show "kept fmt n root st' a"
      using old(1) [OF a] wr(3) by simp
    show "in_slot seg a \<or> vm_mem st' a = vm_mem st a"
      using bytes [OF _ old_new [OF a]] old(2) [OF a] by (auto simp: st'_def)
  qed
  moreover have "spare r q (vm_pmm st')" "cfg st'"
    using st2(3,4) cfg wr(4) by (auto simp: st'_def)
  ultimately show ?thesis
    using call by blast
qed

end

end
