(* ===== verification/ElfImage.thy ===== *)
theory ElfImage
  imports ElfLoad
begin

text \<open>
  All segments of an image. \<open>segment_present\<close> is what the kernel finds of one segment at the end;
  the loop keeps it for the segments already loaded, since later ones take fresh pages, other
  virtual addresses and other entries of the segment table.
\<close>

section \<open>The headers of the image\<close>

lemma elf_header_cong:
  assumes "\<And>i. i < 64 \<Longrightarrow> m' (p + of_nat i) = m (p + of_nat i)"
  shows "elf_header m' p = elf_header m p"
  using bytes_at_offset_cong [of 64 m' p m 0 16, OF assms] bytes_at_offset_cong [of 64 m' p m 16 2, OF assms]
    bytes_at_offset_cong [of 64 m' p m 18 2, OF assms] bytes_at_offset_cong [of 64 m' p m 20 4, OF assms]
    bytes_at_offset_cong [of 64 m' p m 24 8, OF assms] bytes_at_offset_cong [of 64 m' p m 32 8, OF assms]
    bytes_at_offset_cong [of 64 m' p m 40 8, OF assms] bytes_at_offset_cong [of 64 m' p m 48 4, OF assms]
    bytes_at_offset_cong [of 64 m' p m 52 2, OF assms] bytes_at_offset_cong [of 64 m' p m 54 2, OF assms]
    bytes_at_offset_cong [of 64 m' p m 56 2, OF assms] bytes_at_offset_cong [of 64 m' p m 58 2, OF assms]
    bytes_at_offset_cong [of 64 m' p m 60 2, OF assms] bytes_at_offset_cong [of 64 m' p m 62 2, OF assms]
  by (simp add: elf_header_def load16_def load32_def load64_def)

definition phdr_at :: "u64 \<Rightarrow> nat \<Rightarrow> u64" where
  "phdr_at phdrs i = phdrs + sizeof_program_header * of_nat i"

definition phnum :: "memory \<Rightarrow> u64 \<Rightarrow> nat" where
  "phnum m elf = unat (e_phnum (elf_header m elf))"

text \<open>The loadable segments from the header \<open>i\<close> on.\<close>

definition loads_from :: "memory \<Rightarrow> u64 \<Rightarrow> u64 \<Rightarrow> nat \<Rightarrow> elf64_program_header_t list" where
  "loads_from m elf phdrs i =
     [ph \<leftarrow> map (\<lambda>k. program_header m (phdr_at phdrs k)) [i..<phnum m elf]. p_type ph = PTYPE_LOAD]"

lemma loads_from_end: "phnum m elf \<le> i \<Longrightarrow> loads_from m elf phdrs i = []"
  by (simp add: loads_from_def)

lemma loads_from_step: "i < phnum m elf \<Longrightarrow> loads_from m elf phdrs i =
   (if p_type (program_header m (phdr_at phdrs i)) = PTYPE_LOAD
    then program_header m (phdr_at phdrs i) # loads_from m elf phdrs (Suc i) else loads_from m elf phdrs (Suc i))"
  by (simp add: loads_from_def upt_conv_Cons)

lemma count_loads_length: "count_loads m elf phdrs i c = c + length (loads_from m elf phdrs i)"
proof (induction m elf phdrs i c rule: count_loads.induct)
  case (1 m elf phdrs i c)
  show ?case
  proof (cases "i < phnum m elf")
    case True
    then show ?thesis
      using 1 by (subst count_loads.simps) (simp add: loads_from_step phnum_def phdr_at_def)
  next
    case False
    then show ?thesis
      by (subst count_loads.simps) (simp add: loads_from_end phnum_def)
  qed
qed

lemma length_loads: "length (loads_from m elf phdrs i) \<le> phnum m elf - i"
  by (simp add: loads_from_def) (metis length_filter_le length_map length_upt)

lemma phnum_less: "phnum m elf < 65536"
  using unsigned_less [where 'a = nat and w = "e_phnum (elf_header m elf)"] by (simp add: phnum_def)

lemma loads_from_mem:
  "i < phnum m elf \<Longrightarrow> p_type (program_header m (phdr_at phdrs i)) = PTYPE_LOAD \<Longrightarrow>
    program_header m (phdr_at phdrs i) \<in> set (loads_from m elf phdrs 0)"
  by (auto simp: loads_from_def)

text \<open>The bytes of the image the loader reads: the header, the program headers and the file
  contents of the loadable segments.\<close>

definition image_byte :: "memory \<Rightarrow> u64 \<Rightarrow> u64 \<Rightarrow> u64 \<Rightarrow> bool" where
  "image_byte m elf phdrs a \<longleftrightarrow>
     in_array elf 64 a \<or> (\<exists>k < phnum m elf. in_array (phdr_at phdrs k) 56 a) \<or>
     (\<exists>ph\<in>set (loads_from m elf phdrs 0). in_array (p_offset ph + elf) (unat (p_filesz ph)) a)"

lemma image_cong:
  assumes same: "\<And>a. image_byte m elf phdrs a \<Longrightarrow> m' a = m a"
  shows "phnum m' elf = phnum m elf" and "i < phnum m elf \<Longrightarrow>
      program_header m' (phdr_at phdrs i) = program_header m (phdr_at phdrs i)"
    and "loads_from m' elf phdrs i = loads_from m elf phdrs i"
    and "elf_header m' elf = elf_header m elf"
    and "image_byte m' elf phdrs a = image_byte m elf phdrs a"
proof -
  show h: "elf_header m' elf = elf_header m elf"
    by (rule elf_header_cong) (rule same, simp add: image_byte_def in_array_def unat_of_nat_64)
  then show n: "phnum m' elf = phnum m elf"
    by (simp add: phnum_def)
  show ph: "program_header m' (phdr_at phdrs i) = program_header m (phdr_at phdrs i)" if "i < phnum m elf" for i
    using that by (intro program_header_cong same) (auto simp: image_byte_def in_array_def unat_of_nat_64)
  show loads: "loads_from m' elf phdrs i = loads_from m elf phdrs i" for i
  proof -
    have "map (\<lambda>k. program_header m' (phdr_at phdrs k)) [i..<phnum m elf] =
        map (\<lambda>k. program_header m (phdr_at phdrs k)) [i..<phnum m elf]"
      by (rule map_cong [OF refl]) (simp add: ph)
    then show ?thesis
      unfolding loads_from_def n by (rule arg_cong)
  qed
  show "image_byte m' elf phdrs a = image_byte m elf phdrs a"
    by (simp add: image_byte_def n loads)
qed

section \<open>The segment table\<close>

definition slot_at :: "u64 \<Rightarrow> nat \<Rightarrow> u64" where
  "slot_at segs k = segs + sizeof_bootinfo_segment * of_nat k"

lemma slots_apart:
  assumes "in_slot (slot_at segs k) a" and "in_slot (slot_at segs j) a" and "k < 2 ^ 16" "j < 2 ^ 16"
  shows "k = j"
proof -
  have "slot_at segs k + of_nat (unat (a - slot_at segs k)) = slot_at segs j + of_nat (unat (a - slot_at segs j))"
    by simp
  then have "(of_nat (25 * k + unat (a - slot_at segs k)) :: u64) = of_nat (25 * j + unat (a - slot_at segs j))"
    by (simp add: slot_at_def sizeof_bootinfo_segment_def algebra_simps)
  moreover have "25 * k + unat (a - slot_at segs k) < 2 ^ 64" "25 * j + unat (a - slot_at segs j) < 2 ^ 64"
    using assms by (simp_all add: in_slot_def)
  ultimately have "25 * k + unat (a - slot_at segs k) = 25 * j + unat (a - slot_at segs j)"
    by (metis of_nat_inj64)
  then have "(25 * k + unat (a - slot_at segs k)) div 25 = (25 * j + unat (a - slot_at segs j)) div 25"
    by simp
  then show ?thesis
    using assms(1,2) by (simp add: in_slot_def)
qed

lemma segment_at_cong:
  assumes "\<And>a. in_slot seg a \<Longrightarrow> m' a = m a" shows "segment_at m' seg = segment_at m seg"
proof -
  have b: "m' (seg + of_nat i) = m (seg + of_nat i)" if "i < 25" for i
    using that by (intro assms) (simp add: in_slot_def unat_of_nat_64)
  have last: "m' (seg + 24) = m (seg + 24)"
    using b [of 24] by simp
  show ?thesis
    using bytes_at_offset_cong [of 25 m' seg m 0 8, OF b] bytes_at_offset_cong [of 25 m' seg m 8 8, OF b]
      bytes_at_offset_cong [of 25 m' seg m 16 8, OF b] last
    by (simp add: segment_at_def load64_def)
qed

section \<open>What a loaded image is\<close>

definition in_segment :: "elf64_program_header_t \<Rightarrow> u64 \<Rightarrow> bool" where
  "in_segment ph va \<longleftrightarrow> unat (va - seg_start ph) < 4096 * seg_pages ph"

definition file_byte :: "memory \<Rightarrow> u64 \<Rightarrow> elf64_program_header_t \<Rightarrow> u64 \<Rightarrow> u8" where
  "file_byte m elf ph x =
     (if unat (x - (p_vaddr ph - seg_start ph)) < unat (p_filesz ph)
      then m (p_offset ph + elf + (x - (p_vaddr ph - seg_start ph))) else 0)"

definition segment_entry :: "elf64_program_header_t \<Rightarrow> u64 \<Rightarrow> bootinfo_segment_t" where
  "segment_entry ph p = \<lparr>seg_vaddr = p_vaddr ph, seg_paddr = p + (p_vaddr ph - seg_start ph),
     seg_size = p_memsz ph, seg_flags = segment_flags (p_flags ph)\<rparr>"

definition segment_present ::
  "pt_format \<Rightarrow> nat \<Rightarrow> u64 \<Rightarrow> (u8 \<Rightarrow> bool \<times> bool \<times> bool) \<Rightarrow> elf64_program_header_t \<Rightarrow> u64 \<Rightarrow> u64 \<Rightarrow> u64 \<Rightarrow>
    memory \<Rightarrow> 'a vm_state_scheme \<Rightarrow> bool" where
  "segment_present fmt n root perms ph elf seg p m st \<longleftrightarrow>
     unat p + 4096 * seg_pages ph \<le> 2 ^ 51 \<and>
     (\<forall>va. in_segment ph va \<longrightarrow>
        translate fmt st n root va = Some (p + (va - seg_start ph), perms (page_flags (p_flags ph))) \<and>
        kept fmt n root st (p + (va - seg_start ph) + hhdm_offset st) \<and>
        vm_mem st (p + (va - seg_start ph) + hhdm_offset st) = file_byte m elf ph (va - seg_start ph)) \<and>
     segment_at (vm_mem st) seg = segment_entry ph p"

definition segments_loaded ::
  "pt_format \<Rightarrow> nat \<Rightarrow> u64 \<Rightarrow> (u8 \<Rightarrow> bool \<times> bool \<times> bool) \<Rightarrow> u64 \<Rightarrow> u64 \<Rightarrow> nat \<Rightarrow>
    elf64_program_header_t list \<Rightarrow> 'a vm_state_scheme \<Rightarrow> 'a vm_state_scheme \<Rightarrow> bool" where
  "segments_loaded fmt n root perms elf segs c L st st' \<longleftrightarrow>
     same_config st st' \<and> tables_ok fmt n root st' \<and>
     (\<forall>k<length L. \<exists>p. segment_present fmt n root perms (L ! k) elf (slot_at segs (c + k)) p (vm_mem st) st') \<and>
     (\<forall>va. (\<forall>ph\<in>set L. \<not> in_segment ph va) \<longrightarrow> translate fmt st' n root va = translate fmt st n root va) \<and>
     (\<forall>a. kept fmt n root st a \<longrightarrow> kept fmt n root st' a \<and>
        ((\<exists>k<length L. in_slot (slot_at segs (c + k)) a) \<or> vm_mem st' a = vm_mem st a))"

lemma segments_loaded_Nil: "tables_ok fmt n root st \<Longrightarrow> segments_loaded fmt n root perms elf segs c [] st st"
  by (simp add: segments_loaded_def same_config_def)

text \<open>One segment, seen right after it was loaded, and after the others.\<close>

lemma segment_loaded_present:
  assumes "segment_loaded fmt n root (perms (page_flags (p_flags ph))) ph elf seg p st st'"
  shows "segment_present fmt n root perms ph elf seg p (vm_mem st) st'"
  using assms
  by (simp add: segment_loaded_def segment_present_def in_segment_def file_byte_def segment_entry_def same_config_def)

lemma segment_present_kept:
  assumes here: "segment_present fmt n root perms ph elf seg p m st1"
    and conf: "same_config st1 st'"
    and same: "\<And>va. in_segment ph va \<Longrightarrow> translate fmt st' n root va = translate fmt st1 n root va"
    and kept: "\<And>a. kept fmt n root st1 a \<Longrightarrow> kept fmt n root st' a"
    and mem: "\<And>va. in_segment ph va \<Longrightarrow>
      vm_mem st' (p + (va - seg_start ph) + hhdm_offset st1) = vm_mem st1 (p + (va - seg_start ph) + hhdm_offset st1)"
    and slot: "\<And>a. in_slot seg a \<Longrightarrow> vm_mem st' a = vm_mem st1 a"
  shows "segment_present fmt n root perms ph elf seg p m st'"
proof -
  have h: "hhdm_offset st' = hhdm_offset st1"
    using conf by (simp add: same_config_def)
  have "segment_at (vm_mem st') seg = segment_at (vm_mem st1) seg"
    by (rule segment_at_cong) (rule slot)
  then show ?thesis
    using here same kept mem by (simp add: segment_present_def h)
qed

lemma segment_present_source:
  assumes "segment_present fmt n root perms ph elf seg p m st"
    and "\<And>a. in_array (p_offset ph + elf) (unat (p_filesz ph)) a \<Longrightarrow> m a = m' a"
  shows "segment_present fmt n root perms ph elf seg p m' st"
proof -
  have "file_byte m elf ph x = file_byte m' elf ph x" for x
    using assms(2) [of "p_offset ph + elf + (x - (p_vaddr ph - seg_start ph))"]
    by (simp add: file_byte_def in_array_def)
  then show ?thesis
    using assms(1) by (simp add: segment_present_def)
qed

lemma segments_loaded_Cons:
  assumes first: "segment_loaded fmt n root (perms (page_flags (p_flags ph))) ph elf (slot_at segs c) p st st1"
    and rest: "segments_loaded fmt n root perms elf segs (Suc c) L st1 st'"
    and apart: "\<And>ph' va. ph' \<in> set L \<Longrightarrow> in_segment ph va \<Longrightarrow> \<not> in_segment ph' va"
    and slots: "\<And>k a. k \<le> length L \<Longrightarrow> in_slot (slot_at segs (c + k)) a \<Longrightarrow> kept fmt n root st a"
    and c: "c + length L < 2 ^ 16"
    and source: "\<And>ph' a. ph' \<in> set L \<Longrightarrow> in_array (p_offset ph' + elf) (unat (p_filesz ph')) a \<Longrightarrow>
      vm_mem st1 a = vm_mem st a"
  shows "segments_loaded fmt n root perms elf segs c (ph # L) st st'"
  unfolding segments_loaded_def
proof (intro conjI allI impI)
  have conf: "same_config st st1" "same_config st1 st'"
    using first rest by (simp_all add: segment_loaded_def segments_loaded_def)
  then show "same_config st st'"
    by (simp add: same_config_def)
  show "tables_ok fmt n root st'"
    using rest by (simp add: segments_loaded_def)
  have keep: "kept fmt n root st' a"
    "(\<exists>k<length L. in_slot (slot_at segs (Suc c + k)) a) \<or> vm_mem st' a = vm_mem st1 a"
    if "kept fmt n root st1 a" for a
    using rest that by (auto simp: segments_loaded_def)
  have keep1: "kept fmt n root st1 a" "in_slot (slot_at segs c) a \<or> vm_mem st1 a = vm_mem st a"
    if "kept fmt n root st a" for a
    using first that by (auto simp: segment_loaded_def)
  have slot: "vm_mem st' a = vm_mem st1 a" if here: "in_slot (slot_at segs c) a" for a
  proof -
    have "kept fmt n root st1 a"
      using slots [of 0 a] here by (intro keep1(1)) simp
    moreover have "\<not> in_slot (slot_at segs (Suc c + k)) a" if "k < length L" for k
      using slots_apart [OF here, of "Suc c + k"] that c by auto
    ultimately show ?thesis
      using keep(2) by blast
  qed
  have "segment_present fmt n root perms ph elf (slot_at segs c) p (vm_mem st) st'"
  proof (rule segment_present_kept [OF segment_loaded_present [where perms = perms, OF first] conf(2) _ keep(1) _ slot])
    fix va assume va: "in_segment ph va"
    then show "translate fmt st' n root va = translate fmt st1 n root va"
      using rest apart by (simp add: segments_loaded_def)
    let ?a = "p + (va - seg_start ph) + hhdm_offset st1"
    have h: "hhdm_offset st1 = hhdm_offset st"
      using conf by (simp add: same_config_def)
    have a: "\<not> kept fmt n root st ?a" "kept fmt n root st1 ?a"
      using first va unfolding h by (auto simp: segment_loaded_def in_segment_def)
    have "\<not> in_slot (slot_at segs (Suc c + k)) ?a" if "k < length L" for k
      using slots [of "Suc k" ?a] that a(1) by auto
    then show "vm_mem st' ?a = vm_mem st1 ?a"
      using keep(2) [OF a(2)] by blast
  qed
  moreover have "\<exists>p. segment_present fmt n root perms (L ! k) elf (slot_at segs (Suc c + k)) p (vm_mem st) st'"
    if k: "k < length L" for k
  proof -
    obtain p where "segment_present fmt n root perms (L ! k) elf (slot_at segs (Suc c + k)) p (vm_mem st1) st'"
      using rest k by (auto simp: segments_loaded_def)
    then have "segment_present fmt n root perms (L ! k) elf (slot_at segs (Suc c + k)) p (vm_mem st) st'"
      by (rule segment_present_source) (rule source [OF nth_mem [OF k]])
    then show ?thesis
      by blast
  qed
  ultimately show "\<exists>p. segment_present fmt n root perms ((ph # L) ! k) elf (slot_at segs (c + k)) p (vm_mem st) st'"
    if "k < length (ph # L)" for k
    using that by (cases k) auto
  show "translate fmt st' n root va = translate fmt st n root va"
    if "\<forall>ph'\<in>set (ph # L). \<not> in_segment ph' va" for va
    using that first rest by (simp add: segments_loaded_def segment_loaded_def in_segment_def)
  fix a assume a: "kept fmt n root st a"
  show "kept fmt n root st' a"
    by (rule keep(1) [OF keep1(1) [OF a]])
  consider "in_slot (slot_at segs c) a" | k where "k < length L" "in_slot (slot_at segs (Suc c + k)) a" |
    "vm_mem st' a = vm_mem st a"
    using keep(2) [OF keep1(1) [OF a]] keep1(2) [OF a] by auto
  then show "(\<exists>k<length (ph # L). in_slot (slot_at segs (c + k)) a) \<or> vm_mem st' a = vm_mem st a"
  proof cases
    case 1
    then show ?thesis
      by (intro disjI1 exI [of _ 0]) simp
  next
    case (2 k)
    then show ?thesis
      by (intro disjI1 exI [of _ "Suc k"]) simp
  qed simp
qed

section \<open>Loading all segments\<close>

definition loadable ::
  "pt_format \<Rightarrow> nat \<Rightarrow> u64 \<Rightarrow> (u8 \<Rightarrow> bool) \<Rightarrow> elf64_program_header_t list \<Rightarrow> 'a vm_state_scheme \<Rightarrow> bool" where
  "loadable fmt n root flags_ok L st \<longleftrightarrow>
     (\<forall>ph\<in>set L. seg_ok ph \<and> flags_ok (page_flags (p_flags ph)) \<and>
        region_canonical n (seg_start ph) (4096 * seg_pages ph) \<and>
        unmapped fmt n root (seg_start ph) (4096 * seg_pages ph) st) \<and>
     sorted_wrt (\<lambda>ph ph'. \<forall>va. in_segment ph va \<longrightarrow> \<not> in_segment ph' va) L"

definition image_in_place ::
  "pt_format \<Rightarrow> nat \<Rightarrow> u64 \<Rightarrow> u64 \<Rightarrow> u64 \<Rightarrow> u64 \<Rightarrow> nat \<Rightarrow> 'a vm_state_scheme \<Rightarrow> bool" where
  "image_in_place fmt n root elf phdrs segs count st \<longleftrightarrow>
     (\<forall>a. image_byte (vm_mem st) elf phdrs a \<longrightarrow> kept fmt n root st a) \<and>
     (\<forall>k<count. \<forall>a. in_slot (slot_at segs k) a \<longrightarrow>
        kept fmt n root st a \<and> \<not> image_byte (vm_mem st) elf phdrs a)"

definition pages_of :: "elf64_program_header_t list \<Rightarrow> nat" where
  "pages_of L = sum_list (map seg_pages L)"

definition tables_of :: "nat \<Rightarrow> elf64_program_header_t list \<Rightarrow> nat" where
  "tables_of n L = sum_list (map (\<lambda>ph. tables_for n (4096 * seg_pages ph)) L)"

lemma tables_of_simps [simp]:
  "tables_of n [] = 0" "tables_of n (ph # L) = tables_for n (4096 * seg_pages ph) + tables_of n L"
  by (simp_all add: tables_of_def)

lemma pages_of_simps [simp]: "pages_of [] = 0" "pages_of (ph # L) = seg_pages ph + pages_of L"
  by (simp_all add: pages_of_def)

text \<open>Both conditions hold on for the remaining segments once the first is loaded.\<close>

lemma after_segment:
  assumes first: "segment_loaded fmt n root perms ph elf (slot_at segs c) p st st1"
    and c: "c < count" and place: "image_in_place fmt n root elf phdrs segs count st"
    and load: "loadable fmt n root flags_ok (ph # L) st"
  shows "\<And>a. image_byte (vm_mem st) elf phdrs a \<Longrightarrow> vm_mem st1 a = vm_mem st a"
    and "image_in_place fmt n root elf phdrs segs count st1" and "loadable fmt n root flags_ok L st1"
proof -
  have keep: "kept fmt n root st1 a" "in_slot (slot_at segs c) a \<or> vm_mem st1 a = vm_mem st a"
    if "kept fmt n root st a" for a
    using first that by (auto simp: segment_loaded_def)
  show same: "vm_mem st1 a = vm_mem st a" if "image_byte (vm_mem st) elf phdrs a" for a
    using keep(2) [of a] that place c by (auto simp: image_in_place_def)
  show "image_in_place fmt n root elf phdrs segs count st1"
    using place keep(1) image_cong(5) [OF same] by (simp add: image_in_place_def)
  have "translate fmt st1 n root va = translate fmt st n root va" if "\<not> in_segment ph va" for va
    using first that by (simp add: segment_loaded_def in_segment_def)
  moreover have "\<not> in_segment ph va" if "ph' \<in> set L" "in_segment ph' va" for ph' va
    using that load by (auto simp: loadable_def)
  ultimately show "loadable fmt n root flags_ok L st1"
    using load by (simp add: loadable_def unmapped_def flip: in_segment_def)
qed

context address_space
begin

lemma load_segments_ok:
  assumes "cfg st" and "tables_ok fmt n root st" and "L = loads_from (vm_mem st) elf phdrs i"
    and "image_in_place fmt n root elf phdrs (segments info) count st" and "loadable fmt n root flags_ok L st"
    and "segment_count info + length L \<le> count" and "count < 2 ^ 16"
    and "spare (length L + tables_of n L + r) (pages_of L + tables_of n L + q) (vm_pmm st)"
  shows "\<exists>st'. load_segments map_region elf phdrs i info st =
      ok (info\<lparr>segment_count := segment_count info + length L,
               kernel_base := foldl (\<lambda>b ph. min b (p_vaddr ph)) (kernel_base info) L\<rparr>, st') \<and>
    segments_loaded fmt n root perms elf (segments info) (segment_count info) L st st' \<and>
    spare r q (vm_pmm st') \<and> cfg st'"
  using assms
proof (induction "phnum (vm_mem st) elf - i" arbitrary: i info st L)
  case 0
  then have "load_segments map_region elf phdrs i info st = ok (info, st)" "L = []"
    by (simp_all add: load_segments.simps [of _ _ _ i] loads_from_end phnum_def)
  then show ?case
    using 0 by (simp add: segments_loaded_Nil)
next
  case (Suc d)
  let ?c = "segment_count info"
  let ?ph = "program_header (vm_mem st) (phdr_at phdrs i)"
  have i: "i < phnum (vm_mem st) elf"
    using Suc.hyps(2) by simp
  show ?case
  proof (cases "p_type ?ph = PTYPE_LOAD")
    case False
    then have "load_segments map_region elf phdrs i info st = load_segments map_region elf phdrs (Suc i) info st"
      using i by (subst load_segments.simps) (simp add: phnum_def phdr_at_def)
    moreover have "L = loads_from (vm_mem st) elf phdrs (Suc i)"
      using Suc.prems(3) False i by (simp add: loads_from_step)
    ultimately show ?thesis
      using Suc.hyps(1) [of st "Suc i" L info] Suc.hyps(2) Suc.prems by simp
  next
    case True
    define L' where "L' = loads_from (vm_mem st) elf phdrs (Suc i)"
    have L: "L = ?ph # L'"
      using Suc.prems(3) True i by (simp add: loads_from_step L'_def)
    have ph: "seg_ok ?ph" "flags_ok (page_flags (p_flags ?ph))"
      "region_canonical n (seg_start ?ph) (4096 * seg_pages ?ph)"
      "unmapped fmt n root (seg_start ?ph) (4096 * seg_pages ?ph) st"
      using Suc.prems(5) by (simp_all add: loadable_def L)
    have c: "?c < count" "?c + length L' < 2 ^ 16" "?c + 1 + length L' \<le> count"
      using Suc.prems(6,7) by (simp_all add: L)
    have slots: "kept fmt n root st a" "\<not> image_byte (vm_mem st) elf phdrs a"
      if "in_slot (slot_at (segments info) k) a" "k < count" for k a
      using Suc.prems(4) that by (auto simp: image_in_place_def)
    have image: "kept fmt n root st a" if "image_byte (vm_mem st) elf phdrs a" for a
      using Suc.prems(4) that by (auto simp: image_in_place_def)
    have hdr: "image_byte (vm_mem st) elf phdrs (phdr_at phdrs i + of_nat j)" if "j < 56" for j
      using that i by (auto simp: image_byte_def in_array_def unat_of_nat_64)
    have bin: "image_byte (vm_mem st) elf phdrs (p_offset ?ph + elf + of_nat j)"
      if "j < unat (p_filesz ?ph)" for j
    proof -
      have "j < 2 ^ 64"
        using that unat_less_64 [of "p_filesz ?ph"] by simp
      then show ?thesis
        using that loads_from_mem [OF i True] unfolding image_byte_def in_array_def
        by (intro disjI2 bexI [of _ ?ph]) (simp_all add: unat_of_nat_64)
    qed
    define info1 where "info1 = info\<lparr>segment_count := ?c + 1, kernel_base := min (kernel_base info) (p_vaddr ?ph)\<rparr>"
    have "\<exists>p st1. internal_elf_handle_pt_load map_region elf (phdr_at phdrs i) info st = ok (info1, st1) \<and>
        segment_loaded fmt n root (perms (page_flags (p_flags ?ph))) ?ph elf (slot_at (segments info) ?c) p st st1 \<and>
        spare (length L' + tables_of n L' + r) (pages_of L' + tables_of n L' + q) (vm_pmm st1) \<and> cfg st1"
      unfolding info1_def slot_at_def
      using slots [OF _ c(1)] Suc.prems(8)
      by (intro handle_segment [OF Suc.prems(1,2) refl ph(1,2) image [OF hdr] image [OF bin] _ _ ph(3,4)])
        (auto simp: L slot_at_def algebra_simps dest: hdr)
    then obtain p st1 where st1: "internal_elf_handle_pt_load map_region elf (phdr_at phdrs i) info st = ok (info1, st1)"
      "segment_loaded fmt n root (perms (page_flags (p_flags ?ph))) ?ph elf (slot_at (segments info) ?c) p st st1"
      "spare (length L' + tables_of n L' + r) (pages_of L' + tables_of n L' + q) (vm_pmm st1)" "cfg st1"
      by blast
    note after = after_segment [OF st1(2) c(1) Suc.prems(4) Suc.prems(5) [unfolded L]]
    have same: "vm_mem st1 a = vm_mem st a" if "image_byte (vm_mem st) elf phdrs a" for a
      by (rule after(1) [OF that])
    have ok1: "tables_ok fmt n root st1"
      using st1(2) by (simp add: segment_loaded_def)
    have d: "d = phnum (vm_mem st1) elf - Suc i"
      using Suc.hyps(2) image_cong(1) [OF same] by simp
    have L1: "L' = loads_from (vm_mem st1) elf phdrs (Suc i)"
      unfolding L'_def by (rule image_cong(3) [OF same, symmetric])
    have info1: "segments info1 = segments info" "segment_count info1 = ?c + 1"
      "kernel_base info1 = min (kernel_base info) (p_vaddr ?ph)"
      by (simp_all add: info1_def)
    from Suc.hyps(1) [OF d st1(4) ok1 L1, of info1] obtain st' where
      st': "load_segments map_region elf phdrs (Suc i) info1 st1 = ok (info1\<lparr>segment_count := ?c + 1 + length L',
               kernel_base := foldl (\<lambda>b ph. min b (p_vaddr ph)) (min (kernel_base info) (p_vaddr ?ph)) L'\<rparr>, st')"
      "segments_loaded fmt n root perms elf (segments info) (Suc ?c) L' st1 st'" "spare r q (vm_pmm st')" "cfg st'"
      using after(2,3) c(3) Suc.prems(7) st1(3) unfolding info1 by auto
    have "load_segments map_region elf phdrs i info st = load_segments map_region elf phdrs (Suc i) info1 st1"
      using i True st1(1) by (subst load_segments.simps) (simp add: phnum_def phdr_at_def)
    then have "load_segments map_region elf phdrs i info st = ok (info\<lparr>segment_count := ?c + length L,
               kernel_base := foldl (\<lambda>b ph. min b (p_vaddr ph)) (kernel_base info) L\<rparr>, st')"
      using st'(1) by (simp add: L info1_def)
    moreover have "segments_loaded fmt n root perms elf (segments info) ?c L st st'"
      unfolding L
    proof (rule segments_loaded_Cons [OF st1(2) st'(2) _ _ c(2)])
      show "\<not> in_segment ph' va" if "ph' \<in> set L'" "in_segment ?ph va" for ph' va
        using that Suc.prems(5) by (auto simp: loadable_def L)
      show "kept fmt n root st a" if "k \<le> length L'" "in_slot (slot_at (segments info) (?c + k)) a" for k a
        using slots(1) [OF that(2)] that(1) c(3) by simp
      show "vm_mem st1 a = vm_mem st a"
        if "ph' \<in> set L'" "in_array (p_offset ph' + elf) (unat (p_filesz ph')) a" for ph' a
      proof (rule same)
        have "ph' \<in> set (loads_from (vm_mem st) elf phdrs 0)"
          using that(1) by (auto simp: L'_def loads_from_def)
        then show "image_byte (vm_mem st) elf phdrs a"
          using that(2) by (auto simp: image_byte_def)
      qed
    qed
    ultimately show ?thesis
      using st'(3,4) by blast
  qed
qed

end

end
