(* ===== verification/ElfInfo.thy ===== *)
theory ElfInfo
  imports ElfImage
begin

text \<open>
  How the loader finds the kernel's boot information: the first section with the right name gives a virtual
  address, the first entry of the segment table that holds it the physical one. Once the segments are loaded
  this search agrees with the page tables, and it succeeds whenever a loaded segment holds the section.
\<close>

section \<open>The two searches\<close>

definition holds_addr :: "memory \<Rightarrow> u64 \<Rightarrow> u64 \<Rightarrow> nat \<Rightarrow> bool" where
  "holds_addr m segs addr k \<longleftrightarrow>
     (let seg = segment_at m (slot_at segs k) in seg_vaddr seg \<le> addr \<and> addr < seg_vaddr seg + seg_size seg)"

definition entry_address :: "memory \<Rightarrow> u64 \<Rightarrow> u64 \<Rightarrow> nat \<Rightarrow> u64" where
  "entry_address m segs addr k =
     (let seg = segment_at m (slot_at segs k) in seg_paddr seg + (addr - seg_vaddr seg))"

lemma find_segment_find:
  "find_segment m h addr segs j count =
     (case find (holds_addr m segs addr) [j..<count] of None \<Rightarrow> 0 | Some k \<Rightarrow> entry_address m segs addr k + h)"
proof (induction "count - j" arbitrary: j)
  case 0
  then show ?case
    by (subst find_segment.simps) simp
next
  case (Suc d)
  then have j: "j < count" "d = count - Suc j"
    by simp_all
  then have "find_segment m h addr segs j count = (if holds_addr m segs addr j then entry_address m segs addr j + h
      else find_segment m h addr segs (Suc j) count)"
    by (subst find_segment.simps) (simp add: holds_addr_def entry_address_def slot_at_def Let_def)
  then show ?case
    using Suc.hyps(1) [OF j(2)] j(1) by (simp add: upt_conv_Cons)
qed

definition section_at :: "u64 \<Rightarrow> memory \<Rightarrow> nat \<Rightarrow> elf64_section_header_t" where
  "section_at shdrs m i = section_header m (shdrs + sizeof_section_header * of_nat i)"

definition has_name :: "u64 \<Rightarrow> u64 \<Rightarrow> u64 \<Rightarrow> memory \<Rightarrow> nat \<Rightarrow> bool" where
  "has_name lit shdrs tab m i \<longleftrightarrow> memcmp (tab + ucast (sh_name (section_at shdrs m i))) lit 20 m = 0"

lemma find_info_find:
  "find_info lit elf shdrs tab i info st =
     (case find (has_name lit shdrs tab (vm_mem st)) [i..<unat (e_shnum (elf_header (vm_mem st) elf))] of None \<Rightarrow> 0
      | Some j \<Rightarrow> find_segment (vm_mem st) (hhdm_offset st) (sh_addr (section_at shdrs (vm_mem st) j))
          (segments info) 0 (segment_count info))"
proof (induction "unat (e_shnum (elf_header (vm_mem st) elf)) - i" arbitrary: i)
  case 0
  then show ?case
    by (subst find_info.simps) simp
next
  case (Suc d)
  then have i: "i < unat (e_shnum (elf_header (vm_mem st) elf))" "d = unat (e_shnum (elf_header (vm_mem st) elf)) - Suc i"
    by simp_all
  then have "find_info lit elf shdrs tab i info st = (if has_name lit shdrs tab (vm_mem st) i
      then find_segment (vm_mem st) (hhdm_offset st) (sh_addr (section_at shdrs (vm_mem st) i)) (segments info) 0 (segment_count info)
      else find_info lit elf shdrs tab (Suc i) info st)"
    by (subst find_info.simps) (simp add: has_name_def section_at_def)
  then show ?case
    using Suc.hyps(1) [OF i(2)] i(1) by (simp add: upt_conv_Cons)
qed

text \<open>The first section with the name has this virtual address.\<close>

definition kernel_section :: "u64 \<Rightarrow> memory \<Rightarrow> u64 \<Rightarrow> u64 \<Rightarrow> bool" where
  "kernel_section lit m elf addr \<longleftrightarrow>
     (let h = elf_header m elf;
          shdrs = elf + e_shoff h;
          tab = elf + sh_offset (section_at shdrs m (unat (e_shstrndx h)))
      in e_shoff h \<noteq> 0 \<and> e_shstrndx h \<noteq> 0 \<and>
         (\<exists>i < unat (e_shnum h). has_name lit shdrs tab m i \<and> (\<forall>j<i. \<not> has_name lit shdrs tab m j) \<and>
            sh_addr (section_at shdrs m i) = addr))"

definition in_memory :: "elf64_program_header_t \<Rightarrow> u64 \<Rightarrow> bool" where
  "in_memory ph addr \<longleftrightarrow> p_vaddr ph \<le> addr \<and> addr < p_vaddr ph + p_memsz ph"

section \<open>The page tables agree\<close>

lemma in_memory_segment:
  assumes "seg_ok ph" and "in_memory ph addr" shows "in_segment ph addr"
proof -
  note ext = seg_extent [OF assms(1)]
  have sum: "unat (p_vaddr ph + p_memsz ph) = unat (p_vaddr ph) + unat (p_memsz ph)"
    using assms(1) by (subst unat_add_nowrap) (simp_all add: seg_ok_def)
  have "unat (p_vaddr ph) \<le> unat addr" "unat addr < unat (p_vaddr ph) + unat (p_memsz ph)"
    using assms(2) sum by (simp_all add: in_memory_def word_le_nat_alt word_less_nat_alt)
  then show ?thesis
    using ext unfolding in_segment_def by (subst unat_diff_nowrap) simp_all
qed

lemma present_entry:
  assumes present: "segment_present fmt n root perms ph elf (slot_at segs k) p m st" and ok: "seg_ok ph"
  shows "holds_addr (vm_mem st) segs addr k = in_memory ph addr"
    and "in_memory ph addr \<Longrightarrow> translate fmt st n root addr =
      Some (entry_address (vm_mem st) segs addr k, perms (page_flags (p_flags ph)))"
    and "in_memory ph addr \<Longrightarrow> unat (entry_address (vm_mem st) segs addr k) < 2 ^ 51"
proof -
  have e: "segment_at (vm_mem st) (slot_at segs k) = segment_entry ph p"
    using present by (simp add: segment_present_def)
  then have a: "entry_address (vm_mem st) segs addr k = p + (addr - seg_start ph)"
    by (simp add: entry_address_def segment_entry_def)
  show "holds_addr (vm_mem st) segs addr k = in_memory ph addr"
    by (simp add: holds_addr_def in_memory_def e segment_entry_def)
  assume "in_memory ph addr"
  then have in_seg: "in_segment ph addr"
    by (rule in_memory_segment [OF ok])
  then show "translate fmt st n root addr =
      Some (entry_address (vm_mem st) segs addr k, perms (page_flags (p_flags ph)))"
    using present by (simp add: segment_present_def a)
  have low: "unat p + unat (addr - seg_start ph) < 2 ^ 51"
    using present in_seg by (simp add: segment_present_def in_segment_def)
  then show "unat (entry_address (vm_mem st) segs addr k) < 2 ^ 51"
    unfolding a by (subst unat_add_nowrap) simp_all
qed

lemma high_half_nonzero:
  fixes x h :: u64
  assumes "unat x < 2 ^ 51" and "0 < unat h" and "unat h + 2 ^ 51 \<le> 2 ^ 64" shows "x + h \<noteq> 0"
proof -
  have "unat (x + h) = unat x + unat h"
    using assms by (subst unat_add_nowrap) simp_all
  then show ?thesis
    using assms(2) by (metis add_is_0 less_irrefl unat_0)
qed

text \<open>What is looked up once the segments are in place: the pointer is the direct-map address of what the
  section's address is translated to.\<close>

lemma info_lookup:
  fixes st :: "'a vm_state_scheme" and elf lit :: u64 and info :: elfldr_loader_info_t
  defines "shdrs \<equiv> elf + e_shoff (elf_header (vm_mem st) elf)"
  defines "tab \<equiv> elf + sh_offset (section_header (vm_mem st)
    (shdrs + sizeof_section_header * ucast (e_shstrndx (elf_header (vm_mem st) elf))))"
  defines "v \<equiv> find_info lit elf shdrs tab 0 info st"
  assumes present: "\<And>k. k < length L \<Longrightarrow>
      \<exists>p. segment_present fmt n root perms (L ! k) elf (slot_at (segments info) k) p m st"
    and ok: "\<And>ph. ph \<in> set L \<Longrightarrow> seg_ok ph" and count: "segment_count info = length L"
    and hdr: "e_shoff (elf_header (vm_mem st) elf) \<noteq> 0" "e_shstrndx (elf_header (vm_mem st) elf) \<noteq> 0"
  shows "v \<noteq> 0 \<Longrightarrow> \<exists>addr perm. kernel_section lit (vm_mem st) elf addr \<and>
      translate fmt st n root addr = Some (v - hhdm_offset st, perm)"
    and "kernel_section lit (vm_mem st) elf addr \<Longrightarrow> ph \<in> set L \<Longrightarrow> in_memory ph addr \<Longrightarrow>
      0 < unat (hhdm_offset st) \<Longrightarrow> unat (hhdm_offset st) + 2 ^ 51 \<le> 2 ^ 64 \<Longrightarrow> v \<noteq> 0"
proof -
  let ?m = "vm_mem st" let ?h = "hhdm_offset st" let ?S = "segments info"
  have tab: "tab = elf + sh_offset (section_at shdrs ?m (unat (e_shstrndx (elf_header ?m elf))))"
    by (simp add: tab_def section_at_def unsigned_ucast_eq)
  have sec: "kernel_section lit ?m elf a \<longleftrightarrow> (\<exists>i < unat (e_shnum (elf_header ?m elf)). has_name lit shdrs tab ?m i \<and>
      (\<forall>j<i. \<not> has_name lit shdrs tab ?m j) \<and> sh_addr (section_at shdrs ?m i) = a)" for a
    using hdr by (simp add: kernel_section_def tab shdrs_def Let_def)
  have entry: "holds_addr ?m ?S a k = in_memory (L ! k) a"
    "in_memory (L ! k) a \<Longrightarrow> \<exists>perm. translate fmt st n root a = Some (entry_address ?m ?S a k, perm)"
    "in_memory (L ! k) a \<Longrightarrow> unat (entry_address ?m ?S a k) < 2 ^ 51" if k: "k < length L" for a k
  proof -
    obtain p where p: "segment_present fmt n root perms (L ! k) elf (slot_at ?S k) p m st"
      using present [OF k] by blast
    note e = present_entry [OF p ok [OF nth_mem [OF k]]]
    show "holds_addr ?m ?S a k = in_memory (L ! k) a" "in_memory (L ! k) a \<Longrightarrow> unat (entry_address ?m ?S a k) < 2 ^ 51"
      "in_memory (L ! k) a \<Longrightarrow> \<exists>perm. translate fmt st n root a = Some (entry_address ?m ?S a k, perm)"
      using e [of a] by blast+
  qed
  show "\<exists>addr perm. kernel_section lit ?m elf addr \<and> translate fmt st n root addr = Some (v - ?h, perm)" if nz: "v \<noteq> 0"
  proof -
    obtain i where i: "find (has_name lit shdrs tab ?m) [0..<unat (e_shnum (elf_header ?m elf))] = Some i"
      "v = find_segment ?m ?h (sh_addr (section_at shdrs ?m i)) ?S 0 (length L)"
      using nz by (cases "find (has_name lit shdrs tab ?m) [0..<unat (e_shnum (elf_header ?m elf))]")
        (simp_all add: v_def find_info_find count)
    moreover obtain k where k0: "find (holds_addr ?m ?S (sh_addr (section_at shdrs ?m i))) [0..<length L] = Some k"
      using nz i(2) by (cases "find (holds_addr ?m ?S (sh_addr (section_at shdrs ?m i))) [0..<length L]")
        (simp_all add: find_segment_find)
    ultimately have v: "v = entry_address ?m ?S (sh_addr (section_at shdrs ?m i)) k + ?h"
      by (simp add: find_segment_find)
    have k: "k < length L" "holds_addr ?m ?S (sh_addr (section_at shdrs ?m i)) k"
      using k0 by (auto simp: find_Some_iff)
    have "kernel_section lit ?m elf (sh_addr (section_at shdrs ?m i))"
      unfolding sec using i(1) by (auto simp: find_Some_iff)
    then show ?thesis
      using entry(1,2) [OF k(1)] k(2) by (fastforce simp: v)
  qed
  show "v \<noteq> 0" if here: "kernel_section lit ?m elf addr" and ph: "ph \<in> set L" "in_memory ph addr"
    and high: "0 < unat ?h" "unat ?h + 2 ^ 51 \<le> 2 ^ 64"
  proof -
    obtain i where i: "i < unat (e_shnum (elf_header ?m elf))" "has_name lit shdrs tab ?m i"
      "\<forall>j<i. \<not> has_name lit shdrs tab ?m j" "sh_addr (section_at shdrs ?m i) = addr"
      using here unfolding sec by blast
    have "find (has_name lit shdrs tab ?m) [0..<unat (e_shnum (elf_header ?m elf))] = Some i"
      unfolding find_Some_iff using i(1-3) by (intro exI [of _ i]) simp
    then have v: "v = find_segment ?m ?h addr ?S 0 (length L)"
      by (simp add: v_def find_info_find i(4) count)
    obtain k0 where "k0 < length L" "holds_addr ?m ?S addr k0"
      using ph entry(1) by (metis in_set_conv_nth)
    then have "find (holds_addr ?m ?S addr) [0..<length L] \<noteq> None"
      by (auto simp: find_None_iff)
    then obtain k where k: "find (holds_addr ?m ?S addr) [0..<length L] = Some k"
      by blast
    then have "k < length L" "holds_addr ?m ?S addr k"
      by (auto simp: find_Some_iff)
    then have "unat (entry_address ?m ?S addr k) < 2 ^ 51"
      using entry by blast
    then show ?thesis
      unfolding v find_segment_find k using high_half_nonzero [OF _ high] by simp
  qed
qed

end
