(* ===== verification/ElfKernel.thy ===== *)
theory ElfKernel
  imports ElfInfo
begin

text \<open>
  \<open>elfldr_load_kernel\<close>: the segment table is allocated, the segments are loaded, and the kernel's
  boot information is found through the section headers. The pointer the loader reports for it is
  the direct-map address of the memory its virtual address is mapped to.
\<close>

section \<open>The image as a whole\<close>

definition kernel_loads :: "memory \<Rightarrow> u64 \<Rightarrow> elf64_program_header_t list" where
  "kernel_loads m elf = loads_from m elf (elf + e_phoff (elf_header m elf)) 0"

text \<open>Pages of the segment table.\<close>

definition table_pages :: "nat \<Rightarrow> nat" where
  "table_pages k = (25 * k + 4095) div 4096"

lemma table_pages_code:
  assumes "k < 2 ^ 16"
  shows "unat (MATH_ALIGN_UP (of_nat k * sizeof_bootinfo_segment) PTM_PAGE_GRANULARITY div
    PTM_PAGE_GRANULARITY) = table_pages k" and "25 * k \<le> 4096 * table_pages k"
proof -
  have "unat (of_nat k * sizeof_bootinfo_segment) = 25 * k"
    using assms by (subst unat_mult_nowrap) (simp_all add: sizeof_bootinfo_segment_def unat_of_nat_64)
  then have "unat (MATH_ALIGN_UP (of_nat k * sizeof_bootinfo_segment) PTM_PAGE_GRANULARITY) =
      4096 * table_pages k"
    using assms by (subst unat_ALIGN_UP_page) (simp_all add: table_pages_def)
  then show "unat (MATH_ALIGN_UP (of_nat k * sizeof_bootinfo_segment) PTM_PAGE_GRANULARITY div
      PTM_PAGE_GRANULARITY) = table_pages k"
    by (simp add: unat_div_distrib page_size_defs)
  show "25 * k \<le> 4096 * table_pages k"
    using ceil_div_ge [of 4096 "25 * k"] by (simp add: table_pages_def mult.commute)
qed

lemma kernel_base_min:
  "L \<noteq> [] \<Longrightarrow> foldl (\<lambda>b ph. min b (p_vaddr ph)) (- 1) L = Min (p_vaddr ` set L)"
proof -
  have fold: "foldl (\<lambda>b ph. min b (p_vaddr ph)) b L = Min (insert b (p_vaddr ` set L))" for b
  proof (induction L arbitrary: b)
    case (Cons ph L)
    have "Min (insert (min b (p_vaddr ph)) (p_vaddr ` set L)) = Min (insert b (insert (p_vaddr ph) (p_vaddr ` set L)))"
      by (cases "L = []") (simp_all add: min.assoc)
    then show ?case
      using Cons.IH by simp
  qed simp
  assume "L \<noteq> []"
  then have "Min (insert (- 1) (p_vaddr ` set L)) = min (- 1) (Min (p_vaddr ` set L))"
    by simp
  then show ?thesis
    by (simp add: fold min_absorb2)
qed

text \<open>A fresh segment table: its entries are kept and apart from the image.\<close>

lemma fresh_table_in_place:
  assumes tables: "tables_ok fmt n root st" and wf: "wf_map (live (vm_pmm st))"
    and al: "4096 dvd unat p" and fit: "fits_at (vm_pmm st) (unat p) (4096 * j)"
    and took: "took (vm_pmm st) (unat p) (4096 * j) PMM_MAP_TYPE_ALLOCATED s"
    and low: "unat p + 4096 * j \<le> 2 ^ 51" and count: "25 * count \<le> 4096 * j" "count < 2 ^ 16"
    and image: "\<And>a. image_byte (vm_mem st) elf phdrs a \<Longrightarrow> kept fmt n root st a"
  shows "image_in_place fmt n root elf phdrs (p + hhdm_offset st) count (st\<lparr>vm_pmm := s\<rparr>)"
    and "\<And>k a. k < count \<Longrightarrow> in_slot (slot_at (p + hhdm_offset st) k) a \<Longrightarrow> \<not> kept fmt n root st a"
proof -
  have type: "PMM_MAP_TYPE_ALLOCATED \<noteq> PMM_MAP_TYPE_FREE"
    by simp
  note al' = alloc_kept [OF tables took type]
  have inside: "in_array (p + hhdm_offset st) (4096 * j) a"
    if "k < count" "in_slot (slot_at (p + hhdm_offset st) k) a" for k a
  proof -
    let ?d = "a - slot_at (p + hhdm_offset st) k"
    have d: "unat ?d < 25" "k < 2 ^ 16"
      using that count(2) by (simp_all add: in_slot_def)
    then have k: "unat (25 * of_nat k :: u64) = 25 * k"
      by (subst unat_mult_nowrap) (simp_all add: unat_of_nat_64)
    have eq: "a - (p + hhdm_offset st) = 25 * of_nat k + ?d"
      by (simp add: slot_at_def sizeof_bootinfo_segment_def)
    have "unat (25 * of_nat k + ?d) = 25 * k + unat ?d"
      using d by (subst unat_add_nowrap) (simp_all add: k)
    then show ?thesis
      unfolding in_array_def eq using d that(1) count(1) by simp
  qed
  show new: "\<not> kept fmt n root st a" if "k < count" "in_slot (slot_at (p + hhdm_offset st) k) a" for k a
    using kept_not_new [OF wf al fit low] inside [OF that] by blast
  have "kept fmt n root (st\<lparr>vm_pmm := s\<rparr>) a" if "k < count" "in_slot (slot_at (p + hhdm_offset st) k) a" for k a
    using in_array_frame [OF low inside [OF that]]
    by (intro alloc_new_kept [OF tables took type al fit wf])
  then show "image_in_place fmt n root elf phdrs (p + hhdm_offset st) count (st\<lparr>vm_pmm := s\<rparr>)"
    using image al'(3) new by (simp add: image_in_place_def) blast
qed

context address_space
begin

lemma load_kernel_ok:
  fixes st :: "'a vm_state_scheme" and elf :: u64
  defines "L \<equiv> kernel_loads (vm_mem st) elf"
  assumes conf: "cfg st" and tables: "tables_ok fmt n root st"
    and supported: "elf_supported expected (vm_mem st) elf" and ne: "L \<noteq> []"
    and image: "\<And>a. image_byte (vm_mem st) elf (elf + e_phoff (elf_header (vm_mem st) elf)) a \<Longrightarrow> kept fmt n root st a"
    and load: "loadable fmt n root flags_ok L st"
    and spare: "spare (Suc (length L + tables_of n L + r))
      (table_pages (length L) + (pages_of L + tables_of n L + q)) (vm_pmm st)"
  shows "\<exists>found info st'. elfldr_load_kernel map_region expected lit elf out st = ok (found, info, st') \<and>
    entry_point info = e_entry (elf_header (vm_mem st) elf) \<and> segment_count info = length L \<and>
    kernel_base info = Min (p_vaddr ` set L) \<and> tables_ok fmt n root st' \<and>
    (\<forall>k<length L. \<exists>p. segment_present fmt n root perms (L ! k) elf (slot_at (segments info) k) p (vm_mem st) st') \<and>
    (\<forall>va. (\<forall>ph\<in>set L. \<not> in_segment ph va) \<longrightarrow> translate fmt st' n root va = translate fmt st n root va) \<and>
    (\<forall>a. kept fmt n root st a \<longrightarrow> kept fmt n root st' a \<and> vm_mem st' a = vm_mem st a) \<and>
    (found \<longrightarrow> (\<exists>addr perm. kernel_section lit (vm_mem st') elf addr \<and>
       translate fmt st' n root addr = Some (kernel_info info - hhdm_offset st, perm))) \<and>
    (\<forall>addr. kernel_section lit (vm_mem st') elf addr \<longrightarrow> (\<exists>ph\<in>set L. in_memory ph addr) \<longrightarrow>
       0 < unat (hhdm_offset st) \<longrightarrow> unat (hhdm_offset st) + 2 ^ 51 \<le> 2 ^ 64 \<longrightarrow> found) \<and>
    spare r q (vm_pmm st') \<and> cfg st'"
proof -
  let ?phdrs = "elf + e_phoff (elf_header (vm_mem st) elf)"
  let ?k = "table_pages (length L)"
  let ?pc = "MATH_ALIGN_UP (of_nat (length L) * sizeof_bootinfo_segment) PTM_PAGE_GRANULARITY div
    PTM_PAGE_GRANULARITY"
  have L: "L = loads_from (vm_mem st) elf ?phdrs 0"
    by (simp add: L_def kernel_loads_def)
  have len: "length L < 2 ^ 16"
    using length_loads [of "vm_mem st" elf ?phdrs 0] phnum_less [of "vm_mem st" elf] by (simp add: L)
  have loads: "count_loads (vm_mem st) elf ?phdrs 0 0 = length L"
    by (simp add: count_loads_length L)
  note pc = table_pages_code [OF len]
  have k: "0 < ?k"
    using pc(2) ne by (cases L) simp_all
  have wf: "wf_map (live (vm_pmm st))"
    using spare by (simp add: spare_def pmm_inv_def)
  obtain p s where p: "pmm_alloc_ext ?pc PTM_PAGE_GRANULARITY PMM_MAP_TYPE_ALLOCATED (vm_pmm st) = ok (p, s)"
    "4096 dvd unat p" "fits_at (vm_pmm st) (unat p) (4096 * ?k)"
    "took (vm_pmm st) (unat p) (4096 * ?k) PMM_MAP_TYPE_ALLOCATED s"
    "spare (length L + tables_of n L + r) (pages_of L + tables_of n L + q) s"
    using k by (rule_tac spare_alloc_ext [OF spare, of ?pc PMM_MAP_TYPE_ALLOCATED]) (simp_all add: pc(1))
  define st1 where "st1 = st\<lparr>vm_pmm := s\<rparr>"
  have type: "PMM_MAP_TYPE_ALLOCATED \<noteq> PMM_MAP_TYPE_FREE"
    by simp
  note al = alloc_kept [OF tables p(4) type, folded st1_def]
  have low: "unat p + 4096 * ?k \<le> 2 ^ 51"
    using spare_fits_low [OF spare p(3)] k by simp
  have place: "image_in_place fmt n root elf ?phdrs (p + hhdm_offset st) (length L) st1"
    unfolding st1_def by (rule fresh_table_in_place(1) [OF tables wf p(2,3,4) low pc(2) len image])
  have fresh: "\<not> kept fmt n root st a" if "k < length L" "in_slot (slot_at (p + hhdm_offset st) k) a" for k a
    by (rule fresh_table_in_place(2) [OF tables wf p(2,3,4) low pc(2) len image that])
  define info1 where "info1 = \<lparr>entry_point = e_entry (elf_header (vm_mem st) elf), kernel_base = - 1,
    segments = p + hhdm_offset st, segment_count = 0, kernel_info = 0\<rparr>"
  have load1: "loadable fmt n root flags_ok L st1"
    using load by (simp add: loadable_def unmapped_def al(2))
  have mem1: "vm_mem st1 = vm_mem st" "vm_pmm st1 = s" "hhdm_offset st1 = hhdm_offset st"
    by (simp_all add: st1_def)
  from load_segments_ok [of st1 L elf ?phdrs 0 info1 "length L" r q] obtain st' where
    st': "load_segments map_region elf ?phdrs 0 info1 st1 = ok (info1\<lparr>segment_count := length L,
      kernel_base := Min (p_vaddr ` set L)\<rparr>, st')"
    "segments_loaded fmt n root perms elf (segments info1) 0 L st1 st'" "spare r q (vm_pmm st')" "cfg st'"
    using cfg [OF conf al(4)] al(1) place load1 len p(5) kernel_base_min [OF ne] L
    by (auto simp: info1_def mem1 st1_def)
  let ?info = "info1\<lparr>segment_count := length L, kernel_base := Min (p_vaddr ` set L)\<rparr>"
  have keep: "kept fmt n root st' a" "vm_mem st' a = vm_mem st a" if "kept fmt n root st a" for a
  proof -
    have "\<not> in_slot (slot_at (segments info1) k) a" if "k < length L" for k
      using fresh [OF that, of a] \<open>kept fmt n root st a\<close> by (auto simp: info1_def)
    then show "kept fmt n root st' a" "vm_mem st' a = vm_mem st a"
      using st'(2) al(3) [OF that] by (auto simp: segments_loaded_def mem1)
  qed
  have head: "elf_header (vm_mem st') elf = elf_header (vm_mem st) elf"
    by (rule image_cong(4)) (rule keep(2) [OF image])
  have conf': "hhdm_offset st' = hhdm_offset st"
    using st'(2) al(4) by (simp add: segments_loaded_def same_config_def)
  have present: "\<exists>p. segment_present fmt n root perms (L ! k) elf (slot_at (segments info1) k) p (vm_mem st) st'"
    if "k < length L" for k
    using st'(2) that by (simp add: segments_loaded_def mem1)
  have present': "\<exists>p. segment_present fmt n root perms (L ! k) elf (slot_at (segments ?info) k) p (vm_mem st) st'"
    if "k < length L" for k
    using present [OF that] by simp
  have okL: "seg_ok ph" if "ph \<in> set L" for ph
    using load that by (simp add: loadable_def)
  have count': "segment_count ?info = length L"
    by simp
  let ?h = "elf_header (vm_mem st) elf"
  define tab where "tab = elf + sh_offset (section_header (vm_mem st')
      (elf + e_shoff ?h + sizeof_section_header * ucast (e_shstrndx ?h)))"
  define found where "found \<longleftrightarrow> e_shoff ?h \<noteq> 0 \<and> e_shstrndx ?h \<noteq> 0 \<and>
      find_info lit elf (elf + e_shoff ?h) tab 0 ?info st' \<noteq> 0"
  define info where "info = (if e_shoff ?h = 0 \<or> e_shstrndx ?h = 0 then ?info
      else ?info\<lparr>kernel_info := find_info lit elf (elf + e_shoff ?h) tab 0 ?info st'\<rparr>)"
  have "elfldr_load_kernel map_region expected lit elf out st = ok (found, info, st')"
    using p(1) st'(1) supported loads head
    by (simp add: elfldr_load_kernel_def internal_elf_load_image_def vm_alloc_def pmm_alloc_def Let_def
        info1_def st1_def found_def info_def tab_def)
  moreover have "\<exists>addr perm. kernel_section lit (vm_mem st') elf addr \<and>
      translate fmt st' n root addr = Some (kernel_info info - hhdm_offset st, perm)" if found
  proof -
    have hdr: "e_shoff (elf_header (vm_mem st') elf) \<noteq> 0" "e_shstrndx (elf_header (vm_mem st') elf) \<noteq> 0"
      "find_info lit elf (elf + e_shoff ?h) tab 0 ?info st' \<noteq> 0"
      using that by (simp_all add: found_def head)
    show ?thesis
      using info_lookup(1) [where L = L and m = "vm_mem st", OF present' okL count' hdr(1,2)] hdr that
      by (simp add: info_def found_def tab_def head conf')
  qed
  moreover have "\<forall>addr. kernel_section lit (vm_mem st') elf addr \<longrightarrow> (\<exists>ph\<in>set L. in_memory ph addr) \<longrightarrow>
      0 < unat (hhdm_offset st) \<longrightarrow> unat (hhdm_offset st) + 2 ^ 51 \<le> 2 ^ 64 \<longrightarrow> found"
  proof (intro allI impI)
    fix addr
    assume sec: "kernel_section lit (vm_mem st') elf addr" and held: "\<exists>ph\<in>set L. in_memory ph addr"
      and high: "0 < unat (hhdm_offset st)" "unat (hhdm_offset st) + 2 ^ 51 \<le> 2 ^ 64"
    have hdr: "e_shoff (elf_header (vm_mem st') elf) \<noteq> 0" "e_shstrndx (elf_header (vm_mem st') elf) \<noteq> 0"
      using sec by (simp_all add: kernel_section_def Let_def)
    obtain ph where "ph \<in> set L" "in_memory ph addr"
      using held by blast
    then show found
      using info_lookup(2) [where L = L and m = "vm_mem st", OF present' okL count' hdr sec] hdr high
      by (simp add: found_def tab_def head conf')
  qed
  moreover have "entry_point info = e_entry ?h" "segment_count info = length L"
    "kernel_base info = Min (p_vaddr ` set L)" "segments info = segments info1"
    by (simp_all add: info_def info1_def)
  moreover have "translate fmt st' n root va = translate fmt st n root va" if "\<forall>ph\<in>set L. \<not> in_segment ph va" for va
    using st'(2) that al(2) by (simp add: segments_loaded_def)
  moreover have "tables_ok fmt n root st'"
    using st'(2) by (simp add: segments_loaded_def)
  ultimately show ?thesis
    using present keep st'(3,4) by (intro exI [of _ found] exI [of _ info] exI [of _ st']) simp
qed

end

end
