(* ===== verification/ElfProps.thy ===== *)
theory ElfProps
  imports ElfKernel
begin

text \<open>
  The loader on both architectures: the contract of \<open>ptm_map\<close> is discharged there, so what is
  proved inside \<open>address_space\<close> becomes a statement about the x86-64 and the RISC-V loader.
\<close>

section \<open>A sample image\<close>

text \<open>One readable and executable segment: four bytes of code in eight bytes of memory. It lies
  apart from the free memory of the sample map, and the root table is an empty page there.\<close>

definition image_at :: "u64 \<Rightarrow> u8 list \<Rightarrow> memory" where
  "image_at p bs = (\<lambda>a. if unat (a - p) < length bs then bs ! unat (a - p) else 0)"

definition kernel_image :: "u8 \<Rightarrow> u8 list" where
  "kernel_image machine =
     [0x7f, 0x45, 0x4c, 0x46, 2, 1, 1, 0, 0, 0, 0, 0, 0, 0, 0, 0,
      2, 0, machine, 0, 1, 0, 0, 0, 0, 0, 0x40, 0, 0, 0, 0, 0,
      0x40, 0, 0, 0, 0, 0, 0, 0, 0, 0, 0, 0, 0, 0, 0, 0,
      0, 0, 0, 0, 0x40, 0, 0x38, 0, 1, 0, 0x40, 0, 0, 0, 0, 0] @
     [1, 0, 0, 0, 5, 0, 0, 0, 0x78, 0, 0, 0, 0, 0, 0, 0,
      0, 0, 0x40, 0, 0, 0, 0, 0, 0, 0, 0, 0, 0, 0, 0, 0,
      4, 0, 0, 0, 0, 0, 0, 0, 8, 0, 0, 0, 0, 0, 0, 0, 0, 0x10, 0, 0, 0, 0, 0, 0] @
     [0xf4, 0xeb, 0xfd, 0x90]"

lemma length_kernel_image: "length (kernel_image b) = 124"
  by (simp add: kernel_image_def)

lemma bytes_at_image: "k + n \<le> length bs \<Longrightarrow> length bs < 2 ^ 64 \<Longrightarrow>
  bytes_at (image_at p bs) (p + of_nat k) n = take n (drop k bs)"
  by (rule nth_equalityI)
    (simp_all add: image_at_def unat_of_nat_64 add.assoc flip: of_nat_add)

lemma bytes_at_zero: "n \<le> length bs \<Longrightarrow> length bs < 2 ^ 64 \<Longrightarrow> bytes_at (image_at p bs) p n = take n bs"
  using bytes_at_image [of 0 n bs p] by simp

lemma bytes_at_num: "numeral k + n \<le> length bs \<Longrightarrow> length bs < 2 ^ 64 \<Longrightarrow>
  bytes_at (image_at p bs) (p + numeral k) n = take n (drop (numeral k) bs)"
  using bytes_at_image [of "numeral k" n bs p] by simp

lemma ucast_8_16: "ucast (ucast b :: u64) = (ucast b :: u16)" for b :: u8
  by (rule bit_word_eqI) (auto simp: bit_simps)

lemma kernel_header: "elf_header (image_at p (kernel_image b)) p =
  \<lparr>e_ident = [0x7f, 0x45, 0x4c, 0x46, 2, 1, 1, 0, 0, 0, 0, 0, 0, 0, 0, 0], e_type = 2, e_machine = ucast b,
   e_version = 1, e_entry = 0x400000, e_phoff = 64, e_shoff = 0, e_flags = 0, e_ehsize = 64, e_phentsize = 56,
   e_phnum = 1, e_shentsize = 64, e_shnum = 0, e_shstrndx = 0\<rparr>"
  by (simp add: elf_header_def load16_def load32_def load64_def bytes_at_zero bytes_at_num length_kernel_image)
    (simp add: kernel_image_def ucast_8_16)

definition sample_phdr :: elf64_program_header_t where
  "sample_phdr = \<lparr>p_type = 1, p_flags = 5, p_offset = 120, p_vaddr = 0x400000, p_paddr = 0, p_filesz = 4,
     p_memsz = 8, p_align = 0x1000\<rparr>"

lemma kernel_phdr: "program_header (image_at p (kernel_image b)) (p + 64) = sample_phdr"
  by (simp add: program_header_def load16_def load32_def load64_def bytes_at_num length_kernel_image add.assoc)
    (simp add: kernel_image_def sample_phdr_def)

lemma sample_loads: "kernel_loads (image_at p (kernel_image b)) p = [sample_phdr]"
  by (simp add: kernel_loads_def loads_from_def phnum_def kernel_header kernel_phdr phdr_at_def
      PTYPE_LOAD_def sample_phdr_def)

lemma sample_extent: "seg_start sample_phdr = 0x400000" "seg_pages sample_phdr = 1" "seg_ok sample_phdr"
  by (simp_all add: seg_start_def seg_pages_def seg_ok_def sample_phdr_def MATH_FLOOR_def page_size_defs)

lemma sample_supported:
  "elf_supported EMACHINE_X86_64 (image_at 0xFFFF800010000000 (kernel_image 62)) 0xFFFF800010000000"
  "elf_supported EMACHINE_RISCV (image_at 0xFFFF800010000000 (kernel_image 243)) 0xFFFF800010000000"
  by (simp_all add: elf_supported_def kernel_header EMACHINE_X86_64_def EMACHINE_RISCV_def ELF_CLASS_IDX_def
      ELF_CLASS_64_BIT_def ELF_DATA_IDX_def ELF_DATA_2LSB_def ETYPE_EXEC_def)

abbreviation image_base :: u64 where
  "image_base \<equiv> 0xFFFF800010000000"

text \<open>What holds of any machine state built around the sample image, with an empty root table.\<close>

lemma sample_root_empty:
  assumes "i < 512"
  shows "table_view (image_at image_base (kernel_image b)) 0xFFFF800000000000 0x100000 i = 0"
proof -
  have zero: "image_at image_base (kernel_image b) (0xFFFF800000100000 + of_nat k) = 0" if k: "k < 4096" for k
  proof -
    have "\<not> unat (0xFFFF800000100000 + of_nat k - image_base) < 124"
    proof
      assume "unat (0xFFFF800000100000 + of_nat k - image_base) < 124"
      then obtain x :: u64 where x: "0xFFFF800000100000 + of_nat k - image_base = x" "unat x < 124"
        by blast
      then have "of_nat k = 0xFF00000 + x"
        by (simp add: algebra_simps)
      moreover have "unat (0xFF00000 + x) = 0xFF00000 + unat x"
        using x(2) by (subst unat_add_nowrap) simp_all
      ultimately show False
        using k unat_of_nat_64 [of k] by simp
    qed
    then show ?thesis
      by (simp add: image_at_def length_kernel_image)
  qed
  have "bytes_at (image_at image_base (kernel_image b)) (0x100000 + 0xFFFF800000000000 + 8 * of_nat i) 8 = replicate 8 0"
  proof (rule nth_equalityI)
    fix j assume j: "j < length (bytes_at (image_at image_base (kernel_image b)) (0x100000 + 0xFFFF800000000000 + 8 * of_nat i) 8)"
    then show "bytes_at (image_at image_base (kernel_image b)) (0x100000 + 0xFFFF800000000000 + 8 * of_nat i) 8 ! j =
        replicate 8 0 ! j"
      using zero [of "8 * i + j"] assms by (simp add: add.assoc)
  qed simp
  moreover have "from_bytes (replicate n 0) = 0" for n
    by (induction n) simp_all
  ultimately show ?thesis
    unfolding table_view_def load64_def by (simp only:)
qed

lemma sample_image_byte:
  assumes "image_byte (image_at image_base (kernel_image b)) image_base (image_base + 64) a"
  shows "unat (a - image_base) < 124"
proof -
  have loads: "loads_from (image_at image_base (kernel_image b)) image_base (image_base + 64) 0 = [sample_phdr]"
    using sample_loads [of image_base b] by (simp add: kernel_loads_def kernel_header)
  have shift: "unat (a - image_base) = c + unat (a - (image_base + of_nat c))"
    if "unat (a - (image_base + of_nat c)) < 1000" "c < 1000" for c
  proof -
    have "a - image_base = of_nat c + (a - (image_base + of_nat c))"
      by simp
    also have "unat \<dots> = c + unat (a - (image_base + of_nat c))"
      using that by (subst unat_add_nowrap) (simp_all add: unat_of_nat_64)
    finally show ?thesis .
  qed
  have n: "phnum (image_at image_base (kernel_image b)) image_base = 1"
    by (simp add: phnum_def kernel_header)
  show ?thesis
    using assms shift [of 64] shift [of 120]
    by (auto simp: image_byte_def n loads [simplified] phdr_at_def sample_phdr_def in_array_def)
qed

lemma sample_state:
  assumes "vm_mem st = image_at image_base (kernel_image b)" and "vm_pmm st = sample"
    and "hhdm_offset st = 0xFFFF800000000000"
    and "tree_ok fmt (view st) n 0x100000" and "tframes fmt (view st) n 0x100000 = {0x100000}"
    and "\<And>va. mmu fmt (view st) n 0x100000 va = None"
    and "flags_ok (page_flags 5)" and "n = 3 \<or> n = 4"
  shows "tables_ok fmt n 0x100000 st" and "loadable fmt n 0x100000 flags_ok [sample_phdr] st"
    and "\<And>a. image_byte (vm_mem st) image_base (image_base + e_phoff (elf_header (vm_mem st) image_base)) a \<Longrightarrow>
      kept fmt n 0x100000 st a"
    and "spare 5 5 (vm_pmm st)"
proof -
  have free: "frame_free sample f \<longleftrightarrow> 0x1000 \<le> unat f \<and> unat f < 0x9000" for f
    by (auto simp: frame_free_def sample_map_def contains_def lo_def hi_def)
  show "tables_ok fmt n 0x100000 st"
    using assms by (simp add: tables_ok_def free frame_ok_def page_aligned_def)
  show "kept fmt n 0x100000 st a"
    if "image_byte (vm_mem st) image_base (image_base + e_phoff (elf_header (vm_mem st) image_base)) a" for a
  proof -
    have d: "unat (a - image_base) < 124"
      using that unfolding assms(1) kernel_header by (intro sample_image_byte) simp
    have "a - 0xFFFF800000000000 = 0x10000000 + (a - image_base)"
      by simp
    then have "unat (a - 0xFFFF800000000000) = 0x10000000 + unat (a - image_base)"
      using d by (simp only:) (subst unat_add_nowrap, simp_all)
    then have "unat (page_of 0xFFFF800000000000 a) = 0x10000000"
      using d by (subst unat_page_of) auto
    then show ?thesis
      using assms by (auto simp: kept_def free)
  qed
  have "canonical n va" if "unat (va - 0x400000) < 4096" for va
  proof -
    have "unat (0x400000 + (va - 0x400000)) = 0x400000 + unat (va - 0x400000)"
      using that by (subst unat_add_nowrap) simp_all
    then show ?thesis
      using that assms(8) by (intro canonical_low) auto
  qed
  then have "region_canonical n 0x400000 4096"
    by (simp add: region_canonical_def)
  then show "loadable fmt n 0x100000 flags_ok [sample_phdr] st"
    using assms by (simp add: loadable_def sample_extent unmapped_def translate_def) (simp add: sample_phdr_def)
  show "spare 5 5 (vm_pmm st)"
    unfolding assms(2)
  proof (rule spareI [OF sample_inv])
    show "fits_at sample 4096 (4096 * 5)"
      by (simp add: fits_at_def sample_map_def lo_def hi_def)
  qed (auto simp: PMM_MAP_MAX_ENTRIES_def sample_map_def lo_def hi_def)
qed

section \<open>The loader on x86-64\<close>

text \<open>C20. On x86-64, loading a well-formed kernel image with enough free pages returns. Every
  loadable segment is then mapped at its virtual addresses with the permissions of its header, in
  fresh pages that hold its bytes of the file and zeros elsewhere, and has its entry in the segment
  table; no other translation and no memory in use changes. If the loader reports success, the
  boot information is at the direct-map address of what the virtual address of the first section with
  the right name maps to; it does report success when there is such a section inside a segment.\<close>

theorem x86_load_kernel:
  fixes st :: x86_state
  assumes "g_ptm st = \<lparr>tplt = root, level_count = n\<rparr>" and "n = 4 \<or> n = 5"
    and "tables_ok x86_fmt n root st" and "elf_supported EMACHINE_X86_64 (vm_mem st) elf"
    and "L = kernel_loads (vm_mem st) elf" and "L \<noteq> []" and "loadable x86_fmt n root (\<lambda>_. True) L st"
    and "\<And>a. image_byte (vm_mem st) elf (elf + e_phoff (elf_header (vm_mem st) elf)) a \<Longrightarrow>
      kept x86_fmt n root st a"
    and "spare (Suc (length L + tables_of n L))
      (table_pages (length L) + (pages_of L + tables_of n L)) (vm_pmm st)"
  shows "\<exists>found info st'. elfldr_load_kernel ptm_map EMACHINE_X86_64 lit elf out st = ok (found, info, st') \<and>
    entry_point info = e_entry (elf_header (vm_mem st) elf) \<and> segment_count info = length L \<and>
    kernel_base info = Min (p_vaddr ` set L) \<and> tables_ok x86_fmt n root st' \<and>
    (\<forall>k<length L. \<exists>p. segment_present x86_fmt n root (x86_perms (g_x86_64_cpu_nx_support st)) (L ! k) elf
       (slot_at (segments info) k) p (vm_mem st) st') \<and>
    (\<forall>va. (\<forall>ph\<in>set L. \<not> in_segment ph va) \<longrightarrow>
       translate x86_fmt st' n root va = translate x86_fmt st n root va) \<and>
    (\<forall>a. kept x86_fmt n root st a \<longrightarrow> kept x86_fmt n root st' a \<and> vm_mem st' a = vm_mem st a) \<and>
    (found \<longrightarrow> (\<exists>addr perm. kernel_section lit (vm_mem st') elf addr \<and>
       translate x86_fmt st' n root addr = Some (kernel_info info - hhdm_offset st, perm))) \<and>
    (\<forall>addr. kernel_section lit (vm_mem st') elf addr \<longrightarrow> (\<exists>ph\<in>set L. in_memory ph addr) \<longrightarrow>
       0 < unat (hhdm_offset st) \<longrightarrow> unat (hhdm_offset st) + 2 ^ 51 \<le> 2 ^ 64 \<longrightarrow> found)"
proof -
  have n: "n = levels_of (n = 5)"
    using assms(2) by (auto simp: levels_of_def)
  have conf: "x86_cfg root (n = 5) (g_x86_64_cpu_nx_support st) (g_x86_64_cpu_pdpe1gb_support st) st"
    using assms(1) n by (simp add: x86_cfg_def)
  from xs.load_kernel_ok [OF conf, where elf = elf and expected = EMACHINE_X86_64 and r = 0 and q = 0 and
      lit = lit and out = out, folded n] assms show ?thesis
    by (simp only: add_0_right) blast
qed


definition x86_kernel :: x86_state where
  "x86_kernel = \<lparr>vm_mem = image_at image_base (kernel_image 62), vm_pmm = sample,
     hhdm_offset = 0xFFFF800000000000, g_ptm = \<lparr>tplt = 0x100000, level_count = 4\<rparr>,
     g_x86_64_cpu_nx_support = True, g_x86_64_cpu_pdpe1gb_support = False\<rparr>"

theorem x86_load_kernel_witness:
  "\<exists>found info st'. elfldr_load_kernel ptm_map EMACHINE_X86_64 0 image_base undefined x86_kernel = ok (found, info, st') \<and>
    entry_point info = e_entry (elf_header (vm_mem x86_kernel) image_base) \<and> segment_count info = length [sample_phdr] \<and>
    kernel_base info = Min (p_vaddr ` set [sample_phdr]) \<and> tables_ok x86_fmt 4 0x100000 st' \<and>
    (\<forall>k<length [sample_phdr]. \<exists>p. segment_present x86_fmt 4 0x100000 (x86_perms (g_x86_64_cpu_nx_support x86_kernel)) ([sample_phdr] ! k) image_base
       (slot_at (segments info) k) p (vm_mem x86_kernel) st') \<and>
    (\<forall>va. (\<forall>ph\<in>set [sample_phdr]. \<not> in_segment ph va) \<longrightarrow>
       translate x86_fmt st' 4 0x100000 va = translate x86_fmt x86_kernel 4 0x100000 va) \<and>
    (\<forall>a. kept x86_fmt 4 0x100000 x86_kernel a \<longrightarrow> kept x86_fmt 4 0x100000 st' a \<and> vm_mem st' a = vm_mem x86_kernel a) \<and>
    (found \<longrightarrow> (\<exists>addr perm. kernel_section 0 (vm_mem st') image_base addr \<and>
       translate x86_fmt st' 4 0x100000 addr = Some (kernel_info info - hhdm_offset x86_kernel, perm))) \<and>
    (\<forall>addr. kernel_section 0 (vm_mem st') image_base addr \<longrightarrow> (\<exists>ph\<in>set [sample_phdr]. in_memory ph addr) \<longrightarrow>
       0 < unat (hhdm_offset x86_kernel) \<longrightarrow> unat (hhdm_offset x86_kernel) + 2 ^ 51 \<le> 2 ^ 64 \<longrightarrow> found)"
proof -
  have view: "view x86_kernel 0x100000 i = 0" if "i < 512" for i
    using sample_root_empty [OF that] by (simp add: view_def x86_kernel_def)
  have tree: "tree_ok x86_fmt (view x86_kernel) 4 0x100000" "tframes x86_fmt (view x86_kernel) 4 0x100000 = {0x100000}"
    "mmu x86_fmt (view x86_kernel) 4 0x100000 va = None" for va
    using xw.empty_tree [where tb = "view x86_kernel" and a = "0x100000" and l = 3] view by (simp_all del: tframes.simps mmu.simps tree_ok.simps)
  have mem: "vm_mem x86_kernel = image_at image_base (kernel_image 62)" "vm_pmm x86_kernel = sample"
    "hhdm_offset x86_kernel = 0xFFFF800000000000" "g_ptm x86_kernel = \<lparr>tplt = 0x100000, level_count = 4\<rparr>"
    by (simp_all add: x86_kernel_def)
  note state = sample_state [OF mem(1-3) tree, where flags_ok = "\<lambda>_. True", simplified]
  show ?thesis
    by (rule x86_load_kernel [OF mem(4) _ state(1) _ _ _ state(2,3)])
      (use state(4) sample_supported(1) in \<open>simp_all add: mem(1) sample_loads sample_extent table_pages_def\<close>)
qed

section \<open>The loader on RISC-V\<close>

text \<open>C21. The same holds on RISC-V in each paging mode, for segments whose permissions the hardware
  accepts.\<close>

theorem riscv_load_kernel:
  fixes st :: riscv_state
  assumes "g_ptm st = \<lparr>tplt = root, level_count = sv_levels sv\<rparr>" and "g_level_count st = sv_levels sv"
    and "tables_ok riscv_fmt (sv_levels sv) root st" and "elf_supported EMACHINE_RISCV (vm_mem st) elf"
    and "L = kernel_loads (vm_mem st) elf" and "L \<noteq> []" and "loadable riscv_fmt (sv_levels sv) root rv_flags_ok L st"
    and "\<And>a. image_byte (vm_mem st) elf (elf + e_phoff (elf_header (vm_mem st) elf)) a \<Longrightarrow>
      kept riscv_fmt (sv_levels sv) root st a"
    and "spare (Suc (length L + tables_of (sv_levels sv) L))
      (table_pages (length L) + (pages_of L + tables_of (sv_levels sv) L)) (vm_pmm st)"
  shows "\<exists>found info st'. elfldr_load_kernel rv_ptm_map EMACHINE_RISCV lit elf out st = ok (found, info, st') \<and>
    entry_point info = e_entry (elf_header (vm_mem st) elf) \<and> segment_count info = length L \<and>
    kernel_base info = Min (p_vaddr ` set L) \<and> tables_ok riscv_fmt (sv_levels sv) root st' \<and>
    (\<forall>k<length L. \<exists>p. segment_present riscv_fmt (sv_levels sv) root rv_perms (L ! k) elf
       (slot_at (segments info) k) p (vm_mem st) st') \<and>
    (\<forall>va. (\<forall>ph\<in>set L. \<not> in_segment ph va) \<longrightarrow>
       translate riscv_fmt st' (sv_levels sv) root va = translate riscv_fmt st (sv_levels sv) root va) \<and>
    (\<forall>a. kept riscv_fmt (sv_levels sv) root st a \<longrightarrow> kept riscv_fmt (sv_levels sv) root st' a \<and> vm_mem st' a = vm_mem st a) \<and>
    (found \<longrightarrow> (\<exists>addr perm. kernel_section lit (vm_mem st') elf addr \<and>
       translate riscv_fmt st' (sv_levels sv) root addr = Some (kernel_info info - hhdm_offset st, perm))) \<and>
    (\<forall>addr. kernel_section lit (vm_mem st') elf addr \<longrightarrow> (\<exists>ph\<in>set L. in_memory ph addr) \<longrightarrow>
       0 < unat (hhdm_offset st) \<longrightarrow> unat (hhdm_offset st) + 2 ^ 51 \<le> 2 ^ 64 \<longrightarrow> found)"
proof -
  have conf: "rv_cfg root sv st"
    using assms(1,2) by (simp add: rv_cfg_def)
  from rs.load_kernel_ok [OF conf, where elf = elf and expected = EMACHINE_RISCV and r = 0 and q = 0 and
      lit = lit and out = out] assms show ?thesis
    by (simp only: add_0_right) blast
qed

definition riscv_kernel :: riscv_state where
  "riscv_kernel = \<lparr>vm_mem = image_at image_base (kernel_image 243), vm_pmm = sample,
     hhdm_offset = 0xFFFF800000000000, g_ptm = \<lparr>tplt = 0x100000, level_count = 3\<rparr>, g_level_count = 3\<rparr>"

theorem riscv_load_kernel_witness:
  "\<exists>found info st'. elfldr_load_kernel rv_ptm_map EMACHINE_RISCV 0 image_base undefined riscv_kernel = ok (found, info, st') \<and>
    entry_point info = e_entry (elf_header (vm_mem riscv_kernel) image_base) \<and> segment_count info = length [sample_phdr] \<and>
    kernel_base info = Min (p_vaddr ` set [sample_phdr]) \<and> tables_ok riscv_fmt (sv_levels SV39) 0x100000 st' \<and>
    (\<forall>k<length [sample_phdr]. \<exists>p. segment_present riscv_fmt (sv_levels SV39) 0x100000 rv_perms ([sample_phdr] ! k) image_base
       (slot_at (segments info) k) p (vm_mem riscv_kernel) st') \<and>
    (\<forall>va. (\<forall>ph\<in>set [sample_phdr]. \<not> in_segment ph va) \<longrightarrow>
       translate riscv_fmt st' (sv_levels SV39) 0x100000 va = translate riscv_fmt riscv_kernel (sv_levels SV39) 0x100000 va) \<and>
    (\<forall>a. kept riscv_fmt (sv_levels SV39) 0x100000 riscv_kernel a \<longrightarrow> kept riscv_fmt (sv_levels SV39) 0x100000 st' a \<and> vm_mem st' a = vm_mem riscv_kernel a) \<and>
    (found \<longrightarrow> (\<exists>addr perm. kernel_section 0 (vm_mem st') image_base addr \<and>
       translate riscv_fmt st' (sv_levels SV39) 0x100000 addr = Some (kernel_info info - hhdm_offset riscv_kernel, perm))) \<and>
    (\<forall>addr. kernel_section 0 (vm_mem st') image_base addr \<longrightarrow> (\<exists>ph\<in>set [sample_phdr]. in_memory ph addr) \<longrightarrow>
       0 < unat (hhdm_offset riscv_kernel) \<longrightarrow> unat (hhdm_offset riscv_kernel) + 2 ^ 51 \<le> 2 ^ 64 \<longrightarrow> found)"
proof -
  have view: "view riscv_kernel 0x100000 i = 0" if "i < 512" for i
    using sample_root_empty [OF that] by (simp add: view_def riscv_kernel_def)
  have tree: "tree_ok riscv_fmt (view riscv_kernel) 3 0x100000" "tframes riscv_fmt (view riscv_kernel) 3 0x100000 = {0x100000}"
    "mmu riscv_fmt (view riscv_kernel) 3 0x100000 va = None" for va
    using rw.empty_tree [where tb = "view riscv_kernel" and a = "0x100000" and l = 2] view by (simp_all del: tframes.simps mmu.simps tree_ok.simps)
  have mem: "vm_mem riscv_kernel = image_at image_base (kernel_image 243)" "vm_pmm riscv_kernel = sample"
    "hhdm_offset riscv_kernel = 0xFFFF800000000000" "g_ptm riscv_kernel = \<lparr>tplt = 0x100000, level_count = 3\<rparr>" "g_level_count riscv_kernel = 3"
    by (simp_all add: riscv_kernel_def)
  have flags: "rv_flags_ok (page_flags 5)"
    by (simp add: rv_flags_ok_def page_flags_def PFLAGS_READ_def PFLAGS_WRITE_def PFLAGS_EXECUTE_def
        ELF_PTM_FLAG_READ_def ELF_PTM_FLAG_EXEC_def RV_PTM_FLAG_READ_def RV_PTM_FLAG_EXEC_def
        RV_PTM_FLAG_WRITE_def)
  have levels: "sv_levels SV39 = 3"
    by simp
  note state = sample_state [where flags_ok = rv_flags_ok, OF mem(1-3) tree flags disjI1 [OF refl], folded levels]
  have "spare (Suc (Suc (Suc (Suc 0)))) (Suc (Suc (Suc (Suc 0)))) (vm_pmm riscv_kernel)"
    by (rule spare_mono [OF state(4)]) simp_all
  then show ?thesis
    by (rule_tac riscv_load_kernel [OF _ _ state(1) _ _ _ state(2,3)])
      (use mem(4,5) sample_supported(2) in \<open>simp_all add: mem(1) sample_loads sample_extent table_pages_def\<close>)
qed

end
