(* ===== verification/Console.thy ===== *)
theory Console
  imports Prelude
begin

text \<open>
  Console output (\<open>pre_kernel/src/log.c\<close>, \<open>pre_kernel/src/panic.c\<close>,
  \<open>pre_kernel/src/runtime/ssp.c\<close>) and the control flow of calls that do not return.

  \<open>npf\<close> is the formatter, the bytes that \<open>npf_vpprintf\<close> hands to the callback for a format and its
  arguments: \<open>nanoprintf\<close> of the theory \<open>Npf\<close>. What is shown here holds for any. \<open>putc\<close> is \<open>arch_debug_putc\<close> of the
  architecture, on whatever state \<open>'s\<close> the console has.
\<close>

datatype log_arg = ArgInt int | ArgStr string

type_synonym formatter = "string \<Rightarrow> log_arg list \<Rightarrow> u8 list"

section \<open>Printing\<close>

text \<open>The callback is called once per byte, in order.\<close>

definition npf_vpprintf :: "(u8 \<Rightarrow> 's \<Rightarrow> 's) \<Rightarrow> formatter \<Rightarrow> string \<Rightarrow> log_arg list \<Rightarrow> 's \<Rightarrow> 's" where
  "npf_vpprintf putc npf fmt val s = fold putc (npf fmt val) s"

definition log_vprint_raw :: "(u8 \<Rightarrow> 's \<Rightarrow> 's) \<Rightarrow> formatter \<Rightarrow> string \<Rightarrow> log_arg list \<Rightarrow> 's \<Rightarrow> 's" where
  "log_vprint_raw putc npf fmt val s = npf_vpprintf putc npf fmt val s"

definition log_print_raw :: "(u8 \<Rightarrow> 's \<Rightarrow> 's) \<Rightarrow> formatter \<Rightarrow> string \<Rightarrow> log_arg list \<Rightarrow> 's \<Rightarrow> 's" where
  "log_print_raw putc npf fmt val s = npf_vpprintf putc npf fmt val s"

definition log_vprint :: "(u8 \<Rightarrow> 's \<Rightarrow> 's) \<Rightarrow> formatter \<Rightarrow> string \<Rightarrow> log_arg list \<Rightarrow> 's \<Rightarrow> 's" where
  "log_vprint putc npf fmt val s =
     (let s = npf_vpprintf putc npf ''prekernel | '' [] s
      in npf_vpprintf putc npf fmt val s)"

definition log_print :: "(u8 \<Rightarrow> 's \<Rightarrow> 's) \<Rightarrow> formatter \<Rightarrow> string \<Rightarrow> log_arg list \<Rightarrow> 's \<Rightarrow> 's" where
  "log_print putc npf fmt val s =
     (let s = npf_vpprintf putc npf ''prekernel | '' [] s
      in npf_vpprintf putc npf fmt val s)"

section \<open>Calls that stop the machine\<close>

text \<open>\<open>Stopped\<close> is a processor that spins for ever in the endless loop of \<open>panic\<close>, with the state
  it leaves.\<close>

datatype 's run = Running 's | Stopped fault 's

fun and_then :: "'s run \<Rightarrow> ('s \<Rightarrow> 's run) \<Rightarrow> 's run" where
  "and_then (Running s) k = k s"
| "and_then (Stopped f s) k = Stopped f s"

fun stopped :: "'s run \<Rightarrow> bool" where
  "stopped (Running s) = False"
| "stopped (Stopped f s) = True"

lemma and_then_stopped: "stopped r \<Longrightarrow> and_then r k = r"
  by (cases r) simp_all

definition panic :: "(u8 \<Rightarrow> 's \<Rightarrow> 's) \<Rightarrow> formatter \<Rightarrow> string \<Rightarrow> log_arg list \<Rightarrow> 's \<Rightarrow> 's run" where
  "panic putc npf format args s =
     (let s = log_print putc npf ''prekernel panic: '' [] s;
          s = log_vprint_raw putc npf format args s;
          s = log_print_raw putc npf [CHR 0x0A] [] s
      in Stopped (Panic format) s)"

lemma panic_stops [simp]: "stopped (panic putc npf format args s)"
  by (simp add: panic_def Let_def)

definition stack_chk_guard :: u64 where
  "stack_chk_guard = 0xDEADBEEFCAFEBABE"

definition stack_chk_fail :: "(u8 \<Rightarrow> 's \<Rightarrow> 's) \<Rightarrow> formatter \<Rightarrow> 's \<Rightarrow> 's run" where
  "stack_chk_fail putc npf s = panic putc npf (''stack smashing detected'' @ [CHR 0x0A]) [] s"

section \<open>The bytes printed\<close>

text \<open>On a console that only collects bytes, in order.\<close>

definition tape :: "u8 \<Rightarrow> u8 list \<Rightarrow> u8 list" where
  "tape c out = out @ [c]"

lemma fold_tape: "fold tape bs out = out @ bs"
  by (induction bs arbitrary: out) (simp_all add: tape_def)

lemma log_print_tape: "log_print tape npf fmt val out = out @ npf ''prekernel | '' [] @ npf fmt val"
  by (simp add: log_print_def npf_vpprintf_def fold_tape)

text \<open>Whatever the console, what is printed is the fold of those bytes over it.\<close>

lemma log_print_fold: "log_print putc npf fmt val s = fold putc (log_print tape npf fmt val []) s"
  by (simp add: log_print_def npf_vpprintf_def fold_tape)

end
