(* ===== verification/Ubsan.thy ===== *)
theory Ubsan
  imports Console
begin

text \<open>
  The handlers the compiler calls on undefined behaviour (\<open>pre_kernel/src/runtime/ubsan.c\<close>). A null
  pointer is \<open>None\<close>; the C string of a type name is a \<open>string\<close>. Every handler prints what happened
  and where, and panics.
\<close>

section \<open>What the compiler passes\<close>

record tu_source_location =
  loc_file :: "string option"
  loc_line :: u32
  loc_column :: u32

record tu_type_descriptor =
  type_kind :: u16
  type_info :: u16
  type_name :: string

record tu_overflow_data =
  od_location :: tu_source_location
  od_type :: "tu_type_descriptor option"

record tu_shift_out_of_bounds_data =
  sh_location :: tu_source_location
  sh_left_type :: "tu_type_descriptor option"
  sh_right_type :: "tu_type_descriptor option"

record tu_invalid_value_data =
  iv_location :: tu_source_location
  iv_type :: "tu_type_descriptor option"

record tu_array_out_of_bounds_data =
  ab_location :: tu_source_location
  ab_array_type :: "tu_type_descriptor option"
  ab_index_type :: "tu_type_descriptor option"

record tu_type_mismatch_v1_data =
  tm_location :: tu_source_location
  tm_type :: "tu_type_descriptor option"
  tm_log_alignment :: u8
  tm_type_check_kind :: u8

record tu_negative_vla_data =
  vl_location :: tu_source_location
  vl_type :: "tu_type_descriptor option"

record tu_nonnull_return_data =
  nr_location :: tu_source_location

record tu_nonnull_arg_data =
  na_location :: tu_source_location

record tu_unreachable_data =
  ur_location :: tu_source_location

record tu_invalid_builtin_data =
  ib_location :: tu_source_location
  ib_kind :: u8

record tu_float_cast_overflow_data =
  fc_location :: tu_source_location
  fc_from_type :: "tu_type_descriptor option"
  fc_to_type :: "tu_type_descriptor option"

record tu_pointer_overflow_data =
  po_location :: tu_source_location
  po_type :: "tu_type_descriptor option"

record tu_function_type_mismatch_data =
  fm_location :: tu_source_location
  fm_type :: "tu_type_descriptor option"

section \<open>Reporting\<close>

definition print_location ::
  "(u8 \<Rightarrow> 's \<Rightarrow> 's) \<Rightarrow> formatter \<Rightarrow> string \<Rightarrow> tu_source_location \<Rightarrow> 's \<Rightarrow> 's" where
  "print_location putc npf message loc s =
     (let file = (case loc_file loc of Some f \<Rightarrow> f | None \<Rightarrow> ''<unknown>'')
      in log_print putc npf (''%s at %s:%u:%u'' @ [CHR 0x0A])
           [ArgStr message, ArgStr file, ArgInt (uint (loc_line loc)), ArgInt (uint (loc_column loc))] s)"

definition print_type ::
  "(u8 \<Rightarrow> 's \<Rightarrow> 's) \<Rightarrow> formatter \<Rightarrow> string \<Rightarrow> tu_type_descriptor option \<Rightarrow> 's \<Rightarrow> 's" where
  "print_type putc npf label t s =
     (case t of None \<Rightarrow> s
      | Some d \<Rightarrow> if type_name d = [] then s
          else log_print putc npf (''  %s type: %s'' @ [CHR 0x0A]) [ArgStr label, ArgStr (type_name d)] s)"

definition report ::
  "(u8 \<Rightarrow> 's \<Rightarrow> 's) \<Rightarrow> formatter \<Rightarrow> string \<Rightarrow> tu_source_location \<Rightarrow> tu_type_descriptor option \<Rightarrow> 's \<Rightarrow> 's run" where
  "report putc npf message loc t s =
     (let s = print_location putc npf message loc s;
          s = print_type putc npf ''value'' t s
      in panic putc npf ''ubsan'' [] s)"

section \<open>The handlers\<close>

definition ubsan_handle_add_overflow ::
  "(u8 \<Rightarrow> 's \<Rightarrow> 's) \<Rightarrow> formatter \<Rightarrow> tu_overflow_data \<Rightarrow> 's \<Rightarrow> 's run" where
  "ubsan_handle_add_overflow putc npf data s =
     report putc npf ''addition overflow'' (od_location data) (od_type data) s"

definition ubsan_handle_sub_overflow ::
  "(u8 \<Rightarrow> 's \<Rightarrow> 's) \<Rightarrow> formatter \<Rightarrow> tu_overflow_data \<Rightarrow> 's \<Rightarrow> 's run" where
  "ubsan_handle_sub_overflow putc npf data s =
     report putc npf ''subtraction overflow'' (od_location data) (od_type data) s"

definition ubsan_handle_mul_overflow ::
  "(u8 \<Rightarrow> 's \<Rightarrow> 's) \<Rightarrow> formatter \<Rightarrow> tu_overflow_data \<Rightarrow> 's \<Rightarrow> 's run" where
  "ubsan_handle_mul_overflow putc npf data s =
     report putc npf ''multiplication overflow'' (od_location data) (od_type data) s"

definition ubsan_handle_divrem_overflow ::
  "(u8 \<Rightarrow> 's \<Rightarrow> 's) \<Rightarrow> formatter \<Rightarrow> tu_overflow_data \<Rightarrow> 's \<Rightarrow> 's run" where
  "ubsan_handle_divrem_overflow putc npf data s =
     report putc npf ''division overflow'' (od_location data) (od_type data) s"

definition ubsan_handle_negate_overflow ::
  "(u8 \<Rightarrow> 's \<Rightarrow> 's) \<Rightarrow> formatter \<Rightarrow> tu_overflow_data \<Rightarrow> 's \<Rightarrow> 's run" where
  "ubsan_handle_negate_overflow putc npf data s =
     report putc npf ''negation overflow'' (od_location data) (od_type data) s"

definition ubsan_handle_pointer_overflow ::
  "(u8 \<Rightarrow> 's \<Rightarrow> 's) \<Rightarrow> formatter \<Rightarrow> tu_overflow_data \<Rightarrow> 's \<Rightarrow> 's run" where
  "ubsan_handle_pointer_overflow putc npf data s =
     report putc npf ''pointer overflow'' (od_location data) (od_type data) s"

definition ubsan_handle_shift_out_of_bounds ::
  "(u8 \<Rightarrow> 's \<Rightarrow> 's) \<Rightarrow> formatter \<Rightarrow> tu_shift_out_of_bounds_data \<Rightarrow> 's \<Rightarrow> 's run" where
  "ubsan_handle_shift_out_of_bounds putc npf data s =
     (let s = print_location putc npf ''shift out of bounds'' (sh_location data) s;
          s = print_type putc npf ''left'' (sh_left_type data) s;
          s = print_type putc npf ''right'' (sh_right_type data) s
      in panic putc npf ''ubsan'' [] s)"

definition ubsan_handle_load_invalid_value ::
  "(u8 \<Rightarrow> 's \<Rightarrow> 's) \<Rightarrow> formatter \<Rightarrow> tu_invalid_value_data \<Rightarrow> 's \<Rightarrow> 's run" where
  "ubsan_handle_load_invalid_value putc npf data s =
     report putc npf ''invalid load value'' (iv_location data) (iv_type data) s"

definition ubsan_handle_out_of_bounds ::
  "(u8 \<Rightarrow> 's \<Rightarrow> 's) \<Rightarrow> formatter \<Rightarrow> tu_array_out_of_bounds_data \<Rightarrow> 's \<Rightarrow> 's run" where
  "ubsan_handle_out_of_bounds putc npf data s =
     (let s = print_location putc npf ''array out of bounds'' (ab_location data) s;
          s = print_type putc npf ''array'' (ab_array_type data) s;
          s = print_type putc npf ''index'' (ab_index_type data) s
      in panic putc npf ''ubsan'' [] s)"

text \<open>A shift by 64 or more is undefined behaviour of its own; the compiler never passes one.\<close>

definition ubsan_handle_type_mismatch_v1 ::
  "(u8 \<Rightarrow> 's \<Rightarrow> 's) \<Rightarrow> formatter \<Rightarrow> tu_type_mismatch_v1_data \<Rightarrow> u64 \<Rightarrow> 's \<Rightarrow> 's run" where
  "ubsan_handle_type_mismatch_v1 putc npf data ptr s =
     (if ptr = 0 then report putc npf ''use of NULL pointer'' (tm_location data) (tm_type data) s
      else if 64 \<le> unat (tm_log_alignment data) then Stopped (UB ''shift exponent'') s
      else if ptr AND (push_bit (unat (tm_log_alignment data)) 1 - 1) \<noteq> 0
        then report putc npf ''use of misaligned pointer'' (tm_location data) (tm_type data) s
      else report putc npf ''insufficient space for object'' (tm_location data) (tm_type data) s)"

definition ubsan_handle_vla_bound_not_positive ::
  "(u8 \<Rightarrow> 's \<Rightarrow> 's) \<Rightarrow> formatter \<Rightarrow> tu_negative_vla_data \<Rightarrow> 's \<Rightarrow> 's run" where
  "ubsan_handle_vla_bound_not_positive putc npf data s =
     report putc npf ''VLA bound not positive'' (vl_location data) (vl_type data) s"

definition ubsan_handle_nonnull_return ::
  "(u8 \<Rightarrow> 's \<Rightarrow> 's) \<Rightarrow> formatter \<Rightarrow> tu_nonnull_return_data \<Rightarrow> 's \<Rightarrow> 's run" where
  "ubsan_handle_nonnull_return putc npf data s =
     report putc npf ''non-null return is null'' (nr_location data) None s"

definition ubsan_handle_nonnull_arg ::
  "(u8 \<Rightarrow> 's \<Rightarrow> 's) \<Rightarrow> formatter \<Rightarrow> tu_nonnull_arg_data \<Rightarrow> 's \<Rightarrow> 's run" where
  "ubsan_handle_nonnull_arg putc npf data s =
     report putc npf ''non-null argument is null'' (na_location data) None s"

definition ubsan_handle_builtin_unreachable ::
  "(u8 \<Rightarrow> 's \<Rightarrow> 's) \<Rightarrow> formatter \<Rightarrow> tu_unreachable_data \<Rightarrow> 's \<Rightarrow> 's run" where
  "ubsan_handle_builtin_unreachable putc npf data s =
     report putc npf ''unreachable code reached'' (ur_location data) None s"

definition ubsan_handle_invalid_builtin ::
  "(u8 \<Rightarrow> 's \<Rightarrow> 's) \<Rightarrow> formatter \<Rightarrow> tu_invalid_builtin_data \<Rightarrow> 's \<Rightarrow> 's run" where
  "ubsan_handle_invalid_builtin putc npf data s =
     report putc npf ''invalid builtin'' (ib_location data) None s"

definition ubsan_handle_function_type_mismatch ::
  "(u8 \<Rightarrow> 's \<Rightarrow> 's) \<Rightarrow> formatter \<Rightarrow> tu_function_type_mismatch_data \<Rightarrow> 's \<Rightarrow> 's run" where
  "ubsan_handle_function_type_mismatch putc npf data s =
     report putc npf ''function type mismatch'' (fm_location data) (fm_type data) s"

section \<open>The handlers of the abort mode\<close>

definition ubsan_handle_add_overflow_abort ::
  "(u8 \<Rightarrow> 's \<Rightarrow> 's) \<Rightarrow> formatter \<Rightarrow> tu_overflow_data \<Rightarrow> 's \<Rightarrow> 's run" where
  "ubsan_handle_add_overflow_abort putc npf data s =
     and_then (ubsan_handle_add_overflow putc npf data s) (panic putc npf ''ubsan'' [])"

definition ubsan_handle_sub_overflow_abort ::
  "(u8 \<Rightarrow> 's \<Rightarrow> 's) \<Rightarrow> formatter \<Rightarrow> tu_overflow_data \<Rightarrow> 's \<Rightarrow> 's run" where
  "ubsan_handle_sub_overflow_abort putc npf data s =
     and_then (ubsan_handle_sub_overflow putc npf data s) (panic putc npf ''ubsan'' [])"

definition ubsan_handle_mul_overflow_abort ::
  "(u8 \<Rightarrow> 's \<Rightarrow> 's) \<Rightarrow> formatter \<Rightarrow> tu_overflow_data \<Rightarrow> 's \<Rightarrow> 's run" where
  "ubsan_handle_mul_overflow_abort putc npf data s =
     and_then (ubsan_handle_mul_overflow putc npf data s) (panic putc npf ''ubsan'' [])"

definition ubsan_handle_divrem_overflow_abort ::
  "(u8 \<Rightarrow> 's \<Rightarrow> 's) \<Rightarrow> formatter \<Rightarrow> tu_overflow_data \<Rightarrow> 's \<Rightarrow> 's run" where
  "ubsan_handle_divrem_overflow_abort putc npf data s =
     and_then (ubsan_handle_divrem_overflow putc npf data s) (panic putc npf ''ubsan'' [])"

definition ubsan_handle_negate_overflow_abort ::
  "(u8 \<Rightarrow> 's \<Rightarrow> 's) \<Rightarrow> formatter \<Rightarrow> tu_overflow_data \<Rightarrow> 's \<Rightarrow> 's run" where
  "ubsan_handle_negate_overflow_abort putc npf data s =
     and_then (ubsan_handle_negate_overflow putc npf data s) (panic putc npf ''ubsan'' [])"

definition ubsan_handle_pointer_overflow_abort ::
  "(u8 \<Rightarrow> 's \<Rightarrow> 's) \<Rightarrow> formatter \<Rightarrow> tu_overflow_data \<Rightarrow> 's \<Rightarrow> 's run" where
  "ubsan_handle_pointer_overflow_abort putc npf data s =
     and_then (ubsan_handle_pointer_overflow putc npf data s) (panic putc npf ''ubsan'' [])"

definition ubsan_handle_shift_out_of_bounds_abort ::
  "(u8 \<Rightarrow> 's \<Rightarrow> 's) \<Rightarrow> formatter \<Rightarrow> tu_shift_out_of_bounds_data \<Rightarrow> 's \<Rightarrow> 's run" where
  "ubsan_handle_shift_out_of_bounds_abort putc npf data s =
     and_then (ubsan_handle_shift_out_of_bounds putc npf data s) (panic putc npf ''ubsan'' [])"

definition ubsan_handle_load_invalid_value_abort ::
  "(u8 \<Rightarrow> 's \<Rightarrow> 's) \<Rightarrow> formatter \<Rightarrow> tu_invalid_value_data \<Rightarrow> 's \<Rightarrow> 's run" where
  "ubsan_handle_load_invalid_value_abort putc npf data s =
     and_then (ubsan_handle_load_invalid_value putc npf data s) (panic putc npf ''ubsan'' [])"

definition ubsan_handle_out_of_bounds_abort ::
  "(u8 \<Rightarrow> 's \<Rightarrow> 's) \<Rightarrow> formatter \<Rightarrow> tu_array_out_of_bounds_data \<Rightarrow> 's \<Rightarrow> 's run" where
  "ubsan_handle_out_of_bounds_abort putc npf data s =
     and_then (ubsan_handle_out_of_bounds putc npf data s) (panic putc npf ''ubsan'' [])"

definition ubsan_handle_type_mismatch_v1_abort ::
  "(u8 \<Rightarrow> 's \<Rightarrow> 's) \<Rightarrow> formatter \<Rightarrow> tu_type_mismatch_v1_data \<Rightarrow> u64 \<Rightarrow> 's \<Rightarrow> 's run" where
  "ubsan_handle_type_mismatch_v1_abort putc npf data ptr s =
     and_then (ubsan_handle_type_mismatch_v1 putc npf data ptr s) (panic putc npf ''ubsan'' [])"

definition ubsan_handle_vla_bound_not_positive_abort ::
  "(u8 \<Rightarrow> 's \<Rightarrow> 's) \<Rightarrow> formatter \<Rightarrow> tu_negative_vla_data \<Rightarrow> 's \<Rightarrow> 's run" where
  "ubsan_handle_vla_bound_not_positive_abort putc npf data s =
     and_then (ubsan_handle_vla_bound_not_positive putc npf data s) (panic putc npf ''ubsan'' [])"

definition ubsan_handle_nonnull_return_abort ::
  "(u8 \<Rightarrow> 's \<Rightarrow> 's) \<Rightarrow> formatter \<Rightarrow> tu_nonnull_return_data \<Rightarrow> 's \<Rightarrow> 's run" where
  "ubsan_handle_nonnull_return_abort putc npf data s =
     and_then (ubsan_handle_nonnull_return putc npf data s) (panic putc npf ''ubsan'' [])"

definition ubsan_handle_nonnull_arg_abort ::
  "(u8 \<Rightarrow> 's \<Rightarrow> 's) \<Rightarrow> formatter \<Rightarrow> tu_nonnull_arg_data \<Rightarrow> 's \<Rightarrow> 's run" where
  "ubsan_handle_nonnull_arg_abort putc npf data s =
     and_then (ubsan_handle_nonnull_arg putc npf data s) (panic putc npf ''ubsan'' [])"

definition ubsan_handle_builtin_unreachable_abort ::
  "(u8 \<Rightarrow> 's \<Rightarrow> 's) \<Rightarrow> formatter \<Rightarrow> tu_unreachable_data \<Rightarrow> 's \<Rightarrow> 's run" where
  "ubsan_handle_builtin_unreachable_abort putc npf data s =
     and_then (ubsan_handle_builtin_unreachable putc npf data s) (panic putc npf ''ubsan'' [])"

definition ubsan_handle_invalid_builtin_abort ::
  "(u8 \<Rightarrow> 's \<Rightarrow> 's) \<Rightarrow> formatter \<Rightarrow> tu_invalid_builtin_data \<Rightarrow> 's \<Rightarrow> 's run" where
  "ubsan_handle_invalid_builtin_abort putc npf data s =
     and_then (ubsan_handle_invalid_builtin putc npf data s) (panic putc npf ''ubsan'' [])"

section \<open>No handler returns\<close>

lemmas ubsan_handler_defs =
  ubsan_handle_add_overflow_def
  ubsan_handle_sub_overflow_def
  ubsan_handle_mul_overflow_def
  ubsan_handle_divrem_overflow_def
  ubsan_handle_negate_overflow_def
  ubsan_handle_pointer_overflow_def
  ubsan_handle_shift_out_of_bounds_def
  ubsan_handle_load_invalid_value_def
  ubsan_handle_out_of_bounds_def
  ubsan_handle_type_mismatch_v1_def
  ubsan_handle_vla_bound_not_positive_def
  ubsan_handle_nonnull_return_def
  ubsan_handle_nonnull_arg_def
  ubsan_handle_builtin_unreachable_def
  ubsan_handle_invalid_builtin_def
  ubsan_handle_function_type_mismatch_def

lemmas ubsan_abort_defs =
  ubsan_handle_add_overflow_abort_def
  ubsan_handle_sub_overflow_abort_def
  ubsan_handle_mul_overflow_abort_def
  ubsan_handle_divrem_overflow_abort_def
  ubsan_handle_negate_overflow_abort_def
  ubsan_handle_pointer_overflow_abort_def
  ubsan_handle_shift_out_of_bounds_abort_def
  ubsan_handle_load_invalid_value_abort_def
  ubsan_handle_out_of_bounds_abort_def
  ubsan_handle_type_mismatch_v1_abort_def
  ubsan_handle_vla_bound_not_positive_abort_def
  ubsan_handle_nonnull_return_abort_def
  ubsan_handle_nonnull_arg_abort_def
  ubsan_handle_builtin_unreachable_abort_def
  ubsan_handle_invalid_builtin_abort_def

lemma report_stops [simp]: "stopped (report putc npf message loc t s)"
  by (simp add: report_def Let_def)

lemma handlers_stop [simp]:
  "stopped (ubsan_handle_add_overflow putc npf d0 s)"
  "stopped (ubsan_handle_sub_overflow putc npf d1 s)"
  "stopped (ubsan_handle_mul_overflow putc npf d2 s)"
  "stopped (ubsan_handle_divrem_overflow putc npf d3 s)"
  "stopped (ubsan_handle_negate_overflow putc npf d4 s)"
  "stopped (ubsan_handle_pointer_overflow putc npf d5 s)"
  "stopped (ubsan_handle_shift_out_of_bounds putc npf d6 s)"
  "stopped (ubsan_handle_load_invalid_value putc npf d7 s)"
  "stopped (ubsan_handle_out_of_bounds putc npf d8 s)"
  "stopped (ubsan_handle_type_mismatch_v1 putc npf d p s)"
  "stopped (ubsan_handle_vla_bound_not_positive putc npf d10 s)"
  "stopped (ubsan_handle_nonnull_return putc npf d11 s)"
  "stopped (ubsan_handle_nonnull_arg putc npf d12 s)"
  "stopped (ubsan_handle_builtin_unreachable putc npf d13 s)"
  "stopped (ubsan_handle_invalid_builtin putc npf d14 s)"
  "stopped (ubsan_handle_function_type_mismatch putc npf d15 s)"
  by (simp_all add: ubsan_handler_defs Let_def)

section \<open>What the handlers say\<close>

definition location_line :: "string \<Rightarrow> tu_source_location \<Rightarrow> string \<times> log_arg list" where
  "location_line message loc = (''%s at %s:%u:%u'' @ [CHR 0x0A],
     [ArgStr message, ArgStr (case loc_file loc of Some f \<Rightarrow> f | None \<Rightarrow> ''<unknown>''),
      ArgInt (uint (loc_line loc)), ArgInt (uint (loc_column loc))])"

definition mismatch_message :: "u8 \<Rightarrow> u64 \<Rightarrow> string" where
  "mismatch_message log_alignment ptr =
     (if ptr = 0 then ''use of NULL pointer''
      else if 2 ^ unat log_alignment dvd unat ptr then ''insufficient space for object''
      else ''use of misaligned pointer'')"

lemma misaligned_mask:
  fixes ptr :: u64
  assumes "k < 64" shows "ptr AND (push_bit k 1 - 1) = 0 \<longleftrightarrow> 2 ^ k dvd unat ptr"
proof -
  have "ptr AND (push_bit k 1 - 1) = take_bit k ptr"
    by (simp add: take_bit_eq_mask mask_eq_exp_minus_1 push_bit_of_1)
  moreover have "take_bit k ptr = 0 \<longleftrightarrow> take_bit k (unat ptr) = 0"
    by (metis unsigned_0 unsigned_eq_0_iff unsigned_take_bit_eq)
  ultimately show ?thesis
    by (simp add: take_bit_eq_0_iff)
qed

lemma report_tape:
  "report tape npf message loc t out =
    Stopped (Panic ''ubsan'')
      (out @ npf ''prekernel | '' [] @ (case location_line message loc of (f, a) \<Rightarrow> npf f a) @
       (case t of None \<Rightarrow> [] | Some d \<Rightarrow> if type_name d = [] then []
          else npf ''prekernel | '' [] @ npf (''  %s type: %s'' @ [CHR 0x0A]) [ArgStr ''value'', ArgStr (type_name d)]) @
       npf ''prekernel | '' [] @ npf ''prekernel panic: '' [] @ npf ''ubsan'' [] @ npf [CHR 0x0A] [])"
  by (auto simp: report_def print_location_def print_type_def panic_def location_line_def log_print_tape
      log_vprint_raw_def log_print_raw_def npf_vpprintf_def fold_tape Let_def split: option.split)

end
