(* ===== verification/UbsanProps.thy ===== *)
theory UbsanProps
  imports Ubsan
begin

text \<open>What a sanitizer report amounts to, and that the abort handlers add nothing to it.\<close>

text \<open>C22. A pointer check that fails says which: a null pointer, a misaligned one (one that the
  alignment does not divide), or an object that does not fit. The report names the place, then the
  type when it has a name, and then the machine stops; nothing else is printed.\<close>

theorem ubsan_type_mismatch_report:
  assumes "unat (tm_log_alignment data) < 64"
  shows "ubsan_handle_type_mismatch_v1 tape npf data ptr out =
    Stopped (Panic ''ubsan'')
      (out @ npf ''prekernel | '' [] @
       (case location_line (mismatch_message (tm_log_alignment data) ptr) (tm_location data) of
          (f, a) \<Rightarrow> npf f a) @
       (case tm_type data of None \<Rightarrow> [] | Some d \<Rightarrow> if type_name d = [] then []
          else npf ''prekernel | '' [] @ npf (''  %s type: %s'' @ [CHR 0x0A]) [ArgStr ''value'', ArgStr (type_name d)]) @
       npf ''prekernel | '' [] @ npf ''prekernel panic: '' [] @ npf ''ubsan'' [] @ npf [CHR 0x0A] [])"
  using assms misaligned_mask [OF assms, of ptr]
  by (simp add: ubsan_handle_type_mismatch_v1_def mismatch_message_def report_tape)

definition sample_mismatch :: tu_type_mismatch_v1_data where
  "sample_mismatch = \<lparr>tm_location = \<lparr>loc_file = None, loc_line = 7, loc_column = 3\<rparr>, tm_type = None,
     tm_log_alignment = 3, tm_type_check_kind = 0\<rparr>"

theorem ubsan_type_mismatch_report_witness:
  "ubsan_handle_type_mismatch_v1 tape (\<lambda>_ _. [1]) sample_mismatch 4 [] =
    Stopped (Panic ''ubsan'') [1, 1, 1, 1, 1, 1] \<and> mismatch_message 3 4 = ''use of misaligned pointer''"
proof -
  have "unat (tm_log_alignment sample_mismatch) < 64"
    by (simp add: sample_mismatch_def)
  from ubsan_type_mismatch_report [OF this, of "\<lambda>_ _. [1]" 4 "[]"] show ?thesis
    by (simp add: sample_mismatch_def location_line_def mismatch_message_def)
qed

text \<open>Every abort handler stops the machine exactly as the plain handler does: its own panic is
  never reached.\<close>

theorem ubsan_abort_same:
  "ubsan_handle_add_overflow_abort putc npf d0 s = ubsan_handle_add_overflow putc npf d0 s \<and>
    ubsan_handle_sub_overflow_abort putc npf d1 s = ubsan_handle_sub_overflow putc npf d1 s \<and>
    ubsan_handle_mul_overflow_abort putc npf d2 s = ubsan_handle_mul_overflow putc npf d2 s \<and>
    ubsan_handle_divrem_overflow_abort putc npf d3 s = ubsan_handle_divrem_overflow putc npf d3 s \<and>
    ubsan_handle_negate_overflow_abort putc npf d4 s = ubsan_handle_negate_overflow putc npf d4 s \<and>
    ubsan_handle_pointer_overflow_abort putc npf d5 s = ubsan_handle_pointer_overflow putc npf d5 s \<and>
    ubsan_handle_shift_out_of_bounds_abort putc npf d6 s = ubsan_handle_shift_out_of_bounds putc npf d6 s \<and>
    ubsan_handle_load_invalid_value_abort putc npf d7 s = ubsan_handle_load_invalid_value putc npf d7 s \<and>
    ubsan_handle_out_of_bounds_abort putc npf d8 s = ubsan_handle_out_of_bounds putc npf d8 s \<and>
    ubsan_handle_vla_bound_not_positive_abort putc npf d9 s = ubsan_handle_vla_bound_not_positive putc npf d9 s \<and>
    ubsan_handle_nonnull_return_abort putc npf d10 s = ubsan_handle_nonnull_return putc npf d10 s \<and>
    ubsan_handle_nonnull_arg_abort putc npf d11 s = ubsan_handle_nonnull_arg putc npf d11 s \<and>
    ubsan_handle_builtin_unreachable_abort putc npf d12 s = ubsan_handle_builtin_unreachable putc npf d12 s \<and>
    ubsan_handle_invalid_builtin_abort putc npf d13 s = ubsan_handle_invalid_builtin putc npf d13 s \<and>
    ubsan_handle_type_mismatch_v1_abort putc npf dm ptr s = ubsan_handle_type_mismatch_v1 putc npf dm ptr s"
  by (simp add: ubsan_abort_defs and_then_stopped)

end
