(* ===== verification/Uart.thy ===== *)
theory Uart
  imports Console
begin

text \<open>
  The serial port driver \<open>pre_kernel/src/arch/x86_64/hardware/16550uart.c\<close> over the port accesses
  of \<open>pre_kernel/include/arch/x86_64/arch/io.h\<close>. The machine behind the ports is the record \<open>bus\<close>:
  what \<open>in\<close> and \<open>out\<close> do to its state \<open>'d\<close>.
\<close>

record 'd bus =
  bus_in :: "u16 \<Rightarrow> 'd \<Rightarrow> u8 \<times> 'd"
  bus_out :: "u16 \<Rightarrow> u8 \<Rightarrow> 'd \<Rightarrow> 'd"

section \<open>Port accesses\<close>

definition arch_io_wait :: "'d bus \<Rightarrow> 'd \<Rightarrow> 'd" where
  "arch_io_wait b d = bus_out b 0x80 0 d"

definition arch_io_port_write_u8 :: "'d bus \<Rightarrow> u16 \<Rightarrow> u8 \<Rightarrow> 'd \<Rightarrow> 'd" where
  "arch_io_port_write_u8 b port value d = bus_out b port value d"

definition arch_io_port_read_u8 :: "'d bus \<Rightarrow> u16 \<Rightarrow> 'd \<Rightarrow> u8 \<times> 'd" where
  "arch_io_port_read_u8 b port d = bus_in b port d"

section \<open>Registers and settings\<close>

definition SERIAL_RX_BUFF :: u16 where "SERIAL_RX_BUFF = 0"
definition SERIAL_TX_BUFF :: u16 where "SERIAL_TX_BUFF = 0"
definition SERIAL_INTR_CONF :: u16 where "SERIAL_INTR_CONF = 1"
definition SERIAL_DLAB_DIV_LO :: u16 where "SERIAL_DLAB_DIV_LO = 0"
definition SERIAL_DLAB_DIV_HI :: u16 where "SERIAL_DLAB_DIV_HI = 1"
definition SERIAL_FIFO_CONF :: u16 where "SERIAL_FIFO_CONF = 2"
definition SERIAL_INTR_INFO :: u16 where "SERIAL_INTR_INFO = 2"
definition SERIAL_MODEM_INFO :: u16 where "SERIAL_MODEM_INFO = 6"
definition SERIAL_LINE_CONF :: u16 where "SERIAL_LINE_CONF = 3"
definition SERIAL_MODEM_CONF :: u16 where "SERIAL_MODEM_CONF = 4"
definition SERIAL_LINE_INFO :: u16 where "SERIAL_LINE_INFO = 5"
definition SERIAL_SCRATCH_REG :: u16 where "SERIAL_SCRATCH_REG = 7"

definition SERIAL_FIFO_THRESH_1B :: u8 where "SERIAL_FIFO_THRESH_1B = 0x00"
definition SERIAL_FIFO_THRESH_4B :: u8 where "SERIAL_FIFO_THRESH_4B = 0x40"
definition SERIAL_FIFO_THRESH_8B :: u8 where "SERIAL_FIFO_THRESH_8B = 0x80"
definition SERIAL_FIFO_THRESH_14B :: u8 where "SERIAL_FIFO_THRESH_14B = 0xC0"
definition SERIAL_FIFO_ENABLE :: u8 where "SERIAL_FIFO_ENABLE = 0x01"
definition SERIAL_FIFO_RX_FLUSH :: u8 where "SERIAL_FIFO_RX_FLUSH = 0x02"
definition SERIAL_FIFO_TX_FLUSH :: u8 where "SERIAL_FIFO_TX_FLUSH = 0x04"

definition SERIAL_LCR_8BIT :: u8 where "SERIAL_LCR_8BIT = 0x03"
definition SERIAL_LCR_7BIT :: u8 where "SERIAL_LCR_7BIT = 0x01"
definition SERIAL_LCR_6BIT :: u8 where "SERIAL_LCR_6BIT = 0x02"
definition SERIAL_LCR_5BIT :: u8 where "SERIAL_LCR_5BIT = 0x00"
definition SERIAL_LCR_2STOP :: u8 where "SERIAL_LCR_2STOP = 0x04"
definition SERIAL_LCR_PARITY_ODD :: u8 where "SERIAL_LCR_PARITY_ODD = 0x08"
definition SERIAL_LCR_PARITY_EVEN :: u8 where "SERIAL_LCR_PARITY_EVEN = 0x18"
definition SERIAL_LCR_PARITY_MARK :: u8 where "SERIAL_LCR_PARITY_MARK = 0x28"
definition SERIAL_LCR_PARITY_SPCE :: u8 where "SERIAL_LCR_PARITY_SPCE = 0x38"
definition SERIAL_LCR_1STOP :: u8 where "SERIAL_LCR_1STOP = 0x00"
definition SERIAL_LCR_PARITY_NONE :: u8 where "SERIAL_LCR_PARITY_NONE = 0x00"

definition SERIAL_MCR_TX_ENABLE :: u8 where "SERIAL_MCR_TX_ENABLE = 0x01"
definition SERIAL_MCR_RX_ENABLE :: u8 where "SERIAL_MCR_RX_ENABLE = 0x02"
definition SERIAL_MCR_IRQ_ENABLE :: u8 where "SERIAL_MCR_IRQ_ENABLE = 0x08"
definition SERIAL_MCR_LOOP_ENABLE :: u8 where "SERIAL_MCR_LOOP_ENABLE = 0x10"

definition SERIAL_115200_BAUD :: u16 where "SERIAL_115200_BAUD = 1"
definition SERIAL_57600_BAUD :: u16 where "SERIAL_57600_BAUD = 2"
definition SERIAL_38400_BAUD :: u16 where "SERIAL_38400_BAUD = 3"
definition SERIAL_19200_BAUD :: u16 where "SERIAL_19200_BAUD = 6"
definition SERIAL_9600_BAUD :: u16 where "SERIAL_9600_BAUD = 12"
definition SERIAL_4800_BAUD :: u16 where "SERIAL_4800_BAUD = 24"
definition SERIAL_2400_BAUD :: u16 where "SERIAL_2400_BAUD = 48"
definition SERIAL_1200_BAUD :: u16 where "SERIAL_1200_BAUD = 96"
definition SERIAL_600_BAUD :: u16 where "SERIAL_600_BAUD = 192"
definition SERIAL_300_BAUD :: u16 where "SERIAL_300_BAUD = 384"

definition SERIAL_DLAB_BIT :: u8 where "SERIAL_DLAB_BIT = 0x80"
definition SERIAL_DATA_READY_BIT :: u8 where "SERIAL_DATA_READY_BIT = 0x01"
definition SERIAL_TX_EMPTY_BIT :: u8 where "SERIAL_TX_EMPTY_BIT = 0x20"
definition SERIAL_TEST_MAGIC :: u8 where "SERIAL_TEST_MAGIC = 0x69"
definition SERIAL_TEST_RETRIES :: nat where "SERIAL_TEST_RETRIES = 5"

lemmas serial_offset_defs =
  SERIAL_RX_BUFF_def SERIAL_TX_BUFF_def SERIAL_INTR_CONF_def SERIAL_DLAB_DIV_LO_def
  SERIAL_DLAB_DIV_HI_def SERIAL_FIFO_CONF_def SERIAL_LINE_CONF_def SERIAL_MODEM_CONF_def
  SERIAL_LINE_INFO_def SERIAL_SCRATCH_REG_def

lemmas serial_value_defs =
  SERIAL_FIFO_THRESH_1B_def SERIAL_FIFO_ENABLE_def SERIAL_FIFO_RX_FLUSH_def SERIAL_FIFO_TX_FLUSH_def
  SERIAL_LCR_8BIT_def SERIAL_LCR_1STOP_def SERIAL_LCR_PARITY_NONE_def SERIAL_MCR_TX_ENABLE_def
  SERIAL_MCR_RX_ENABLE_def SERIAL_MCR_IRQ_ENABLE_def SERIAL_MCR_LOOP_ENABLE_def
  SERIAL_115200_BAUD_def SERIAL_DLAB_BIT_def SERIAL_DATA_READY_BIT_def SERIAL_TX_EMPTY_BIT_def
  SERIAL_TEST_MAGIC_def

lemmas serial_baud_defs =
  SERIAL_115200_BAUD_def SERIAL_57600_BAUD_def SERIAL_38400_BAUD_def SERIAL_19200_BAUD_def SERIAL_9600_BAUD_def SERIAL_4800_BAUD_def SERIAL_2400_BAUD_def SERIAL_1200_BAUD_def SERIAL_600_BAUD_def SERIAL_300_BAUD_def

lemmas serial_lcr_defs =
  SERIAL_LCR_7BIT_def SERIAL_LCR_6BIT_def SERIAL_LCR_5BIT_def SERIAL_LCR_2STOP_def SERIAL_LCR_PARITY_ODD_def SERIAL_LCR_PARITY_EVEN_def SERIAL_LCR_PARITY_MARK_def SERIAL_LCR_PARITY_SPCE_def SERIAL_LCR_8BIT_def SERIAL_LCR_1STOP_def
  SERIAL_LCR_PARITY_NONE_def

text \<open>The driver's variables; the machine state is the field \<open>dev\<close>.\<close>

record 'd uart_state =
  g_arch_16550uart_port :: u16
  g_arch_16550uart_works :: bool
  dev :: 'd

section \<open>Setting registers\<close>

definition serial_set_dlab :: "'d bus \<Rightarrow> u16 \<Rightarrow> bool \<Rightarrow> 'd \<Rightarrow> 'd" where
  "serial_set_dlab b port setting d =
     (let d = arch_io_wait b d;
          (lcr, d) = arch_io_port_read_u8 b (port + SERIAL_LINE_CONF) d;
          d = arch_io_wait b d
      in if setting
         then (let d = arch_io_wait b d;
                   d = arch_io_port_write_u8 b (port + SERIAL_LINE_CONF) (lcr OR SERIAL_DLAB_BIT) d
               in arch_io_wait b d)
         else (let d = arch_io_wait b d;
                   d = arch_io_port_write_u8 b (port + SERIAL_LINE_CONF) (lcr AND NOT SERIAL_DLAB_BIT) d
               in arch_io_wait b d))"

definition serial_set_divisor :: "'d bus \<Rightarrow> u16 \<Rightarrow> u16 \<Rightarrow> 'd \<Rightarrow> 'd" where
  "serial_set_divisor b port divsor d =
     (let d = serial_set_dlab b port True d;
          d = arch_io_wait b d;
          d = arch_io_port_write_u8 b (port + SERIAL_DLAB_DIV_LO) (ucast (divsor AND 0xFF)) d;
          d = arch_io_wait b d;
          d = arch_io_wait b d;
          d = arch_io_port_write_u8 b (port + SERIAL_DLAB_DIV_HI) (ucast (drop_bit 8 divsor AND 0xFF)) d;
          d = arch_io_wait b d
      in serial_set_dlab b port False d)"

definition serial_set_interrupts :: "'d bus \<Rightarrow> u16 \<Rightarrow> u8 \<Rightarrow> 'd \<Rightarrow> 'd" where
  "serial_set_interrupts b port setting d =
     (let d = serial_set_dlab b port False d;
          d = arch_io_wait b d;
          d = arch_io_port_write_u8 b (port + SERIAL_INTR_CONF) setting d
      in arch_io_wait b d)"

definition serial_set_mcr :: "'d bus \<Rightarrow> u16 \<Rightarrow> u8 \<Rightarrow> 'd \<Rightarrow> 'd" where
  "serial_set_mcr b port setting d =
     (let d = arch_io_wait b d;
          d = arch_io_port_write_u8 b (port + SERIAL_MODEM_CONF) setting d
      in arch_io_wait b d)"

definition serial_set_lcr :: "'d bus \<Rightarrow> u16 \<Rightarrow> u8 \<Rightarrow> 'd \<Rightarrow> 'd" where
  "serial_set_lcr b port lcr d =
     (let d = arch_io_wait b d;
          d = arch_io_port_write_u8 b (port + SERIAL_LINE_CONF) lcr d
      in arch_io_wait b d)"

definition serial_set_fifo :: "'d bus \<Rightarrow> u16 \<Rightarrow> u8 \<Rightarrow> 'd \<Rightarrow> 'd" where
  "serial_set_fifo b port fifo d =
     (let d = arch_io_wait b d;
          d = arch_io_port_write_u8 b (port + SERIAL_FIFO_CONF) fifo d
      in arch_io_wait b d)"

section \<open>The self test\<close>

primrec io_waits :: "'d bus \<Rightarrow> nat \<Rightarrow> 'd \<Rightarrow> 'd" where
  "io_waits b 0 d = d"
| "io_waits b (Suc n) d = io_waits b n (arch_io_wait b d)"

text \<open>The retries, \<open>n\<close> of them left; \<open>True\<close> is the early return 2.\<close>

primrec serial_test_loop :: "'d bus \<Rightarrow> u16 \<Rightarrow> nat \<Rightarrow> 'd \<Rightarrow> bool \<times> 'd" where
  "serial_test_loop b port 0 d = (False, d)"
| "serial_test_loop b port (Suc n) d =
     (let d = arch_io_port_write_u8 b (port + SERIAL_TX_BUFF) SERIAL_TEST_MAGIC d;
          d = io_waits b 256 d;
          (v, d) = arch_io_port_read_u8 b (port + SERIAL_RX_BUFF) d
      in if v = SERIAL_TEST_MAGIC then (True, d) else serial_test_loop b port n d)"

definition serial_test :: "'d bus \<Rightarrow> u16 \<Rightarrow> 'd \<Rightarrow> int \<times> 'd" where
  "serial_test b port d =
     (let d = serial_set_divisor b port SERIAL_115200_BAUD d;
          d = serial_set_lcr b port (SERIAL_LCR_8BIT OR SERIAL_LCR_1STOP OR SERIAL_LCR_PARITY_NONE) d;
          d = serial_set_fifo b port (SERIAL_FIFO_TX_FLUSH OR SERIAL_FIFO_RX_FLUSH) d;
          d = serial_set_mcr b port (SERIAL_MCR_TX_ENABLE OR SERIAL_MCR_RX_ENABLE OR SERIAL_MCR_LOOP_ENABLE) d;
          d = serial_set_dlab b port False d;
          (passed, d) = serial_test_loop b port SERIAL_TEST_RETRIES d
      in if passed then (2, d)
         else (let d = arch_io_port_write_u8 b (port + SERIAL_SCRATCH_REG) SERIAL_TEST_MAGIC d;
                   (v, d) = arch_io_port_read_u8 b (port + SERIAL_SCRATCH_REG) d
               in if v = SERIAL_TEST_MAGIC then (1, d) else (0, d)))"

section \<open>Sending and receiving\<close>

definition arch_16550uart_transmit_empty :: "'d bus \<Rightarrow> u16 \<Rightarrow> 'd \<Rightarrow> int \<times> 'd" where
  "arch_16550uart_transmit_empty b port d =
     (let d = arch_io_wait b d;
          (v, d) = arch_io_port_read_u8 b (port + SERIAL_LINE_INFO) d;
          d = arch_io_wait b d
      in (uint (v AND SERIAL_TX_EMPTY_BIT), d))"

definition arch_16550uart_data_ready :: "'d bus \<Rightarrow> u16 \<Rightarrow> 'd \<Rightarrow> int \<times> 'd" where
  "arch_16550uart_data_ready b port d =
     (let d = arch_io_wait b d;
          (v, d) = arch_io_port_read_u8 b (port + SERIAL_LINE_INFO) d;
          d = arch_io_wait b d
      in (uint (v AND SERIAL_DATA_READY_BIT), d))"

text \<open>The polls of \<open>arch_16550uart_send\<close>, \<open>n\<close> of them left.\<close>

primrec send_poll :: "'d bus \<Rightarrow> u16 \<Rightarrow> nat \<Rightarrow> 'd \<Rightarrow> 'd" where
  "send_poll b port 0 d = d"
| "send_poll b port (Suc n) d =
     (let (e, d) = arch_16550uart_transmit_empty b port d
      in if e \<noteq> 0 then d else send_poll b port n d)"

definition arch_16550uart_send :: "'d bus \<Rightarrow> u16 \<Rightarrow> u8 \<Rightarrow> 'd \<Rightarrow> 'd" where
  "arch_16550uart_send b port c d =
     (let d = send_poll b port 100000 d;
          d = arch_io_wait b d;
          d = arch_io_port_write_u8 b (port + SERIAL_TX_BUFF) c d
      in arch_io_wait b d)"

definition arch_16550uart_read :: "'d bus \<Rightarrow> u16 \<Rightarrow> 'd \<Rightarrow> int \<times> 'd" where
  "arch_16550uart_read b port d =
     (let (ready, d) = arch_16550uart_data_ready b port d
      in if ready = 0 then (-1, d)
         else (let d = arch_io_wait b d;
                   (v, d) = arch_io_port_read_u8 b (port + SERIAL_RX_BUFF) d;
                   d = arch_io_wait b d
               in (uint v, d)))"

definition serial_sink :: "'d bus \<Rightarrow> u16 \<Rightarrow> u8 \<Rightarrow> 'd \<Rightarrow> 'd" where
  "serial_sink b port c d = arch_16550uart_send b port c d"

text \<open>\<open>arch_debug_putc\<close> of \<open>pre_kernel/src/arch/x86_64/arch.c\<close>.\<close>

definition x86_debug_putc :: "'d bus \<Rightarrow> u8 \<Rightarrow> 'd uart_state \<Rightarrow> 'd uart_state" where
  "x86_debug_putc b c st =
     (let st = st\<lparr>dev := arch_io_port_write_u8 b 0xE9 c (dev st)\<rparr>
      in if g_arch_16550uart_works st
         then st\<lparr>dev := arch_16550uart_send b (g_arch_16550uart_port st) c (dev st)\<rparr> else st)"

section \<open>Start-up\<close>

definition arch_16550uart_early_setup :: "'d bus \<Rightarrow> formatter \<Rightarrow> 'd uart_state \<Rightarrow> 'd uart_state" where
  "arch_16550uart_early_setup b npf st =
     (let port = g_arch_16550uart_port st;
          d = serial_set_interrupts b port 0 (dev st);
          (status, d) = serial_test b port d
      in if status = 0
         then log_print (x86_debug_putc b) npf
                (''16550uart Failed to init; Do you lack a serial port at I/O port 0x%x?'' @ [CHR 0x0A])
                [ArgInt (uint port)] (st\<lparr>dev := d, g_arch_16550uart_works := False\<rparr>)
         else
           (let d = serial_set_divisor b port SERIAL_115200_BAUD d;
                d = serial_set_lcr b port (SERIAL_LCR_8BIT OR SERIAL_LCR_1STOP OR SERIAL_LCR_PARITY_NONE) d;
                d = serial_set_fifo b port (SERIAL_FIFO_ENABLE OR SERIAL_FIFO_THRESH_1B OR
                      SERIAL_FIFO_TX_FLUSH OR SERIAL_FIFO_RX_FLUSH) d;
                d = serial_set_mcr b port (SERIAL_MCR_TX_ENABLE OR SERIAL_MCR_RX_ENABLE OR SERIAL_MCR_IRQ_ENABLE) d;
                d = serial_set_dlab b port False d;
                st = st\<lparr>dev := d, g_arch_16550uart_works := True\<rparr>
            in if status = 1
               then log_print (x86_debug_putc b) npf
                      (''Serial port at I/O port 0x%x failed part of self test'' @ [CHR 0x0A]) [ArgInt (uint port)] st
               else
                 (let st = log_print (x86_debug_putc b) npf (''Serial init'' @ [CHR 0x0A]) [] st
                  in st\<lparr>dev := serial_sink b port 10 (dev st)\<rparr>)))"

text \<open>\<open>arch_init_early\<close> of \<open>pre_kernel/src/arch/x86_64/arch.c\<close>.\<close>

definition x86_init_early :: "'d bus \<Rightarrow> formatter \<Rightarrow> 'd uart_state \<Rightarrow> 'd uart_state" where
  "x86_init_early b npf st = arch_16550uart_early_setup b npf st"

end
