(* ===== verification/UartDevice.thy ===== *)
theory UartDevice
  imports Uart
begin

text \<open>
  The other side of the ports: the registers of a 16550 as its data sheet describes them, the
  contract \<open>serial_bus\<close> of a machine that has one at a base port, and the driver's operations seen
  through it. \<open>pc_bus\<close> is such a machine.
\<close>

section \<open>A 16550\<close>

text \<open>
  \<open>u_tx\<close> is what has gone out on the line, \<open>u_rx\<close> what waits to be read. A byte keeps the transmitter
  busy until the line status has been read \<open>u_busy\<close> more times; a byte written meanwhile is lost.
  Without its FIFOs the receiver holds one byte. The FIFO control bits only count together with
  the enable bit, and changing that bit empties the FIFOs.
\<close>

record uart16550 =
  u_div_lo :: u8
  u_div_hi :: u8
  u_ier :: u8
  u_fcr :: u8
  u_lcr :: u8
  u_mcr :: u8
  u_scr :: u8
  u_rx :: "u8 list"
  u_tx :: "u8 list"
  u_busy :: nat

definition dlab :: "uart16550 \<Rightarrow> bool" where
  "dlab u \<longleftrightarrow> bit (u_lcr u) 7"

definition looped :: "uart16550 \<Rightarrow> bool" where
  "looped u \<longleftrightarrow> bit (u_mcr u) 4"

definition fifo_on :: "uart16550 \<Rightarrow> bool" where
  "fifo_on u \<longleftrightarrow> bit (u_fcr u) 0"

definition uart_read :: "u16 \<Rightarrow> uart16550 \<Rightarrow> u8 \<times> uart16550" where
  "uart_read r u =
     (if r = 0 then (if dlab u then (u_div_lo u, u)
                     else case u_rx u of [] \<Rightarrow> (0, u) | x # xs \<Rightarrow> (x, u\<lparr>u_rx := xs\<rparr>))
      else if r = 1 then (if dlab u then u_div_hi u else u_ier u, u)
      else if r = 3 then (u_lcr u, u)
      else if r = 4 then (u_mcr u, u)
      else if r = 5 then ((if u_rx u = [] then 0 else 0x01) OR (if u_busy u = 0 then 0x60 else 0),
                          u\<lparr>u_busy := u_busy u - 1\<rparr>)
      else if r = 7 then (u_scr u, u) else (0, u))"

definition uart_write :: "nat \<Rightarrow> u16 \<Rightarrow> u8 \<Rightarrow> uart16550 \<Rightarrow> uart16550" where
  "uart_write delay r v u =
     (if r = 0 then (if dlab u then u\<lparr>u_div_lo := v\<rparr>
                     else if looped u then u\<lparr>u_rx := (if fifo_on u then take 16 (u_rx u @ [v]) else [v])\<rparr>
                     else if u_busy u = 0 then u\<lparr>u_tx := u_tx u @ [v], u_busy := delay\<rparr> else u)
      else if r = 1 then (if dlab u then u\<lparr>u_div_hi := v\<rparr> else u\<lparr>u_ier := v\<rparr>)
      else if r = 2 then u\<lparr>u_fcr := (if bit v 0 then v else 0),
                           u_rx := (if fifo_on u \<noteq> bit v 0 \<or> (bit v 0 \<and> bit v 1) then [] else u_rx u)\<rparr>
      else if r = 3 then u\<lparr>u_lcr := v\<rparr>
      else if r = 4 then u\<lparr>u_mcr := v\<rparr>
      else if r = 7 then u\<lparr>u_scr := v\<rparr> else u)"

section \<open>A machine with a 16550\<close>

locale serial_bus =
  fixes b :: "'d bus" and port :: u16 and uart :: "'d \<Rightarrow> uart16550" and delay :: nat
  assumes out_uart: "unat r < 8 \<Longrightarrow> uart (bus_out b (port + r) v d) = uart_write delay r v (uart d)"
    and in_value: "unat r < 8 \<Longrightarrow> fst (bus_in b (port + r) d) = fst (uart_read r (uart d))"
    and in_uart: "unat r < 8 \<Longrightarrow> uart (snd (bus_in b (port + r) d)) = snd (uart_read r (uart d))"
    and out_wait: "uart (bus_out b 0x80 v d) = uart d"
    and out_debug: "uart (bus_out b 0xE9 v d) = uart d"
begin

lemma wait_uart [simp]: "uart (arch_io_wait b d) = uart d"
  by (simp add: arch_io_wait_def out_wait)

lemma waits_uart [simp]: "uart (io_waits b n d) = uart d"
  by (induction n arbitrary: d) simp_all

lemma write_reg:
  "uart (arch_io_port_write_u8 b (port + SERIAL_TX_BUFF) v d) = uart_write delay 0 v (uart d)"
  "uart (arch_io_port_write_u8 b (port + SERIAL_DLAB_DIV_LO) v d) = uart_write delay 0 v (uart d)"
  "uart (arch_io_port_write_u8 b (port + SERIAL_DLAB_DIV_HI) v d) = uart_write delay 1 v (uart d)"
  "uart (arch_io_port_write_u8 b (port + SERIAL_INTR_CONF) v d) = uart_write delay 1 v (uart d)"
  "uart (arch_io_port_write_u8 b (port + SERIAL_FIFO_CONF) v d) = uart_write delay 2 v (uart d)"
  "uart (arch_io_port_write_u8 b (port + SERIAL_LINE_CONF) v d) = (uart d)\<lparr>u_lcr := v\<rparr>"
  "uart (arch_io_port_write_u8 b (port + SERIAL_MODEM_CONF) v d) = (uart d)\<lparr>u_mcr := v\<rparr>"
  "uart (arch_io_port_write_u8 b (port + SERIAL_SCRATCH_REG) v d) = (uart d)\<lparr>u_scr := v\<rparr>"
  using out_uart [of 0] out_uart [of 1] out_uart [of 2] out_uart [of 3] out_uart [of 4] out_uart [of 7]
  by (simp_all add: arch_io_port_write_u8_def serial_offset_defs uart_write_def)

lemma read_reg:
  "fst (arch_io_port_read_u8 b (port + SERIAL_RX_BUFF) d) = fst (uart_read 0 (uart d))"
  "uart (snd (arch_io_port_read_u8 b (port + SERIAL_RX_BUFF) d)) = snd (uart_read 0 (uart d))"
  "fst (arch_io_port_read_u8 b (port + SERIAL_LINE_CONF) d) = u_lcr (uart d)"
  "uart (snd (arch_io_port_read_u8 b (port + SERIAL_LINE_CONF) d)) = uart d"
  "fst (arch_io_port_read_u8 b (port + SERIAL_LINE_INFO) d) = fst (uart_read 5 (uart d))"
  "uart (snd (arch_io_port_read_u8 b (port + SERIAL_LINE_INFO) d)) = snd (uart_read 5 (uart d))"
  "fst (arch_io_port_read_u8 b (port + SERIAL_SCRATCH_REG) d) = u_scr (uart d)"
  "uart (snd (arch_io_port_read_u8 b (port + SERIAL_SCRATCH_REG) d)) = uart d"
  using in_value [of 0] in_uart [of 0] in_value [of 3] in_uart [of 3] in_value [of 5] in_uart [of 5]
    in_value [of 7] in_uart [of 7]
  by (simp_all add: arch_io_port_read_u8_def serial_offset_defs uart_read_def)

lemma set_dlab [simp]:
  "uart (serial_set_dlab b port on d) =
    (uart d)\<lparr>u_lcr := (if on then u_lcr (uart d) OR 0x80 else u_lcr (uart d) AND NOT 0x80)\<rparr>"
  by (simp add: serial_set_dlab_def Let_def split_def write_reg read_reg SERIAL_DLAB_BIT_def)

lemma dlab_set:
  "dlab (u\<lparr>u_lcr := v OR 0x80\<rparr>)" "\<not> dlab (u\<lparr>u_lcr := v AND NOT 0x80\<rparr>)"
  "(v OR 0x80) AND NOT 0x80 = v AND NOT 0x80" for v :: u8
proof -
  have h: "(0x80 :: u8) = push_bit 7 1"
    by simp
  show "dlab (u\<lparr>u_lcr := v OR 0x80\<rparr>)" "\<not> dlab (u\<lparr>u_lcr := v AND NOT 0x80\<rparr>)"
    unfolding dlab_def h by (simp_all add: bit_or_iff bit_and_iff bit_not_iff bit_push_bit_iff del: push_bit_of_1)
  show "(v OR 0x80) AND NOT 0x80 = v AND NOT 0x80"
    by (rule bit_word_eqI) (auto simp: bit_simps)
qed

lemmas dlab_set_simps [simp] = dlab_set [simplified]

lemma set_divisor [simp]:
  "uart (serial_set_divisor b port n d) = (uart d)\<lparr>u_lcr := u_lcr (uart d) AND NOT 0x80,
    u_div_lo := ucast (n AND 0xFF), u_div_hi := ucast (drop_bit 8 n AND 0xFF)\<rparr>"
proof -
  have lo: "dlab (u\<lparr>u_lcr := v OR 0x80, u_div_lo := w\<rparr>)" for u v w
    using dlab_set(1) by (simp add: dlab_def)
  show ?thesis
    by (simp add: serial_set_divisor_def Let_def write_reg uart_write_def lo)
qed

lemma set_interrupts [simp]:
  "uart (serial_set_interrupts b port v d) =
    (uart d)\<lparr>u_lcr := u_lcr (uart d) AND NOT 0x80, u_ier := v\<rparr>"
  by (simp add: serial_set_interrupts_def Let_def write_reg uart_write_def)

lemma set_mcr [simp]: "uart (serial_set_mcr b port v d) = (uart d)\<lparr>u_mcr := v\<rparr>"
  by (simp add: serial_set_mcr_def Let_def write_reg)

lemma set_lcr [simp]: "uart (serial_set_lcr b port v d) = (uart d)\<lparr>u_lcr := v\<rparr>"
  by (simp add: serial_set_lcr_def Let_def write_reg)

lemma set_fifo [simp]: "uart (serial_set_fifo b port v d) = uart_write delay 2 v (uart d)"
  by (simp add: serial_set_fifo_def Let_def write_reg)

text \<open>The self test on a working 16550: the first try succeeds, whatever was in the receiver.\<close>

lemma test_ok:
  "fst (serial_test b port d) = 2"
  "uart (snd (serial_test b port d)) = (uart d)\<lparr>u_div_lo := 1, u_div_hi := 0, u_lcr := 3, u_fcr := 0,
    u_mcr := 0x13, u_rx := []\<rparr>"
proof -
  define u where "u = (uart d)\<lparr>u_div_lo := 1, u_div_hi := 0, u_lcr := 3, u_fcr := 0, u_mcr := 0x13,
    u_rx := (if fifo_on (uart d) then [] else u_rx (uart d))\<rparr>"
  have mode: "\<not> dlab u" "looped u" "\<not> fifo_on u"
    unfolding u_def dlab_def looped_def fifo_on_def by simp_all
  have echo: "uart_write delay 0 0x69 u = u\<lparr>u_rx := [0x69]\<rparr>" "uart_read 0 (u\<lparr>u_rx := [0x69]\<rparr>) = (0x69, u\<lparr>u_rx := []\<rparr>)"
    using mode by (simp_all add: uart_write_def uart_read_def dlab_def looped_def fifo_on_def)
  let ?d = "serial_set_dlab b port False (serial_set_mcr b port
      (SERIAL_MCR_TX_ENABLE OR SERIAL_MCR_RX_ENABLE OR SERIAL_MCR_LOOP_ENABLE)
      (serial_set_fifo b port (SERIAL_FIFO_TX_FLUSH OR SERIAL_FIFO_RX_FLUSH)
      (serial_set_lcr b port (SERIAL_LCR_8BIT OR SERIAL_LCR_1STOP OR SERIAL_LCR_PARITY_NONE)
      (serial_set_divisor b port SERIAL_115200_BAUD d))))"
  have uart: "uart ?d = u"
    by (simp add: serial_value_defs uart_write_def u_def fifo_on_def)
  have retries: "SERIAL_TEST_RETRIES = Suc 4"
    by (simp add: SERIAL_TEST_RETRIES_def)
  have loop: "fst (serial_test_loop b port SERIAL_TEST_RETRIES ?d)"
    "uart (snd (serial_test_loop b port SERIAL_TEST_RETRIES ?d)) = u\<lparr>u_rx := []\<rparr>"
    unfolding retries serial_test_loop.simps Let_def
    by (simp_all add: split_def write_reg read_reg uart echo SERIAL_TEST_MAGIC_def del: set_dlab set_mcr set_fifo)
  show "fst (serial_test b port d) = 2"
    "uart (snd (serial_test b port d)) = (uart d)\<lparr>u_div_lo := 1, u_div_hi := 0, u_lcr := 3, u_fcr := 0,
    u_mcr := 0x13, u_rx := []\<rparr>"
    unfolding serial_test_def Let_def using loop by (simp_all add: split_def u_def)
qed

text \<open>Polling: each poll reads the line status once.\<close>

lemma transmit_empty:
  "fst (arch_16550uart_transmit_empty b port d) = (if u_busy (uart d) = 0 then 0x20 else 0)"
  "uart (snd (arch_16550uart_transmit_empty b port d)) = (uart d)\<lparr>u_busy := u_busy (uart d) - 1\<rparr>"
  by (simp_all add: arch_16550uart_transmit_empty_def Let_def split_def read_reg uart_read_def serial_value_defs)

lemma send_poll_busy:
  "uart (send_poll b port n d) = (uart d)\<lparr>u_busy := u_busy (uart d) - n\<rparr>"
proof (induction n arbitrary: d)
  case (Suc n)
  show ?case
    using Suc.IH by (simp add: split_def transmit_empty)
qed simp

lemma send_uart:
  assumes "\<not> dlab (uart d)" and "\<not> looped (uart d)" and "u_busy (uart d) \<le> 100000"
  shows "uart (arch_16550uart_send b port c d) =
    (uart d)\<lparr>u_tx := u_tx (uart d) @ [c], u_busy := delay\<rparr>"
proof -
  have "\<not> dlab ((uart d)\<lparr>u_busy := 0\<rparr>)" "\<not> looped ((uart d)\<lparr>u_busy := 0\<rparr>)"
    using assms by (simp_all add: dlab_def looped_def)
  then show ?thesis
    using assms(3) by (simp add: arch_16550uart_send_def Let_def write_reg uart_write_def send_poll_busy)
qed

lemma send_lost:
  assumes "\<not> dlab (uart d)" and "\<not> looped (uart d)" and "100000 < u_busy (uart d)"
  shows "u_tx (uart (arch_16550uart_send b port c d)) = u_tx (uart d)"
  using assms by (simp add: arch_16550uart_send_def Let_def write_reg uart_write_def send_poll_busy dlab_def looped_def)

lemma read_uart:
  assumes "\<not> dlab (uart d)"
  shows "fst (arch_16550uart_read b port d) = (case u_rx (uart d) of [] \<Rightarrow> -1 | x # xs \<Rightarrow> uint x)"
    and "u_rx (uart (snd (arch_16550uart_read b port d))) = drop 1 (u_rx (uart d))"
proof -
  have ready: "fst (arch_16550uart_data_ready b port d) = (if u_rx (uart d) = [] then 0 else 1)"
    "uart (snd (arch_16550uart_data_ready b port d)) = (uart d)\<lparr>u_busy := u_busy (uart d) - 1\<rparr>"
    by (simp_all add: arch_16550uart_data_ready_def Let_def split_def read_reg uart_read_def serial_value_defs)
  have "\<not> dlab ((uart d)\<lparr>u_busy := u_busy (uart d) - 1\<rparr>)"
    using assms by (simp add: dlab_def)
  then show "fst (arch_16550uart_read b port d) = (case u_rx (uart d) of [] \<Rightarrow> -1 | x # xs \<Rightarrow> uint x)"
    "u_rx (uart (snd (arch_16550uart_read b port d))) = drop 1 (u_rx (uart d))"
    by (simp_all add: arch_16550uart_read_def Let_def split_def ready read_reg uart_read_def split: list.split)
qed

end

end
