(* ===== verification/UartProps.thy ===== *)
theory UartProps
  imports UartDevice
begin

text \<open>
  Start-up of the serial port, with and without one behind the ports, and what the log prints
  reaches the line.
\<close>

context serial_bus
begin

definition line_ready :: "uart16550 \<Rightarrow> bool" where
  "line_ready u \<longleftrightarrow> \<not> dlab u \<and> \<not> looped u \<and> u_busy u \<le> 100000"

lemma line_ready_sent: "line_ready u \<Longrightarrow> delay \<le> 100000 \<Longrightarrow> line_ready (u\<lparr>u_tx := t, u_busy := delay\<rparr>)"
  by (simp add: line_ready_def dlab_def looped_def)

lemma putc_uart:
  assumes "g_arch_16550uart_works st" and "g_arch_16550uart_port st = port" and "line_ready (uart (dev st))"
  shows "uart (dev (x86_debug_putc b c st)) = (uart (dev st))\<lparr>u_tx := u_tx (uart (dev st)) @ [c], u_busy := delay\<rparr>"
    and "g_arch_16550uart_works (x86_debug_putc b c st)" and "g_arch_16550uart_port (x86_debug_putc b c st) = port"
proof -
  have dbg: "uart (arch_io_port_write_u8 b 0xE9 c d) = uart d" for d
    by (simp add: arch_io_port_write_u8_def out_debug)
  show "uart (dev (x86_debug_putc b c st)) = (uart (dev st))\<lparr>u_tx := u_tx (uart (dev st)) @ [c], u_busy := delay\<rparr>"
    "g_arch_16550uart_works (x86_debug_putc b c st)" "g_arch_16550uart_port (x86_debug_putc b c st) = port"
    using assms send_uart by (simp_all add: x86_debug_putc_def Let_def dbg line_ready_def)
qed

lemma fold_putc_uart:
  assumes "delay \<le> 100000" and "g_arch_16550uart_works st" and "g_arch_16550uart_port st = port"
    and "line_ready (uart (dev st))"
  shows "\<exists>k. uart (dev (fold (x86_debug_putc b) bs st)) = (uart (dev st))\<lparr>u_tx := u_tx (uart (dev st)) @ bs, u_busy := k\<rparr> \<and>
    line_ready (uart (dev (fold (x86_debug_putc b) bs st))) \<and>
    g_arch_16550uart_works (fold (x86_debug_putc b) bs st) \<and>
    g_arch_16550uart_port (fold (x86_debug_putc b) bs st) = port"
  using assms(2-4)
proof (induction bs arbitrary: st)
  case Nil
  then show ?case
    by (auto intro: exI [of _ "u_busy (uart (dev st))"])
next
  case (Cons c bs)
  note putc = putc_uart [OF Cons.prems, of c]
  have "line_ready (uart (dev (x86_debug_putc b c st)))"
    unfolding putc(1) using Cons.prems(3) assms(1) by (rule line_ready_sent)
  from Cons.IH [OF putc(2,3) this] show ?case
    by (auto simp: putc(1))
qed

text \<open>The whole start-up, on a working 16550 in any state.\<close>

lemma early_setup_uart:
  fixes st :: "'d uart_state" and npf :: formatter
  assumes "delay \<le> 100000" and "g_arch_16550uart_port st = port" and "u_busy (uart (dev st)) \<le> 100000"
  defines "st' \<equiv> arch_16550uart_early_setup b npf st"
  shows "g_arch_16550uart_works st'" and "g_arch_16550uart_port st' = port"
    and "\<exists>k. uart (dev st') = \<lparr>u_div_lo = 1, u_div_hi = 0, u_ier = 0, u_fcr = 7, u_lcr = 3, u_mcr = 0x0B,
      u_scr = u_scr (uart (dev st)), u_rx = [],
      u_tx = u_tx (uart (dev st)) @ npf ''prekernel | '' [] @ npf (''Serial init'' @ [CHR 0x0A]) [] @ [10], u_busy = k\<rparr>"
proof -
  let ?u = "uart (dev st)"
  define d1 where "d1 = snd (serial_test b port (serial_set_interrupts b port 0 (dev st)))"
  define d2 where "d2 = serial_set_dlab b port False (serial_set_mcr b port
      (SERIAL_MCR_TX_ENABLE OR SERIAL_MCR_RX_ENABLE OR SERIAL_MCR_IRQ_ENABLE)
      (serial_set_fifo b port (SERIAL_FIFO_ENABLE OR SERIAL_FIFO_THRESH_1B OR SERIAL_FIFO_TX_FLUSH OR SERIAL_FIFO_RX_FLUSH)
      (serial_set_lcr b port (SERIAL_LCR_8BIT OR SERIAL_LCR_1STOP OR SERIAL_LCR_PARITY_NONE)
      (serial_set_divisor b port SERIAL_115200_BAUD d1))))"
  define ready where "ready = \<lparr>u_div_lo = 1, u_div_hi = 0, u_ier = 0, u_fcr = 7, u_lcr = 3, u_mcr = 0x0B,
      u_scr = u_scr ?u, u_rx = [], u_tx = u_tx ?u, u_busy = u_busy ?u\<rparr>"
  have "uart d1 = ?u\<lparr>u_div_lo := 1, u_div_hi := 0, u_ier := 0, u_lcr := 3, u_fcr := 0, u_mcr := 0x13, u_rx := []\<rparr>"
    unfolding d1_def test_ok(2) by simp
  then have d2: "uart d2 = ready"
    unfolding d2_def ready_def by (simp add: serial_value_defs uart_write_def)
  have line: "line_ready ready"
    using assms(3) by (simp add: line_ready_def ready_def dlab_def looped_def)
  define st2 where "st2 = st\<lparr>dev := d2, g_arch_16550uart_works := True\<rparr>"
  let ?bs = "npf ''prekernel | '' [] @ npf (''Serial init'' @ [CHR 0x0A]) []"
  have st2: "g_arch_16550uart_works st2" "g_arch_16550uart_port st2 = port" "uart (dev st2) = ready"
    using assms(2) d2 by (simp_all add: st2_def)
  define st3 where "st3 = fold (x86_debug_putc b) ?bs st2"
  from fold_putc_uart [OF assms(1) st2(1,2), of ?bs] line obtain k where
    k: "uart (dev st3) = ready\<lparr>u_tx := u_tx ready @ ?bs, u_busy := k\<rparr>" "line_ready (uart (dev st3))"
    "g_arch_16550uart_works st3" "g_arch_16550uart_port st3 = port"
    unfolding st2(3) st3_def by blast
  have st': "st' = st3\<lparr>dev := serial_sink b port 10 (dev st3)\<rparr>"
    using assms(2) test_ok(1) unfolding st'_def arch_16550uart_early_setup_def Let_def
    by (simp add: split_def log_print_def npf_vpprintf_def st3_def st2_def d2_def d1_def Let_def)
  then show "g_arch_16550uart_works st'" "g_arch_16550uart_port st' = port"
    using k(3,4) by simp_all
  have "uart (dev st') = (uart (dev st3))\<lparr>u_tx := u_tx (uart (dev st3)) @ [10], u_busy := delay\<rparr>"
    using k(2) send_uart by (simp add: st' serial_sink_def line_ready_def)
  then show "\<exists>k. uart (dev st') = \<lparr>u_div_lo = 1, u_div_hi = 0, u_ier = 0, u_fcr = 7, u_lcr = 3, u_mcr = 0x0B,
      u_scr = u_scr (uart (dev st)), u_rx = [],
      u_tx = u_tx (uart (dev st)) @ npf ''prekernel | '' [] @ npf (''Serial init'' @ [CHR 0x0A]) [] @ [10], u_busy = k\<rparr>"
    unfolding k(1) by (intro exI [of _ delay]) (simp add: ready_def)
qed

end

section \<open>A machine to run on\<close>

record pc =
  pc_uart :: uart16550
  pc_debug :: "u8 list"

definition pc_bus :: "nat \<Rightarrow> pc bus" where
  "pc_bus delay = \<lparr>
     bus_in = (\<lambda>p m. if 0x3F8 \<le> p \<and> p < 0x400
       then (fst (uart_read (p - 0x3F8) (pc_uart m)), m\<lparr>pc_uart := snd (uart_read (p - 0x3F8) (pc_uart m))\<rparr>)
       else (0xFF, m)),
     bus_out = (\<lambda>p v m. if 0x3F8 \<le> p \<and> p < 0x400 then m\<lparr>pc_uart := uart_write delay (p - 0x3F8) v (pc_uart m)\<rparr>
       else if p = 0xE9 then m\<lparr>pc_debug := pc_debug m @ [v]\<rparr> else m)\<rparr>"

interpretation pc: serial_bus "pc_bus delay" "0x3F8" pc_uart delay for delay
proof unfold_locales
  fix r :: u16 and v d assume r: "unat r < 8"
  have "unat (0x3F8 + r) = 0x3F8 + unat r"
    using r by (subst unat_add_nowrap) simp_all
  then have "0x3F8 \<le> 0x3F8 + r" "0x3F8 + r < 0x400"
    using r by (simp_all add: word_le_nat_alt word_less_nat_alt)
  then show "pc_uart (bus_out (pc_bus delay) (0x3F8 + r) v d) = uart_write delay r v (pc_uart d)"
    "fst (bus_in (pc_bus delay) (0x3F8 + r) d) = fst (uart_read r (pc_uart d))"
    "pc_uart (snd (bus_in (pc_bus delay) (0x3F8 + r) d)) = snd (uart_read r (pc_uart d))"
    by (simp_all add: pc_bus_def)
qed (simp_all add: pc_bus_def)

section \<open>The properties\<close>

text \<open>C24. On any machine with a working 16550 at the port, whatever state it was left in, start-up
  passes the self test and leaves it at 115200 baud, 8N1, FIFOs on and empty, interrupts masked,
  loop-back off, and the greeting has gone out on the line.\<close>

theorem uart_setup_works:
  assumes "serial_bus b port uart delay" and "delay \<le> 100000"
    and "g_arch_16550uart_port st = port" and "u_busy (uart (dev st)) \<le> 100000"
  shows "g_arch_16550uart_works (arch_16550uart_early_setup b npf st) \<and>
    (\<exists>k. uart (dev (arch_16550uart_early_setup b npf st)) = \<lparr>u_div_lo = 1, u_div_hi = 0, u_ier = 0,
      u_fcr = 7, u_lcr = 3, u_mcr = 0x0B, u_scr = u_scr (uart (dev st)), u_rx = [],
      u_tx = u_tx (uart (dev st)) @ npf ''prekernel | '' [] @ npf (''Serial init'' @ [CHR 0x0A]) [] @ [10],
      u_busy = k\<rparr>)"
  using serial_bus.early_setup_uart [OF assms(1,2,3,4)] by blast

definition pc_left_over :: "pc uart_state" where
  "pc_left_over = \<lparr>g_arch_16550uart_port = 0x3F8, g_arch_16550uart_works = False,
     dev = \<lparr>pc_uart = \<lparr>u_div_lo = 0, u_div_hi = 0, u_ier = 0x0F, u_fcr = 1, u_lcr = 0x83, u_mcr = 0x10,
       u_scr = 0, u_rx = [1, 2], u_tx = [], u_busy = 3\<rparr>, pc_debug = []\<rparr>\<rparr>"

theorem uart_setup_works_witness:
  "g_arch_16550uart_works (arch_16550uart_early_setup (pc_bus 9) (\<lambda>_ _. [65]) pc_left_over) \<and>
    (\<exists>k. pc_uart (dev (arch_16550uart_early_setup (pc_bus 9) (\<lambda>_ _. [65]) pc_left_over)) =
      \<lparr>u_div_lo = 1, u_div_hi = 0, u_ier = 0, u_fcr = 7, u_lcr = 3, u_mcr = 0x0B, u_scr = 0, u_rx = [],
      u_tx = [65, 65, 10], u_busy = k\<rparr>)"
  using uart_setup_works [OF pc.serial_bus_axioms, of 9 pc_left_over "\<lambda>_ _. [65]"]
  by (simp add: pc_left_over_def)





text \<open>The divisor of every baud rate is the clock of 115200 divided by the rate. In the line
  control register the two low bits select 5 to 8 data bits: the constants for 5 and 8 bits do, but
  the one for 7 bits selects 6 and the one for 6 bits selects 7. The five parity settings differ.\<close>

definition lcr_data_bits :: "u8 \<Rightarrow> nat" where
  "lcr_data_bits v = 5 + unat (v AND 3)"

theorem serial_constants:
  "list_all (\<lambda>(d, rate). unat d * rate = 115200)
     [(SERIAL_115200_BAUD, 115200), (SERIAL_57600_BAUD, 57600), (SERIAL_38400_BAUD, 38400),
      (SERIAL_19200_BAUD, 19200), (SERIAL_9600_BAUD, 9600), (SERIAL_4800_BAUD, 4800),
      (SERIAL_2400_BAUD, 2400), (SERIAL_1200_BAUD, 1200), (SERIAL_600_BAUD, 600), (SERIAL_300_BAUD, 300)] \<and>
   map lcr_data_bits [SERIAL_LCR_5BIT, SERIAL_LCR_6BIT, SERIAL_LCR_7BIT, SERIAL_LCR_8BIT] = [5, 7, 6, 8] \<and>
   distinct [SERIAL_LCR_PARITY_NONE, SERIAL_LCR_PARITY_ODD, SERIAL_LCR_PARITY_EVEN,
     SERIAL_LCR_PARITY_MARK, SERIAL_LCR_PARITY_SPCE]"
  by (simp add: serial_baud_defs serial_lcr_defs lcr_data_bits_def)

end
