(* ===== verification/X86Machine.thy ===== *)
theory X86Machine
  imports X86Cpuid
begin

text \<open>
  Per-core initialisation on x86-64 (\<open>pre_kernel/src/arch/x86_64/machine.c\<close>, \<open>gdt.c\<close>,
  \<open>gdt.asm\<close> and the headers \<open>cr.h\<close>, \<open>msr.h\<close>, \<open>gdt.h\<close>). The processor is the record of the
  registers these files touch; the log lines are left out.
\<close>

record x86_cpu =
  cpu_cr0 :: u64
  cpu_cr2 :: u64
  cpu_cr3 :: u64
  cpu_cr4 :: u64
  cpu_cr8 :: u64
  cpu_xcr0 :: u64
  cpu_msr :: "u32 \<Rightarrow> u64"
  cpu_gdtr_limit :: u16
  cpu_gdtr_base :: u64
  cpu_ldtr :: u16
  cpu_tr :: u16
  cpu_cs :: u16
  cpu_ds :: u16
  cpu_es :: u16
  cpu_ss :: u16

section \<open>Control registers\<close>

definition arch_cr_read_cr0 :: "x86_cpu \<Rightarrow> u64" where "arch_cr_read_cr0 c = cpu_cr0 c"
definition arch_cr_write_cr0 :: "u64 \<Rightarrow> x86_cpu \<Rightarrow> x86_cpu" where
  "arch_cr_write_cr0 value c = c\<lparr>cpu_cr0 := value\<rparr>"
definition arch_cr_read_cr2 :: "x86_cpu \<Rightarrow> u64" where "arch_cr_read_cr2 c = cpu_cr2 c"
definition arch_cr_read_cr3 :: "x86_cpu \<Rightarrow> u64" where "arch_cr_read_cr3 c = cpu_cr3 c"
definition arch_cr_write_cr3 :: "u64 \<Rightarrow> x86_cpu \<Rightarrow> x86_cpu" where
  "arch_cr_write_cr3 value c = c\<lparr>cpu_cr3 := value\<rparr>"
definition arch_cr_read_cr4 :: "x86_cpu \<Rightarrow> u64" where "arch_cr_read_cr4 c = cpu_cr4 c"
definition arch_cr_write_cr4 :: "u64 \<Rightarrow> x86_cpu \<Rightarrow> x86_cpu" where
  "arch_cr_write_cr4 value c = c\<lparr>cpu_cr4 := value\<rparr>"
definition arch_cr_read_cr8 :: "x86_cpu \<Rightarrow> u64" where "arch_cr_read_cr8 c = cpu_cr8 c"
definition arch_cr_write_cr8 :: "u64 \<Rightarrow> x86_cpu \<Rightarrow> x86_cpu" where
  "arch_cr_write_cr8 value c = c\<lparr>cpu_cr8 := value\<rparr>"

text \<open>\<open>xsetbv\<close> takes the value in EDX:EAX.\<close>

definition xsetbv :: "u32 \<Rightarrow> u32 \<Rightarrow> x86_cpu \<Rightarrow> x86_cpu" where
  "xsetbv a d c = c\<lparr>cpu_xcr0 := push_bit 32 (ucast d) OR ucast a\<rparr>"

definition arch_cr_write_xcr0 :: "u64 \<Rightarrow> x86_cpu \<Rightarrow> x86_cpu" where
  "arch_cr_write_xcr0 value c = xsetbv (ucast value) (ucast (drop_bit 32 value)) c"

definition arch_cr_read_xcr0 :: "x86_cpu \<Rightarrow> u64" where
  "arch_cr_read_xcr0 c =
     (let hi = (ucast (drop_bit 32 (cpu_xcr0 c)) :: u32); lo = (ucast (cpu_xcr0 c) :: u32)
      in push_bit 32 (ucast hi) OR ucast lo)"

section \<open>Model specific registers\<close>

definition ARCH_MSR_EFER :: u64 where "ARCH_MSR_EFER = 0xC0000080"
definition ARCH_MSR_ACTIVE_GS_BASE :: u64 where "ARCH_MSR_ACTIVE_GS_BASE = 0xC0000101"
definition ARCH_MSR_INACTIVE_GS_BASE :: u64 where "ARCH_MSR_INACTIVE_GS_BASE = 0xC0000102"
definition ARCH_MSR_PAT_MSR :: u64 where "ARCH_MSR_PAT_MSR = 0x277"

definition rdmsr :: "u32 \<Rightarrow> x86_cpu \<Rightarrow> u32 \<times> u32" where
  "rdmsr n c = (ucast (cpu_msr c n), ucast (drop_bit 32 (cpu_msr c n)))"

definition wrmsr :: "u32 \<Rightarrow> u32 \<Rightarrow> u32 \<Rightarrow> x86_cpu \<Rightarrow> x86_cpu" where
  "wrmsr a d n c = c\<lparr>cpu_msr := (cpu_msr c)(n := push_bit 32 (ucast d) OR ucast a)\<rparr>"

definition arch_msr_read :: "u64 \<Rightarrow> x86_cpu \<Rightarrow> u64" where
  "arch_msr_read msr c =
     (let (low, high) = rdmsr (ucast msr) c in ucast low + push_bit 32 (ucast high))"

definition arch_msr_write :: "u64 \<Rightarrow> u64 \<Rightarrow> x86_cpu \<Rightarrow> x86_cpu" where
  "arch_msr_write msr value c = wrmsr (ucast value) (ucast (drop_bit 32 value)) (ucast msr) c"

section \<open>The page attribute table and the control registers\<close>

definition PAT_UNCACHEABLE :: u64 where "PAT_UNCACHEABLE = 0"
definition PAT_WRITE_COMBINING :: u64 where "PAT_WRITE_COMBINING = 1"
definition PAT_WRITE_THROUGH :: u64 where "PAT_WRITE_THROUGH = 4"
definition PAT_WRITE_PROTECT :: u64 where "PAT_WRITE_PROTECT = 5"
definition PAT_WRITE_BACK :: u64 where "PAT_WRITE_BACK = 6"
definition PAT_UNCACHED :: u64 where "PAT_UNCACHED = 7"

definition setup_page_table_attributes :: "x86_cpu \<Rightarrow> x86_cpu" where
  "setup_page_table_attributes c =
     (let pat0 = (ucast PAT_WRITE_BACK :: u8);
          pat1 = (ucast PAT_WRITE_THROUGH :: u8);
          pat2 = (ucast PAT_UNCACHED :: u8);
          pat3 = (ucast PAT_UNCACHEABLE :: u8);
          pat4 = (ucast PAT_WRITE_COMBINING :: u8);
          pat5 = (ucast PAT_UNCACHEABLE :: u8);
          pat6 = (ucast PAT_UNCACHEABLE :: u8);
          pat7 = (ucast PAT_UNCACHEABLE :: u8);
          pat = ucast pat0 OR push_bit 8 (ucast pat1) OR push_bit 16 (ucast pat2) OR
                push_bit 24 (ucast pat3) OR push_bit 32 (ucast pat4) OR push_bit 40 (ucast pat5) OR
                push_bit 48 (ucast pat6) OR push_bit 56 (ucast pat7)
      in arch_msr_write ARCH_MSR_PAT_MSR pat c)"

text \<open>The statement \<open>if(supported) { reg |= 1 << n; }\<close>.\<close>

definition set_bit_if :: "bool \<Rightarrow> nat \<Rightarrow> u64 \<Rightarrow> u64" where
  "set_bit_if p n reg = (if p then reg OR push_bit n 1 else reg)"

text \<open>\<open>write_xcr0\<close> is the local variable of that name: nothing ever sets it.\<close>

definition machine_setup_control_registers :: "cpuid_instr \<Rightarrow> x86_cpu \<Rightarrow> x86_cpu res" where
  "machine_setup_control_registers cpuid c =
     (let has = (\<lambda>f. arch_cpuid_is_feature_supported cpuid (ARCH_CPUID_FEATURE f))
      in if \<not> has FXSR then fail (Panic ''FXSR not supported on this CPU!'')
         else
           (let c = arch_cr_write_cr0 0x80010013 c;
                cr4 = arch_cr_read_cr4 c;
                la57 = cr4 AND push_bit 12 1 \<noteq> 0;
                cr4 = 0x620;
                cr4 = set_bit_if la57 12 cr4;
                write_xcr0 = False;
                xcr0 = (0 :: u64);
                cr4 = set_bit_if (has UMIP) 11 cr4;
                cr4 = set_bit_if (has SMEP) 20 cr4;
                cr4 = set_bit_if (has SMAP) 21 cr4;
                cr4 = set_bit_if (has FRED) 32 cr4;
                c = (if has PAT then setup_page_table_attributes c else c);
                cr4 = set_bit_if (has GLOBAL_PAGES) 7 cr4;
                cr4 = set_bit_if (has XSAVE) 18 cr4;
                xcr0 = set_bit_if (has XSAVE) 1 (set_bit_if (has XSAVE) 0 xcr0);
                xcr0 = set_bit_if (has XSAVE \<and> has AVX) 2 xcr0;
                xcr0 = set_bit_if (has XSAVE \<and> has AVX512) 5 xcr0;
                xcr0 = set_bit_if (has XSAVE \<and> has AVX512) 6 xcr0;
                xcr0 = set_bit_if (has XSAVE \<and> has AVX512) 7 xcr0;
                c = arch_cr_write_cr4 cr4 c;
                c = (if write_xcr0 then arch_cr_write_xcr0 xcr0 c else c)
            in ok (if has NX_PAGES
                   then arch_msr_write ARCH_MSR_EFER (arch_msr_read ARCH_MSR_EFER c OR push_bit 11 1) c
                   else c)))"

section \<open>Descriptor tables\<close>

record arch_gdt_entry_t =
  ge_limit_low :: u16
  ge_base_low :: u16
  ge_base_mid :: u8
  ge_access :: u8
  ge_limit_high_flags :: u8
  ge_base_high :: u8

record arch_gdt_system_entry_t =
  gs_entry :: arch_gdt_entry_t
  gs_base_extended :: u32
  gs_reserved0 :: u32

record arch_gdt_t =
  gdt_null :: arch_gdt_entry_t
  gdt_kernel_code :: arch_gdt_entry_t
  gdt_kernel_data :: arch_gdt_entry_t
  gdt_user_code_32 :: arch_gdt_entry_t
  gdt_user_data :: arch_gdt_entry_t
  gdt_user_code :: arch_gdt_entry_t
  gdt_tss :: arch_gdt_system_entry_t

record arch_gdt_tss_t =
  tss_reserved0 :: u32
  tss_rsp0 :: u64
  tss_rsp1 :: u64
  tss_rsp2 :: u64
  tss_reserved1 :: u64
  tss_ist :: "u64 list"
  tss_reserved2 :: u64
  tss_reserved3 :: u16
  tss_io_map_base :: u16

record arch_gdt_ptr_t =
  gp_limit :: u16
  gp_base :: u64

record arch_core_start_info_t =
  csi_gdt :: arch_gdt_t
  csi_tss :: arch_gdt_tss_t

definition sizeof_arch_gdt_t :: u64 where "sizeof_arch_gdt_t = 6 * 8 + 16"
definition sizeof_arch_gdt_tss_t :: u64 where "sizeof_arch_gdt_tss_t = 4 + 3 * 8 + 8 + 7 * 8 + 8 + 2 + 2"

text \<open>The offsets of the fields \<open>kernel_code\<close>, \<open>kernel_data\<close> and \<open>tss\<close> of the packed table, and of the
  task state segment in the per-core block.\<close>

definition offsetof_kernel_code :: u16 where "offsetof_kernel_code = 8"
definition offsetof_kernel_data :: u16 where "offsetof_kernel_data = 16"
definition offsetof_tss :: u16 where "offsetof_tss = 48"
definition offsetof_block_tss :: u64 where "offsetof_block_tss = sizeof_arch_gdt_t"

definition DEFINE_SEGMENT :: "u8 \<Rightarrow> u8 \<Rightarrow> arch_gdt_entry_t" where
  "DEFINE_SEGMENT access flags = \<lparr>ge_limit_low = 0, ge_base_low = 0, ge_base_mid = 0, ge_access = access,
     ge_limit_high_flags = push_bit 4 flags, ge_base_high = 0\<rparr>"

definition empty_entry :: arch_gdt_entry_t where
  "empty_entry = \<lparr>ge_limit_low = 0, ge_base_low = 0, ge_base_mid = 0, ge_access = 0, ge_limit_high_flags = 0,
     ge_base_high = 0\<rparr>"

definition g_arch_gdt_static_data :: arch_gdt_t where
  "g_arch_gdt_static_data = \<lparr>
     gdt_null = empty_entry,
     gdt_kernel_code = DEFINE_SEGMENT 0x9B 0xA,
     gdt_kernel_data = DEFINE_SEGMENT 0x93 0xC,
     gdt_user_code_32 = DEFINE_SEGMENT 0xFB 0xA,
     gdt_user_data = DEFINE_SEGMENT 0xF3 0xC,
     gdt_user_code = DEFINE_SEGMENT 0xFB 0xA,
     gdt_tss = \<lparr>gs_entry = empty_entry, gs_base_extended = 0, gs_reserved0 = 0\<rparr>\<rparr>"

text \<open>The assembler routines: \<open>lgdt\<close>, the far return that loads CS, the data segments and \<open>ltr\<close>.\<close>

definition arch_gdt_load_gdt :: "arch_gdt_ptr_t \<Rightarrow> u16 \<Rightarrow> u16 \<Rightarrow> u16 \<Rightarrow> x86_cpu \<Rightarrow> x86_cpu" where
  "arch_gdt_load_gdt gdtr cs ds tr c =
     c\<lparr>cpu_gdtr_limit := gp_limit gdtr, cpu_gdtr_base := gp_base gdtr, cpu_cs := cs,
       cpu_ds := ds, cpu_es := ds, cpu_ss := ds, cpu_tr := tr\<rparr>"

definition arch_ldt_load_ldt :: "u16 \<Rightarrow> x86_cpu \<Rightarrow> x86_cpu" where
  "arch_ldt_load_ldt ldt c = c\<lparr>cpu_ldtr := ldt\<rparr>"

text \<open>\<open>block\<close> is the address of the per-core block, \<open>info\<close> what it holds.\<close>

definition machine_setup_gdt ::
  "u64 \<Rightarrow> arch_core_start_info_t \<Rightarrow> x86_cpu \<Rightarrow> arch_core_start_info_t \<times> x86_cpu" where
  "machine_setup_gdt block info c =
     (let gdt = g_arch_gdt_static_data;
          tss_base = block + offsetof_block_tss;
          tss_limit = (ucast (sizeof_arch_gdt_tss_t - 1) :: u32);
          e = gs_entry (gdt_tss gdt);
          e = e\<lparr>ge_limit_low := ucast (tss_limit AND 0xFFFF)\<rparr>;
          e = e\<lparr>ge_base_low := ucast (tss_base AND 0xFFFF)\<rparr>;
          e = e\<lparr>ge_base_mid := ucast (drop_bit 16 tss_base AND 0xFF)\<rparr>;
          e = e\<lparr>ge_access := 0x89\<rparr>;
          e = e\<lparr>ge_limit_high_flags := ucast (drop_bit 16 tss_limit AND 0xF)\<rparr>;
          e = e\<lparr>ge_base_high := ucast (drop_bit 24 tss_base AND 0xFF)\<rparr>;
          tss = \<lparr>gs_entry = e, gs_base_extended = ucast (drop_bit 32 tss_base), gs_reserved0 = 0\<rparr>;
          info = info\<lparr>csi_gdt := gdt\<lparr>gdt_tss := tss\<rparr>\<rparr>;
          gdtr = \<lparr>gp_limit = ucast (sizeof_arch_gdt_t - 1), gp_base = block\<rparr>;
          c = arch_gdt_load_gdt gdtr offsetof_kernel_code offsetof_kernel_data offsetof_tss c;
          c = arch_ldt_load_ldt 0 c
      in (info, c))"

section \<open>Initialising a core\<close>

definition x86_machine_init ::
  "cpuid_instr \<Rightarrow> u64 \<Rightarrow> u64 \<Rightarrow> arch_core_start_info_t \<Rightarrow> x86_cpu \<Rightarrow> (arch_core_start_info_t \<times> x86_cpu) res" where
  "x86_machine_init cpuid cpu_local block info c =
     res_bind (machine_setup_control_registers cpuid c)
       (\<lambda>c. let (info, c) = machine_setup_gdt block info c;
                c = arch_msr_write ARCH_MSR_ACTIVE_GS_BASE cpu_local c;
                c = arch_msr_write ARCH_MSR_INACTIVE_GS_BASE 0 c
            in ok (info, c))"

section \<open>Reading back what was written\<close>

lemma join_halves: "push_bit 32 (ucast (ucast (drop_bit 32 v) :: u32)) OR ucast (ucast v :: u32) = v" for v :: u64
  by (rule bit_word_eqI) (auto simp: bit_simps)

lemma msr_write: "arch_msr_write m v c = c\<lparr>cpu_msr := (cpu_msr c)(ucast m := v)\<rparr>"
  by (simp add: arch_msr_write_def wrmsr_def join_halves)

lemma msr_read: "arch_msr_read m c = cpu_msr c (ucast m)"
proof -
  have "ucast (ucast v :: u32) + push_bit 32 (ucast (ucast (drop_bit 32 v) :: u32)) = v" for v :: u64
    by (subst disjunctive_add_eq_or) (auto simp: bit_eq_iff bit_simps)
  then show ?thesis
    by (simp add: arch_msr_read_def rdmsr_def)
qed

lemma xcr0_read_write: "arch_cr_read_xcr0 (arch_cr_write_xcr0 v c) = v"
  by (simp add: arch_cr_read_xcr0_def arch_cr_write_xcr0_def xsetbv_def Let_def join_halves)

end
