(* ===== verification/X86MachineProps.thy ===== *)
theory X86MachineProps
  imports X86Machine
begin

text \<open>What a core looks like after its initialisation, read the way the processor reads it.\<close>

section \<open>Control registers\<close>

definition supports :: "cpuid_instr \<Rightarrow> cpu_feature \<Rightarrow> bool" where
  "supports cpuid f = arch_cpuid_is_feature_supported cpuid (ARCH_CPUID_FEATURE f)"

text \<open>The bits of CR4 the code can set, with the condition of each.\<close>

definition cr4_bit :: "cpuid_instr \<Rightarrow> u64 \<Rightarrow> nat \<Rightarrow> bool" where
  "cr4_bit cpuid old i \<longleftrightarrow> i \<in> {5, 9, 10} \<or> i = 7 \<and> supports cpuid GLOBAL_PAGES \<or>
     i = 11 \<and> supports cpuid UMIP \<or> i = 12 \<and> bit old 12 \<or> i = 18 \<and> supports cpuid XSAVE \<or>
     i = 20 \<and> supports cpuid SMEP \<or> i = 21 \<and> supports cpuid SMAP \<or> i = 32 \<and> supports cpuid FRED"

lemma bit_set_bit_if: "bit (set_bit_if P n x) i \<longleftrightarrow> bit x i \<or> P \<and> i = n" if "n < 64"
  using that by (auto simp: set_bit_if_def bit_simps)

lemma base_bits: "bit (0x620 :: u64) i \<longleftrightarrow> i \<in> {5, 9, 10}"
proof -
  have "(0x620 :: u64) = push_bit 5 1 OR (push_bit 9 1 OR push_bit 10 1)"
    by simp
  then show ?thesis
    by (simp only: bit_or_iff bit_push_bit_iff) (auto simp: bit_1_iff)
qed

lemma pat_msr: "setup_page_table_attributes c = c\<lparr>cpu_msr := (cpu_msr c)(0x277 := 0x0000000100070406)\<rparr>"
  by (simp add: setup_page_table_attributes_def Let_def msr_write ARCH_MSR_PAT_MSR_def PAT_WRITE_BACK_def
      PAT_WRITE_THROUGH_def PAT_UNCACHED_def PAT_UNCACHEABLE_def PAT_WRITE_COMBINING_def)

lemma control_registers:
  assumes "supports cpuid FXSR"
  shows "\<exists>c'. machine_setup_control_registers cpuid c = ok c' \<and> cpu_cr0 c' = 0x80010013 \<and>
    (\<forall>i. bit (cpu_cr4 c') i \<longleftrightarrow> cr4_bit cpuid (cpu_cr4 c) i) \<and> cpu_xcr0 c' = cpu_xcr0 c \<and>
    cpu_msr c' = (\<lambda>n. if n = 0xC0000080 \<and> supports cpuid NX_PAGES then cpu_msr c n OR 0x800
      else if n = 0x277 \<and> supports cpuid PAT then 0x0000000100070406 else cpu_msr c n)"
proof -
  let ?has = "supports cpuid"
  let ?cr4 = "set_bit_if (?has XSAVE) 18 (set_bit_if (?has GLOBAL_PAGES) 7 (set_bit_if (?has FRED) 32
    (set_bit_if (?has SMAP) 21 (set_bit_if (?has SMEP) 20 (set_bit_if (?has UMIP) 11
    (set_bit_if (cpu_cr4 c AND push_bit 12 1 \<noteq> 0) 12 0x620))))))"
  let ?c = "(if ?has PAT then setup_page_table_attributes (c\<lparr>cpu_cr0 := 0x80010013\<rparr>)
    else c\<lparr>cpu_cr0 := 0x80010013\<rparr>)\<lparr>cpu_cr4 := ?cr4\<rparr>"
  let ?c' = "if ?has NX_PAGES then arch_msr_write ARCH_MSR_EFER (arch_msr_read ARCH_MSR_EFER ?c OR push_bit 11 1) ?c
    else ?c"
  have "machine_setup_control_registers cpuid c = ok ?c'"
    using assms unfolding machine_setup_control_registers_def supports_def [symmetric] Let_def
    by (simp add: arch_cr_write_cr0_def arch_cr_read_cr4_def arch_cr_write_cr4_def pat_msr del: push_bit_of_1)
  moreover have "bit ?cr4 i \<longleftrightarrow> cr4_bit cpuid (cpu_cr4 c) i" for i
  proof -
    have n: "(7 :: nat) < 64" "(11 :: nat) < 64" "(12 :: nat) < 64" "(18 :: nat) < 64" "(20 :: nat) < 64"
      "(21 :: nat) < 64" "(32 :: nat) < 64"
      by simp_all
    show ?thesis
      unfolding bit_set_bit_if [OF n(1)] bit_set_bit_if [OF n(2)] bit_set_bit_if [OF n(3)] bit_set_bit_if [OF n(4)]
        bit_set_bit_if [OF n(5)] bit_set_bit_if [OF n(6)] bit_set_bit_if [OF n(7)] base_bits and_push_bit_one cr4_bit_def
      by blast
  qed
  moreover have "cpu_msr ?c' = (\<lambda>n. if n = 0xC0000080 \<and> ?has NX_PAGES then cpu_msr c n OR 0x800
      else if n = 0x277 \<and> ?has PAT then 0x0000000100070406 else cpu_msr c n)"
    by (auto simp: msr_write msr_read ARCH_MSR_EFER_def pat_msr)
  ultimately show ?thesis
    by (intro exI [of _ ?c']) (simp add: msr_write pat_msr)
qed

section \<open>Descriptors\<close>

text \<open>How the processor reads a system descriptor and a code segment.\<close>

definition descriptor_base :: "arch_gdt_system_entry_t \<Rightarrow> u64" where
  "descriptor_base d = ucast (ge_base_low (gs_entry d)) OR push_bit 16 (ucast (ge_base_mid (gs_entry d))) OR
     push_bit 24 (ucast (ge_base_high (gs_entry d))) OR push_bit 32 (ucast (gs_base_extended d))"

definition descriptor_limit :: "arch_gdt_system_entry_t \<Rightarrow> u32" where
  "descriptor_limit d = ucast (ge_limit_low (gs_entry d)) OR
     push_bit 16 (ucast (ge_limit_high_flags (gs_entry d) AND 0xF))"

definition long_mode_code :: "arch_gdt_entry_t \<Rightarrow> bool" where
  "long_mode_code e \<longleftrightarrow> bit (ge_access e) 7 \<and> bit (ge_access e) 4 \<and> bit (ge_access e) 3 \<and>
     bit (ge_limit_high_flags e) 5 \<and> \<not> bit (ge_limit_high_flags e) 6"

definition privilege :: "arch_gdt_entry_t \<Rightarrow> nat" where
  "privilege e = unat (drop_bit 5 (ge_access e) AND 3)"

lemma base_pieces:
  "(ucast (ucast (v AND 0xFFFF) :: u16) :: u64) OR push_bit 16 (ucast (ucast (drop_bit 16 v AND 0xFF) :: u8)) OR
   push_bit 24 (ucast (ucast (drop_bit 24 v AND 0xFF) :: u8)) OR push_bit 32 (ucast (ucast (drop_bit 32 v) :: u32)) = v"
  for v :: u64
proof -
  have m: "(0xFFFF :: u64) = mask 16" "(0xFF :: u64) = mask 8"
    by (simp_all add: mask_eq_exp_minus_1)
  show ?thesis
    unfolding m
  proof (rule bit_word_eqI)
    fix n assume "n < LENGTH(64)"
    then consider "n < 16" | "16 \<le> n" "n < 24" | "24 \<le> n" "n < 32" | "32 \<le> n" "n < 64"
      by fastforce
    then show "bit ((ucast (ucast (v AND mask 16) :: u16) :: u64) OR
        push_bit 16 (ucast (ucast (drop_bit 16 v AND mask 8) :: u8)) OR
        push_bit 24 (ucast (ucast (drop_bit 24 v AND mask 8) :: u8)) OR
        push_bit 32 (ucast (ucast (drop_bit 32 v) :: u32))) n = bit v n"
      by cases (auto simp: bit_simps)
  qed
qed

lemma setup_gdt:
  fixes block :: u64 and info :: arch_core_start_info_t and c :: x86_cpu
  defines "r \<equiv> machine_setup_gdt block info c"
  shows "descriptor_base (gdt_tss (csi_gdt (fst r))) = block + 64"
    and "descriptor_limit (gdt_tss (csi_gdt (fst r))) = 103"
    and "ge_access (gs_entry (gdt_tss (csi_gdt (fst r)))) = 0x89"
    and "csi_gdt (fst r) = g_arch_gdt_static_data\<lparr>gdt_tss := gdt_tss (csi_gdt (fst r))\<rparr>"
    and "csi_tss (fst r) = csi_tss info"
    and "snd r = c\<lparr>cpu_gdtr_limit := 63, cpu_gdtr_base := block, cpu_cs := 8, cpu_ds := 16, cpu_es := 16,
      cpu_ss := 16, cpu_tr := 48, cpu_ldtr := 0\<rparr>"
proof -
  note simps = r_def machine_setup_gdt_def Let_def offsetof_block_tss_def sizeof_arch_gdt_t_def
    sizeof_arch_gdt_tss_t_def g_arch_gdt_static_data_def arch_gdt_load_gdt_def arch_ldt_load_ldt_def
    offsetof_kernel_code_def offsetof_kernel_data_def offsetof_tss_def
  show "descriptor_base (gdt_tss (csi_gdt (fst r))) = block + 64"
    using base_pieces [of "block + 64"] by (simp add: simps descriptor_base_def)
  show "descriptor_limit (gdt_tss (csi_gdt (fst r))) = 103"
    "ge_access (gs_entry (gdt_tss (csi_gdt (fst r)))) = 0x89"
    "csi_gdt (fst r) = g_arch_gdt_static_data\<lparr>gdt_tss := gdt_tss (csi_gdt (fst r))\<rparr>"
    "csi_tss (fst r) = csi_tss info"
    "snd r = c\<lparr>cpu_gdtr_limit := 63, cpu_gdtr_base := block, cpu_cs := 8, cpu_ds := 16, cpu_es := 16,
      cpu_ss := 16, cpu_tr := 48, cpu_ldtr := 0\<rparr>"
    by (simp_all add: simps descriptor_limit_def)
qed

section \<open>The properties\<close>

text \<open>C28. A core whose processor supports FXSR is initialised: CR0 is fixed, CR4 has exactly the bits
  of the features found (LA57 as it was), NX and the page attribute table are set up when supported,
  GS holds the per-core area. XCR0 keeps its old value even where XSAVE, and with it CR4.OSXSAVE, is
  turned on: the computed value is never written. Without FXSR the core panics.\<close>

theorem x86_machine_init_registers:
  "if supports cpuid FXSR
   then \<exists>info' c'. x86_machine_init cpuid cpu_local block info c = ok (info', c') \<and>
     cpu_cr0 c' = 0x80010013 \<and> (\<forall>i. bit (cpu_cr4 c') i \<longleftrightarrow> cr4_bit cpuid (cpu_cr4 c) i) \<and>
     cpu_xcr0 c' = cpu_xcr0 c \<and> cpu_msr c' 0xC0000101 = cpu_local \<and> cpu_msr c' 0xC0000102 = 0 \<and>
     cpu_msr c' 0xC0000080 = (if supports cpuid NX_PAGES then cpu_msr c 0xC0000080 OR 0x800
       else cpu_msr c 0xC0000080) \<and>
     cpu_msr c' 0x277 = (if supports cpuid PAT then 0x0000000100070406 else cpu_msr c 0x277)
   else x86_machine_init cpuid cpu_local block info c = fail (Panic ''FXSR not supported on this CPU!'')"
proof (cases "supports cpuid FXSR")
  case True
  obtain c1 where c1: "machine_setup_control_registers cpuid c = ok c1" "cpu_cr0 c1 = 0x80010013"
    "\<And>i. bit (cpu_cr4 c1) i \<longleftrightarrow> cr4_bit cpuid (cpu_cr4 c) i" "cpu_xcr0 c1 = cpu_xcr0 c"
    "cpu_msr c1 = (\<lambda>n. if n = 0xC0000080 \<and> supports cpuid NX_PAGES then cpu_msr c n OR 0x800
      else if n = 0x277 \<and> supports cpuid PAT then 0x0000000100070406 else cpu_msr c n)"
    using control_registers [OF True, of c] by blast
  then show ?thesis
    using True setup_gdt(6) [of block info c1]
    by (simp add: x86_machine_init_def split_def Let_def msr_write ARCH_MSR_ACTIVE_GS_BASE_def
        ARCH_MSR_INACTIVE_GS_BASE_def)
next
  case False
  then show ?thesis
    by (simp add: x86_machine_init_def machine_setup_control_registers_def supports_def)
qed


end
