(* ===== verification/Sync.thy ===== *)
theory Sync
  imports Prelude
begin

text \<open>
  The rendezvous of the cores at the end of \<open>pre_kernel/src/init.c\<close>: the boot core publishes the
  kernel's entry point and the number of cores and opens \<open>g_ap_init_lock\<close>; every core counts itself
  in \<open>g_running_cores\<close> and spins until all are there. One step of \<open>step\<close> is one access of one core
  to the shared variables, in any interleaving; the release and acquire orders of the code make that
  the order all cores see.
\<close>

section \<open>The cores\<close>

text \<open>
  Where a core is. The boot core runs from \<open>BspSetup\<close> to its call of \<open>sync_and_handoff\<close>, the others
  from the spin on the lock; \<open>Arrive\<close> is about to count itself, \<open>Spin\<close> waits for the rest and
  \<open>Handoff\<close> has gone to the kernel, each with the entry point it passes.
\<close>

datatype core_pc =
    BspSetup | BspCount | BspRelease | BspCall
  | ApSpin | ApMachineInit
  | Arrive u64 | Spin u64 | Handoff u64

record sync_state =
  g_kernel_entry_point :: u64
  g_ap_init_lock :: u32
  g_running_cores :: u32
  g_core_count :: u32
  core_pc :: "nat \<Rightarrow> core_pc"

definition set_pc :: "nat \<Rightarrow> core_pc \<Rightarrow> sync_state \<Rightarrow> sync_state" where
  "set_pc c p s = s\<lparr>core_pc := (core_pc s)(c := p)\<rparr>"

text \<open>\<open>entry\<close> and \<open>core_count\<close> are what the loader and the boot information give. A spin that goes
  round again changes nothing and is no step.\<close>

inductive step :: "u64 \<Rightarrow> u64 \<Rightarrow> nat \<Rightarrow> sync_state \<Rightarrow> sync_state \<Rightarrow> bool"
  for entry :: u64 and core_count :: u64 and n :: nat where
  publish_entry: "c < n \<Longrightarrow> core_pc s c = BspSetup \<Longrightarrow>
    step entry core_count n s (set_pc c BspCount (s\<lparr>g_kernel_entry_point := entry\<rparr>))"
| publish_count: "c < n \<Longrightarrow> core_pc s c = BspCount \<Longrightarrow>
    step entry core_count n s (set_pc c BspRelease (s\<lparr>g_core_count := ucast core_count\<rparr>))"
| release_aps: "c < n \<Longrightarrow> core_pc s c = BspRelease \<Longrightarrow>
    step entry core_count n s (set_pc c BspCall (s\<lparr>g_ap_init_lock := 1\<rparr>))"
| bsp_call: "c < n \<Longrightarrow> core_pc s c = BspCall \<Longrightarrow>
    step entry core_count n s (set_pc c (Arrive (g_kernel_entry_point s)) s)"
| ap_released: "c < n \<Longrightarrow> core_pc s c = ApSpin \<Longrightarrow> g_ap_init_lock s \<noteq> 0 \<Longrightarrow>
    step entry core_count n s (set_pc c ApMachineInit s)"
| ap_call: "c < n \<Longrightarrow> core_pc s c = ApMachineInit \<Longrightarrow>
    step entry core_count n s (set_pc c (Arrive (g_kernel_entry_point s)) s)"
| arrive: "c < n \<Longrightarrow> core_pc s c = Arrive e \<Longrightarrow>
    step entry core_count n s (set_pc c (Spin e) (s\<lparr>g_running_cores := g_running_cores s + 1\<rparr>))"
| handoff: "c < n \<Longrightarrow> core_pc s c = Spin e \<Longrightarrow> \<not> g_running_cores s < g_core_count s \<Longrightarrow>
    step entry core_count n s (set_pc c (Handoff e) s)"

definition start :: "nat \<Rightarrow> sync_state" where
  "start n = \<lparr>g_kernel_entry_point = 0, g_ap_init_lock = 0, g_running_cores = 0, g_core_count = 0,
     core_pc = (\<lambda>c. if c = 0 then BspSetup else ApSpin)\<rparr>"

inductive reachable :: "u64 \<Rightarrow> u64 \<Rightarrow> nat \<Rightarrow> sync_state \<Rightarrow> bool" for entry core_count n where
  reach_start: "reachable entry core_count n (start n)"
| reach_step: "reachable entry core_count n s \<Longrightarrow> step entry core_count n s s' \<Longrightarrow>
    reachable entry core_count n s'"

inductive_cases stepE: "step entry core_count n s s'"

lemma set_pc_simps [simp]:
  "core_pc (set_pc c p s) = (core_pc s)(c := p)"
  "g_kernel_entry_point (set_pc c p s) = g_kernel_entry_point s"
  "g_ap_init_lock (set_pc c p s) = g_ap_init_lock s"
  "g_running_cores (set_pc c p s) = g_running_cores s"
  "g_core_count (set_pc c p s) = g_core_count s"
  by (simp_all add: set_pc_def)

section \<open>The invariant\<close>

text \<open>How far a core has come.\<close>

primrec rank :: "core_pc \<Rightarrow> nat" where
  "rank BspSetup = 0"
| "rank BspCount = 1"
| "rank BspRelease = 2"
| "rank BspCall = 3"
| "rank ApSpin = 0"
| "rank ApMachineInit = 3"
| "rank (Arrive e) = 4"
| "rank (Spin e) = 5"
| "rank (Handoff e) = 6"

definition arrived :: "sync_state \<Rightarrow> nat \<Rightarrow> bool" where
  "arrived s c \<longleftrightarrow> 5 \<le> rank (core_pc s c)"

fun role_ok :: "nat \<Rightarrow> core_pc \<Rightarrow> bool" where
  "role_ok c ApSpin = (c \<noteq> 0)"
| "role_ok c ApMachineInit = (c \<noteq> 0)"
| "role_ok c BspSetup = (c = 0)"
| "role_ok c BspCount = (c = 0)"
| "role_ok c BspRelease = (c = 0)"
| "role_ok c BspCall = (c = 0)"
| "role_ok c _ = True"

definition entries_ok :: "u64 \<Rightarrow> core_pc \<Rightarrow> bool" where
  "entries_ok entry p \<longleftrightarrow> (\<forall>e. p = Arrive e \<or> p = Spin e \<or> p = Handoff e \<longrightarrow> e = entry)"

definition sync_inv :: "u64 \<Rightarrow> u64 \<Rightarrow> nat \<Rightarrow> sync_state \<Rightarrow> bool" where
  "sync_inv entry core_count n s \<longleftrightarrow>
     (\<forall>c<n. role_ok c (core_pc s c) \<and> entries_ok entry (core_pc s c)) \<and>
     unat (g_running_cores s) = card {c. c < n \<and> arrived s c} \<and>
     (1 \<le> rank (core_pc s 0) \<longrightarrow> g_kernel_entry_point s = entry) \<and>
     (2 \<le> rank (core_pc s 0) \<longrightarrow> g_core_count s = ucast core_count) \<and>
     (g_ap_init_lock s \<noteq> 0 \<longleftrightarrow> 3 \<le> rank (core_pc s 0)) \<and>
     (\<forall>c<n. 1 \<le> c \<and> 1 \<le> rank (core_pc s c) \<longrightarrow> 3 \<le> rank (core_pc s 0)) \<and>
     ((\<exists>c<n. rank (core_pc s c) = 6) \<longrightarrow> (\<forall>c<n. arrived s c))"

lemma arrived_set_pc: "arrived (set_pc c p s) d = (if d = c then 5 \<le> rank p else arrived s d)"
  by (simp add: arrived_def)

lemma start_inv: "0 < n \<Longrightarrow> sync_inv entry core_count n (start n)"
  by (auto simp: sync_inv_def start_def arrived_def entries_ok_def)

lemma arrived_card:
  "n \<le> card {c. c < n \<and> arrived s c} \<longleftrightarrow> (\<forall>c<n. arrived s c)"
proof
  assume "n \<le> card {c. c < n \<and> arrived s c}"
  then have "{c. c < n \<and> arrived s c} = {..<n}"
    by (intro card_seteq) auto
  then show "\<forall>c<n. arrived s c"
    by auto
next
  assume "\<forall>c<n. arrived s c"
  then have "{c. c < n \<and> arrived s c} = {..<n}"
    by auto
  then show "n \<le> card {c. c < n \<and> arrived s c}"
    by simp
qed

lemma arrived_card_less:
  assumes "c < n" and "\<not> arrived s c" shows "card {d. d < n \<and> arrived s d} < n"
  using arrived_card [of n s] assms by (meson not_less)

lemma unat_count: "n < 2 ^ 32 \<Longrightarrow> unat (ucast (of_nat n :: u64) :: u32) = n"
  by (simp add: unsigned_ucast_eq take_bit_nat_eq_self unsigned_of_nat)

text \<open>A step of core \<open>c\<close> to \<open>p\<close> that does not change who has arrived, and one that does.\<close>

lemma sync_inv_move:
  assumes inv: "sync_inv entry count n s" and c: "c < n" and pc: "core_pc s' = (core_pc s)(c := p)"
    and rank: "rank (core_pc s c) \<le> rank p" and role: "role_ok c p" "entries_ok entry p"
    and run: "unat (g_running_cores s') = card {d. d < n \<and> arrived s' d}"
    and globals: "1 \<le> rank (core_pc s' 0) \<longrightarrow> g_kernel_entry_point s' = entry"
      "2 \<le> rank (core_pc s' 0) \<longrightarrow> g_core_count s' = ucast count"
      "g_ap_init_lock s' \<noteq> 0 \<longleftrightarrow> 3 \<le> rank (core_pc s' 0)"
    and order: "1 \<le> c \<Longrightarrow> 1 \<le> rank p \<Longrightarrow> 3 \<le> rank (core_pc s 0)"
    and last: "rank p = 6 \<Longrightarrow> \<forall>d<n. arrived s' d"
  shows "sync_inv entry count n s'"
proof -
  have up: "rank (core_pc s d) \<le> rank (core_pc s' d)" for d
    using rank by (simp add: pc)
  have arr: "arrived s d \<Longrightarrow> arrived s' d" for d
    using up [of d] by (simp add: arrived_def)
  have "\<forall>d<n. role_ok d (core_pc s' d) \<and> entries_ok entry (core_pc s' d)"
    using inv role by (simp add: sync_inv_def pc)
  moreover have "\<forall>d<n. 1 \<le> d \<and> 1 \<le> rank (core_pc s' d) \<longrightarrow> 3 \<le> rank (core_pc s' 0)"
  proof (intro allI impI)
    fix d assume d: "d < n" "1 \<le> d \<and> 1 \<le> rank (core_pc s' d)"
    have "3 \<le> rank (core_pc s 0)"
      using inv d order by (cases "d = c") (auto simp: sync_inv_def pc)
    then show "3 \<le> rank (core_pc s' 0)"
      using up [of 0] by simp
  qed
  moreover have "(\<exists>d<n. rank (core_pc s' d) = 6) \<longrightarrow> (\<forall>d<n. arrived s' d)"
  proof
    assume "\<exists>d<n. rank (core_pc s' d) = 6"
    then consider "rank p = 6" | d where "d < n" "rank (core_pc s d) = 6"
      by (auto simp: pc split: if_splits)
    then show "\<forall>d<n. arrived s' d"
      using inv arr last by cases (auto simp: sync_inv_def)
  qed
  ultimately show ?thesis
    using run globals unfolding sync_inv_def by blast
qed

lemma same_arrived:
  assumes "sync_inv entry count n s" and "core_pc s' = (core_pc s)(c := p)"
    and "g_running_cores s' = g_running_cores s" and "5 \<le> rank p \<longleftrightarrow> 5 \<le> rank (core_pc s c)"
  shows "unat (g_running_cores s') = card {d. d < n \<and> arrived s' d}"
proof -
  have "arrived s' d = arrived s d" for d
    using assms(2,4) by (simp add: arrived_def)
  then show ?thesis
    using assms(1,3) by (simp add: sync_inv_def)
qed

lemma sync_inv_quiet:
  assumes "sync_inv entry count n s" and "c < n" and "core_pc s' = (core_pc s)(c := p)"
    and "rank (core_pc s c) \<le> rank p" and "rank p < 5" and "role_ok c p" "entries_ok entry p"
    and "g_running_cores s' = g_running_cores s"
    and "1 \<le> rank (core_pc s' 0) \<longrightarrow> g_kernel_entry_point s' = entry"
      "2 \<le> rank (core_pc s' 0) \<longrightarrow> g_core_count s' = ucast count"
      "g_ap_init_lock s' \<noteq> 0 \<longleftrightarrow> 3 \<le> rank (core_pc s' 0)"
    and "1 \<le> c \<Longrightarrow> 1 \<le> rank p \<Longrightarrow> 3 \<le> rank (core_pc s 0)"
  shows "sync_inv entry count n s'"
  by (rule sync_inv_move [OF assms(1-4,6,7) same_arrived [OF assms(1,3,8)] assms(9-12)])
    (use assms(4,5) in simp_all)

lemma inv_globals:
  assumes "sync_inv entry count n s"
  shows "1 \<le> rank (core_pc s 0) \<Longrightarrow> g_kernel_entry_point s = entry"
    and "2 \<le> rank (core_pc s 0) \<Longrightarrow> g_core_count s = ucast count"
    and "g_ap_init_lock s \<noteq> 0 \<longleftrightarrow> 3 \<le> rank (core_pc s 0)"
    and "c < n \<Longrightarrow> 1 \<le> c \<Longrightarrow> 1 \<le> rank (core_pc s c) \<Longrightarrow> 3 \<le> rank (core_pc s 0)"
    and "c < n \<Longrightarrow> role_ok c (core_pc s c)" and "c < n \<Longrightarrow> entries_ok entry (core_pc s c)"
  using assms unfolding sync_inv_def by blast+

lemma arrive_running:
  assumes inv: "sync_inv entry count n s" and c: "c < n" "core_pc s c = Arrive e" and n: "n < 2 ^ 32"
    and s': "s' = set_pc c (Spin e) (s\<lparr>g_running_cores := g_running_cores s + 1\<rparr>)"
  shows "unat (g_running_cores s') = card {d. d < n \<and> arrived s' d}"
proof -
  have new: "\<not> arrived s c"
    using c by (simp add: arrived_def)
  have "{d. d < n \<and> arrived s' d} = insert c {d. d < n \<and> arrived s d}"
    using c by (auto simp: arrived_def s')
  then have card: "card {d. d < n \<and> arrived s' d} = Suc (card {d. d < n \<and> arrived s d})"
    using new by simp
  have "unat (g_running_cores s + 1) = Suc (unat (g_running_cores s))"
    using inv arrived_card_less [OF c(1) new] n by (subst unat_add_nowrap) (simp_all add: sync_inv_def)
  then show ?thesis
    using inv card by (simp add: sync_inv_def s')
qed

lemma handoff_all:
  assumes inv: "sync_inv entry (of_nat n) n s" and c: "c < n" "core_pc s c = Spin e" and n: "n < 2 ^ 32"
    and over: "\<not> g_running_cores s < g_core_count s"
  shows "\<forall>d<n. arrived s d"
proof -
  have "2 \<le> rank (core_pc s 0)"
    using inv_globals(4) [OF inv c(1)] c by (cases "c = 0") auto
  then have "unat (g_core_count s) = n"
    using inv_globals(2) [OF inv] unat_count [OF n] by simp
  then show ?thesis
    using inv over by (simp add: sync_inv_def word_less_nat_alt flip: arrived_card)
qed

lemma step_inv:
  assumes step: "step entry (of_nat n) n s s'" and inv: "sync_inv entry (of_nat n) n s"
    and n: "n < 2 ^ 32"
  shows "sync_inv entry (of_nat n) n s'"
  using step
proof cases
  case (publish_entry c)
  then have c: "c = 0"
    using inv_globals(5) [OF inv, of c] by simp
  show ?thesis
    by (rule sync_inv_quiet [OF inv publish_entry(2), where p = BspCount])
      (use publish_entry c inv_globals [OF inv] in \<open>auto simp: entries_ok_def\<close>)
next
  case (publish_count c)
  then have c: "c = 0"
    using inv_globals(5) [OF inv, of c] by simp
  show ?thesis
    by (rule sync_inv_quiet [OF inv publish_count(2), where p = BspRelease])
      (use publish_count c inv_globals [OF inv] in \<open>auto simp: entries_ok_def\<close>)
next
  case (release_aps c)
  then have c: "c = 0"
    using inv_globals(5) [OF inv, of c] by simp
  show ?thesis
    by (rule sync_inv_quiet [OF inv release_aps(2), where p = BspCall])
      (use release_aps c inv_globals [OF inv] in \<open>auto simp: entries_ok_def\<close>)
next
  case (bsp_call c)
  then have c: "c = 0"
    using inv_globals(5) [OF inv, of c] by simp
  show ?thesis
    by (rule sync_inv_quiet [OF inv bsp_call(2), where p = "Arrive (g_kernel_entry_point s)"])
      (use bsp_call c inv_globals [OF inv] in \<open>auto simp: entries_ok_def\<close>)
next
  case (ap_released c)
  then have c: "c \<noteq> 0"
    using inv_globals(5) [OF inv, of c] by simp
  show ?thesis
    by (rule sync_inv_quiet [OF inv ap_released(2), where p = ApMachineInit])
      (use ap_released c inv_globals [OF inv] in \<open>auto simp: entries_ok_def\<close>)
next
  case (ap_call c)
  then have c: "c \<noteq> 0"
    using inv_globals(5) [OF inv, of c] by simp
  show ?thesis
    by (rule sync_inv_quiet [OF inv ap_call(2), where p = "Arrive (g_kernel_entry_point s)"])
      (use ap_call c inv_globals [OF inv] inv_globals(4) [OF inv, of c] in
        \<open>auto simp: entries_ok_def\<close>)
next
  case (arrive c e)
  have e: "e = entry"
    using inv_globals(6) [OF inv arrive(2)] arrive(3) by (simp add: entries_ok_def)
  have order: "3 \<le> rank (core_pc s 0)"
    using inv_globals(4) [OF inv arrive(2)] arrive(3) by (cases "c = 0") simp_all
  have pc: "core_pc s' = (core_pc s)(c := Spin e)"
    using arrive(1) by simp
  show ?thesis
  proof (rule sync_inv_move [OF inv arrive(2) pc _ _ _ arrive_running [OF inv arrive(2,3) n arrive(1)]])
    show "1 \<le> rank (core_pc s' 0) \<longrightarrow> g_kernel_entry_point s' = entry"
      "2 \<le> rank (core_pc s' 0) \<longrightarrow> g_core_count s' = ucast (of_nat n :: u64)"
      "(g_ap_init_lock s' \<noteq> 0) = (3 \<le> rank (core_pc s' 0))"
      using order inv_globals(1-3) [OF inv] by (simp_all add: arrive(1))
  qed (use arrive(3) e order in \<open>simp_all add: entries_ok_def\<close>)
next
  case (handoff c e)
  have e: "e = entry"
    using inv_globals(6) [OF inv handoff(2)] handoff(3) by (simp add: entries_ok_def)
  have order: "3 \<le> rank (core_pc s 0)"
    using inv_globals(4) [OF inv handoff(2)] handoff(3) by (cases "c = 0") simp_all
  have pc: "core_pc s' = (core_pc s)(c := Handoff e)"
    using handoff(1) by simp
  have run: "unat (g_running_cores s') = card {d. d < n \<and> arrived s' d}"
    by (rule same_arrived [OF inv pc]) (simp_all add: handoff(1,3))
  show ?thesis
  proof (rule sync_inv_move [OF inv handoff(2) pc _ _ _ run])
    show "1 \<le> rank (core_pc s' 0) \<longrightarrow> g_kernel_entry_point s' = entry"
      "2 \<le> rank (core_pc s' 0) \<longrightarrow> g_core_count s' = ucast (of_nat n :: u64)"
      "(g_ap_init_lock s' \<noteq> 0) = (3 \<le> rank (core_pc s' 0))"
      using order inv_globals(1-3) [OF inv] by (simp_all add: handoff(1))
    show "\<forall>d<n. arrived s' d"
      using handoff_all [OF inv handoff(2,3) n handoff(4)] by (simp add: arrived_def handoff(1))
  qed (use handoff(3) e order in \<open>simp_all add: entries_ok_def\<close>)
qed

lemma reachable_inv:
  assumes "reachable entry (of_nat n) n s" and "0 < n" "n < 2 ^ 32"
  shows "sync_inv entry (of_nat n) n s"
  using assms(1)
proof induction
  case reach_start
  then show ?case
    using assms(2) by (rule start_inv)
next
  case (reach_step s s')
  then show ?case
    using step_inv assms(3) by blast
qed

section \<open>Progress\<close>

lemma can_step:
  assumes inv: "sync_inv entry (of_nat n) n s" and n: "0 < n" "n < 2 ^ 32"
    and left: "c < n" "rank (core_pc s c) < 6"
  shows "\<exists>s'. step entry (of_nat n) n s s'"
proof (cases "\<forall>d<n. arrived s d")
  case True
  then have spin: "\<exists>e. core_pc s c = Spin e"
    using left by (cases "core_pc s c") (auto simp: arrived_def)
  have "2 \<le> rank (core_pc s 0)"
    using True n(1) by (auto simp: arrived_def)
  then have "unat (g_core_count s) = n"
    using inv_globals(2) [OF inv] unat_count [OF n(2)] by simp
  then have "\<not> g_running_cores s < g_core_count s"
    using inv True by (simp add: sync_inv_def word_less_nat_alt flip: arrived_card)
  then show ?thesis
    using spin left(1) handoff by blast
next
  case False
  then obtain d where d: "d < n" "rank (core_pc s d) < 5"
    by (auto simp: arrived_def not_le)
  show ?thesis
  proof (cases "rank (core_pc s 0) < 5")
    case True
    have "role_ok 0 (core_pc s 0)"
      using inv_globals(5) [OF inv n(1)] .
    then show ?thesis
      using True n(1) by (cases "core_pc s 0") (auto dest: step.intros(1-4,7) [of 0 n s])
  next
    case False
    then have "g_ap_init_lock s \<noteq> 0"
      using inv_globals(3) [OF inv] by simp
    moreover have "d \<noteq> 0"
      using False d(2) by metis
    moreover have "role_ok d (core_pc s d)"
      using inv_globals(5) [OF inv d(1)] .
    ultimately show ?thesis
      using d by (cases "core_pc s d") (auto dest: step.intros(5-7) [of d n s])
  qed
qed

definition total :: "nat \<Rightarrow> sync_state \<Rightarrow> nat" where
  "total n s = (\<Sum>c<n. rank (core_pc s c))"

lemma total_step:
  assumes "c < n" and "core_pc s' = (core_pc s)(c := p)" and "rank (core_pc s c) < rank p"
  shows "total n s < total n s'"
proof -
  have "(\<Sum>d<n. rank (core_pc s d)) < (\<Sum>d<n. rank (core_pc s' d))"
    using assms by (intro sum_strict_mono_ex1) auto
  then show ?thesis
    by (simp add: total_def)
qed

lemma step_total: "step entry count n s s' \<Longrightarrow> total n s < total n s'"
  by (erule stepE) (rule total_step, assumption, simp, simp)+

lemma total_bound: "total n s \<le> 6 * n"
proof -
  have "rank p \<le> 6" for p
    by (cases p) simp_all
  then have "total n s \<le> (\<Sum>c<n. 6)"
    unfolding total_def by (intro sum_mono) simp
  then show ?thesis
    by simp
qed

lemma stuck_iff:
  assumes "reachable entry (of_nat n) n s" and "0 < n" and "n < 2 ^ 32"
  shows "(\<nexists>s'. step entry (of_nat n) n s s') \<longleftrightarrow> (\<forall>c<n. \<exists>e. core_pc s c = Handoff e)"
proof
  have inv: "sync_inv entry (of_nat n) n s"
    using assms by (rule reachable_inv)
  have le: "rank p \<le> 6" and six: "rank p = 6 \<longleftrightarrow> (\<exists>e. p = Handoff e)" for p
    by (cases p, simp_all)+
  show "\<forall>c<n. \<exists>e. core_pc s c = Handoff e" if "\<nexists>s'. step entry (of_nat n) n s s'"
    using can_step [OF inv assms(2,3)] that le six by (metis le_neq_implies_less)
  show "\<nexists>s'. step entry (of_nat n) n s s'" if "\<forall>c<n. \<exists>e. core_pc s c = Handoff e"
    using that by (force elim: stepE)
qed

text \<open>So a run can always be completed.\<close>

lemma completes:
  assumes "reachable entry (of_nat n) n s" and "0 < n" and "n < 2 ^ 32"
  shows "\<exists>s'. reachable entry (of_nat n) n s' \<and> (\<forall>c<n. \<exists>e. core_pc s' c = Handoff e)"
  using assms(1)
proof (induction "6 * n - total n s" arbitrary: s rule: less_induct)
  case less
  show ?case
  proof (cases "\<forall>c<n. \<exists>e. core_pc s c = Handoff e")
    case False
    then obtain s' where s': "step entry (of_nat n) n s s'"
      using stuck_iff [OF less.prems assms(2,3)] by blast
    have "6 * n - total n s' < 6 * n - total n s"
      using step_total [OF s'] total_bound [of n s'] by linarith
    then show ?thesis
      using less.hyps reach_step [OF less.prems s'] by blast
  qed (use less.prems in blast)
qed

section \<open>The properties\<close>

text \<open>C30. Whatever the interleaving, no core enters the kernel before every core has arrived at the
  barrier, and each passes the entry point the boot core published; no core but the boot core runs
  its machine initialisation before the boot core has opened the lock.\<close>

theorem handoff_barrier:
  assumes "reachable entry (of_nat n) n s" and "0 < n" and "n < 2 ^ 32" and "c < n"
  shows "(\<forall>e. core_pc s c = Handoff e \<longrightarrow> e = entry \<and> (\<forall>d<n. arrived s d)) \<and>
    (core_pc s c = ApMachineInit \<longrightarrow> g_ap_init_lock s \<noteq> 0 \<and> g_kernel_entry_point s = entry)"
proof -
  have inv: "sync_inv entry (of_nat n) n s"
    using assms(1-3) by (rule reachable_inv)
  have "\<forall>d<n. arrived s d" if "core_pc s c = Handoff e" for e
    using inv that assms(4) by (auto simp: sync_inv_def)
  moreover have "g_ap_init_lock s \<noteq> 0 \<and> g_kernel_entry_point s = entry" if "core_pc s c = ApMachineInit"
  proof -
    have "3 \<le> rank (core_pc s 0)"
      using inv_globals(4,5) [OF inv assms(4)] that by simp
    then show ?thesis
      using inv_globals(1,3) [OF inv] by simp
  qed
  ultimately show ?thesis
    using inv_globals(6) [OF inv assms(4)] by (auto simp: entries_ok_def)
qed

theorem handoff_barrier_witness:
  "\<exists>s. reachable 0x8000 (of_nat 3) 3 s \<and> core_pc s 2 = Handoff 0x8000 \<and> arrived s 0 \<and> arrived s 1"
proof -
  obtain s where s: "reachable 0x8000 (of_nat 3) 3 s" "\<forall>c<3. \<exists>e. core_pc s c = Handoff e"
    using completes [OF reach_start, of 3 "0x8000"] by auto
  then obtain e where e: "core_pc s 2 = Handoff e"
    by (auto dest: spec [of _ 2])
  then have "e = 0x8000" "\<forall>d<3. arrived s d"
    using handoff_barrier [OF s(1), of 2] by auto
  then show ?thesis
    using s(1) e by auto
qed

text \<open>C31. The rendezvous ends: every step of any core brings the cores nearer to the kernel, at most
  6 steps each, and as long as some core has not entered it, some core can take a step. So every run
  in which the cores keep running ends with all of them in the kernel.\<close>

theorem handoff_progress:
  assumes "reachable entry (of_nat n) n s" and "0 < n" and "n < 2 ^ 32"
  shows "total n s \<le> 6 * n \<and> (\<forall>s'. step entry (of_nat n) n s s' \<longrightarrow> total n s < total n s') \<and>
    ((\<nexists>s'. step entry (of_nat n) n s s') \<longleftrightarrow> (\<forall>c<n. \<exists>e. core_pc s c = Handoff e))"
  using total_bound step_total stuck_iff [OF assms] by blast

theorem handoff_progress_witness:
  "total 2 (start 2) \<le> 12 \<and> (\<exists>s'. step 0x8000 (of_nat 2) 2 (start 2) s')"
proof -
  have "\<not> (\<forall>c<2. \<exists>e. core_pc (start 2) c = Handoff e)"
    by (rule notI, drule spec [of _ 0]) (simp add: start_def)
  then show ?thesis
    using handoff_progress [OF reach_start, of 2 "0x8000"]
    by (cases "\<exists>s'. step 0x8000 (of_nat 2) 2 (start 2) s'") auto
qed

end
