(* ===== verification/InitMap.thy ===== *)
theory InitMap
  imports PmmSpare
begin

text \<open>
  The memory map in \<open>prekernel_init\<close> (\<open>pre_kernel/src/init.c\<close>): the size of memory, the extent of
  the direct map, the block for the map handed to the kernel, and its entries.
\<close>

section \<open>The code\<close>

datatype bootinfo_mm_type_t =
    BOOTINFO_MM_TYPE_USABLE
  | BOOTINFO_MM_TYPE_USED
  | BOOTINFO_MM_TYPE_RECLAIMABLE
  | BOOTINFO_MM_TYPE_ACPI_RECLAIMABLE
  | BOOTINFO_MM_TYPE_ACPI_NVS
  | BOOTINFO_MM_TYPE_RESERVED
  | BOOTINFO_MM_TYPE_BAD

record bootinfo_mm_entry_t =
  mm_type :: bootinfo_mm_type_t
  mm_phys_base :: u64
  mm_length :: u64

definition sizeof_bootinfo_mm_entry :: u64 where "sizeof_bootinfo_mm_entry = 24"

text \<open>The sum over the map; \<open>i\<close> runs over the live entries.\<close>

definition physical_memory_size :: "pmm_state \<Rightarrow> u64" where
  "physical_memory_size s = foldl (\<lambda>sum e. sum + me_length e) 0 (live s)"

definition hhdm_size_loop :: "u64 \<Rightarrow> pmm_state \<Rightarrow> u64" where
  "hhdm_size_loop hhdm_size s =
     foldl (\<lambda>sz e. MATH_MAX sz (me_base e + me_length e)) hhdm_size (live s)"

primrec mm_type_of :: "pmm_map_type \<Rightarrow> bootinfo_mm_type_t" where
  "mm_type_of PMM_MAP_TYPE_BOOTLOADER_RECLAIMABLE = BOOTINFO_MM_TYPE_USABLE"
| "mm_type_of PMM_MAP_TYPE_EFI_RECLAIMABLE = BOOTINFO_MM_TYPE_USABLE"
| "mm_type_of PMM_MAP_TYPE_FREE = BOOTINFO_MM_TYPE_USABLE"
| "mm_type_of PMM_MAP_TYPE_ALLOCATED = BOOTINFO_MM_TYPE_RECLAIMABLE"
| "mm_type_of PMM_MAP_TYPE_USED = BOOTINFO_MM_TYPE_USED"
| "mm_type_of PMM_MAP_TYPE_ACPI_RECLAIMABLE = BOOTINFO_MM_TYPE_ACPI_RECLAIMABLE"
| "mm_type_of PMM_MAP_TYPE_ACPI_NVS = BOOTINFO_MM_TYPE_ACPI_NVS"
| "mm_type_of PMM_MAP_TYPE_RESERVED = BOOTINFO_MM_TYPE_RESERVED"
| "mm_type_of PMM_MAP_TYPE_BAD = BOOTINFO_MM_TYPE_BAD"

definition mm_entries :: "pmm_state \<Rightarrow> bootinfo_mm_entry_t list" where
  "mm_entries s =
     map (\<lambda>e. \<lparr>mm_type = mm_type_of (me_type e), mm_phys_base = me_base e, mm_length = me_length e\<rparr>) (live s)"

text \<open>The loop that finds a block large enough for the map as it is after its own allocation. The
  result is the block with its size in bytes.\<close>

definition memory_map_block_size :: "u64 \<Rightarrow> u64" where
  "memory_map_block_size pmm_map_entries =
     MATH_ALIGN_UP (pmm_map_entries * sizeof_bootinfo_mm_entry) PTM_PAGE_GRANULARITY"

partial_function (option) map_block_loop :: "u64 \<Rightarrow> pmm_state \<Rightarrow> (u64 \<times> u64 \<times> pmm_state) res" where
  "map_block_loop pmm_map_entries s =
     (let memory_map_block_size = memory_map_block_size pmm_map_entries
      in res_bind (pmm_alloc (memory_map_block_size div PTM_PAGE_GRANULARITY) s)
           (\<lambda>(memory_map_phys, s).
              if of_nat (g_pmm_map_size s) > pmm_map_entries
              then res_bind (pmm_free memory_map_phys (memory_map_block_size div PTM_PAGE_GRANULARITY) s)
                     (\<lambda>s. map_block_loop (pmm_map_entries * 2) s)
              else ok (memory_map_phys, memory_map_block_size, s)))"

declare map_block_loop.simps [code]

definition memory_map_block :: "pmm_state \<Rightarrow> (u64 \<times> u64 \<times> pmm_state) res" where
  "memory_map_block s = map_block_loop (of_nat (g_pmm_map_size s)) s"

section \<open>Freeing keeps the reserve\<close>

lemma took_apart_free:
  assumes wf: "wf_map (live s)" and fit: "fits_at s k m" and m: "0 < m" "0 < n"
    and alloc: "\<And>x. a \<le> x \<Longrightarrow> x < a + n \<Longrightarrow> type_at (live s) x \<noteq> Some PMM_MAP_TYPE_FREE"
  shows "k + m \<le> a \<or> a + n \<le> k"
proof (rule ccontr)
  assume "\<not> (k + m \<le> a \<or> a + n \<le> k)"
  then have x: "k \<le> max k a" "max k a < k + m" "a \<le> max k a" "max k a < a + n"
    using m by auto
  show False
    using fits_at_free [OF wf fit x(1,2)] alloc [OF x(3,4)] by simp
qed

lemma spare_free:
  assumes sup: "spare (Suc r) p s" and pc: "pages_ok pc" and n: "n = page_bytes pc"
    and al: "4096 dvd unat a" and held: "held (live s) (unat a) (unat a + n)"
    and alloc: "\<And>x. unat a \<le> x \<Longrightarrow> x < unat a + n \<Longrightarrow> type_at (live s) x = Some PMM_MAP_TYPE_ALLOCATED"
  obtains s' where "pmm_free a pc s = ok s'" and "spare r p s'"
    and "g_pmm_map_size s' \<le> g_pmm_map_size s + 2"
    and "\<And>x. type_at (live s') x =
      (if unat a \<le> x \<and> x < unat a + n then Some PMM_MAP_TYPE_FREE else type_at (live s) x)"
proof -
  have inv: "pmm_inv s" and wf: "wf_map (live s)" and sl: "slots s (Suc r)" and pw: "pagewise s"
    and low: "\<And>x. 2 ^ 51 \<le> x \<Longrightarrow> type_at (live s) x = None" and res: "reserve s p"
    using sup by (simp_all add: spare_def pmm_inv_def)
  note len = pages_length [OF pc]
  have n0: "0 < n"
    using pc by (auto simp: n pages_ok_def page_bytes_def unat_gt_0)
  have below: "unat a + n \<le> 2 ^ 51"
  proof (rule ccontr)
    assume "\<not> unat a + n \<le> 2 ^ 51"
    then have "unat a \<le> unat a + n - 1" "unat a + n - 1 < unat a + n" "2 ^ 51 \<le> unat a + n - 1"
      using n0 by linarith+
    from alloc [OF this(1,2)] low [OF this(3)] show False
      by simp
  qed
  have r: "region_ok a (pc * PTM_PAGE_GRANULARITY)"
    using \<open>unat a + n \<le> 2 ^ 51\<close> by (simp add: region_ok_def len(1) n)
  have h: "region_end a (pc * PTM_PAGE_GRANULARITY) = unat a + n"
    by (simp add: len(1) n)
  have "\<forall>e\<in>set (live s). \<not> on_edge (unat a) (region_end a (pc * PTM_PAGE_GRANULARITY)) e"
    using held_not_on_edge [OF wf held] n0 by (simp add: h)
  from forced_set_outcome [OF inv r len(2) _ this, where t = PMM_MAP_TYPE_FREE] slots_room [OF sl] obtain s' where
    s': "pmm_map_set a (pc * PTM_PAGE_GRANULARITY) PMM_MAP_TYPE_FREE True s = ok s'"
    "set_outcome s (unat a) (unat a + n) (\<lambda>_. Some PMM_MAP_TYPE_FREE) {} s'"
    "g_pmm_map_size s' \<le> g_pmm_map_size s + 2"
    unfolding h by (auto simp: pmm_room_def)
  have "reserve s' p"
  proof (cases "p = 0")
    case False
    then obtain k where k: "4096 dvd k" "fits_at s k (4096 * p)"
      using res by (auto simp: reserve_def)
    have apart: "k + 4096 * p \<le> unat a \<or> unat a + n \<le> k"
      using took_apart_free [OF wf k(2) _ n0] alloc False by simp
    have wf': "wf_map (live s')" and keeps: "keeps_held (live s) (unat a) (unat a + n) (live s')"
      and type: "\<And>x. type_at (live s') x = (if unat a \<le> x \<and> x < unat a + n then Some PMM_MAP_TYPE_FREE else type_at (live s) x)"
      using s'(2) by (simp_all add: set_outcome_def)
    have "held (live s') k (k + 4096 * p)"
      using keeps fits_at_held [OF k(2)] apart False unfolding keeps_held_def by force
    moreover have "type_at (live s') k = Some PMM_MAP_TYPE_FREE"
      using type fits_at_free [OF wf k(2), of k] apart False by auto
    ultimately have "fits_at s' k (4096 * p)"
      by (intro fits_atI [OF wf']) (use False in simp_all)
    then show ?thesis
      using k(1) by (auto simp: reserve_def)
  qed (simp add: reserve_def)
  moreover have "pmm_inv s'" "slots s' r"
    using s'(2) slots_next [OF sl s'(3)] by (simp_all add: set_outcome_def pmm_inv_def)
  moreover have "pagewise s'"
    by (rule pagewise_set [OF pw al, of n s' PMM_MAP_TYPE_FREE]) (use s'(2) n0 in \<open>simp_all add: set_outcome_def n page_bytes_def\<close>)
  moreover have "type_at (live s') x = None" if "2 ^ 51 \<le> x" for x
    using s'(2) low [OF that] that \<open>unat a + n \<le> 2 ^ 51\<close> by (simp add: set_outcome_def)
  ultimately show thesis
    using s' by (intro that [of s']) (simp_all add: pmm_free_def spare_def set_outcome_def)
qed

end
