(* ===== verification/InitMapProps.thy ===== *)
theory InitMapProps
  imports InitMap
begin

text \<open>
  The memory map handed to the kernel: the search for a block that holds it ends, the entries mean
  what the physical memory map means, and the two sums over the map.
\<close>

section \<open>The search for a block\<close>

text \<open>\<open>block_taken s a b s'\<close>: \<open>b\<close> bytes at \<open>a\<close>, free before, are allocated, and nothing else changed.\<close>

definition block_taken :: "pmm_state \<Rightarrow> u64 \<Rightarrow> u64 \<Rightarrow> pmm_state \<Rightarrow> bool" where
  "block_taken s a b s' \<longleftrightarrow> 4096 dvd unat a \<and> 4096 dvd unat b \<and>
     (\<forall>x. unat a \<le> x \<and> x < unat a + unat b \<longrightarrow> type_at (live s) x = Some PMM_MAP_TYPE_FREE) \<and>
     (\<forall>x. type_at (live s') x =
       (if unat a \<le> x \<and> x < unat a + unat b then Some PMM_MAP_TYPE_ALLOCATED else type_at (live s) x))"

lemma block_size_pages:
  assumes "unat n \<le> 2084" and "0 < unat n"
  defines "pc \<equiv> memory_map_block_size n div PTM_PAGE_GRANULARITY"
  shows "unat (memory_map_block_size n) = 4096 * unat pc" and "24 * unat n \<le> 4096 * unat pc"
    and "0 < unat pc" and "unat pc \<le> 13"
proof -
  have n: "unat (n * 24) = unat n * 24"
    using assms(1) by (subst unat_mult_nowrap) simp_all
  have size: "unat (memory_map_block_size n) = (unat n * 24 + 4095) div 4096 * 4096"
    unfolding memory_map_block_size_def sizeof_bootinfo_mm_entry_def
    using assms(1) by (subst unat_ALIGN_UP_page) (simp_all add: n)
  have pc: "unat pc = (unat n * 24 + 4095) div 4096"
    by (simp add: pc_def unat_div size unat_page_granularity)
  show "unat (memory_map_block_size n) = 4096 * unat pc" "24 * unat n \<le> 4096 * unat pc"
    "0 < unat pc" "unat pc \<le> 13"
    using assms(1,2) by (simp_all add: size pc) (linarith+)?
qed

text \<open>One round: the block taken, and the map restored when it is freed again.\<close>

lemma spare_alloc_block:
  assumes "spare (Suc r) p s" and "0 < unat pc" "unat pc \<le> p"
  obtains a s' where "pmm_alloc pc s = ok (a, s')" and "spare r (p - unat pc) s'"
    and "g_pmm_map_size s' \<le> g_pmm_map_size s + 2" and "held (live s') (unat a) (unat a + page_bytes pc)"
    and "\<And>b. unat b = page_bytes pc \<Longrightarrow> block_taken s a b s'" and "pages_ok pc"
proof -
  have wf: "wf_map (live s)"
    using assms(1) by (simp add: spare_def pmm_inv_def)
  obtain a s' where s': "pmm_alloc_ext pc PTM_PAGE_GRANULARITY PMM_MAP_TYPE_ALLOCATED s = ok (a, s')"
    "4096 dvd unat a" "fits_at s (unat a) (4096 * unat pc)"
    "took s (unat a) (4096 * unat pc) PMM_MAP_TYPE_ALLOCATED s'" "spare r (p - unat pc) s'"
    using spare_alloc_ext [OF assms] by blast
  have "unat a + 4096 * unat pc < 2 ^ 64"
    using s'(3) wf by (auto simp: fits_at_def entry_ok_def dest: wf_map_entry)
  then have "pages_ok pc"
    using assms(2) by (auto simp: pages_ok_def page_bytes_def unat_gt_0)
  moreover have "block_taken s a b s'" if "unat b = page_bytes pc" for b
    using s'(2-4) that fits_at_free [OF wf s'(3)]
    by (simp add: block_taken_def took_def page_bytes_def mult.commute)
  ultimately show thesis
    using s' by (intro that [of a s']) (simp_all add: pmm_alloc_def took_def page_bytes_def mult.commute)
qed

lemma map_block_retry:
  assumes "block_taken s a b s1"
    and "\<And>x. type_at (live s2) x =
      (if unat a \<le> x \<and> x < unat a + unat b then Some PMM_MAP_TYPE_FREE else type_at (live s1) x)"
  shows "type_at (live s2) = type_at (live s)"
  using assms by (auto simp: block_taken_def fun_eq_iff)

lemma map_block_loop_ok:
  assumes "spare (2 * k + 1) (13 * (k + 1)) s" and "k \<le> 5" and "0 < n0" "n0 \<le> 1024"
    and "g_pmm_map_size s \<le> n0 + 4 * (5 - k)" and "unat n = 2 ^ (5 - k) * n0" and "unat n \<le> 2084"
  shows "\<exists>a b s'. map_block_loop n s = ok (a, b, s') \<and> pmm_inv s' \<and> block_taken s a b s' \<and>
    24 * g_pmm_map_size s' \<le> unat b"
  using assms(1,2,5-7)
proof (induction k arbitrary: s n)
  case 0
  have n: "0 < unat n"
    using \<open>0 < n0\<close> by (simp add: "0.prems")
  note pc = block_size_pages [OF "0.prems"(5) n]
  obtain a s1 where s1: "pmm_alloc (memory_map_block_size n div PTM_PAGE_GRANULARITY) s = ok (a, s1)"
    "spare 0 (13 - unat (memory_map_block_size n div PTM_PAGE_GRANULARITY)) s1" "g_pmm_map_size s1 \<le> g_pmm_map_size s + 2"
    "\<And>b. unat b = page_bytes (memory_map_block_size n div PTM_PAGE_GRANULARITY) \<Longrightarrow> block_taken s a b s1"
    using spare_alloc_block [of 0 13 s] "0.prems"(1) pc(3,4) by (metis Suc_eq_plus1 add_0 mult_0_right mult.right_neutral)
  have fit: "g_pmm_map_size s1 \<le> unat n"
    using s1(3) "0.prems"(3,4) \<open>0 < n0\<close> by simp
  then have "\<not> of_nat (g_pmm_map_size s1) > n"
    using \<open>unat n \<le> 2084\<close> by (simp add: word_less_nat_alt unat_of_nat_64)
  then show ?case
    using s1 fit pc(1,2) by (subst map_block_loop.simps) (auto simp: Let_def page_bytes_def spare_def)
next
  case (Suc k)
  have n: "0 < unat n"
    using \<open>0 < n0\<close> by (simp add: Suc.prems)
  define pc where "pc = memory_map_block_size n div PTM_PAGE_GRANULARITY"
  note pages = block_size_pages [OF Suc.prems(5) n, folded pc_def]
  obtain a s1 where s1: "pmm_alloc pc s = ok (a, s1)"
    "spare (2 * k + 2) (13 * (k + 2) - unat pc) s1" "g_pmm_map_size s1 \<le> g_pmm_map_size s + 2"
    "held (live s1) (unat a) (unat a + page_bytes pc)"
    "block_taken s a (memory_map_block_size n) s1" "pages_ok pc"
    by (rule spare_alloc_block [of "2 * k + 2" "13 * (k + 2)" s pc])
      (use Suc.prems(1) pages in \<open>simp_all add: page_bytes_def\<close>)
  show ?case
  proof (cases "of_nat (g_pmm_map_size s1) > n")
    case False
    then have "g_pmm_map_size s1 \<le> unat n"
      using s1(3) Suc.prems(3) \<open>n0 \<le> 1024\<close> by (simp add: word_less_nat_alt unat_of_nat_64)
    then show ?thesis
      using s1 False pages by (subst map_block_loop.simps) (auto simp: Let_def pc_def spare_def)
  next
    case True
    then have more: "unat n < g_pmm_map_size s1"
      using s1(3) Suc.prems(3) \<open>n0 \<le> 1024\<close> by (simp add: word_less_nat_alt unat_of_nat_64)
    obtain s2 where s2: "pmm_free a pc s1 = ok s2" "spare (2 * k + 1) (13 * (k + 2) - unat pc) s2"
      "g_pmm_map_size s2 \<le> g_pmm_map_size s1 + 2"
      "\<And>x. type_at (live s2) x =
        (if unat a \<le> x \<and> x < unat a + page_bytes pc then Some PMM_MAP_TYPE_FREE else type_at (live s1) x)"
      by (rule spare_free [of "2 * k + 1" "13 * (k + 2) - unat pc" s1 pc "page_bytes pc" a])
        (use s1 pages in \<open>simp_all add: block_taken_def page_bytes_def mult.commute\<close>)
    have same: "type_at (live s2) = type_at (live s)"
      using map_block_retry [OF s1(5)] s2(4) by (simp add: pages(1) page_bytes_def mult.commute)
    have n2: "unat (n * 2) = 2 ^ (5 - k) * n0"
    proof -
      have "unat (n * 2) = unat n * 2"
        using Suc.prems(5) by (subst unat_mult_nowrap) simp_all
      also have "\<dots> = 2 ^ Suc (5 - Suc k) * n0"
        by (simp add: Suc.prems(4))
      also have "Suc (5 - Suc k) = 5 - k"
        using Suc.prems(2) by simp
      finally show ?thesis .
    qed
    have "\<exists>a b s'. map_block_loop (n * 2) s2 = ok (a, b, s') \<and> pmm_inv s' \<and> block_taken s2 a b s' \<and>
      24 * g_pmm_map_size s' \<le> unat b"
    proof (rule Suc.IH)
      show "spare (2 * k + 1) (13 * (k + 1)) s2"
        by (rule spare_mono [OF s2(2)]) (use pages(4) in simp_all)
      show "g_pmm_map_size s2 \<le> n0 + 4 * (5 - k)"
        using s2(3) s1(3) Suc.prems(2,3) by (simp add: Suc_diff_Suc)
      have "unat (n * 2) = unat n * 2"
        using Suc.prems(5) by (subst unat_mult_nowrap) simp_all
      also have "\<dots> \<le> 2 * (n0 + 4 * (5 - Suc k) + 1)"
        using more s1(3) Suc.prems(3) by simp
      finally show "unat (n * 2) \<le> 2084"
        using \<open>n0 \<le> 1024\<close> by simp
    qed (use Suc.prems(2) n2 in simp_all)
    then show ?thesis
      using s1(1) s2(1) True same
      by (subst map_block_loop.simps) (auto simp: Let_def pc_def block_taken_def)
  qed
qed

section \<open>What the entries mean\<close>

text \<open>The kernel's reading of the map: the type of the entry that holds an address.\<close>

definition mm_contains :: "bootinfo_mm_entry_t \<Rightarrow> nat \<Rightarrow> bool" where
  "mm_contains e x \<longleftrightarrow> unat (mm_phys_base e) \<le> x \<and> x < unat (mm_phys_base e) + unat (mm_length e)"

definition mm_type_at :: "bootinfo_mm_entry_t list \<Rightarrow> nat \<Rightarrow> bootinfo_mm_type_t option" where
  "mm_type_at es x = map_option mm_type (find (\<lambda>e. mm_contains e x) es)"

lemma mm_type_at_map:
  "mm_type_at (map (\<lambda>e. \<lparr>mm_type = mm_type_of (me_type e), mm_phys_base = me_base e, mm_length = me_length e\<rparr>) es) x =
     map_option mm_type_of (type_at es x)"
  by (induction es) (simp_all add: mm_type_at_def mm_contains_def contains_def lo_def hi_def)

lemma mm_type_at_entries: "mm_type_at (mm_entries s) x = map_option mm_type_of (type_at (live s) x)"
  by (simp add: mm_entries_def mm_type_at_map)

section \<open>Sums over the map\<close>

lemma known_addresses:
  "wf_map es \<Longrightarrow> finite {x. type_at es x \<noteq> None} \<and>
     card {x. type_at es x \<noteq> None} = (\<Sum>e\<leftarrow>es. unat (me_length e))"
proof (induction es)
  case (Cons e es)
  have here: "{x. contains e x} = {lo e..<hi e}"
    by (auto simp: contains_def)
  have "type_at es x = None" if "contains e x" for x
    using Cons.prems that by (intro type_at_NoneI) (force simp: contains_def)
  then have disj: "{x. contains e x} \<inter> {x. type_at es x \<noteq> None} = {}"
    by auto
  have split: "{x. type_at (e # es) x \<noteq> None} = {x. contains e x} \<union> {x. type_at es x \<noteq> None}"
    by auto
  show ?case
    unfolding split using Cons disj by (simp add: here card_Un_disjoint) (simp add: hi_def lo_def)
qed simp

lemma foldl_lengths: "foldl (\<lambda>n e. n + me_length e) m es = m + of_nat (\<Sum>e\<leftarrow>es. unat (me_length e))"
  by (induction es arbitrary: m) (simp_all add: add.assoc)

lemma foldl_max_ends:
  assumes "\<forall>e\<in>set es. entry_ok e"
  shows "unat (foldl (\<lambda>sz e. MATH_MAX sz (me_base e + me_length e)) m es) = fold max (map hi es) (unat m)"
  using assms
proof (induction es arbitrary: m)
  case (Cons e es)
  have "unat (me_base e + me_length e) = hi e"
    using Cons.prems by (simp add: entry_ok_def hi_def unat_add_nowrap)
  then have "unat (MATH_MAX m (me_base e + me_length e)) = max (hi e) (unat m)"
    by (simp add: MATH_MAX_def word_less_nat_alt max_def)
  then show ?case
    using Cons by simp
qed simp

lemma memory_map_block_spec:
  assumes "spare 11 78 s" and "0 < g_pmm_map_size s"
  obtains a b s' where "memory_map_block s = ok (a, b, s')" and "pmm_inv s'" and "block_taken s a b s'"
    and "unat sizeof_bootinfo_mm_entry * length (mm_entries s') \<le> unat b"
proof -
  have room: "g_pmm_map_size s \<le> 1024"
    using assms(1) by (simp add: spare_def slots_def PMM_MAP_MAX_ENTRIES_def split: if_splits)
  have "length (mm_entries s') = g_pmm_map_size s'" if "pmm_inv s'" for s'
    using that by (simp add: mm_entries_def length_live pmm_inv_def)
  then show thesis
    using map_block_loop_ok [of 5 s "g_pmm_map_size s" "of_nat (g_pmm_map_size s)"] assms room
    by (auto simp: memory_map_block_def unat_of_nat_64 sizeof_bootinfo_mm_entry_def intro: that)
qed

text \<open>A map of one free entry: its first two blocks are too small.\<close>

definition free_map :: pmm_state where
  "free_map = state_of [\<lparr>me_base = 0x1000, me_length = 0x100000, me_type = PMM_MAP_TYPE_FREE\<rparr>]"

lemma live_free_map [simp]:
  "live free_map = [\<lparr>me_base = 0x1000, me_length = 0x100000, me_type = PMM_MAP_TYPE_FREE\<rparr>]"
  by (simp add: free_map_def)

lemma free_map_size [simp]: "g_pmm_map_size free_map = 1"
  by (simp add: free_map_def)

lemma free_map_inv: "pmm_inv free_map"
  unfolding free_map_def
  by (rule pmm_inv_state_of) (simp_all add: entry_ok_def hi_def lo_def PMM_MAP_MAX_ENTRIES_def)

lemma free_map_spare: "spare 11 78 free_map"
proof (rule spareI [OF free_map_inv])
  show "fits_at free_map 0x1000 (4096 * 78)"
    by (simp add: fits_at_def lo_def hi_def)
qed (simp_all add: PMM_MAP_MAX_ENTRIES_def lo_def hi_def)

section \<open>The properties\<close>

text \<open>C32. The search for a block that holds the memory map ends: with slots for eleven changes and 78
  free pages in a row the loop, which frees a block that its own allocation made too small and doubles
  the count, returns a page-aligned block with room for every entry of the map as it is then; the
  block is taken from free memory and nothing else changed.\<close>

theorem memory_map_block_returns:
  assumes "spare 11 78 s" and "0 < g_pmm_map_size s"
  shows "\<exists>a b s'. memory_map_block s = ok (a, b, s') \<and> pmm_inv s' \<and> block_taken s a b s' \<and>
    unat sizeof_bootinfo_mm_entry * length (mm_entries s') \<le> unat b"
  using memory_map_block_spec [OF assms] by metis

theorem memory_map_block_returns_witness:
  "\<exists>a b s'. memory_map_block free_map = ok (a, b, s') \<and> pmm_inv s' \<and> block_taken free_map a b s' \<and>
    unat sizeof_bootinfo_mm_entry * length (mm_entries s') \<le> unat b"
  by (rule memory_map_block_returns [OF free_map_spare]) simp

text \<open>C34. The size of memory is the number of addresses the map knows, and the direct map reaches
  exactly to the highest end of an entry, or to where it reached before.\<close>

theorem memory_size_exact:
  assumes "pmm_inv s"
  shows "physical_memory_size s = of_nat (card {x. type_at (live s) x \<noteq> None}) \<and>
    unat (hhdm_size_loop sz s) = Max (insert (unat sz) (hi ` set (live s)))"
proof -
  have wf: "wf_map (live s)"
    using assms by (simp add: pmm_inv_def)
  have "fold max xs m = Max (insert m (set xs))" for xs and m :: nat
    by (metis Max.set_eq_fold list.simps(15))
  then show ?thesis
    using known_addresses [OF wf] foldl_max_ends [of "live s" sz] wf
    by (simp add: physical_memory_size_def hhdm_size_loop_def foldl_lengths wf_map_def)
qed

theorem memory_size_exact_witness:
  "(of_nat (card {x. type_at sample_map x \<noteq> None}) :: u64) = 0xA000 \<and> unat (hhdm_size_loop 0 sample) = 0x10000"
proof -
  have "physical_memory_size sample = 0xA000"
    by (simp add: physical_memory_size_def sample_map_def)
  then show ?thesis
    using memory_size_exact [OF sample_inv, of 0] by (simp add: sample_map_def hi_def)
qed

end
