(* ===== verification/Pagedb.thy ===== *)
theory Pagedb
  imports PtmX86Space PtmRiscvSpace
begin

text \<open>
  The page database (\<open>pre_kernel/src/memory/pagedb.c\<close>): an array with one record per page frame,
  of a size the kernel chooses, above the direct map; only the parts that describe known memory are
  backed by pages. \<open>map_region\<close> is \<open>ptm_map\<close> of the architecture. The properties are proved in the
  contract \<open>address_space\<close>.
\<close>

section \<open>The code\<close>

definition pagedb_type :: "pmm_map_type \<Rightarrow> bool" where
  "pagedb_type t \<longleftrightarrow> (case t of
       PMM_MAP_TYPE_FREE \<Rightarrow> True
     | PMM_MAP_TYPE_ALLOCATED \<Rightarrow> True
     | PMM_MAP_TYPE_USED \<Rightarrow> True
     | PMM_MAP_TYPE_BOOTLOADER_RECLAIMABLE \<Rightarrow> True
     | PMM_MAP_TYPE_EFI_RECLAIMABLE \<Rightarrow> True
     | PMM_MAP_TYPE_ACPI_RECLAIMABLE \<Rightarrow> True
     | PMM_MAP_TYPE_ACPI_NVS \<Rightarrow> True
     | PMM_MAP_TYPE_RESERVED \<Rightarrow> True
     | _ \<Rightarrow> False)"

definition PAGEDB_FLAGS :: u8 where "PAGEDB_FLAGS = PTM_FLAG_READ OR PTM_FLAG_WRITE"

text \<open>The loop that backs the addresses from \<open>pagedb_end\<close> up to \<open>stop\<close>, and the loop over the
  snapshot. The result of the latter is \<open>pagedb_mapped_end\<close>.\<close>

partial_function (option) pagedb_map_loop ::
  "(u64 \<Rightarrow> u64 \<Rightarrow> u64 \<Rightarrow> u8 \<Rightarrow> 'a vm_state_scheme \<Rightarrow> 'a vm_state_scheme res) \<Rightarrow> u64 \<Rightarrow> u64 \<Rightarrow>
    'a vm_state_scheme \<Rightarrow> 'a vm_state_scheme res" where
  "pagedb_map_loop map_region pagedb_end stop st =
     (if pagedb_end < stop then
        res_bind (pmm_alloc_ext 1 PTM_PAGE_GRANULARITY PMM_MAP_TYPE_USED (vm_pmm st))
          (\<lambda>(p, s). res_bind (map_region pagedb_end p PTM_PAGE_GRANULARITY PAGEDB_FLAGS (st\<lparr>vm_pmm := s\<rparr>))
             (\<lambda>st. pagedb_map_loop map_region (pagedb_end + PTM_PAGE_GRANULARITY) stop st))
      else ok st)"

declare pagedb_map_loop.simps [code]

fun pagedb_loop ::
  "(u64 \<Rightarrow> u64 \<Rightarrow> u64 \<Rightarrow> u8 \<Rightarrow> 'a vm_state_scheme \<Rightarrow> 'a vm_state_scheme res) \<Rightarrow> u64 \<Rightarrow> u64 \<Rightarrow>
    pmm_map_entry list \<Rightarrow> u64 \<Rightarrow> 'a vm_state_scheme \<Rightarrow> (u64 \<times> 'a vm_state_scheme) res" where
  "pagedb_loop map_region pagedb_base entry_size [] pagedb_mapped_end st = ok (pagedb_mapped_end, st)"
| "pagedb_loop map_region pagedb_base entry_size (e # es) pagedb_mapped_end st =
     (if \<not> pagedb_type (me_type e) then
        pagedb_loop map_region pagedb_base entry_size es pagedb_mapped_end st
      else
        (let start = pagedb_base + MATH_FLOOR (me_base e div PTM_PAGE_GRANULARITY * entry_size) PTM_PAGE_GRANULARITY;
             stop = pagedb_base +
               MATH_CEIL ((me_base e + me_length e) div PTM_PAGE_GRANULARITY * entry_size) PTM_PAGE_GRANULARITY;
             start = (if start < pagedb_mapped_end then pagedb_mapped_end else start)
         in if start \<ge> stop then
              pagedb_loop map_region pagedb_base entry_size es pagedb_mapped_end st
            else res_bind (pagedb_map_loop map_region start stop st)
                   (\<lambda>st. pagedb_loop map_region pagedb_base entry_size es stop st)))"

text \<open>\<open>hhdm_size\<close> is the field of the boot information; the result is \<open>pfndb_start\<close> and
  \<open>pfndb_size\<close>.\<close>

definition pagedb_setup ::
  "(u64 \<Rightarrow> u64 \<Rightarrow> u64 \<Rightarrow> u8 \<Rightarrow> 'a vm_state_scheme \<Rightarrow> 'a vm_state_scheme res) \<Rightarrow> u64 \<Rightarrow> u64 \<Rightarrow> u64 \<Rightarrow>
    'a vm_state_scheme \<Rightarrow> (u64 \<times> u64 \<times> 'a vm_state_scheme) res" where
  "pagedb_setup map_region hhdm_size kernel_base pagedb_entry_size st =
     (let system_page_count = MATH_ALIGN_UP hhdm_size PTM_PAGE_GRANULARITY div PTM_PAGE_GRANULARITY;
          pagedb_size = MATH_ALIGN_UP (system_page_count * pagedb_entry_size) PTM_PAGE_GRANULARITY;
          pagedb_base = hhdm_offset st + hhdm_size + PTM_PAGE_GRANULARITY;
          pagedb_end = pagedb_base + pagedb_size
      in if pagedb_end > kernel_base
         then fail (Panic ''pagedb overlaps with kernel image! pagedb_end=0x%016lx, kernel_base=0x%016lx'')
         else res_bind (pmm_create_snapshot (vm_pmm st))
           (\<lambda>(snapshot, s).
              res_bind (pagedb_loop map_region pagedb_base pagedb_entry_size (snap_entries snapshot) pagedb_base
                          (st\<lparr>vm_pmm := s\<rparr>))
                (\<lambda>(_, st). res_bind (pmm_free_snapshot snapshot (vm_pmm st))
                   (\<lambda>s. ok (pagedb_base, pagedb_size, st\<lparr>vm_pmm := s\<rparr>)))))"

section \<open>Backing addresses with pages\<close>

text \<open>\<open>pages_backed S\<close>: every address of \<open>S\<close> is mapped to memory that was free and is now used, no two
  to the same, and nothing else changed.\<close>

definition pages_backed ::
  "pt_format \<Rightarrow> nat \<Rightarrow> u64 \<Rightarrow> bool \<times> bool \<times> bool \<Rightarrow> u64 set \<Rightarrow> 'a vm_state_scheme \<Rightarrow> 'a vm_state_scheme \<Rightarrow> bool" where
  "pages_backed fmt n root perms S st st' \<longleftrightarrow>
     same_config st st' \<and> tables_ok fmt n root st' \<and> only_taken (vm_pmm st) (vm_pmm st') \<and>
     (\<forall>va. va \<notin> S \<longrightarrow> translate fmt st' n root va = translate fmt st n root va) \<and>
     (\<forall>va\<in>S. \<exists>p. translate fmt st' n root va = Some (p, perms) \<and>
        type_at (live (vm_pmm st)) (unat p) = Some PMM_MAP_TYPE_FREE \<and>
        type_at (live (vm_pmm st')) (unat p) = Some PMM_MAP_TYPE_USED) \<and>
     inj_on (translate fmt st' n root) S \<and>
     (\<forall>a. kept fmt n root st a \<longrightarrow> kept fmt n root st' a \<and> vm_mem st' a = vm_mem st a)"

lemma pages_backed_refl: "tables_ok fmt n root st \<Longrightarrow> pages_backed fmt n root perms {} st st"
  by (simp add: pages_backed_def same_config_def)

lemma pages_backed_Un:
  assumes b1: "pages_backed fmt n root perms S1 st st1" and b2: "pages_backed fmt n root perms S2 st1 st2"
    and disj: "S1 \<inter> S2 = {}"
  shows "pages_backed fmt n root perms (S1 \<union> S2) st st2"
proof -
  have taken: "only_taken (vm_pmm st) (vm_pmm st1)" "only_taken (vm_pmm st1) (vm_pmm st2)"
    using b1 b2 by (simp_all add: pages_backed_def)
  have old: "\<exists>p. translate fmt st2 n root va = Some (p, perms) \<and> translate fmt st1 n root va = Some (p, perms) \<and>
      type_at (live (vm_pmm st)) (unat p) = Some PMM_MAP_TYPE_FREE \<and>
      type_at (live (vm_pmm st1)) (unat p) = Some PMM_MAP_TYPE_USED \<and>
      type_at (live (vm_pmm st2)) (unat p) = Some PMM_MAP_TYPE_USED" if va: "va \<in> S1" for va
  proof -
    have "va \<notin> S2"
      using va disj by blast
    then have "translate fmt st2 n root va = translate fmt st1 n root va"
      using b2 by (simp add: pages_backed_def)
    moreover obtain p where "translate fmt st1 n root va = Some (p, perms)"
      "type_at (live (vm_pmm st)) (unat p) = Some PMM_MAP_TYPE_FREE"
      "type_at (live (vm_pmm st1)) (unat p) = Some PMM_MAP_TYPE_USED"
      using b1 va unfolding pages_backed_def by blast
    ultimately show ?thesis
      using only_taken_used [OF taken(2)] by auto
  qed
  have new: "\<exists>p. translate fmt st2 n root va = Some (p, perms) \<and>
      type_at (live (vm_pmm st)) (unat p) = Some PMM_MAP_TYPE_FREE \<and>
      type_at (live (vm_pmm st1)) (unat p) = Some PMM_MAP_TYPE_FREE \<and>
      type_at (live (vm_pmm st2)) (unat p) = Some PMM_MAP_TYPE_USED" if va: "va \<in> S2" for va
  proof -
    obtain p where "translate fmt st2 n root va = Some (p, perms)"
      "type_at (live (vm_pmm st1)) (unat p) = Some PMM_MAP_TYPE_FREE"
      "type_at (live (vm_pmm st2)) (unat p) = Some PMM_MAP_TYPE_USED"
      using b2 va unfolding pages_backed_def by blast
    then show ?thesis
      using only_taken_free [OF taken(1)] by blast
  qed
  have "inj_on (translate fmt st2 n root) S1"
  proof (rule inj_onI)
    fix x y assume xy: "x \<in> S1" "y \<in> S1" "translate fmt st2 n root x = translate fmt st2 n root y"
    then have "translate fmt st1 n root x = translate fmt st1 n root y"
      using old [OF xy(1)] old [OF xy(2)] by auto
    then show "x = y"
      using b1 xy(1,2) unfolding pages_backed_def by (blast dest: inj_onD)
  qed
  moreover have "inj_on (translate fmt st2 n root) S2"
    using b2 by (simp add: pages_backed_def)
  moreover have "translate fmt st2 n root x \<noteq> translate fmt st2 n root y" if "x \<in> S1" "y \<in> S2" for x y
    using old [OF that(1)] new [OF that(2)] by auto
  ultimately have inj: "inj_on (translate fmt st2 n root) (S1 \<union> S2)"
    by (auto simp: inj_on_Un)
  have "\<exists>p. translate fmt st2 n root va = Some (p, perms) \<and>
      type_at (live (vm_pmm st)) (unat p) = Some PMM_MAP_TYPE_FREE \<and>
      type_at (live (vm_pmm st2)) (unat p) = Some PMM_MAP_TYPE_USED" if "va \<in> S1 \<union> S2" for va
    using that old new by blast
  then show ?thesis
    using b1 b2 inj only_taken_trans [OF taken]
    unfolding pages_backed_def by (auto simp: same_config_def)
qed

context address_space
begin

lemma backed_page:
  assumes "cfg st" and "flags_ok PAGEDB_FLAGS" and ok: "tables_ok fmt n root st" and "4096 dvd unat v"
    and can: "region_canonical n v 4096" and unm: "unmapped fmt n root v 4096 st"
    and sp: "spare (r + path_need fmt n (view st) root v (Suc k)) (Suc (q + path_need fmt n (view st) root v (Suc k))) (vm_pmm st)"
  obtains p s st' where "pmm_alloc_ext 1 PTM_PAGE_GRANULARITY PMM_MAP_TYPE_USED (vm_pmm st) = ok (p, s)"
    and "map_region v p PTM_PAGE_GRANULARITY PAGEDB_FLAGS (st\<lparr>vm_pmm := s\<rparr>) = ok st'"
    and "pages_backed fmt n root (perms PAGEDB_FLAGS) {va. unat (va - v) < 4096} st st'"
    and "spare (r + path_need fmt n (view st') root (v + 4096) k) (q + path_need fmt n (view st') root (v + 4096) k) (vm_pmm st')"
    and "cfg st'"
proof -
  have wf: "wf_map (live (vm_pmm st))"
    using sp by (simp add: spare_def pmm_inv_def)
  obtain p s where p: "pmm_alloc_ext 1 PTM_PAGE_GRANULARITY PMM_MAP_TYPE_USED (vm_pmm st) = ok (p, s)"
    "4096 dvd unat p" "fits_at (vm_pmm st) (unat p) 4096" "took (vm_pmm st) (unat p) (4096 * 1) PMM_MAP_TYPE_USED s"
    "spare (r + path_need fmt n (view st) root v (Suc k)) (q + path_need fmt n (view st) root v (Suc k)) s"
    by (rule spare_used_page [OF sp]) simp_all
  have low: "unat p + 4096 \<le> 2 ^ 51"
    using spare_fits_low [OF sp p(3)] by simp
  have free: "type_at (live (vm_pmm st)) x = Some PMM_MAP_TYPE_FREE" if "unat p \<le> x" "x < unat p + 4096" for x
    using fits_at_free [OF wf p(3)] that by simp
  define st1 where "st1 = st\<lparr>vm_pmm := s\<rparr>"
  have type: "PMM_MAP_TYPE_USED \<noteq> PMM_MAP_TYPE_FREE"
    by simp
  note al = alloc_kept [OF ok p(4) type, folded st1_def]
  have un1: "translate fmt st1 n root v = None"
    using unm by (simp add: unmapped_def al(2))
  have sp1: "spare (r + path_need fmt n (view st1) root v (Suc k)) (q + path_need fmt n (view st1) root v (Suc k)) (vm_pmm st1)"
    using p(5) by (simp add: st1_def)
  obtain st' where st': "map_region v p PTM_PAGE_GRANULARITY PAGEDB_FLAGS st1 = ok st'"
    "region_mapped fmt n root (perms PAGEDB_FLAGS) v p 4096 st1 st'"
    "spare (r + path_need fmt n (view st') root (v + 4096) k) (q + path_need fmt n (view st') root (v + 4096) k) (vm_pmm st')"
    "cfg st'" "only_taken s (vm_pmm st')"
    by (rule map_spare_page [OF cfg [OF assms(1) al(4)] assms(2) al(1) assms(4) p(2) _ _ un1 sp1])
      (use can low in \<open>simp_all add: region_canonical_def st1_def\<close>)
  have conf: "same_config st1 st'" and others: "others_kept fmt n root st1 st'"
    and tr: "\<And>va. translate fmt st' n root va = (if unat (va - v) < 4096 then Some (p + (va - v), perms PAGEDB_FLAGS)
      else translate fmt st1 n root va)" and tables: "tables_ok fmt n root st'"
    using st'(2) by (simp_all add: region_mapped_def)
  have taken1: "only_taken (vm_pmm st) s"
    by (rule took_only_taken [OF p(4)]) (use free in simp_all)
  note taken2 = st'(5)
  have here: "unat (p + (va - v)) = unat p + unat (va - v)" if "unat (va - v) < 4096" for va
    using that low by (intro unat_add_nowrap) simp
  have used: "type_at (live s) x = Some PMM_MAP_TYPE_USED" if "unat p \<le> x" "x < unat p + 4096" for x
    using p(4) that by (simp add: took_def)
  have "inj_on (translate fmt st' n root) {va. unat (va - v) < 4096}"
    by (auto simp: inj_on_def tr)
  moreover have "\<exists>q. translate fmt st' n root va = Some (q, perms PAGEDB_FLAGS) \<and>
      type_at (live (vm_pmm st)) (unat q) = Some PMM_MAP_TYPE_FREE \<and>
      type_at (live (vm_pmm st')) (unat q) = Some PMM_MAP_TYPE_USED" if "unat (va - v) < 4096" for va
    using that free used only_taken_used [OF taken2 used] by (simp add: tr here)
  moreover have "same_config st st'"
    using al(4) conf by (simp add: same_config_def)
  moreover have "kept fmt n root st' a \<and> vm_mem st' a = vm_mem st a" if "kept fmt n root st a" for a
    using others_kept_kept [OF others conf al(3) [OF that]] by (simp add: st1_def)
  ultimately have "pages_backed fmt n root (perms PAGEDB_FLAGS) {va. unat (va - v) < 4096} st st'"
    using tables only_taken_trans [OF taken1 taken2] by (simp add: pages_backed_def tr al(2))
  then show thesis
    using p(1) st'(1,3,4) that by (simp add: st1_def)
qed

text \<open>\<open>k\<close> pages, with \<open>g\<close> more to come.\<close>

lemma backed_loop:
  assumes "cfg st" and "flags_ok PAGEDB_FLAGS" and "tables_ok fmt n root st" and "4096 dvd unat v"
    and "unat stop = unat v + 4096 * k" and "region_canonical n v (4096 * k)"
    and "unmapped fmt n root v (4096 * k) st"
    and "spare (r + path_need fmt n (view st) root v (k + g)) (q + k + path_need fmt n (view st) root v (k + g)) (vm_pmm st)"
  shows "\<exists>st'. pagedb_map_loop map_region v stop st = ok st' \<and>
    pages_backed fmt n root (perms PAGEDB_FLAGS) {va. unat (va - v) < 4096 * k} st st' \<and>
    spare (r + path_need fmt n (view st') root (v + of_nat (4096 * k)) g)
      (q + path_need fmt n (view st') root (v + of_nat (4096 * k)) g) (vm_pmm st') \<and> cfg st'"
  using assms(1,3-8)
proof (induction k arbitrary: v st)
  case 0
  then show ?case
    by (subst pagedb_map_loop.simps) (simp add: word_less_nat_alt pages_backed_refl)
next
  case (Suc k)
  let ?N = "4096 * Suc k" and ?S = "\<lambda>v k. {va. unat (va - v) < 4096 * k}"
  have lt: "v < stop" and N: "?N < 2 ^ 64"
    using Suc.prems(4) unat_less_64 [of stop] by (simp_all add: word_less_nat_alt)
  have nat: "unat (v + 4096) = unat v + 4096"
    using Suc.prems(4) unat_less_64 [of stop] by (subst unat_add_nowrap) simp_all
  have sz: "(4096 :: nat) \<le> ?N" "(4096 :: nat) < 2 ^ 64" "?N - 4096 = 4096 * k"
    by simp_all
  have can: "region_canonical n v 4096" "region_canonical n (v + of_nat 4096) (4096 * k)"
    using Suc.prems(5) region_canonical_sub [OF Suc.prems(5) sz(1) N] by (auto simp: region_canonical_def)
  have unm: "unmapped fmt n root v 4096 st"
    using Suc.prems(6) by (simp add: unmapped_def)
  obtain p s st1 where st1: "pmm_alloc_ext 1 PTM_PAGE_GRANULARITY PMM_MAP_TYPE_USED (vm_pmm st) = ok (p, s)"
    "map_region v p PTM_PAGE_GRANULARITY PAGEDB_FLAGS (st\<lparr>vm_pmm := s\<rparr>) = ok st1"
    "pages_backed fmt n root (perms PAGEDB_FLAGS) {va. unat (va - v) < 4096} st st1"
    "spare (r + path_need fmt n (view st1) root (v + 4096) (k + g)) (q + k + path_need fmt n (view st1) root (v + 4096) (k + g))
      (vm_pmm st1)" "cfg st1"
    by (rule backed_page [OF Suc.prems(1) assms(2) Suc.prems(2,3) can(1) unm, of r "k + g" "q + k"])
      (use Suc.prems(7) in simp_all)
  have split: "unat (va - v) < ?N \<longleftrightarrow> unat (va - v) < 4096 \<or> unat (va - (v + 4096)) < 4096 * k"
    and apart: "unat (va - v) < 4096 \<Longrightarrow> \<not> unat (va - (v + 4096)) < 4096 * k" for va
    using region_split [OF sz(1) N sz(2), of va v] region_split_disjoint [OF sz(1) N, of va v] by simp_all
  have "unmapped fmt n root (v + 4096) (4096 * k) st1"
    using Suc.prems(6) st1(3) split apart unfolding unmapped_def pages_backed_def by (auto, metis)
  then obtain st' where st': "pagedb_map_loop map_region (v + 4096) stop st1 = ok st'"
    "pages_backed fmt n root (perms PAGEDB_FLAGS) (?S (v + 4096) k) st1 st'"
    "spare (r + path_need fmt n (view st') root (v + 4096 + of_nat (4096 * k)) g)
      (q + path_need fmt n (view st') root (v + 4096 + of_nat (4096 * k)) g) (vm_pmm st')" "cfg st'"
    using Suc.IH [OF st1(5), of "v + 4096"] Suc.prems(3,4) st1(3,4) can(2) nat by (auto simp: pages_backed_def)
  have "?S v (Suc k) = {va. unat (va - v) < 4096} \<union> ?S (v + 4096) k"
    using split by auto
  then have "pages_backed fmt n root (perms PAGEDB_FLAGS) (?S v (Suc k)) st st'"
    using pages_backed_Un [OF st1(3) st'(2)] apart by auto
  then show ?case
    using st' st1 lt by (subst pagedb_map_loop.simps) (simp add: page_size_defs add.assoc)
qed

end

end
