(* ===== verification/PagedbProps.thy ===== *)
theory PagedbProps
  imports Pagedb PmmLimits InitMapProps
begin

text \<open>
  What \<open>pagedb_setup\<close> does: every page of known memory has its record backed by memory that nothing
  else uses, and no other translation changes.
\<close>

section \<open>The records of an entry\<close>

text \<open>The pages of the database that hold the records of an entry's page frames, from the first up to
  but not including the last.\<close>

definition db_first :: "u64 \<Rightarrow> pmm_map_entry \<Rightarrow> nat" where
  "db_first entry_size e = lo e div 4096 * unat entry_size div 4096"

definition db_past :: "u64 \<Rightarrow> pmm_map_entry \<Rightarrow> nat" where
  "db_past entry_size e = (hi e div 4096 * unat entry_size + 4095) div 4096"

text \<open>Its size in pages when the direct map has \<open>H\<close> bytes.\<close>

definition db_pages :: "u64 \<Rightarrow> nat \<Rightarrow> nat" where
  "db_pages entry_size H = (H div 4096 * unat entry_size + 4095) div 4096"

lemma db_past_mono: "hi e \<le> H \<Longrightarrow> db_past sz e \<le> db_pages sz H"
  unfolding db_past_def db_pages_def by (intro div_le_mono add_mono mult_le_mono1) simp_all

lemma db_first_mono: "lo e \<le> lo e' \<Longrightarrow> db_first sz e \<le> db_first sz e'"
  unfolding db_first_def by (intro div_le_mono mult_le_mono1)

lemma db_range:
  assumes bound: "H div 4096 * unat sz + 4096 \<le> 2 ^ 64" and e: "hi e \<le> H" and H: "H < 2 ^ 64"
  shows "unat (MATH_FLOOR (me_base e div PTM_PAGE_GRANULARITY * sz) PTM_PAGE_GRANULARITY) = 4096 * db_first sz e"
    and "unat (MATH_CEIL ((me_base e + me_length e) div PTM_PAGE_GRANULARITY * sz) PTM_PAGE_GRANULARITY) =
      4096 * db_past sz e"
proof -
  have g: "unat PTM_PAGE_GRANULARITY = 4096"
    by (simp add: page_size_defs)
  have le: "lo e div 4096 * unat sz \<le> H div 4096 * unat sz" "hi e div 4096 * unat sz \<le> H div 4096 * unat sz"
    using e by (auto intro!: mult_le_mono1 div_le_mono simp: lo_def hi_def)
  have last: "unat (me_base e + me_length e) = hi e"
    using e H by (simp add: hi_def unat_add_nowrap)
  have first: "unat (me_base e div PTM_PAGE_GRANULARITY * sz) = lo e div 4096 * unat sz"
    using le_less_trans [OF le(1), of "2 ^ 64"] bound by (subst unat_mult_nowrap) (simp_all add: unat_div g lo_def)
  have past: "unat ((me_base e + me_length e) div PTM_PAGE_GRANULARITY * sz) = hi e div 4096 * unat sz"
    using le_less_trans [OF le(2), of "2 ^ 64"] bound by (subst unat_mult_nowrap) (simp_all add: unat_div g last)
  show "unat (MATH_FLOOR (me_base e div PTM_PAGE_GRANULARITY * sz) PTM_PAGE_GRANULARITY) = 4096 * db_first sz e"
    using first by (simp add: unat_MATH_FLOOR db_first_def g mult.commute)
  show "unat (MATH_CEIL ((me_base e + me_length e) div PTM_PAGE_GRANULARITY * sz) PTM_PAGE_GRANULARITY) =
      4096 * db_past sz e"
    using past order_trans [OF le(2), of "2 ^ 64 - 4096"] bound
    by (subst unat_MATH_CEIL) (simp_all add: db_past_def g mult.commute)
qed

section \<open>The loop over the map\<close>

text \<open>The address of page \<open>k\<close> of the database.\<close>

definition db_page :: "u64 \<Rightarrow> nat \<Rightarrow> u64" where
  "db_page base k = base + of_nat (4096 * k)"

lemma unat_db_page:
  assumes "unat base + 4096 * k < 2 ^ 64" shows "unat (db_page base k) = unat base + 4096 * k"
proof -
  have "unat (of_nat (4096 * k) :: u64) = 4096 * k"
    using assms by (intro unat_of_nat_64) linarith
  then show ?thesis
    using assms unfolding db_page_def by (subst unat_add_nowrap) simp_all
qed

lemma db_page_range:
  fixes va base :: u64
  assumes "s \<le> p" and "unat base + 4096 * p < 2 ^ 64"
  shows "unat (va - db_page base s) < 4096 * (p - s) \<longleftrightarrow>
    4096 * s \<le> unat (va - base) \<and> unat (va - base) < 4096 * p"
proof -
  have s: "unat (of_nat (4096 * s) :: u64) = 4096 * s"
    using assms by (intro unat_of_nat_64) linarith
  have "unat (of_nat (4096 * s) :: u64) + 4096 * (p - s) < 2 ^ 64"
    unfolding s using assms by linarith
  from unat_lt_region [OF this, of va base] show ?thesis
    using assms(1) by (simp only: s db_page_def) (auto simp: diff_mult_distrib2)
qed

text \<open>One round of the loop.\<close>

lemma pagedb_loop_step:
  assumes bound: "H div 4096 * unat sz + 4096 \<le> 2 ^ 64" and H: "hi e \<le> H" "H < 2 ^ 64"
    and B: "db_pages sz H \<le> B" "i \<le> B" "unat base + 4096 * B < 2 ^ 64"
  defines "s \<equiv> max i (db_first sz e)" and "p \<equiv> db_past sz e"
  shows "pagedb_loop map_region base sz (e # es) (db_page base i) st =
    (if pagedb_type (me_type e) \<and> s < p
     then res_bind (pagedb_map_loop map_region (db_page base s) (db_page base p) st)
            (\<lambda>st. pagedb_loop map_region base sz es (db_page base p) st)
     else pagedb_loop map_region base sz es (db_page base i) st)"
proof -
  let ?G = PTM_PAGE_GRANULARITY
  have page: "base + w = db_page base k" if "unat w = 4096 * k" for w k
    unfolding db_page_def by (metis that of_nat_unat ucast_id)
  note range = db_range [OF bound H]
  have start: "base + MATH_FLOOR (me_base e div ?G * sz) ?G = db_page base (db_first sz e)"
    and stop: "base + MATH_CEIL ((me_base e + me_length e) div ?G * sz) ?G = db_page base p"
    using page [OF range(1)] page [OF range(2)] by (simp_all add: p_def)
  have pB: "p \<le> B"
    using db_past_mono [OF H(1)] B(1) le_trans unfolding p_def by blast
  have "db_first sz e \<le> p"
    unfolding db_first_def db_past_def p_def
    by (intro div_le_mono) (simp add: lo_def hi_def div_le_mono trans_le_add1 mult_le_mono1)
  then have fB: "db_first sz e \<le> B"
    using pB by simp
  have cmp: "db_page base k < db_page base l \<longleftrightarrow> k < l" if "k \<le> B" "l \<le> B" for k l
    using that B(3) by (simp add: word_less_nat_alt unat_db_page)
  have clamp: "(if db_page base (db_first sz e) < db_page base i then db_page base i
      else db_page base (db_first sz e)) = db_page base s"
    using cmp [OF fB B(2)] by (simp add: s_def max_def)
  have "s \<le> B"
    using fB B(2) by (simp add: s_def)
  then show ?thesis
    using cmp [OF _ pB, of s] by (simp add: Let_def start stop clamp not_less [symmetric])
qed

definition pagedb_covers :: "u64 \<Rightarrow> u64 \<Rightarrow> pmm_map_entry list \<Rightarrow> nat \<Rightarrow> u64 set \<Rightarrow> bool" where
  "pagedb_covers base sz es i S \<longleftrightarrow> (\<forall>e\<in>set es. pagedb_type (me_type e) \<longrightarrow>
     (\<forall>va. 4096 * i \<le> unat (va - base) \<longrightarrow> 4096 * db_first sz e \<le> unat (va - base) \<longrightarrow>
        unat (va - base) < 4096 * db_past sz e \<longrightarrow> va \<in> S))"

context address_space
begin

text \<open>What the tables need for the pages of the database from \<open>i\<close> on.\<close>

definition db_need :: "u64 \<Rightarrow> nat \<Rightarrow> nat \<Rightarrow> 'a vm_state_scheme \<Rightarrow> nat" where
  "db_need base B i st = path_need fmt n (view st) root (db_page base i) (B - i)"

lemma db_need_skip:
  assumes "i \<le> s" and "s \<le> B" and "4096 dvd unat base" and "unat base + 4096 * B < 2 ^ 64"
  shows "db_need base B s st \<le> db_need base B i st"
  using assms(1,2)
proof (induction "s - i" arbitrary: i)
  case (Suc d)
  have i: "B - i = Suc (B - Suc i)" "db_page base (Suc i) = db_page base i + 4096"
    using Suc.hyps(2) Suc.prems by (simp_all add: db_page_def)
  have "4096 dvd unat (db_page base i)"
    using Suc.hyps(2) Suc.prems assms(3,4) by (subst unat_db_page) simp_all
  then have "db_need base B (Suc i) st \<le> db_need base B i st"
    using path_need_skip [OF levels] by (simp add: db_need_def i)
  moreover have "db_need base B s st \<le> db_need base B (Suc i) st"
    using Suc.hyps(2) Suc.prems(2) by (intro Suc.hyps(1)) simp_all
  ultimately show ?case
    by simp
qed simp

text \<open>Below \<open>i\<close> pages the database is done; \<open>B\<close> is its size.\<close>

lemma pagedb_loop_backed:
  fixes base entry_size :: u64
  assumes "flags_ok PAGEDB_FLAGS" and "4096 dvd unat base" and "unat base + 4096 * B < 2 ^ 64"
    and "region_canonical n base (4096 * B)" and "H div 4096 * unat entry_size + 4096 \<le> 2 ^ 64"
    and "H < 2 ^ 64" and "db_pages entry_size H \<le> B"
    and "cfg st" and "tables_ok fmt n root st" and "i \<le> B" and "\<forall>e\<in>set es. hi e \<le> H"
    and "\<forall>va. 4096 * i \<le> unat (va - base) \<longrightarrow> unat (va - base) < 4096 * B \<longrightarrow> translate fmt st n root va = None"
    and "spare (r + db_need base B i st) (q + (B - i) + db_need base B i st) (vm_pmm st)"
  shows "\<exists>j S st'. pagedb_loop map_region base entry_size es (db_page base i) st = ok (db_page base j, st') \<and>
    i \<le> j \<and> j \<le> B \<and> pages_backed fmt n root (perms PAGEDB_FLAGS) S st st' \<and>
    (\<forall>va\<in>S. 4096 * i \<le> unat (va - base) \<and> unat (va - base) < 4096 * j) \<and>
    spare (r + db_need base B j st') (q + (B - j) + db_need base B j st') (vm_pmm st') \<and> cfg st' \<and>
    (sorted_wrt (\<lambda>a b. lo a \<le> lo b) es \<longrightarrow> pagedb_covers base entry_size es i S)"
  using assms(8-13)
proof (induction es arbitrary: i st)
  case Nil
  then show ?case
    using pages_backed_refl by (intro exI [of _ i] exI [of _ "{}"] exI [of _ st]) (simp add: pagedb_covers_def)
next
  case (Cons e es)
  let ?f = "db_first entry_size e" and ?p = "db_past entry_size e" and ?sorted = "sorted_wrt (\<lambda>a b. lo a \<le> lo b)"
  have H: "hi e \<le> H" "\<forall>e\<in>set es. hi e \<le> H"
    using Cons.prems(4) by simp_all
  have pB: "?p \<le> B"
    using db_past_mono [OF H(1)] assms(7) le_trans by blast
  note step = pagedb_loop_step [OF assms(5) H(1) assms(6,7) Cons.prems(3) assms(3), of map_region es st]
  show ?case
  proof (cases "pagedb_type (me_type e) \<and> max i ?f < ?p")
    case False
    obtain j S st' where r: "pagedb_loop map_region base entry_size es (db_page base i) st = ok (db_page base j, st')"
      "i \<le> j" "j \<le> B" "pages_backed fmt n root (perms PAGEDB_FLAGS) S st st'"
      "\<forall>va\<in>S. 4096 * i \<le> unat (va - base) \<and> unat (va - base) < 4096 * j"
      "spare (r + db_need base B j st') (q + (B - j) + db_need base B j st') (vm_pmm st')" "cfg st'"
      "?sorted es \<longrightarrow> pagedb_covers base entry_size es i S"
      using Cons.IH [OF Cons.prems(1-3) H(2) Cons.prems(5,6)] by blast
    have "?sorted (e # es) \<longrightarrow> pagedb_covers base entry_size (e # es) i S"
      using r(8) False by (auto simp: pagedb_covers_def)
    with r(2-7) show ?thesis
      unfolding step [unfolded if_not_P [OF False]]
      by (intro exI [of _ j] exI [of _ S] exI [of _ st'] conjI r(1))
  next
    case True
    define s where "s = max i ?f"
    have s: "i \<le> s" "?f \<le> s" "s < ?p" "s \<le> ?p"
      using True by (simp_all add: s_def)
    have fit: "unat base + 4096 * ?p < 2 ^ 64"
      using pB assms(3) by simp
    note range = db_page_range [OF s(4) fit]
    let ?S1 = "{va. unat (va - db_page base s) < 4096 * (?p - s)}"
    obtain st1 where st1: "pagedb_map_loop map_region (db_page base s) (db_page base ?p) st = ok st1"
      "pages_backed fmt n root (perms PAGEDB_FLAGS) ?S1 st st1"
      "spare (r + db_need base B ?p st1) (q + (B - ?p) + db_need base B ?p st1) (vm_pmm st1)" "cfg st1"
    proof -
      have dvd: "4096 dvd unat (db_page base s)"
        using s(4) fit assms(2) by (simp add: unat_db_page)
      have stop: "unat (db_page base ?p) = unat (db_page base s) + 4096 * (?p - s)"
        using s(4) fit by (simp add: unat_db_page diff_mult_distrib2)
      have can: "region_canonical n (db_page base s) (4096 * (?p - s))"
        using assms(4) pB by (auto simp: region_canonical_def range)
      have unm: "unmapped fmt n root (db_page base s) (4096 * (?p - s)) st"
        using Cons.prems(5) s(1) pB by (auto simp: unmapped_def range)
      have "db_need base B s st \<le> db_need base B i st"
        using s(1,3) pB by (intro db_need_skip assms(2,3)) simp_all
      then have "spare (r + db_need base B s st) (q + (B - ?p) + (?p - s) + db_need base B s st) (vm_pmm st)"
        using s(1,3) pB by (intro spare_mono [OF Cons.prems(6)]) simp_all
      moreover have "B - s = (?p - s) + (B - ?p)" "db_page base ?p = db_page base s + of_nat (4096 * (?p - s))"
        using s(4) pB by (simp_all add: db_page_def add.assoc diff_mult_distrib2 flip: of_nat_add)
      ultimately show thesis
        using backed_loop [OF Cons.prems(1) assms(1) Cons.prems(2) dvd stop can unm, of r "B - ?p" "q + (B - ?p)"] that
        by (auto simp: db_need_def)
    qed
    have ok1: "tables_ok fmt n root st1"
      using st1(2) by (simp add: pages_backed_def)
    have un1: "\<forall>va. 4096 * ?p \<le> unat (va - base) \<longrightarrow> unat (va - base) < 4096 * B \<longrightarrow> translate fmt st1 n root va = None"
      using st1(2) Cons.prems(5) s unfolding pages_backed_def by (auto simp: range)
    obtain j S st' where r: "pagedb_loop map_region base entry_size es (db_page base ?p) st1 = ok (db_page base j, st')"
      "?p \<le> j" "j \<le> B" "pages_backed fmt n root (perms PAGEDB_FLAGS) S st1 st'"
      "\<forall>va\<in>S. 4096 * ?p \<le> unat (va - base) \<and> unat (va - base) < 4096 * j"
      "spare (r + db_need base B j st') (q + (B - j) + db_need base B j st') (vm_pmm st')" "cfg st'"
      "?sorted es \<longrightarrow> pagedb_covers base entry_size es ?p S"
      using Cons.IH [OF st1(4) ok1 pB H(2) un1 st1(3)] by blast
    have "?S1 \<inter> S = {}"
      using r(5) by (auto simp: range)
    note backed = pages_backed_Un [OF st1(2) r(4) this]
    have "pagedb_covers base entry_size (e # es) i (?S1 \<union> S)" if sorted: "?sorted (e # es)"
      unfolding pagedb_covers_def
    proof (intro ballI impI allI)
      fix e' va assume e': "e' \<in> set (e # es)" "pagedb_type (me_type e')" and va: "4096 * i \<le> unat (va - base)"
        "4096 * db_first entry_size e' \<le> unat (va - base)" "unat (va - base) < 4096 * db_past entry_size e'"
      have "lo e \<le> lo e'"
        using e'(1) sorted by auto
      then have "?f \<le> db_first entry_size e'"
        by (rule db_first_mono)
      then have "4096 * s \<le> unat (va - base)"
        using va(1,2) by (simp add: s_def)
      moreover have "va \<in> S" if "4096 * ?p \<le> unat (va - base)"
        using that e' va r(8) sorted by (auto simp: pagedb_covers_def)
      ultimately show "va \<in> ?S1 \<union> S"
        by (cases "unat (va - base) < 4096 * ?p") (auto simp: range)
    qed
    moreover have "\<forall>va\<in>?S1 \<union> S. 4096 * i \<le> unat (va - base) \<and> unat (va - base) < 4096 * j"
      using r(2,5) s by (auto simp: range)
    moreover have "res_bind (pagedb_map_loop map_region (db_page base s) (db_page base ?p) st)
        (\<lambda>st. pagedb_loop map_region base entry_size es (db_page base ?p) st) = ok (db_page base j, st')"
      by (simp only: st1(1) res_bind_simps r(1))
    moreover have "i \<le> j"
      using r(2) s by simp
    ultimately show ?thesis
      using r(3,6,7) backed unfolding step [unfolded if_P [OF True], folded s_def]
      by (intro exI [of _ j] exI [of _ "?S1 \<union> S"] exI [of _ st'] conjI impI)
  qed
qed

end

section \<open>The snapshot around the loop\<close>

lemma pagedb_loop_append:
  "pagedb_loop f base sz (xs @ ys) m st =
     res_bind (pagedb_loop f base sz xs m st) (\<lambda>(m, st). pagedb_loop f base sz ys m st)"
proof (induction xs arbitrary: m st)
  case (Cons x xs)
  have "pagedb_loop f base sz (xs @ ys) m =
      (\<lambda>st. res_bind (pagedb_loop f base sz xs m st) (\<lambda>(m, st). pagedb_loop f base sz ys m st))" for m
    by (rule ext) (rule Cons.IH)
  then show ?case
    by (simp add: Let_def res_bind_assoc cong del: res_bind_weak_cong)
qed simp

lemma wf_map_sorted: "wf_map es \<Longrightarrow> sorted_wrt (\<lambda>a b. lo a \<le> lo b) es"
  unfolding wf_map_def by (auto elim!: sorted_wrt_mono_rel [rotated] simp: lo_def hi_def)

text \<open>A snapshot takes its block and nothing else; its first entries are the live ones.\<close>

lemma snapshot_spare:
  assumes sp: "spare (Suc r) p s" and snap: "pmm_create_snapshot s = ok (snap, s1)" and p: "7 \<le> p"
  obtains k where "unat (snap_bytes snap div PTM_PAGE_GRANULARITY) = k" and "k \<le> 7" and "0 < k"
    and "4096 dvd unat (snap_phys snap)" and "fits_at s (unat (snap_phys snap)) (4096 * k)"
    and "took s (unat (snap_phys snap)) (4096 * k) PMM_MAP_TYPE_ALLOCATED s1" and "spare r (p - k) s1"
    and "\<exists>rest. snap_entries snap = live s1 @ rest"
    and "pages_ok (snap_bytes snap div PTM_PAGE_GRANULARITY)"
proof -
  have arr: "arr_ok s"
    using sp by (simp add: spare_def pmm_inv_def)
  let ?pc = "snapshot_bytes s div PTM_PAGE_GRANULARITY"
  note pages = snapshot_pages [OF arr]
  have "g_pmm_map_size s \<le> 1024"
    using arr by (simp add: arr_ok_def PMM_MAP_MAX_ENTRIES_def)
  then have k: "unat ?pc \<le> 7" "0 < unat ?pc"
    using pages(3) by (auto simp: unat_div_distrib pages(1) unat_page_granularity pages_ok_def unat_gt_0)
  obtain a s' where a: "pmm_alloc_ext ?pc PTM_PAGE_GRANULARITY PMM_MAP_TYPE_ALLOCATED s = ok (a, s')" "4096 dvd unat a"
    "fits_at s (unat a) (4096 * unat ?pc)" "took s (unat a) (4096 * unat ?pc) PMM_MAP_TYPE_ALLOCATED s'"
    "spare r (p - unat ?pc) s'"
    using spare_alloc_ext [OF sp k(2) order_trans [OF k(1) p]] by blast
  have s1: "s' = s1" "snap_phys snap = a" "snap_bytes snap = snapshot_bytes s"
    "snap_entries snap = take (g_pmm_map_size s + 2) (g_pmm_map s1)"
    using snap a(1) by (auto simp: pmm_create_snapshot_alt pmm_alloc_def split: if_splits)
  have "g_pmm_map_size s1 \<le> g_pmm_map_size s + 2"
    using a(4) s1(1) by (simp add: took_def)
  then have "snap_entries snap = live s1 @ take (g_pmm_map_size s + 2 - g_pmm_map_size s1) (drop (g_pmm_map_size s1) (g_pmm_map s1))"
    unfolding s1(4) live_def by (metis le_add_diff_inverse take_add)
  then show thesis
    using that [of "unat ?pc"] k a(2-5) s1(1-3) pages(3) by simp
qed

text \<open>Giving back pages that hold no table.\<close>

lemma free_tables:
  assumes ok: "tables_ok fmt n root st" and low: "unat p + 4096 * k \<le> 2 ^ 51"
    and kept: "\<And>a. unat p \<le> unat (a - hhdm_offset st) \<Longrightarrow> unat (a - hhdm_offset st) < unat p + 4096 * k \<Longrightarrow>
      kept fmt n root st a"
    and type: "\<And>x. type_at (live s) x =
      (if unat p \<le> x \<and> x < unat p + 4096 * k then Some PMM_MAP_TYPE_FREE else type_at (live (vm_pmm st)) x)"
  shows "tables_ok fmt n root (st\<lparr>vm_pmm := s\<rparr>)"
proof -
  have h: "page_aligned (hhdm_offset st)"
    and used: "\<And>f. f \<in> tframes fmt (view st) n root \<Longrightarrow> frame_ok f \<and> \<not> frame_free (vm_pmm st) f"
    using ok by (auto simp: tables_ok_def)
  have "\<not> frame_free s f" if f: "f \<in> tframes fmt (view st) n root" for f
  proof
    assume free: "frame_free s f"
    have "page_of (hhdm_offset st) (f + hhdm_offset st + of_nat 0) = f"
      using h used [OF f] by (intro page_of_unique) (simp_all add: frame_ok_def)
    then have "\<not> kept fmt n root st (f + hhdm_offset st)"
      using f by (simp add: kept_def)
    then have "\<not> (unat p \<le> unat f \<and> unat f < unat p + 4096 * k)"
      using kept [of "f + hhdm_offset st"] by auto
    then show False
      using free used [OF f] by (simp add: frame_free_def type split: if_splits)
  qed
  then show ?thesis
    using ok used by (simp add: tables_ok_def)
qed

section \<open>The page database\<close>

text \<open>The bytes of the record of page frame \<open>f\<close>.\<close>

definition record_bytes :: "u64 \<Rightarrow> u64 \<Rightarrow> nat \<Rightarrow> u64 set" where
  "record_bytes base sz f =
     {va. f * unat sz \<le> unat (va - base) \<and> unat (va - base) < (f + 1) * unat sz}"

text \<open>What \<open>pagedb_setup\<close> leaves: \<open>S\<close> is the set of addresses it backed.\<close>

definition pagedb_ready ::
  "pt_format \<Rightarrow> nat \<Rightarrow> u64 \<Rightarrow> bool \<times> bool \<times> bool \<Rightarrow> u64 \<Rightarrow> nat \<Rightarrow> u64 \<Rightarrow> u64 set \<Rightarrow>
    'a vm_state_scheme \<Rightarrow> 'a vm_state_scheme \<Rightarrow> bool" where
  "pagedb_ready fmt n root perms base H sz S st st' \<longleftrightarrow>
     tables_ok fmt n root st' \<and>
     S \<subseteq> {va. unat (va - base) < 4096 * db_pages sz H} \<and>
     (\<forall>va. va \<notin> S \<longrightarrow> translate fmt st' n root va = translate fmt st n root va) \<and>
     (\<forall>va\<in>S. \<exists>p. translate fmt st' n root va = Some (p, perms) \<and>
        type_at (live (vm_pmm st)) (unat p) = Some PMM_MAP_TYPE_FREE \<and>
        type_at (live (vm_pmm st')) (unat p) = Some PMM_MAP_TYPE_USED) \<and>
     inj_on (translate fmt st' n root) S \<and>
     (\<forall>f. held (live (vm_pmm st)) (4096 * f) (4096 * (f + 1)) \<longrightarrow>
        type_at (live (vm_pmm st)) (4096 * f) \<noteq> Some PMM_MAP_TYPE_BAD \<longrightarrow> record_bytes base sz f \<subseteq> S)"

lemma record_in_range:
  assumes "lo e div 4096 \<le> f" and "f < hi e div 4096" and "va \<in> record_bytes base sz f"
  shows "4096 * db_first sz e \<le> unat (va - base)" and "unat (va - base) < 4096 * db_past sz e"
proof -
  have "lo e div 4096 * unat sz \<le> f * unat sz" "(f + 1) * unat sz \<le> hi e div 4096 * unat sz"
    using assms(1,2) by (intro mult_le_mono1; simp)+
  moreover have "4096 * db_first sz e \<le> lo e div 4096 * unat sz"
    by (simp add: db_first_def)
  moreover have "hi e div 4096 * unat sz \<le> 4096 * db_past sz e"
    using ceil_div_ge [of 4096 "hi e div 4096 * unat sz"] by (simp add: db_past_def mult.commute)
  ultimately show "4096 * db_first sz e \<le> unat (va - base)" "unat (va - base) < 4096 * db_past sz e"
    using assms(3) unfolding record_bytes_def mem_Collect_eq by linarith+
qed

lemma took_frame_known:
  assumes took: "took s a (4096 * k) PMM_MAP_TYPE_ALLOCATED s1" and al: "4096 dvd a" and k: "0 < k"
    and held: "held (live s) (4096 * f) (4096 * (f + 1))" and type: "type_at (live s) (4096 * f) \<noteq> Some PMM_MAP_TYPE_BAD"
  shows "\<exists>e\<in>set (live s1). lo e div 4096 \<le> f \<and> f < hi e div 4096 \<and> me_type e \<noteq> PMM_MAP_TYPE_BAD"
proof -
  obtain b where b: "a = 4096 * b"
    using al by (auto simp: dvd_def)
  have "held (live s1) (4096 * f) (4096 * (f + 1))"
  proof (cases "b \<le> f \<and> f < b + k")
    case True
    have "held (live s1) a (a + 4096 * k)"
      using took by (simp add: took_def)
    then show ?thesis
      by (rule held_mono) (use True b in simp_all)
  next
    case False
    then have "4096 * (f + 1) \<le> a \<or> a + 4096 * k \<le> 4096 * f"
      by (auto simp: b)
    then show ?thesis
      using took held unfolding took_def keeps_held_def by (meson add_less_cancel_left less_add_one mult_less_mono2 zero_less_numeral)
  qed
  then obtain e where e: "e \<in> set (live s1)" "lo e \<le> 4096 * f" "4096 * (f + 1) \<le> hi e"
    by (auto simp: held_def)
  have wf: "wf_map (live s1)"
    using took by (simp add: took_def pmm_inv_def)
  have "type_at (live s1) (4096 * f) = Some (me_type e)"
    using e by (intro type_at_mem [OF wf]) (simp_all add: contains_def)
  then have "me_type e \<noteq> PMM_MAP_TYPE_BAD"
    using took type by (auto simp: took_def split: if_splits)
  moreover have "lo e div 4096 \<le> f"
    using div_le_mono [OF e(2), of 4096] by simp
  moreover have "f < hi e div 4096"
    using div_le_mono [OF e(3), of 4096] by simp
  ultimately show ?thesis
    using e(1) by blast
qed

lemma pagedb_sizes:
  assumes "4096 dvd unat hhdm_size" and "unat hhdm_size div 4096 * unat sz + 4096 \<le> 2 ^ 64"
    and "unat hhdm_size + 4096 \<le> 2 ^ 64"
  shows "unat (MATH_ALIGN_UP (MATH_ALIGN_UP hhdm_size PTM_PAGE_GRANULARITY div PTM_PAGE_GRANULARITY * sz) PTM_PAGE_GRANULARITY) =
    4096 * db_pages sz (unat hhdm_size)"
proof -
  obtain q where q: "unat hhdm_size = 4096 * q"
    using assms(1) by (auto simp: dvd_def)
  have count: "unat (MATH_ALIGN_UP hhdm_size PTM_PAGE_GRANULARITY div PTM_PAGE_GRANULARITY) = q"
    using assms(3) by (simp add: unat_div unat_ALIGN_UP_page unat_page_granularity q)
  then have "unat (MATH_ALIGN_UP hhdm_size PTM_PAGE_GRANULARITY div PTM_PAGE_GRANULARITY * sz) = q * unat sz"
    using assms(2) by (subst unat_mult_nowrap) (simp_all add: q)
  then show ?thesis
    using assms(2) by (subst unat_ALIGN_UP_page) (simp_all add: q db_pages_def)
qed

context address_space
begin

lemma backed_rest:
  assumes "pages_backed fmt n root perms' S st st'"
    and "\<forall>va\<in>S. unat (va - base) < 4096 * j"
    and "\<And>va. unat (va - base) < 4096 * B \<Longrightarrow> translate fmt st n root va = None"
  shows "\<forall>va. 4096 * j \<le> unat (va - base) \<longrightarrow> unat (va - base) < 4096 * B \<longrightarrow> translate fmt st' n root va = None"
proof (intro allI impI)
  fix va assume va: "4096 * j \<le> unat (va - base)" "unat (va - base) < 4096 * B"
  then have "va \<notin> S"
    using assms(2) by (meson not_less)
  then show "translate fmt st' n root va = None"
    using assms(1,3) va(2) by (simp add: pages_backed_def)
qed

text \<open>The whole loop over a snapshot: its live entries and the dead slots copied after them.\<close>

lemma pagedb_loop_snapshot:
  fixes base entry_size :: u64
  assumes "flags_ok PAGEDB_FLAGS" and "4096 dvd unat base" and "unat base + 4096 * B < 2 ^ 64"
    and "region_canonical n base (4096 * B)" and "H div 4096 * unat entry_size + 4096 \<le> 2 ^ 64"
    and "H < 2 ^ 64" and "db_pages entry_size H \<le> B" and "cfg st" and "tables_ok fmt n root st"
    and hi: "\<forall>e\<in>set (es @ rest). hi e \<le> H" and wf: "wf_map es"
    and unm: "\<And>va. unat (va - base) < 4096 * B \<Longrightarrow> translate fmt st n root va = None"
    and sp: "spare (r + tables_for n (4096 * B)) (q + B + tables_for n (4096 * B)) (vm_pmm st)"
  shows "\<exists>S m st'. pagedb_loop map_region base entry_size (es @ rest) base st = ok (m, st') \<and>
    pages_backed fmt n root (perms PAGEDB_FLAGS) S st st' \<and> S \<subseteq> {va. unat (va - base) < 4096 * B} \<and>
    pagedb_covers base entry_size es 0 S \<and> spare r q (vm_pmm st') \<and> cfg st'"
proof -
  note loop = pagedb_loop_backed [OF assms(1-7)]
  have un0: "\<forall>va. 4096 * 0 \<le> unat (va - base) \<longrightarrow> unat (va - base) < 4096 * B \<longrightarrow> translate fmt st n root va = None"
    using unm by simp
  have need: "db_need base B 0 st \<le> tables_for n (4096 * B)"
    using path_need_le [OF levels(1) assms(2), of fmt "view st" root B] by (simp add: db_need_def db_page_def)
  have sp0: "spare (r + db_need base B 0 st) (q + (B - 0) + db_need base B 0 st) (vm_pmm st)"
    by (rule spare_mono [OF sp]) (use need in simp_all)
  have hi': "\<forall>e\<in>set es. hi e \<le> H" "\<forall>e\<in>set rest. hi e \<le> H"
    using hi by auto
  obtain j S1 st1 where st1: "pagedb_loop map_region base entry_size es (db_page base 0) st = ok (db_page base j, st1)"
    "j \<le> B" "pages_backed fmt n root (perms PAGEDB_FLAGS) S1 st st1" "\<forall>va\<in>S1. unat (va - base) < 4096 * j"
    "spare (r + db_need base B j st1) (q + (B - j) + db_need base B j st1) (vm_pmm st1)" "cfg st1"
    "pagedb_covers base entry_size es 0 S1"
    using loop [OF assms(8,9) _ hi'(1) un0 sp0] wf_map_sorted [OF wf] by blast
  have ok1: "tables_ok fmt n root st1"
    using st1(3) by (simp add: pages_backed_def)
  obtain i S2 st2 where st2: "pagedb_loop map_region base entry_size rest (db_page base j) st1 = ok (db_page base i, st2)"
    "i \<le> B" "pages_backed fmt n root (perms PAGEDB_FLAGS) S2 st1 st2"
    "\<forall>va\<in>S2. 4096 * j \<le> unat (va - base) \<and> unat (va - base) < 4096 * i"
    "spare (r + db_need base B i st2) (q + (B - i) + db_need base B i st2) (vm_pmm st2)" "cfg st2"
    using loop [OF st1(6) ok1 st1(2) hi'(2) backed_rest [OF st1(3,4) unm] st1(5)] by blast
  have "S1 \<inter> S2 = {}"
    using st1(4) st2(4) by (meson disjoint_iff not_less)
  note backed = pages_backed_Un [OF st1(3) st2(3) this]
  have "unat (va - base) < 4096 * B" if "va \<in> S1 \<union> S2" for va
  proof -
    have "unat (va - base) < 4096 * max j i"
      using that st1(4) st2(4) by (auto simp: max_def dest!: bspec intro: less_le_trans)
    then show ?thesis
      using st1(2) st2(2) by (auto simp: max_def split: if_splits)
  qed
  moreover have "pagedb_covers base entry_size es 0 (S1 \<union> S2)"
    using st1(7) unfolding pagedb_covers_def by blast
  moreover have "pagedb_loop map_region base entry_size (es @ rest) base st = ok (db_page base i, st2)"
    using st1(1) st2(1) by (simp add: pagedb_loop_append db_page_def)
  moreover have "spare r q (vm_pmm st2)"
    by (rule spare_mono [OF st2(5)]) simp_all
  ultimately show ?thesis
    using backed st2(6) by (intro exI [of _ "S1 \<union> S2"] exI [of _ "db_page base i"] exI [of _ st2]) blast
qed

lemma pagedb_setup_ok:
  fixes hhdm_size kernel_base sz :: u64 and st :: "'a vm_state_scheme"
  defines "base \<equiv> hhdm_offset st + hhdm_size + PTM_PAGE_GRANULARITY" and "B \<equiv> db_pages sz (unat hhdm_size)"
  assumes conf: "cfg st" and flags: "flags_ok PAGEDB_FLAGS" and ok: "tables_ok fmt n root st"
    and H: "4096 dvd unat hhdm_size" "unat hhdm_size + 4096 \<le> 2 ^ 64"
      "unat hhdm_size div 4096 * unat sz + 4096 \<le> 2 ^ 64"
    and fit: "unat base + 4096 * B \<le> unat kernel_base"
    and can: "region_canonical n base (4096 * B)" and unm: "unmapped fmt n root base (4096 * B) st"
    and snap: "pmm_create_snapshot (vm_pmm st) = ok (snap, s1)" "\<forall>e\<in>set (snap_entries snap). hi e \<le> unat hhdm_size"
    and sp: "spare (Suc (Suc r + tables_for n (4096 * B))) (7 + q + (B + tables_for n (4096 * B))) (vm_pmm st)"
  shows "\<exists>S st'. pagedb_setup map_region hhdm_size kernel_base sz st = ok (base, of_nat (4096 * B), st') \<and>
    pagedb_ready fmt n root (perms PAGEDB_FLAGS) base (unat hhdm_size) sz S st st' \<and> cfg st'"
proof -
  let ?t = "tables_for n (4096 * B)"
  obtain k where k: "unat (snap_bytes snap div PTM_PAGE_GRANULARITY) = k" "k \<le> 7" "0 < k"
    "4096 dvd unat (snap_phys snap)" "fits_at (vm_pmm st) (unat (snap_phys snap)) (4096 * k)"
    "took (vm_pmm st) (unat (snap_phys snap)) (4096 * k) PMM_MAP_TYPE_ALLOCATED s1"
    "spare (Suc r + ?t) (7 + q + (B + ?t) - k) s1"
    "\<exists>rest. snap_entries snap = live s1 @ rest" "pages_ok (snap_bytes snap div PTM_PAGE_GRANULARITY)"
    by (rule snapshot_spare [OF sp snap(1)]) simp_all
  obtain rest where rest: "snap_entries snap = live s1 @ rest"
    using k(8) by blast
  have wf: "wf_map (live (vm_pmm st))" and wf1: "wf_map (live s1)"
    using sp k(7) by (simp_all add: spare_def pmm_inv_def)
  have low: "unat (snap_phys snap) + 4096 * k \<le> 2 ^ 51"
    using spare_fits_low [OF sp k(5)] k(3) by simp
  define st1 where "st1 = st\<lparr>vm_pmm := s1\<rparr>"
  have type: "PMM_MAP_TYPE_ALLOCATED \<noteq> PMM_MAP_TYPE_FREE"
    by simp
  note al = alloc_kept [OF ok k(6) type, folded st1_def]
  note new = alloc_new_kept [OF ok k(6) type k(4,5) wf, folded st1_def]
  have free: "type_at (live (vm_pmm st)) x = Some PMM_MAP_TYPE_FREE"
    if "unat (snap_phys snap) \<le> x" "x < unat (snap_phys snap) + 4096 * k" for x
    by (rule fits_at_free [OF wf k(5) that])
  have taken1: "only_taken (vm_pmm st) s1"
    by (rule took_only_taken [OF k(6)]) (use free k(3) in simp_all)
  have al_base: "4096 dvd unat base"
    unfolding base_def using ok H(1)
    by (intro add_aligned) (simp_all add: tables_ok_def page_aligned_dvd unat_page_granularity)
  have end64: "unat base + 4096 * B < 2 ^ 64"
    using fit unat_less_64 [of kernel_base] by simp
  have size64: "unat hhdm_size < 2 ^ 64"
    using H(2) by simp
  have B: "db_pages sz (unat hhdm_size) \<le> B"
    by (simp add: B_def)
  have un1: "\<And>va. unat (va - base) < 4096 * B \<Longrightarrow> translate fmt st1 n root va = None"
    using unm by (simp add: unmapped_def al(2))
  have sp1: "spare (Suc r + ?t) (q + B + ?t) (vm_pmm st1)"
    unfolding st1_def using spare_mono [OF k(7)] k(2) by simp
  obtain S m st3 where st3: "pagedb_loop map_region base sz (snap_entries snap) base st1 = ok (m, st3)"
    "pages_backed fmt n root (perms PAGEDB_FLAGS) S st1 st3" "S \<subseteq> {va. unat (va - base) < 4096 * B}"
    "pagedb_covers base sz (live s1) 0 S" "spare (Suc r) q (vm_pmm st3)"
    using pagedb_loop_snapshot [OF flags al_base end64 can H(3) size64 B cfg [OF conf al(4)] al(1)
        snap(2) [unfolded rest] wf1 un1 sp1] rest by auto
  have taken: "only_taken s1 (vm_pmm st3)" and ok3: "tables_ok fmt n root st3" and conf3: "same_config st1 st3"
    using st3(2) by (simp_all add: pages_backed_def st1_def)
  let ?a = "snap_phys snap"
  have block: "type_at (live s1) x = Some PMM_MAP_TYPE_ALLOCATED" if "unat ?a \<le> x" "x < unat ?a + 4096 * k" for x
    using k(6) that by (simp add: took_def)
  have held: "held (live s1) (unat ?a) (unat ?a + 4096 * k)"
    using k(6) by (simp add: took_def)
  have held3: "held (live (vm_pmm st3)) (unat ?a) (unat ?a + 4096 * k)"
    using taken held block k(3) unfolding only_taken_def by simp
  have block3: "type_at (live (vm_pmm st3)) x = Some PMM_MAP_TYPE_ALLOCATED"
    if "unat ?a \<le> x" "x < unat ?a + 4096 * k" for x
    using only_taken_used [OF taken block [OF that]] by simp
  obtain s4 where s4: "pmm_free ?a (snap_bytes snap div PTM_PAGE_GRANULARITY) (vm_pmm st3) = ok s4"
    "\<And>x. type_at (live s4) x =
      (if unat ?a \<le> x \<and> x < unat ?a + 4096 * k then Some PMM_MAP_TYPE_FREE else type_at (live (vm_pmm st3)) x)"
    by (rule spare_free [of r q "vm_pmm st3" "snap_bytes snap div PTM_PAGE_GRANULARITY" "4096 * k" ?a])
      (use st3(5) k(1,4,9) held3 block3 in \<open>auto simp: page_bytes_def\<close>)
  define st' where "st' = st3\<lparr>vm_pmm := s4\<rparr>"
  have h: "hhdm_offset st3 = hhdm_offset st" "hhdm_offset st1 = hhdm_offset st"
    using conf3 al(4) by (simp_all add: same_config_def)
  have "kept fmt n root st3 a" if "unat ?a \<le> unat (a - hhdm_offset st3)"
    "unat (a - hhdm_offset st3) < unat ?a + 4096 * k" for a
    using st3(2) new [of a] that unfolding pages_backed_def h by blast
  then have ok': "tables_ok fmt n root st'"
    unfolding st'_def by (rule free_tables [OF ok3 low _ s4(2)])
  have tr': "translate fmt st' n root va = translate fmt st3 n root va" for va
    by (simp add: st'_def translate_def view_def)
  have used: "\<exists>p. translate fmt st' n root va = Some (p, perms PAGEDB_FLAGS) \<and>
      type_at (live (vm_pmm st)) (unat p) = Some PMM_MAP_TYPE_FREE \<and>
      type_at (live (vm_pmm st')) (unat p) = Some PMM_MAP_TYPE_USED" if va: "va \<in> S" for va
  proof -
    obtain p where p: "translate fmt st3 n root va = Some (p, perms PAGEDB_FLAGS)"
      "type_at (live s1) (unat p) = Some PMM_MAP_TYPE_FREE"
      "type_at (live (vm_pmm st3)) (unat p) = Some PMM_MAP_TYPE_USED"
      using st3(2) va unfolding pages_backed_def st1_def by auto
    then have "\<not> (unat ?a \<le> unat p \<and> unat p < unat ?a + 4096 * k)"
      using block [of "unat p"] by auto
    then have "type_at (live (vm_pmm st')) (unat p) = Some PMM_MAP_TYPE_USED"
      using p(3) by (auto simp: st'_def s4(2))
    then show ?thesis
      using p(1,2) only_taken_free [OF taken1] by (auto simp: tr')
  qed
  have records: "record_bytes base sz f \<subseteq> S"
    if frame: "held (live (vm_pmm st)) (4096 * f) (4096 * (f + 1))"
      "type_at (live (vm_pmm st)) (4096 * f) \<noteq> Some PMM_MAP_TYPE_BAD" for f
  proof
    fix va assume va: "va \<in> record_bytes base sz f"
    obtain e where e: "e \<in> set (live s1)" "lo e div 4096 \<le> f" "f < hi e div 4096" "me_type e \<noteq> PMM_MAP_TYPE_BAD"
      using took_frame_known [OF k(6,4,3) frame] by blast
    have "pagedb_type (me_type e)"
      using e(4) by (cases "me_type e") (simp_all add: pagedb_type_def)
    then show "va \<in> S"
      using st3(4) e(1) record_in_range [OF e(2,3) va] by (auto simp: pagedb_covers_def)
  qed
  have same: "same_config st st'"
    using al(4) conf3 by (simp add: same_config_def st'_def)
  have "pagedb_ready fmt n root (perms PAGEDB_FLAGS) base (unat hhdm_size) sz S st st'"
    unfolding pagedb_ready_def
  proof (intro conjI ballI allI impI)
    show "S \<subseteq> {va. unat (va - base) < 4096 * db_pages sz (unat hhdm_size)}"
      using st3(3) by (simp add: B_def)
    show "translate fmt st' n root va = translate fmt st n root va" if "va \<notin> S" for va
      using st3(2) that al(2) by (simp add: pages_backed_def tr')
    show "inj_on (translate fmt st' n root) S"
      using st3(2) by (simp add: pages_backed_def tr' inj_on_def)
  qed (use ok' used records in blast)+
  moreover have "pagedb_setup map_region hhdm_size kernel_base sz st = ok (base, of_nat (4096 * B), st')"
  proof -
    let ?size = "MATH_ALIGN_UP (MATH_ALIGN_UP hhdm_size PTM_PAGE_GRANULARITY div PTM_PAGE_GRANULARITY * sz) PTM_PAGE_GRANULARITY"
    note u = pagedb_sizes [OF H(1,3,2), folded B_def]
    then have size: "?size = of_nat (4096 * B)"
      by (metis of_nat_unat ucast_id)
    have "\<not> base + ?size > kernel_base"
      using fit end64 u by (simp add: word_less_nat_alt unat_add_nowrap)
    then show ?thesis
      using snap(1) st3(1) s4(1)
      by (simp add: pagedb_setup_def Let_def size base_def [symmetric] st1_def pmm_free_snapshot_def st'_def del: of_nat_mult)
  qed
  ultimately show ?thesis
    using cfg [OF conf same] by blast
qed

end

section \<open>The properties\<close>

text \<open>C35. On x86-64, with room for it between the direct map and the kernel, \<open>pagedb_setup\<close> returns: for
  every page frame in a region of the map that is not bad memory, the record is mapped, readable and
  writable but not executable, to memory that was free and is now marked used, no byte of it shared;
  nothing outside the database is mapped or remapped.\<close>

theorem x86_pagedb_setup:
  fixes st :: x86_state and hhdm_size kernel_base sz :: u64
  defines "base \<equiv> hhdm_offset st + hhdm_size + PTM_PAGE_GRANULARITY" and "B \<equiv> db_pages sz (unat hhdm_size)"
  assumes "g_ptm st = \<lparr>tplt = root, level_count = n\<rparr>" and "n = 4 \<or> n = 5"
    and "tables_ok x86_fmt n root st" and "4096 dvd unat hhdm_size" and "unat hhdm_size + 4096 \<le> 2 ^ 64"
    and "unat hhdm_size div 4096 * unat sz + 4096 \<le> 2 ^ 64" and "unat base + 4096 * B \<le> unat kernel_base"
    and "region_canonical n base (4096 * B)" and "unmapped x86_fmt n root base (4096 * B) st"
    and "pmm_create_snapshot (vm_pmm st) = ok (snap, s1)" and "\<forall>e\<in>set (snap_entries snap). hi e \<le> unat hhdm_size"
    and "spare (Suc (Suc (tables_for n (4096 * B)))) (7 + (B + tables_for n (4096 * B))) (vm_pmm st)"
  shows "\<exists>S st'. pagedb_setup ptm_map hhdm_size kernel_base sz st = ok (base, of_nat (4096 * B), st') \<and>
    pagedb_ready x86_fmt n root (True, True, \<not> g_x86_64_cpu_nx_support st) base (unat hhdm_size) sz S st st'"
proof -
  have n: "n = levels_of (n = 5)" "Suc (n - 1) = n"
    using assms(4) by (auto simp: levels_of_def)
  have conf: "x86_cfg root (n = 5) (g_x86_64_cpu_nx_support st) (g_x86_64_cpu_pdpe1gb_support st) st"
    using assms(3) n(1) by (simp add: x86_cfg_def)
  have perms: "x86_perms (g_x86_64_cpu_nx_support st) PAGEDB_FLAGS = (True, True, \<not> g_x86_64_cpu_nx_support st)"
    by (simp add: x86_perms_def PAGEDB_FLAGS_def PTM_FLAG_READ_def PTM_FLAG_WRITE_def PTM_FLAG_EXEC_def)
  from xs.pagedb_setup_ok [OF conf, where hhdm_size = hhdm_size and kernel_base = kernel_base and sz = sz and
      snap = snap and ?s1.0 = s1 and r = 0 and q = 0, folded n(1), unfolded n(2) perms] assms(5-14)
  show ?thesis
    unfolding base_def B_def by auto
qed

text \<open>A machine with one free region and an empty root table.\<close>

definition small_map :: pmm_state where
  "small_map = state_of [\<lparr>me_base = 0x1000, me_length = 0xF000, me_type = PMM_MAP_TYPE_FREE\<rparr>]"

lemma live_small_map [simp]:
  "live small_map = [\<lparr>me_base = 0x1000, me_length = 0xF000, me_type = PMM_MAP_TYPE_FREE\<rparr>]"
  by (simp add: small_map_def)

lemma small_map_inv: "pmm_inv small_map"
  unfolding small_map_def
  by (rule pmm_inv_state_of) (simp_all add: entry_ok_def hi_def lo_def PMM_MAP_MAX_ENTRIES_def)

lemma small_map_size [simp]: "g_pmm_map_size small_map = 1"
  by (simp add: small_map_def)

lemma small_map_spare: "spare 6 11 small_map"
proof (rule spareI [OF small_map_inv])
  show "fits_at small_map 0x1000 (4096 * 11)"
    by (simp add: fits_at_def lo_def hi_def)
qed (simp_all add: PMM_MAP_MAX_ENTRIES_def lo_def hi_def)

definition x86_empty :: x86_state where
  "x86_empty = \<lparr>vm_mem = (\<lambda>_. 0), vm_pmm = small_map, hhdm_offset = 0xFFFF800000000000,
     g_ptm = \<lparr>tplt = 0x200000, level_count = 4\<rparr>, g_x86_64_cpu_nx_support = True,
     g_x86_64_cpu_pdpe1gb_support = False\<rparr>"

lemma x86_empty_tables:
  "tables_ok x86_fmt 4 0x200000 x86_empty" "translate x86_fmt x86_empty 4 0x200000 va = None"
proof -
  have "bytes_at (\<lambda>_. 0) a n = replicate n 0" for a n
    by (simp add: bytes_at_def map_replicate_const)
  moreover have "from_bytes (replicate n 0) = 0" for n
    by (induction n) simp_all
  ultimately have view: "view x86_empty 0x200000 i = 0" for i
    by (simp only: view_def x86_empty_def table_view_def load64_def vm_state.simps)
  note tree = xw.empty_tree [where tb = "view x86_empty" and a = "0x200000" and l = 3, OF view, simplified Suc_numeral]
  show "translate x86_fmt x86_empty 4 0x200000 va = None"
    using tree(3) by (simp add: translate_def del: mmu.simps)
  show "tables_ok x86_fmt 4 0x200000 x86_empty"
    using tree(1,2)
    by (simp add: tables_ok_def x86_empty_def frame_ok_def page_aligned_def frame_free_def contains_def lo_def hi_def
        del: tree_ok.simps tframes.simps)
qed

lemma small_snapshot:
  defines "snap \<equiv> fst (the_ok (pmm_create_snapshot small_map))"
  shows "pmm_create_snapshot small_map = ok (snap, snd (the_ok (pmm_create_snapshot small_map)))"
    and "e \<in> set (snap_entries snap) \<Longrightarrow> hi e \<le> 0x10000"
proof -
  have "returns (pmm_create_snapshot small_map)"
    by code_simp
  then show "pmm_create_snapshot small_map = ok (snap, snd (the_ok (pmm_create_snapshot small_map)))"
    using returns_the_ok by (simp add: snap_def)
  have "map (\<lambda>e. (me_base e, me_length e)) (snap_entries snap) = [(0x1000, 0x1000), (0x2000, 0xE000), (0, 0)]"
    unfolding snap_def by code_simp
  moreover assume "e \<in> set (snap_entries snap)"
  then have "(me_base e, me_length e) \<in> set (map (\<lambda>e. (me_base e, me_length e)) (snap_entries snap))"
    by force
  ultimately show "hi e \<le> 0x10000"
    by (auto simp: hi_def)
qed

theorem x86_pagedb_setup_witness:
  "\<exists>S st'. pagedb_setup ptm_map 0x10000 0xFFFFFFFF80000000 16 x86_empty =
      ok (0xFFFF800000011000, of_nat (4096 * 1), st') \<and>
    pagedb_ready x86_fmt 4 0x200000 (True, True, \<not> g_x86_64_cpu_nx_support x86_empty) 0xFFFF800000011000 0x10000 16 S x86_empty st'"
proof -
  have fields: "hhdm_offset x86_empty = 0xFFFF800000000000" "vm_pmm x86_empty = small_map"
    "g_ptm x86_empty = \<lparr>tplt = 0x200000, level_count = 4\<rparr>"
    by (simp_all add: x86_empty_def)
  have B: "db_pages 16 (unat (0x10000 :: u64)) = 1"
    by (simp add: db_pages_def)
  have "canonical 4 va" if "unat (va - 0xFFFF800000011000) < 4096" for va
  proof (rule canonical_high)
    have "va - 0xFFFF800000000000 = 0x11000 + (va - 0xFFFF800000011000)"
      by simp
    then show "unat (va - 0xFFFF800000000000) < 2 ^ 46"
      using that by (simp only:) (subst unat_add_nowrap, simp_all)
  qed
  then have can: "region_canonical 4 0xFFFF800000011000 4096"
    by (simp add: region_canonical_def)
  have base: "hhdm_offset x86_empty + 0x10000 + PTM_PAGE_GRANULARITY = 0xFFFF800000011000"
    by (simp add: fields page_size_defs)
  from x86_pagedb_setup [of x86_empty "0x200000" 4 "0x10000" 16 "0xFFFFFFFF80000000"
      "fst (the_ok (pmm_create_snapshot small_map))" "snd (the_ok (pmm_create_snapshot small_map))", unfolded base B]
  show ?thesis
    using x86_empty_tables can small_snapshot spare_mono [OF small_map_spare, of 5 11] fields by (simp add: unmapped_def)
qed

text \<open>The same on RISC-V, in each paging mode.\<close>

lemma riscv_pagedb_setup:
  fixes st :: riscv_state and hhdm_size kernel_base sz :: u64
  defines "base \<equiv> hhdm_offset st + hhdm_size + PTM_PAGE_GRANULARITY" and "B \<equiv> db_pages sz (unat hhdm_size)"
  assumes "rv_cfg root sv st"
    and "tables_ok riscv_fmt (sv_levels sv) root st" and "4096 dvd unat hhdm_size" and "unat hhdm_size + 4096 \<le> 2 ^ 64"
    and "unat hhdm_size div 4096 * unat sz + 4096 \<le> 2 ^ 64" and "unat base + 4096 * B \<le> unat kernel_base"
    and "region_canonical (sv_levels sv) base (4096 * B)"
    and "unmapped riscv_fmt (sv_levels sv) root base (4096 * B) st"
    and "pmm_create_snapshot (vm_pmm st) = ok (snap, s1)" and "\<forall>e\<in>set (snap_entries snap). hi e \<le> unat hhdm_size"
    and "spare (Suc (Suc (tables_for (sv_levels sv) (4096 * B)))) (7 + (B + tables_for (sv_levels sv) (4096 * B))) (vm_pmm st)"
  shows "\<exists>S st'. pagedb_setup rv_ptm_map hhdm_size kernel_base sz st = ok (base, of_nat (4096 * B), st') \<and>
    pagedb_ready riscv_fmt (sv_levels sv) root (True, True, False) base (unat hhdm_size) sz S st st'"
proof -
  have n: "Suc (sv_levels sv - 1) = sv_levels sv"
    by (cases sv) simp_all
  have flags: "rv_flags_ok PAGEDB_FLAGS" "rv_perms PAGEDB_FLAGS = (True, True, False)"
    by (simp_all add: rv_flags_ok_def rv_perms_def PAGEDB_FLAGS_def PTM_FLAG_READ_def PTM_FLAG_WRITE_def
        RV_PTM_FLAG_READ_def RV_PTM_FLAG_WRITE_def RV_PTM_FLAG_EXEC_def)
  from rs.pagedb_setup_ok [OF assms(3) flags(1), where hhdm_size = hhdm_size and kernel_base = kernel_base and sz = sz and
      snap = snap and ?s1.0 = s1 and r = 0 and q = 0, unfolded n flags(2)] assms(4-13)
  show ?thesis
    unfolding base_def B_def by auto
qed

end
