(* ===== verification/Cpus.thy ===== *)
theory Cpus
  imports AddressSpace X86Machine
begin

text \<open>
  Setting up the cores: \<open>arch_setup_cpus\<close> of \<open>pre_kernel/src/arch/x86_64/arch.c\<close> and of
  \<open>pre_kernel/src/arch/riscv64/arch.c\<close>. The blocks of start information are arrays in memory;
  \<open>is_bsp\<close> and \<open>start_ap\<close> are the function pointers \<open>g_boot_core_is_bsp\<close> and \<open>g_boot_start_ap\<close> of the
  boot protocol, the latter as its effect on memory. The log lines are left out.
\<close>

record core_start_info_t =
  si_core_id :: u64
  si_stack :: u64
  si_cpu_local :: u64
  si_arch_pointer :: u64

definition sizeof_core_start_info :: u64 where "sizeof_core_start_info = 32"

definition core_start_info :: "memory \<Rightarrow> u64 \<Rightarrow> core_start_info_t" where
  "core_start_info m p = \<lparr>si_core_id = load64 m p, si_stack = load64 m (p + 8),
     si_cpu_local = load64 m (p + 16), si_arch_pointer = load64 m (p + 24)\<rparr>"

record bootinfo_kernel_info_t =
  ki_pagedb_entry_size :: u64
  ki_cpu_local_size :: u64
  ki_global_pointer :: u64

type_synonym boot_core_is_bsp_fn = "u64 \<Rightarrow> bool"
type_synonym boot_start_ap_fn = "u64 \<Rightarrow> u64 \<Rightarrow> memory \<Rightarrow> memory"

section \<open>x86-64\<close>

definition CORE_STACK_PGCNT :: u64 where "CORE_STACK_PGCNT = 16"

definition sizeof_arch_core_start_info :: u64 where
  "sizeof_arch_core_start_info = sizeof_arch_gdt_t + sizeof_arch_gdt_tss_t"

definition core_stack_top :: "u64 \<Rightarrow> u64 \<Rightarrow> u64" where
  "core_stack_top p h = (p + h) + CORE_STACK_PGCNT * PTM_PAGE_GRANULARITY"

text \<open>The body of the loop for one core; \<open>core_id\<close> is incremented between its two uses.\<close>

definition x86_setup_ap ::
  "boot_start_ap_fn \<Rightarrow> u64 \<Rightarrow> u64 \<Rightarrow> u64 \<Rightarrow> u64 \<Rightarrow> u64 \<Rightarrow> u64 \<Rightarrow> 'a vm_state_scheme \<Rightarrow> 'a vm_state_scheme res" where
  "x86_setup_ap start_ap start_block arch_block cpu_local_block cpu_local_size i core_id st =
     (let csi = start_block + sizeof_core_start_info * core_id;
          st = st\<lparr>vm_mem := store64 (csi + 16) (cpu_local_block + core_id * cpu_local_size) (vm_mem st)\<rparr>
      in res_bind (vm_alloc CORE_STACK_PGCNT st)
           (\<lambda>(p, st).
              let m = store64 (csi + 8) (core_stack_top p (hhdm_offset st)) (vm_mem st);
                  m = store64 csi core_id m;
                  core_id = core_id + 1;
                  m = store64 (csi + 24) (arch_block + sizeof_arch_core_start_info * core_id) m
              in ok (st\<lparr>vm_mem := start_ap i csi m\<rparr>)))"

function x86_setup_cpus_loop ::
  "boot_core_is_bsp_fn \<Rightarrow> boot_start_ap_fn \<Rightarrow> u64 \<Rightarrow> u64 \<Rightarrow> u64 \<Rightarrow> u64 \<Rightarrow> nat \<Rightarrow> nat \<Rightarrow> u64 \<Rightarrow>
    'a vm_state_scheme \<Rightarrow> 'a vm_state_scheme res" where
  "x86_setup_cpus_loop is_bsp start_ap start_block arch_block cpu_local_block cpu_local_size i core_count core_id st =
     (if i < core_count then
        (if is_bsp (of_nat i)
         then x86_setup_cpus_loop is_bsp start_ap start_block arch_block cpu_local_block cpu_local_size
                (Suc i) core_count core_id st
         else res_bind (x86_setup_ap start_ap start_block arch_block cpu_local_block cpu_local_size (of_nat i) core_id st)
                (\<lambda>st. x86_setup_cpus_loop is_bsp start_ap start_block arch_block cpu_local_block cpu_local_size
                        (Suc i) core_count (core_id + 1) st))
      else ok st)"
  by pat_completeness auto
termination
  by (relation "measure (\<lambda>(b, a, s, r, l, z, i, n, c, st). n - i)") auto

text \<open>The result has \<open>cpulocal_start\<close> and \<open>cpulocal_size\<close> of the boot information.\<close>

definition x86_setup_cpus ::
  "boot_core_is_bsp_fn \<Rightarrow> boot_start_ap_fn \<Rightarrow> u64 \<Rightarrow> u64 \<Rightarrow> bootinfo_kernel_info_t \<Rightarrow>
    'a vm_state_scheme \<Rightarrow> (u64 \<times> u64 \<times> 'a vm_state_scheme) res" where
  "x86_setup_cpus is_bsp start_ap start_block core_count kernel_info st =
     (let cpu_local_block_size = MATH_ALIGN_UP (core_count * ki_cpu_local_size kernel_info) PTM_PAGE_GRANULARITY
      in res_bind (pmm_alloc_ext (cpu_local_block_size div PTM_PAGE_GRANULARITY) PTM_PAGE_GRANULARITY
                     PMM_MAP_TYPE_USED (vm_pmm st))
           (\<lambda>(p, s).
              let cpu_local_block = p + hhdm_offset st;
                  st = st\<lparr>vm_pmm := s, vm_mem := memset cpu_local_block 0 (unat cpu_local_block_size) (vm_mem st)\<rparr>;
                  arch_start_info_block_size = MATH_ALIGN_UP (sizeof_arch_core_start_info * core_count) PTM_PAGE_GRANULARITY
              in res_bind (vm_alloc (arch_start_info_block_size div PTM_PAGE_GRANULARITY) st)
                   (\<lambda>(p, st).
                      let arch_block = p + hhdm_offset st;
                          m = memset start_block 0 (unat arch_start_info_block_size) (vm_mem st);
                          m = store64 start_block 0 m;
                          m = store64 (start_block + 16) cpu_local_block m
                      in res_bind (vm_alloc CORE_STACK_PGCNT (st\<lparr>vm_mem := m\<rparr>))
                           (\<lambda>(p, st).
                              let m = store64 (start_block + 8) (core_stack_top p (hhdm_offset st)) (vm_mem st);
                                  m = store64 (start_block + 24) arch_block m
                              in res_bind (x86_setup_cpus_loop is_bsp start_ap start_block arch_block cpu_local_block
                                             (ki_cpu_local_size kernel_info) 0 (unat core_count) 1 (st\<lparr>vm_mem := m\<rparr>))
                                   (\<lambda>st. ok (cpu_local_block, cpu_local_block_size, st))))))"

section \<open>RISC-V\<close>

text \<open>\<open>arch_machine_core_start_info_t\<close> is the global pointer alone.\<close>

definition sizeof_arch_machine_core_start_info :: u64 where "sizeof_arch_machine_core_start_info = 8"

definition rv_setup_ap ::
  "boot_start_ap_fn \<Rightarrow> u64 \<Rightarrow> u64 \<Rightarrow> u64 \<Rightarrow> u64 \<Rightarrow> u64 \<Rightarrow> u64 \<Rightarrow> u64 \<Rightarrow> 'a vm_state_scheme \<Rightarrow> 'a vm_state_scheme res" where
  "rv_setup_ap start_ap start_block arch_block cpu_local_block cpu_local_size global_pointer i core_id st =
     (let csi = start_block + sizeof_core_start_info * core_id;
          st = st\<lparr>vm_mem := store64 (csi + 16) (cpu_local_block + core_id * cpu_local_size) (vm_mem st)\<rparr>
      in res_bind (vm_alloc CORE_STACK_PGCNT st)
           (\<lambda>(p, st).
              let m = store64 (csi + 8) (core_stack_top p (hhdm_offset st)) (vm_mem st);
                  m = store64 csi core_id m;
                  core_id = core_id + 1;
                  m = store64 (csi + 24) (arch_block + sizeof_arch_machine_core_start_info * core_id) m;
                  m = store64 (arch_block + sizeof_arch_machine_core_start_info * core_id) global_pointer m
              in ok (st\<lparr>vm_mem := start_ap i csi m\<rparr>)))"

function rv_setup_cpus_loop ::
  "boot_core_is_bsp_fn \<Rightarrow> boot_start_ap_fn \<Rightarrow> u64 \<Rightarrow> u64 \<Rightarrow> u64 \<Rightarrow> u64 \<Rightarrow> u64 \<Rightarrow> nat \<Rightarrow> nat \<Rightarrow> u64 \<Rightarrow>
    'a vm_state_scheme \<Rightarrow> 'a vm_state_scheme res" where
  "rv_setup_cpus_loop is_bsp start_ap start_block arch_block cpu_local_block cpu_local_size gp i core_count core_id st =
     (if i < core_count then
        (if is_bsp (of_nat i)
         then rv_setup_cpus_loop is_bsp start_ap start_block arch_block cpu_local_block cpu_local_size gp
                (Suc i) core_count core_id st
         else res_bind (rv_setup_ap start_ap start_block arch_block cpu_local_block cpu_local_size gp (of_nat i) core_id st)
                (\<lambda>st. rv_setup_cpus_loop is_bsp start_ap start_block arch_block cpu_local_block cpu_local_size gp
                        (Suc i) core_count (core_id + 1) st))
      else ok st)"
  by pat_completeness auto
termination
  by (relation "measure (\<lambda>(b, a, s, r, l, z, g, i, n, c, st). n - i)") auto

definition rv_setup_cpus ::
  "boot_core_is_bsp_fn \<Rightarrow> boot_start_ap_fn \<Rightarrow> u64 \<Rightarrow> u64 \<Rightarrow> bootinfo_kernel_info_t \<Rightarrow>
    'a vm_state_scheme \<Rightarrow> (u64 \<times> u64 \<times> 'a vm_state_scheme) res" where
  "rv_setup_cpus is_bsp start_ap start_block core_count kernel_info st =
     (let cpu_local_block_size = MATH_ALIGN_UP (core_count * ki_cpu_local_size kernel_info) PTM_PAGE_GRANULARITY
      in res_bind (pmm_alloc_ext (cpu_local_block_size div PTM_PAGE_GRANULARITY) PTM_PAGE_GRANULARITY
                     PMM_MAP_TYPE_USED (vm_pmm st))
           (\<lambda>(p, s).
              let cpu_local_block = p + hhdm_offset st;
                  st = st\<lparr>vm_pmm := s, vm_mem := memset cpu_local_block 0 (unat cpu_local_block_size) (vm_mem st)\<rparr>;
                  arch_block_size = MATH_ALIGN_UP (sizeof_arch_machine_core_start_info * core_count) PTM_PAGE_GRANULARITY
              in res_bind (vm_alloc (arch_block_size div PTM_PAGE_GRANULARITY) st)
                   (\<lambda>(p, st).
                      let arch_block = p + hhdm_offset st;
                          m = memset arch_block 0 (unat arch_block_size) (vm_mem st);
                          m = store64 start_block 0 m;
                          m = store64 (start_block + 16) cpu_local_block m
                      in res_bind (vm_alloc CORE_STACK_PGCNT (st\<lparr>vm_mem := m\<rparr>))
                           (\<lambda>(p, st).
                              let m = store64 (start_block + 8) (core_stack_top p (hhdm_offset st)) (vm_mem st);
                                  m = store64 arch_block (ki_global_pointer kernel_info) m;
                                  m = store64 (start_block + 24) arch_block m
                              in res_bind (rv_setup_cpus_loop is_bsp start_ap start_block arch_block cpu_local_block
                                             (ki_cpu_local_size kernel_info) (ki_global_pointer kernel_info)
                                             0 (unat core_count) 1 (st\<lparr>vm_mem := m\<rparr>))
                                   (\<lambda>st. ok (cpu_local_block, cpu_local_block_size, st))))))"

declare x86_setup_cpus_loop.simps [simp del] rv_setup_cpus_loop.simps [simp del]

end
