(* ===== verification/CpusProps.thy ===== *)
theory CpusProps
  imports Cpus InitMapProps
begin

text \<open>
  What \<open>arch_setup_cpus\<close> gives each core on x86-64: its number, its own stack and its own part of the
  per-core area, and the address of its descriptor tables, which for every core but the first is that
  of the next one.
\<close>

section \<open>Start information in memory\<close>

lemma store64_outside:
  assumes "\<not> unat (x - q) < N" and "c + 8 \<le> N" and "N < 2 ^ 64" shows "store64 (q + of_nat c) v m x = m x"
proof (rule store64_other)
  show "\<not> unat (x - (q + of_nat c)) < 8"
  proof
    assume less: "unat (x - (q + of_nat c)) < 8"
    have c: "unat (of_nat c :: u64) = c"
      using assms by (intro unat_of_nat_64) simp
    have "unat (of_nat c + (x - (q + of_nat c))) = c + unat (x - (q + of_nat c))"
      using less assms c by (subst unat_add_nowrap) simp_all
    then show False
      using assms less by (simp add: algebra_simps)
  qed
qed

lemma info_cong:
  assumes "\<And>i. i < 32 \<Longrightarrow> m' (p + of_nat i) = m (p + of_nat i)"
  shows "core_start_info m' p = core_start_info m p"
proof -
  have "load64 m' (p + of_nat c) = load64 m (p + of_nat c)" if "c \<le> 24" for c
    using assms [of "c + _"] that by (intro load64_cong) (simp add: add.assoc)
  from this [of 0] this [of 8] this [of 16] this [of 24] show ?thesis
    by (simp add: core_start_info_def)
qed

definition store_info :: "u64 \<Rightarrow> u64 \<Rightarrow> u64 \<Rightarrow> u64 \<Rightarrow> u64 \<Rightarrow> memory \<Rightarrow> memory" where
  "store_info p c b a d m = store64 (p + 24) d (store64 p c (store64 (p + 8) b (store64 (p + 16) a m)))"

lemma store_info_same:
  "core_start_info (store_info p c b a d m) p =
     \<lparr>si_core_id = c, si_stack = b, si_cpu_local = a, si_arch_pointer = d\<rparr>"
  using load64_next [where p = p and d = 24 and c = 0] load64_next [where p = p and d = 24 and c = 8]
    load64_next [where p = p and d = 24 and c = 16] load64_next [where p = p and d = 0 and c = 8]
    load64_next [where p = p and d = 0 and c = 16] load64_next [where p = p and d = 8 and c = 16]
  by (simp add: core_start_info_def store_info_def load64_store64)

lemma store_info_outside: "\<not> unat (x - p) < 32 \<Longrightarrow> store_info p c b a d m x = m x"
  using store64_outside [of x p 32 24] store64_outside [of x p 32 0] store64_outside [of x p 32 8]
    store64_outside [of x p 32 16] by (simp add: store_info_def)

definition info_at :: "u64 \<Rightarrow> nat \<Rightarrow> u64" where
  "info_at start c = start + of_nat (32 * c)"

lemma info_apart:
  assumes "c \<noteq> k" and "32 * Suc c < 2 ^ 64" and "32 * Suc k < 2 ^ 64" and "i < 32"
  shows "\<not> unat (info_at start c + of_nat i - info_at start k) < 32"
proof
  assume less: "unat (info_at start c + of_nat i - info_at start k) < 32"
  define j where "j = unat (info_at start c + of_nat i - info_at start k)"
  have j: "j < 32"
    using less by (simp only: j_def)
  have "info_at start c + of_nat i = info_at start k + of_nat j"
    unfolding j_def by simp
  then have same: "(of_nat (32 * c + i) :: u64) = of_nat (32 * k + j)"
    unfolding info_at_def add.assoc of_nat_add by (rule add_left_imp_eq)
  have "32 * c + i < 2 ^ 64"
    using assms(2,4) by simp
  moreover have "32 * k + j < 2 ^ 64"
    using assms(3) j by simp
  ultimately have eq: "32 * c + i = 32 * k + j"
    using same of_nat_inj64 by blast
  have "(32 * c + i) div 32 = c" "(32 * k + j) div 32 = k"
    using assms(4) j by simp_all
  then show False
    using assms(1) eq by simp
qed

section \<open>The loop over the cores\<close>

text \<open>The stack of a core is 16 pages that were free in \<open>s0\<close> and are allocated in \<open>s\<close>; no two cores share
  one.\<close>

definition stacks_ok :: "pmm_state \<Rightarrow> pmm_state \<Rightarrow> nat \<Rightarrow> (nat \<Rightarrow> u64) \<Rightarrow> bool" where
  "stacks_ok s0 s k stack \<longleftrightarrow>
     (\<forall>c<k. 4096 dvd unat (stack c) \<and> (\<forall>x. unat (stack c) \<le> x \<longrightarrow> x < unat (stack c) + 65536 \<longrightarrow>
        type_at (live s0) x = Some PMM_MAP_TYPE_FREE \<and> type_at (live s) x = Some PMM_MAP_TYPE_ALLOCATED)) \<and>
     (\<forall>c<k. \<forall>d<c. unat (stack c) + 65536 \<le> unat (stack d) \<or> unat (stack d) + 65536 \<le> unat (stack c))"

definition infos_ok :: "memory \<Rightarrow> u64 \<Rightarrow> u64 \<Rightarrow> u64 \<Rightarrow> u64 \<Rightarrow> u64 \<Rightarrow> nat \<Rightarrow> (nat \<Rightarrow> u64) \<Rightarrow> bool" where
  "infos_ok m start arch local lsize h k stack \<longleftrightarrow>
     (\<forall>c<k. core_start_info m (info_at start c) =
        \<lparr>si_core_id = of_nat c, si_stack = stack c + h + 65536, si_cpu_local = local + of_nat c * lsize,
         si_arch_pointer = arch + 168 * of_nat (if c = 0 then 0 else Suc c)\<rparr>)"

text \<open>Starting a core leaves the start information alone.\<close>

definition start_ap_ok :: "boot_start_ap_fn \<Rightarrow> u64 \<Rightarrow> nat \<Rightarrow> bool" where
  "start_ap_ok start_ap start n \<longleftrightarrow>
     (\<forall>i p m c j. c < n \<longrightarrow> j < 32 \<longrightarrow> start_ap i p m (info_at start c + of_nat j) = m (info_at start c + of_nat j))"

lemma stacks_ok_earlier: "only_taken s0 s1 \<Longrightarrow> stacks_ok s1 s k stack \<Longrightarrow> stacks_ok s0 s k stack"
  using only_taken_free unfolding stacks_ok_def by blast

lemma stack_alloc:
  assumes sp: "spare (Suc r) (16 + q) (vm_pmm st)" and taken: "only_taken s0 (vm_pmm st)"
    and ok: "stacks_ok s0 (vm_pmm st) k stack"
  obtains p s where "vm_alloc CORE_STACK_PGCNT st = ok (p, st\<lparr>vm_pmm := s\<rparr>)" and "spare r q s"
    and "only_taken s0 s" and "stacks_ok s0 s (Suc k) (stack(k := p))"
proof -
  have wf: "wf_map (live (vm_pmm st))"
    using sp by (simp add: spare_def pmm_inv_def)
  obtain p s where p: "pmm_alloc_ext CORE_STACK_PGCNT PTM_PAGE_GRANULARITY PMM_MAP_TYPE_ALLOCATED (vm_pmm st) = ok (p, s)"
    "4096 dvd unat p" "fits_at (vm_pmm st) (unat p) 65536" "took (vm_pmm st) (unat p) 65536 PMM_MAP_TYPE_ALLOCATED s"
    "spare r q s"
    by (rule spare_alloc_ext [OF sp, of CORE_STACK_PGCNT PMM_MAP_TYPE_ALLOCATED]) (simp_all add: CORE_STACK_PGCNT_def)
  have free: "type_at (live (vm_pmm st)) x = Some PMM_MAP_TYPE_FREE" if "unat p \<le> x" "x < unat p + 65536" for x
    by (rule fits_at_free [OF wf p(3) that])
  have taken': "only_taken (vm_pmm st) s"
    by (rule took_only_taken [OF p(4)]) (use free in simp_all)
  have apart: "unat p + 65536 \<le> unat (stack d) \<or> unat (stack d) + 65536 \<le> unat p" if "d < k" for d
  proof (rule ccontr)
    assume "\<not> ?thesis"
    then have "unat p \<le> max (unat p) (unat (stack d))" "max (unat p) (unat (stack d)) < unat p + 65536"
      "unat (stack d) \<le> max (unat p) (unat (stack d))" "max (unat p) (unat (stack d)) < unat (stack d) + 65536"
      by auto
    moreover have "type_at (live (vm_pmm st)) x = Some PMM_MAP_TYPE_ALLOCATED"
      if "unat (stack d) \<le> x" "x < unat (stack d) + 65536" for x
      using ok \<open>d < k\<close> that by (simp add: stacks_ok_def)
    ultimately show False
      using free by (metis option.inject pmm_map_type.distinct(1))
  qed
  have "stacks_ok s0 s (Suc k) (stack(k := p))"
    unfolding stacks_ok_def
  proof (intro conjI allI impI)
    fix c x assume c: "c < Suc k" and x: "unat ((stack(k := p)) c) \<le> x" "x < unat ((stack(k := p)) c) + 65536"
    show "type_at (live s0) x = Some PMM_MAP_TYPE_FREE"
      using c x ok free only_taken_free [OF taken] by (cases "c = k") (auto simp: stacks_ok_def less_Suc_eq)
    show "type_at (live s) x = Some PMM_MAP_TYPE_ALLOCATED"
      using c x ok p(4) only_taken_used [OF taken'] by (cases "c = k") (auto simp: stacks_ok_def took_def less_Suc_eq)
  next
    fix c d assume "c < Suc k" "d < c"
    then show "unat ((stack(k := p)) c) + 65536 \<le> unat ((stack(k := p)) d) \<or>
        unat ((stack(k := p)) d) + 65536 \<le> unat ((stack(k := p)) c)"
      using ok apart [of d] by (cases "c = k") (auto simp: stacks_ok_def less_Suc_eq)
  qed (use ok p(2) in \<open>auto simp: stacks_ok_def less_Suc_eq\<close>)
  then show thesis
    using p(1,5) only_taken_trans [OF taken taken'] by (intro that [of p s]) (simp_all add: vm_alloc_def pmm_alloc_def)
qed

lemma core_stack_top_alt: "core_stack_top p h = p + h + 65536"
  by (simp add: core_stack_top_def CORE_STACK_PGCNT_def page_size_defs)

lemma setup_ap:
  assumes inv: "infos_ok (vm_mem st) start arch local lsize (hhdm_offset st) k stack"
    and stacks: "stacks_ok s0 (vm_pmm st) k stack" and taken: "only_taken s0 (vm_pmm st)"
    and ap: "start_ap_ok start_ap start n" and k: "0 < k" "k < n" "32 * n < 2 ^ 64"
    and sp: "spare (Suc r) (16 + q) (vm_pmm st)"
  obtains p st' where "x86_setup_ap start_ap start arch local lsize i (of_nat k) st = ok st'"
    and "infos_ok (vm_mem st') start arch local lsize (hhdm_offset st') (Suc k) (stack(k := p))"
    and "stacks_ok s0 (vm_pmm st') (Suc k) (stack(k := p))" and "only_taken s0 (vm_pmm st')"
    and "spare r q (vm_pmm st')" and "hhdm_offset st' = hhdm_offset st"
proof -
  let ?csi = "info_at start k"
  let ?st1 = "st\<lparr>vm_mem := store64 (?csi + 16) (local + of_nat k * lsize) (vm_mem st)\<rparr>"
  obtain p s where p: "vm_alloc CORE_STACK_PGCNT ?st1 = ok (p, ?st1\<lparr>vm_pmm := s\<rparr>)" "spare r q s" "only_taken s0 s"
    "stacks_ok s0 s (Suc k) (stack(k := p))"
    by (rule stack_alloc [of r q ?st1 s0 k stack]) (use sp taken stacks in simp_all)
  let ?ptr = "arch + 168 * of_nat (Suc k)"
  define m where "m = store_info ?csi (of_nat k) (p + hhdm_offset st + 65536) (local + of_nat k * lsize) ?ptr (vm_mem st)"
  define st' where "st' = st\<lparr>vm_pmm := s, vm_mem := start_ap i ?csi m\<rparr>"
  have csi: "start + sizeof_core_start_info * of_nat k = ?csi"
    by (simp add: info_at_def sizeof_core_start_info_def)
  have "x86_setup_ap start_ap start arch local lsize i (of_nat k) st = ok st'"
    unfolding x86_setup_ap_def Let_def csi
    by (simp add: p(1) st'_def m_def store_info_def core_stack_top_alt sizeof_arch_core_start_info_def
        sizeof_arch_gdt_t_def sizeof_arch_gdt_tss_t_def add.commute)
  moreover have "infos_ok (vm_mem st') start arch local lsize (hhdm_offset st') (Suc k) (stack(k := p))"
    unfolding infos_ok_def
  proof (intro allI impI)
    fix c assume c: "c < Suc k"
    have fit: "32 * Suc c < 2 ^ 64" "32 * Suc k < 2 ^ 64"
      using c k by simp_all
    have ap': "core_start_info (vm_mem st') (info_at start c) = core_start_info m (info_at start c)"
      using ap c k by (intro info_cong) (simp add: st'_def start_ap_ok_def)
    show "core_start_info (vm_mem st') (info_at start c) =
        \<lparr>si_core_id = of_nat c, si_stack = (stack(k := p)) c + hhdm_offset st' + 65536,
         si_cpu_local = local + of_nat c * lsize, si_arch_pointer = arch + 168 * of_nat (if c = 0 then 0 else Suc c)\<rparr>"
    proof (cases "c = k")
      case True
      then show ?thesis
        unfolding ap' unfolding True m_def store_info_same using k(1) by (simp add: st'_def)
    next
      case False
      have "core_start_info m (info_at start c) = core_start_info (vm_mem st) (info_at start c)"
        unfolding m_def
        by (intro info_cong store_info_outside info_apart [OF False fit])
      then show ?thesis
        unfolding ap' using inv c False by (simp add: infos_ok_def st'_def)
    qed
  qed
  ultimately show thesis
    using p(2-4) by (intro that [of st' p]) (simp_all add: st'_def)
qed

text \<open>The number of cores before \<open>i\<close> that are started, plus one: the next core's number.\<close>

definition next_id :: "nat \<Rightarrow> nat \<Rightarrow> nat" where
  "next_id b i = (if i \<le> b then Suc i else i)"

lemma setup_cpus_loop:
  assumes bsp: "\<And>j. j < n \<Longrightarrow> is_bsp (of_nat j) \<longleftrightarrow> j = b" "b < n"
    and ap: "start_ap_ok start_ap start n" and n: "32 * n < 2 ^ 64"
    and inv: "infos_ok (vm_mem st) start arch local lsize (hhdm_offset st) (next_id b i) stack"
    and stacks: "stacks_ok s0 (vm_pmm st) (next_id b i) stack" and taken: "only_taken s0 (vm_pmm st)"
    and i: "i \<le> n" and sp: "spare (r + (n - next_id b i)) (q + 16 * (n - next_id b i)) (vm_pmm st)"
  shows "\<exists>stack st'. x86_setup_cpus_loop is_bsp start_ap start arch local lsize i n (of_nat (next_id b i)) st = ok st' \<and>
    infos_ok (vm_mem st') start arch local lsize (hhdm_offset st) n stack \<and> stacks_ok s0 (vm_pmm st') n stack \<and>
    only_taken s0 (vm_pmm st')"
  using inv stacks taken i sp
proof (induction "n - i" arbitrary: i st stack)
  case 0
  then have "i = n"
    by simp
  then show ?case
    using 0 bsp(2) by (subst x86_setup_cpus_loop.simps) (auto simp: next_id_def)
next
  case (Suc m)
  have i: "i < n" "Suc i \<le> n" "m = n - Suc i"
    using Suc.hyps(2) by simp_all
  show ?case
  proof (cases "i = b")
    case True
    have id: "next_id b (Suc i) = next_id b i"
      using True by (simp add: next_id_def)
    from Suc.hyps(1) [OF i(3), of st stack, unfolded id, OF Suc.prems(1-3) i(2) Suc.prems(5)]
    show ?thesis
      using bsp(1) [OF i(1)] True i(1) by (subst x86_setup_cpus_loop.simps) simp
  next
    case False
    have id: "next_id b (Suc i) = Suc (next_id b i)" "0 < next_id b i" "next_id b i < n"
      using False i(1) bsp(2) by (auto simp: next_id_def)
    define d where "d = n - Suc (next_id b i)"
    have d: "n - next_id b i = Suc d"
      using id(3) by (simp add: d_def)
    have "spare (Suc (r + d)) (16 + (q + 16 * d)) (vm_pmm st)"
      by (rule spare_mono [OF Suc.prems(5)]) (simp_all add: d)
    then obtain p st1 where st1: "x86_setup_ap start_ap start arch local lsize (of_nat i) (of_nat (next_id b i)) st = ok st1"
      "infos_ok (vm_mem st1) start arch local lsize (hhdm_offset st1) (Suc (next_id b i)) (stack(next_id b i := p))"
      "stacks_ok s0 (vm_pmm st1) (Suc (next_id b i)) (stack(next_id b i := p))" "only_taken s0 (vm_pmm st1)"
      "spare (r + d) (q + 16 * d) (vm_pmm st1)" "hhdm_offset st1 = hhdm_offset st"
      by (rule setup_ap [OF Suc.prems(1-3) ap id(2,3) n])
    from Suc.hyps(1) [OF i(3), of st1, unfolded id(1), OF st1(2-4) i(2) st1(5) [unfolded d_def]]
    show ?thesis
      using bsp(1) [OF i(1)] False i(1) st1(1,6)
      by (subst x86_setup_cpus_loop.simps) (simp add: add.commute)
  qed
qed

text \<open>The start information of the boot core, in the order its fields are written.\<close>

lemma bsp_info:
  "core_start_info (store64 (p + 24) d (store64 (p + 8) b (store64 (p + 16) a (store64 p c m)))) p =
     \<lparr>si_core_id = c, si_stack = b, si_cpu_local = a, si_arch_pointer = d\<rparr>"
  using load64_next [where p = p and d = 24 and c = 0] load64_next [where p = p and d = 24 and c = 8]
    load64_next [where p = p and d = 24 and c = 16] load64_next [where p = p and d = 8 and c = 0]
    load64_next [where p = p and d = 8 and c = 16] load64_next [where p = p and d = 16 and c = 0]
  by (simp add: core_start_info_def load64_store64)

lemma spare_taken:
  assumes "spare (Suc r) p s" and "0 < unat pc" "unat pc \<le> p" and t: "t = PMM_MAP_TYPE_ALLOCATED \<or> t = PMM_MAP_TYPE_USED"
  obtains a s' where "pmm_alloc_ext pc PTM_PAGE_GRANULARITY t s = ok (a, s')" and "spare r (p - unat pc) s'"
    and "only_taken s s'" and "\<And>x. unat a \<le> x \<Longrightarrow> x < unat a + 4096 * unat pc \<Longrightarrow> type_at (live s') x = Some t"
proof -
  have wf: "wf_map (live s)"
    using assms(1) by (simp add: spare_def pmm_inv_def)
  obtain a s' where s': "pmm_alloc_ext pc PTM_PAGE_GRANULARITY t s = ok (a, s')" "fits_at s (unat a) (4096 * unat pc)"
    "took s (unat a) (4096 * unat pc) t s'" "spare r (p - unat pc) s'"
    using spare_alloc_ext [OF assms(1-3)] by blast
  have "only_taken s s'"
    by (rule took_only_taken [OF s'(3) _ t]) (use fits_at_free [OF wf s'(2)] assms(2) in simp_all)
  then show thesis
    using s' by (intro that [of a s']) (simp_all add: took_def)
qed

section \<open>The properties\<close>

text \<open>C36. On x86-64, for \<open>n\<close> cores of which one is the boot core, \<open>arch_setup_cpus\<close> returns; every core
  has its number, its own slice of the per-core area and a stack of its own, taken from free memory,
  that no other core shares. The descriptor blocks are an array of \<open>n\<close> in pages of their own; the boot
  core has block 0, but core \<open>c\<close> has block \<open>c + 1\<close> instead of \<open>c\<close>, so that the last one is past the
  array.\<close>

theorem x86_setup_cpus_aps:
  fixes st :: "'a vm_state_scheme"
  assumes "n = unat core_count" and "32 * n < 2 ^ 64" and "\<And>j. j < n \<Longrightarrow> is_bsp (of_nat j) \<longleftrightarrow> j = b" and "b < n"
    and "start_ap_ok start_ap start n"
    and "local_pages = MATH_ALIGN_UP (core_count * ki_cpu_local_size info) PTM_PAGE_GRANULARITY div PTM_PAGE_GRANULARITY"
    and "arch_pages = MATH_ALIGN_UP (sizeof_arch_core_start_info * core_count) PTM_PAGE_GRANULARITY div PTM_PAGE_GRANULARITY"
    and "0 < unat local_pages" and "0 < unat arch_pages"
    and "spare (n + 2) (unat local_pages + unat arch_pages + 16 * n) (vm_pmm st)"
  shows "\<exists>area blocks stack st'. x86_setup_cpus is_bsp start_ap start core_count info st =
      ok (area, MATH_ALIGN_UP (core_count * ki_cpu_local_size info) PTM_PAGE_GRANULARITY, st') \<and>
    infos_ok (vm_mem st') start (blocks + hhdm_offset st) area (ki_cpu_local_size info) (hhdm_offset st) n stack \<and>
    stacks_ok (vm_pmm st) (vm_pmm st') n stack \<and>
    (\<forall>x. unat blocks \<le> x \<longrightarrow> x < unat blocks + 4096 * unat arch_pages \<longrightarrow>
       type_at (live (vm_pmm st')) x = Some PMM_MAP_TYPE_ALLOCATED)"
proof -
  let ?h = "hhdm_offset st" and ?size = "ki_cpu_local_size info"
  let ?bytes = "MATH_ALIGN_UP (core_count * ?size) PTM_PAGE_GRANULARITY"
    and ?abytes = "MATH_ALIGN_UP (sizeof_arch_core_start_info * core_count) PTM_PAGE_GRANULARITY"
  have n1: "n + 2 = Suc (Suc (Suc (n - 1)))" "16 + 16 * (n - 1) = 16 * n"
    using assms(4) by simp_all
  obtain p s1 where s1: "pmm_alloc_ext local_pages PTM_PAGE_GRANULARITY PMM_MAP_TYPE_USED (vm_pmm st) = ok (p, s1)"
    "spare (Suc (Suc (n - 1))) (unat arch_pages + 16 * n) s1" "only_taken (vm_pmm st) s1"
    by (rule spare_taken [OF assms(10) [unfolded n1(1)] assms(8), of PMM_MAP_TYPE_USED]) simp_all
  obtain a s2 where s2: "pmm_alloc_ext arch_pages PTM_PAGE_GRANULARITY PMM_MAP_TYPE_ALLOCATED s1 = ok (a, s2)"
    "spare (Suc (n - 1)) (16 * n) s2" "only_taken s1 s2"
    "\<And>x. unat a \<le> x \<Longrightarrow> x < unat a + 4096 * unat arch_pages \<Longrightarrow> type_at (live s2) x = Some PMM_MAP_TYPE_ALLOCATED"
    by (rule spare_taken [OF s1(2) assms(9), of PMM_MAP_TYPE_ALLOCATED]) simp_all
  let ?area = "p + ?h" and ?blocks = "a + ?h"
  let ?m1 = "memset ?area 0 (unat ?bytes) (vm_mem st)"
  let ?m2 = "store64 (start + 16) ?area (store64 start 0 (memset start 0 (unat ?abytes) ?m1))"
  let ?st2 = "st\<lparr>vm_pmm := s2, vm_mem := ?m2\<rparr>"
  have blocks: "vm_alloc arch_pages (st\<lparr>vm_pmm := s1, vm_mem := ?m1\<rparr>) = ok (a, st\<lparr>vm_pmm := s2, vm_mem := ?m1\<rparr>)"
    by (simp add: vm_alloc_def pmm_alloc_def s2(1))
  have taken: "only_taken (vm_pmm st) (vm_pmm ?st2)"
    using only_taken_trans [OF s1(3) s2(3)] by simp
  have sp2: "spare (Suc (n - 1)) (16 + 16 * (n - 1)) (vm_pmm ?st2)"
    using s2(2) n1(2) by simp
  obtain q s3 where s3: "vm_alloc CORE_STACK_PGCNT ?st2 = ok (q, ?st2\<lparr>vm_pmm := s3\<rparr>)" "spare (n - 1) (16 * (n - 1)) s3"
    "only_taken s2 s3" "stacks_ok s2 s3 (Suc 0) (undefined(0 := q))"
    by (rule stack_alloc [OF sp2, of s2 0 undefined]) (simp_all add: stacks_ok_def)
  show ?thesis
  proof -
    let ?m3 = "store64 (start + 24) ?blocks (store64 (start + 8) (core_stack_top q ?h) ?m2)"
    let ?st3 = "st\<lparr>vm_pmm := s3, vm_mem := ?m3\<rparr>"
    have inv: "infos_ok (vm_mem ?st3) start ?blocks ?area ?size (hhdm_offset ?st3) (next_id b 0) (undefined(0 := q))"
      using bsp_info [of start ?blocks "core_stack_top q ?h" ?area 0]
      by (simp add: infos_ok_def next_id_def info_at_def core_stack_top_alt)
    obtain stack st' where st': "x86_setup_cpus_loop is_bsp start_ap start ?blocks ?area ?size 0 n (of_nat (next_id b 0)) ?st3 = ok st'"
      "infos_ok (vm_mem st') start ?blocks ?area ?size (hhdm_offset ?st3) n stack" "stacks_ok s2 (vm_pmm st') n stack"
      "only_taken s2 (vm_pmm st')"
      using setup_cpus_loop [OF assms(3-5,2) inv, of s2 0 0] s3(2-4) by (auto simp: next_id_def)
    have "x86_setup_cpus is_bsp start_ap start core_count info st = ok (?area, ?bytes, st')"
      using st'(1) s1(1) s3(1) assms(1) blocks
      by (simp add: x86_setup_cpus_def Let_def next_id_def flip: assms(6,7))
    moreover have "stacks_ok (vm_pmm st) (vm_pmm st') n stack"
      using stacks_ok_earlier [OF _ st'(3)] taken by simp
    moreover have "type_at (live (vm_pmm st')) x = Some PMM_MAP_TYPE_ALLOCATED"
      if "unat a \<le> x" "x < unat a + 4096 * unat arch_pages" for x
      using only_taken_used [OF st'(4) s2(4) [OF that]] by simp
    ultimately show ?thesis
      using st'(2) by auto
  qed
qed

definition two_core_map :: pmm_state where
  "two_core_map = state_of [\<lparr>me_base = 0x1000, me_length = 0x40000, me_type = PMM_MAP_TYPE_FREE\<rparr>]"

lemma two_core_map_spare: "spare 4 34 two_core_map"
proof (rule spareI)
  show "pmm_inv two_core_map"
    unfolding two_core_map_def
    by (rule pmm_inv_state_of) (simp_all add: entry_ok_def hi_def lo_def PMM_MAP_MAX_ENTRIES_def)
  show "fits_at two_core_map 0x1000 (4096 * 34)"
    by (simp add: fits_at_def two_core_map_def lo_def hi_def)
qed (simp_all add: PMM_MAP_MAX_ENTRIES_def two_core_map_def lo_def hi_def)

definition two_cores :: "unit vm_state_scheme" where
  "two_cores = \<lparr>vm_mem = (\<lambda>_. 0), vm_pmm = two_core_map, hhdm_offset = 0xFFFF800000000000,
     g_ptm = \<lparr>tplt = 0x200000, level_count = 4\<rparr>\<rparr>"

theorem x86_setup_cpus_aps_witness:
  "\<exists>area blocks stack st'. x86_setup_cpus (\<lambda>i. i = 1) (\<lambda>i p m. m) 0xFFFF900000000000 2
      \<lparr>ki_pagedb_entry_size = 16, ki_cpu_local_size = 64, ki_global_pointer = 0\<rparr> two_cores = ok (area, 4096, st') \<and>
    infos_ok (vm_mem st') 0xFFFF900000000000 (blocks + 0xFFFF800000000000) area 64 0xFFFF800000000000 2 stack \<and>
    stacks_ok two_core_map (vm_pmm st') 2 stack \<and>
    (\<forall>x. unat blocks \<le> x \<longrightarrow> x < unat blocks + 4096 \<longrightarrow>
       type_at (live (vm_pmm st')) x = Some PMM_MAP_TYPE_ALLOCATED)"
proof -
  have bsp: "((of_nat j :: u64) = 1) = (j = 1)" if "j < 2" for j
    using that by (auto simp: less_2_cases_iff)
  have pages: "MATH_ALIGN_UP (128 :: u64) PTM_PAGE_GRANULARITY = 4096" "MATH_ALIGN_UP (336 :: u64) PTM_PAGE_GRANULARITY = 4096"
    "(4096 :: u64) div PTM_PAGE_GRANULARITY = 1"
    by (code_simp)+
  have "unat (2 :: u64) = 2"
    by simp
  show ?thesis
    using x86_setup_cpus_aps [of 2 2 "\<lambda>i. i = 1" 1 "\<lambda>i p m. m" "0xFFFF900000000000" 1
        "\<lparr>ki_pagedb_entry_size = 16, ki_cpu_local_size = 64, ki_global_pointer = 0\<rparr>" 1 two_cores] bsp two_core_map_spare pages
    by (simp add: two_cores_def start_ap_ok_def sizeof_arch_core_start_info_def sizeof_arch_gdt_t_def sizeof_arch_gdt_tss_t_def)
qed

end
