(* ===== verification/Isa.thy ===== *)
theory Isa
  imports Cpus
begin

text \<open>
  The ISA string of RISC-V: \<open>parse_isa_string\<close> of \<open>pre_kernel/src/arch/riscv64/isa.c\<close>, which copies
  the part before the first underscore and the list of extensions after it into a block of its own.
  Lengths and counts are \<open>nat\<close>: \<open>strlen\<close> has returned an \<open>int\<close>.
\<close>

record riscv_isa =
  riscv_base_isa_string :: u64
  riscv_extension_count :: nat
  riscv_extentions :: u64

abbreviation underscore :: u8 where "underscore \<equiv> 0x5F"

text \<open>The first loop: the final \<open>isa_string_len\<close> and \<open>extention_count\<close>.\<close>

function isa_scan_loop :: "u64 \<Rightarrow> nat \<Rightarrow> nat \<Rightarrow> nat \<Rightarrow> nat \<Rightarrow> memory \<Rightarrow> nat \<times> nat" where
  "isa_scan_loop isa_string i isa_len isa_string_len extention_count m =
     (if i < isa_len then
        isa_scan_loop isa_string (Suc i) isa_len
          (if m (isa_string + of_nat i) = underscore \<and> isa_string_len = 0 then i else isa_string_len)
          (if m (isa_string + of_nat i) = underscore then Suc extention_count else extention_count) m
      else (isa_string_len, extention_count))"
  by pat_completeness auto
termination
  by (relation "measure (\<lambda>(s, i, n, l, c, m). n - i)") auto

partial_function (option) isa_end_loop :: "u64 \<Rightarrow> memory \<Rightarrow> u64 res" where
  "isa_end_loop e m = (if m e \<noteq> 0 \<and> m e \<noteq> underscore then isa_end_loop (e + 1) m else ok e)"

partial_function (option) isa_ext_loop :: "u64 \<Rightarrow> u64 \<Rightarrow> u64 \<Rightarrow> nat \<Rightarrow> memory \<Rightarrow> (nat \<times> memory) res" where
  "isa_ext_loop extensions p cursor ext_index m =
     (if m p = 0 then ok (ext_index, m)
      else res_bind (isa_end_loop p m)
        (\<lambda>e. let len = unat (e - p);
                 m = store64 (extensions + 8 * of_nat ext_index) cursor m;
                 m = memcpy cursor p len m;
                 m = m(cursor + of_nat len := 0);
                 cursor = cursor + of_nat (len + 1);
                 ext_index = ext_index + 1
             in if m e = 0 then ok (ext_index, m) else isa_ext_loop extensions (e + 1) cursor ext_index m))"

definition parse_isa_string :: "u64 \<Rightarrow> 'a vm_state_scheme \<Rightarrow> (riscv_isa \<times> 'a vm_state_scheme) res" where
  "parse_isa_string isa_string st =
     res_bind (strlen isa_string (vm_mem st))
       (\<lambda>isa_len.
          let (isa_string_len, extention_count) = isa_scan_loop isa_string 0 isa_len 0 0 (vm_mem st);
              info_size = isa_len + 1;
              info_size = info_size + (extention_count + 1) * 8;
              info_size = MATH_ALIGN_UP (of_nat info_size) PTM_PAGE_GRANULARITY
          in res_bind (vm_alloc (info_size div PTM_PAGE_GRANULARITY) st)
               (\<lambda>(p, st).
                  let info_buffer = p + hhdm_offset st;
                      cursor = info_buffer;
                      base_isa = cursor;
                      cursor = cursor + of_nat (isa_string_len + 1);
                      cursor = MATH_ALIGN_UP cursor 8;
                      extensions = cursor;
                      cursor = cursor + of_nat ((extention_count + 1) * 8);
                      m = memcpy base_isa isa_string isa_string_len (vm_mem st);
                      m = m(base_isa + of_nat isa_string_len := 0);
                      ext_start = isa_string + of_nat (isa_string_len + 1)
                  in res_bind (isa_ext_loop extensions ext_start cursor 0 m)
                       (\<lambda>(ext_index, m).
                          ok (\<lparr>riscv_base_isa_string = base_isa, riscv_extension_count = ext_index,
                                riscv_extentions = extensions\<rparr>, st\<lparr>vm_mem := m\<rparr>))))"

declare isa_end_loop.simps [code] isa_ext_loop.simps [code] isa_scan_loop.simps [simp del]

end
