(* ===== verification/Fresh.thy ===== *)
theory Fresh
  imports AddressSpace
begin

text \<open>
  Blocks of fresh memory: pages that were free, reached through the direct map, and what is copied
  into them. Shared by everything that allocates a block and fills it.
\<close>

lemma off_index: "j < 2 ^ 64 \<Longrightarrow> unat (B + of_nat j - B :: u64) = j"
  by (simp add: unat_of_nat_64)

lemma memcpy_disjoint:
  assumes "\<And>j k. j < count \<Longrightarrow> k < count \<Longrightarrow> dest + of_nat j \<noteq> src + of_nat k" and "count \<le> 2 ^ 64"
  shows "copied dest src count m (memcpy dest src count m)"
  using assms by (auto simp: copied_def memcpy_def memcpy_loop_spec in_array_def)

lemma pages_for:
  assumes "k + 4096 \<le> 2 ^ 64"
  shows "unat (MATH_ALIGN_UP (of_nat k) PTM_PAGE_GRANULARITY div PTM_PAGE_GRANULARITY) = (k + 4095) div 4096"
  using unat_ALIGN_UP_page [of "of_nat k"] assms by (simp add: unat_div unat_of_nat_64)

definition free_byte :: "'a vm_state_scheme \<Rightarrow> u64 \<Rightarrow> bool" where
  "free_byte st x \<longleftrightarrow> type_at (live (vm_pmm st)) (unat (x - hhdm_offset st)) = Some PMM_MAP_TYPE_FREE"

text \<open>A fresh block: the pages \<open>vm_alloc\<close> returns, at their direct-map addresses.\<close>

lemma vm_alloc_block:
  assumes sp: "spare (Suc r) q (vm_pmm st)" and pc: "0 < unat pc" "unat pc \<le> q" and h: "page_aligned (hhdm_offset st)"
  obtains p s where "vm_alloc pc st = ok (p, st\<lparr>vm_pmm := s\<rparr>)" and "page_aligned (p + hhdm_offset st)"
    and "spare r (q - unat pc) s" and "only_taken (vm_pmm st) s"
    and "\<And>x. in_array (p + hhdm_offset st) (4096 * unat pc) x \<Longrightarrow> free_byte st x"
proof -
  have wf: "wf_map (live (vm_pmm st))"
    using sp by (simp add: spare_def pmm_inv_def)
  obtain p s where p: "pmm_alloc_ext pc PTM_PAGE_GRANULARITY PMM_MAP_TYPE_ALLOCATED (vm_pmm st) = ok (p, s)"
    "4096 dvd unat p" "fits_at (vm_pmm st) (unat p) (4096 * unat pc)"
    "took (vm_pmm st) (unat p) (4096 * unat pc) PMM_MAP_TYPE_ALLOCATED s" "spare r (q - unat pc) s"
    using spare_alloc_ext [OF sp pc] by blast
  have taken: "only_taken (vm_pmm st) s"
    by (rule took_only_taken [OF p(4)]) (use fits_at_free [OF wf p(3)] pc in simp_all)
  have low: "unat p + 4096 * unat pc \<le> 2 ^ 51"
    by (rule spare_fits_low [OF sp p(3)]) (use pc in simp)
  have "free_byte st x" if "in_array (p + hhdm_offset st) (4096 * unat pc) x" for x
  proof -
    note x = that
    obtain i where i: "i < 4096 * unat pc" "x = p + hhdm_offset st + of_nat i"
      by (rule in_arrayE [OF x])
    then have "x - hhdm_offset st = p + of_nat i"
      by simp
    moreover have "unat (p + of_nat i) = unat p + i"
      using i(1) low by (intro unat_index [of _ "4096 * unat pc"]) simp_all
    ultimately show ?thesis
      using fits_at_free [OF wf p(3), of "unat p + i"] i(1) by (simp add: free_byte_def)
  qed
  then show thesis
    using that [of p s] p(1,2,5) taken h by (simp add: vm_alloc_def pmm_alloc_def page_aligned_add page_aligned_dvd [of p])
qed

text \<open>A block of \<open>j\<close> fresh pages at \<open>p\<close> that holds a copy of \<open>n\<close> bytes from \<open>src\<close>.\<close>

definition block_copied :: "u64 \<Rightarrow> u64 \<Rightarrow> nat \<Rightarrow> nat \<Rightarrow> 'a vm_state_scheme \<Rightarrow> 'a vm_state_scheme \<Rightarrow> bool" where
  "block_copied p src n j st st' \<longleftrightarrow> same_config st st' \<and> 4096 dvd unat p \<and> unat p + 4096 * j \<le> 2 ^ 51 \<and>
     fits_at (vm_pmm st) (unat p) (4096 * j) \<and>
     took (vm_pmm st) (unat p) (4096 * j) PMM_MAP_TYPE_ALLOCATED (vm_pmm st') \<and>
     copied (p + hhdm_offset st) src n (vm_mem st) (vm_mem st')"

lemma copy_block:
  fixes st :: "'a vm_state_scheme" and src :: u64
  assumes sp: "spare (Suc r) q (vm_pmm st)" and pc: "0 < unat pc" "unat pc \<le> q" and n: "n \<le> 4096 * unat pc"
    and src: "\<And>i. i < n \<Longrightarrow> \<not> free_byte st (src + of_nat i)"
  obtains p s where "vm_alloc pc st = ok (p, st\<lparr>vm_pmm := s\<rparr>)" and "spare r (q - unat pc) s"
    and "block_copied p src n (unat pc) st
      (st\<lparr>vm_pmm := s, vm_mem := memcpy (p + hhdm_offset st) src n (vm_mem st)\<rparr>)"
proof -
  have wf: "wf_map (live (vm_pmm st))"
    using sp by (simp add: spare_def pmm_inv_def)
  obtain p s where p: "pmm_alloc_ext pc PTM_PAGE_GRANULARITY PMM_MAP_TYPE_ALLOCATED (vm_pmm st) = ok (p, s)"
    "4096 dvd unat p" "fits_at (vm_pmm st) (unat p) (4096 * unat pc)"
    "took (vm_pmm st) (unat p) (4096 * unat pc) PMM_MAP_TYPE_ALLOCATED s" "spare r (q - unat pc) s"
    using spare_alloc_ext [OF sp pc] by blast
  have low: "unat p + 4096 * unat pc \<le> 2 ^ 51"
    by (rule spare_fits_low [OF sp p(3)]) (use pc in simp)
  have "p + hhdm_offset st + of_nat j \<noteq> src + of_nat k" if "j < n" "k < n" for j k
  proof
    assume "p + hhdm_offset st + of_nat j = src + of_nat k"
    then have "src + of_nat k - hhdm_offset st = p + of_nat j"
      by (simp add: algebra_simps)
    moreover have "unat (p + of_nat j) = unat p + j"
      using that(1) n low by (intro unat_index [of _ "4096 * unat pc"]) simp_all
    ultimately have "free_byte st (src + of_nat k)"
      using fits_at_free [OF wf p(3), of "unat p + j"] that(1) n by (simp add: free_byte_def)
    then show False
      using src [OF that(2)] by simp
  qed
  then have "copied (p + hhdm_offset st) src n (vm_mem st) (memcpy (p + hhdm_offset st) src n (vm_mem st))"
    using n low by (intro memcpy_disjoint) simp_all
  then show thesis
    using that [of p s] p low by (simp add: vm_alloc_def pmm_alloc_def block_copied_def same_config_def)
qed

lemma block_copied_bytes:
  "block_copied p src n j st st' \<Longrightarrow> n \<le> 4096 * j \<Longrightarrow> i < n \<Longrightarrow>
    vm_mem st' (p + hhdm_offset st + of_nat i) = vm_mem st (src + of_nat i)"
  by (simp add: block_copied_def copied_def in_array_index)

text \<open>It leaves all page tables alone, and the block is kept.\<close>

lemma block_copied_tables:
  assumes ok: "tables_ok fmt l root st" and blk: "block_copied p src n j st st'" and n: "n \<le> 4096 * j"
    and wf: "wf_map (live (vm_pmm st))"
  shows "tables_ok fmt l root st'" and "translate fmt st' l root va = translate fmt st l root va"
    and "tframes fmt (view st') l root = tframes fmt (view st) l root"
    and "kept fmt l root st a \<Longrightarrow> kept fmt l root st' a"
    and "i < 4096 * j \<Longrightarrow> kept fmt l root st' (p + hhdm_offset st + of_nat i)"
proof -
  let ?s = "vm_pmm st'" let ?st1 = "st\<lparr>vm_pmm := ?s\<rparr>"
  have b: "same_config st st'" "4096 dvd unat p" "unat p + 4096 * j \<le> 2 ^ 51" "fits_at (vm_pmm st) (unat p) (4096 * j)"
    "took (vm_pmm st) (unat p) (4096 * j) PMM_MAP_TYPE_ALLOCATED ?s"
    "copied (p + hhdm_offset st) src n (vm_mem st) (vm_mem st')"
    using blk by (simp_all add: block_copied_def)
  note alloc = alloc_kept [OF ok b(5) pmm_map_type.distinct(2)]
  have st': "st' = ?st1\<lparr>vm_mem := vm_mem st'\<rparr>"
    using b(1) by (cases st; cases st') (simp add: same_config_def)
  have new: "kept fmt l root ?st1 a" if a: "in_array (p + hhdm_offset st) (4096 * j) a" for a
  proof (rule alloc_new_kept [OF ok b(5) _ b(2,4) wf])
    obtain i where i: "i < 4096 * j" "a = p + hhdm_offset st + of_nat i"
      by (rule in_arrayE [OF a])
    then have "a - hhdm_offset st = p + of_nat i"
      by simp
    moreover have "unat (p + of_nat i) = unat p + i"
      using i(1) b(3) by (intro unat_index [of _ "4096 * j"]) simp_all
    ultimately show "unat p \<le> unat (a - hhdm_offset st)" "unat (a - hhdm_offset st) < unat p + 4096 * j"
      using i(1) by simp_all
  qed simp
  have only: "vm_mem st' a = vm_mem ?st1 a" if "\<not> kept fmt l root ?st1 a" for a
  proof -
    have "\<not> in_array (p + hhdm_offset st) n a"
      using new [of a] that n unfolding in_array_def by (meson less_le_trans)
    then show ?thesis
      using copied_outside [OF b(6)] by simp
  qed
  note w = write_kept [OF alloc(1) only, folded st']
  show "tables_ok fmt l root st'" "translate fmt st' l root va = translate fmt st l root va"
    "tframes fmt (view st') l root = tframes fmt (view st) l root"
    "kept fmt l root st a \<Longrightarrow> kept fmt l root st' a"
    using w alloc by simp_all
  show "kept fmt l root st' (p + hhdm_offset st + of_nat i)" if "i < 4096 * j"
    using w(3) new [of "p + hhdm_offset st + of_nat i"] in_array_index [OF that] b(3) by simp
qed

end
