(* ===== verification/IsaProps.thy ===== *)
theory IsaProps
  imports Isa CpusProps Fresh
begin

text \<open>
  What \<open>parse_isa_string\<close> leaves in memory. \<open>isa_split\<close> is the reference: the pieces between
  underscores, without the empty piece after a trailing one.
\<close>

section \<open>Splitting at underscores\<close>

function isa_split :: "u8 list \<Rightarrow> u8 list list" where
  "isa_split xs = (if xs = [] then [] else
     takeWhile ((\<noteq>) underscore) xs # isa_split (drop 1 (dropWhile ((\<noteq>) underscore) xs)))"
  by pat_completeness auto
termination
proof (relation "measure length")
  fix xs :: "u8 list" assume "xs \<noteq> []"
  then show "(drop 1 (dropWhile ((\<noteq>) underscore) xs), xs) \<in> measure length"
    using length_dropWhile_le [of "(\<noteq>) underscore" xs] by (cases xs) (auto split: if_splits)
qed simp

declare isa_split.simps [simp del]

fun isa_join :: "u8 list list \<Rightarrow> u8 list" where
  "isa_join [] = []"
| "isa_join [w] = w"
| "isa_join (w # v # ws) = w @ underscore # isa_join (v # ws)"

lemma isa_split_Nil [simp]: "isa_split [] = []"
  by (subst isa_split.simps) simp

lemma isa_split_last: "underscore \<notin> set w \<Longrightarrow> w \<noteq> [] \<Longrightarrow> isa_split w = [w]"
proof -
  assume w: "underscore \<notin> set w" "w \<noteq> []"
  then have "takeWhile ((\<noteq>) underscore) w = w" "dropWhile ((\<noteq>) underscore) w = []"
    by (auto simp: takeWhile_eq_all_conv dropWhile_eq_Nil_conv)
  then show ?thesis
    by (subst isa_split.simps) (simp only: w(2) if_False drop_Nil isa_split_Nil)
qed

lemma isa_split_next: "underscore \<notin> set w \<Longrightarrow> isa_split (w @ underscore # ys) = w # isa_split ys"
proof -
  assume w: "underscore \<notin> set w"
  then have "takeWhile ((\<noteq>) underscore) (w @ underscore # ys) = w"
    "dropWhile ((\<noteq>) underscore) (w @ underscore # ys) = underscore # ys"
    by (induction w) auto
  then show ?thesis
    by (subst isa_split.simps) simp
qed

lemma isa_split_cases [case_names empty last more]:
  assumes "P []" and "\<And>w. underscore \<notin> set w \<Longrightarrow> w \<noteq> [] \<Longrightarrow> P w"
    and "\<And>w ys. underscore \<notin> set w \<Longrightarrow> P ys \<Longrightarrow> P (w @ underscore # ys)"
  shows "P xs"
proof (induction xs rule: length_induct)
  case (1 xs)
  show ?case
  proof (cases "underscore \<in> set xs")
    case True
    then obtain w ys where "xs = w @ underscore # ys" "underscore \<notin> set w"
      using split_list_first by metis
    then show ?thesis
      using 1 assms(3) by simp
  next
    case False
    then show ?thesis
      using assms(1,2) by (cases xs) auto
  qed
qed

lemma isa_split_pieces: "w \<in> set (isa_split xs) \<Longrightarrow> underscore \<notin> set w"
  by (induction xs rule: isa_split_cases) (auto simp: isa_split_last isa_split_next)

lemma isa_split_join: "xs = [] \<or> last xs \<noteq> underscore \<Longrightarrow> isa_join (isa_split xs) = xs"
proof (induction xs rule: isa_split_cases)
  case (more w ys)
  then have "ys \<noteq> []" "last ys \<noteq> underscore"
    by (auto split: if_splits)
  moreover have "isa_split ys \<noteq> []"
    using \<open>ys \<noteq> []\<close> by (subst isa_split.simps) simp
  ultimately show ?case
    using more by (cases "isa_split ys") (simp_all add: isa_split_next)
qed (simp_all add: isa_split_last)

lemma length_isa_split: "length (isa_split xs) \<le> Suc (count_list xs underscore)"
  by (induction xs rule: isa_split_cases) (simp_all add: isa_split_last isa_split_next)

section \<open>Strings in memory\<close>

lemma cstring_iff:
  "cstring m p xs \<longleftrightarrow> (\<forall>i<length xs. m (p + of_nat i) = xs ! i \<and> xs ! i \<noteq> 0) \<and> m (p + of_nat (length xs)) = 0"
proof (induction xs arbitrary: p)
  case (Cons x xs)
  show ?case
    by (auto simp: Cons.IH All_less_Suc2 ac_simps)
qed simp

lemma cstring_same:
  assumes "cstring m p xs" and "\<And>i. i \<le> length xs \<Longrightarrow> m' (p + of_nat i) = m (p + of_nat i)"
  shows "cstring m' p xs"
  using assms by (simp add: cstring_iff)

lemma cstring_append: "cstring m p (w @ c # ys) \<Longrightarrow> cstring m (p + of_nat (Suc (length w))) ys"
proof (induction w arbitrary: p)
  case (Cons a w)
  then have "cstring m (p + 1) (w @ c # ys)"
    by simp
  from Cons.IH [OF this] show ?case
    unfolding length_Cons of_nat_Suc [of "Suc (length w)"] by (simp only: add.assoc)
qed simp

lemma isa_end_loop_spec:
  "(\<And>i. i < n \<Longrightarrow> m (p + of_nat i) \<noteq> 0 \<and> m (p + of_nat i) \<noteq> underscore) \<Longrightarrow>
    m (p + of_nat n) = 0 \<or> m (p + of_nat n) = underscore \<Longrightarrow> isa_end_loop p m = ok (p + of_nat n)"
proof (induction n arbitrary: p)
  case 0
  then show ?case
    by (subst isa_end_loop.simps) auto
next
  case (Suc n)
  have "isa_end_loop (p + 1) m = ok (p + 1 + of_nat n)"
  proof (rule Suc.IH)
    show "m (p + 1 + of_nat i) \<noteq> 0 \<and> m (p + 1 + of_nat i) \<noteq> underscore" if "i < n" for i
      using Suc.prems(1) [of "Suc i"] that by (simp add: ac_simps)
    show "m (p + 1 + of_nat n) = 0 \<or> m (p + 1 + of_nat n) = underscore"
      using Suc.prems(2) by (simp add: ac_simps)
  qed
  then show ?case
    using Suc.prems(1) [of 0] by (subst isa_end_loop.simps) (simp add: ac_simps)
qed

section \<open>The loop over the extensions\<close>

text \<open>Offsets are relative to the block at \<open>B\<close> of \<open>N\<close> bytes: the table of pointers is at \<open>t\<close>, the next
  string goes to \<open>c\<close>.\<close>

text \<open>One piece: the pointer, the bytes and the NUL.\<close>

definition isa_put :: "u64 \<Rightarrow> u64 \<Rightarrow> u64 \<Rightarrow> nat \<Rightarrow> memory \<Rightarrow> memory" where
  "isa_put slot cursor p len m = (memcpy cursor p len (store64 slot cursor m))(cursor + of_nat len := 0)"

lemma isa_put:
  fixes B :: u64
  assumes N: "N \<le> 2 ^ 64" and src: "\<And>i. i < length w \<Longrightarrow> \<not> in_array B N (p + of_nat i)"
    and w: "\<And>i. i < length w \<Longrightarrow> m (p + of_nat i) = w ! i \<and> w ! i \<noteq> 0"
    and s: "s + 8 \<le> c" and c: "c + length w < N"
  defines "m' \<equiv> isa_put (B + of_nat s) (B + of_nat c) p (length w) m"
  shows "load64 m' (B + of_nat s) = B + of_nat c" and "cstring m' (B + of_nat c) w"
    and "\<And>x. \<not> (s \<le> unat (x - B) \<and> unat (x - B) < s + 8) \<Longrightarrow> \<not> (c \<le> unat (x - B) \<and> unat (x - B) \<le> c + length w) \<Longrightarrow> m' x = m x"
proof -
  let ?m1 = "store64 (B + of_nat s) (B + of_nat c) m" and ?d = "B + of_nat c"
  have disj: "?d + of_nat j \<noteq> p + of_nat k" if "j < length w" "k < length w" for j k
    using src [OF that(2)] in_array_index [of "c + j" N B] c that(1) N by (auto simp: ac_simps)
  have cp: "copied ?d p (length w) ?m1 (memcpy ?d p (length w) ?m1)"
    using disj c N by (intro memcpy_disjoint) simp_all
  have off: "unat (x - ?d) = unat (x - B) - c" if "c \<le> unat (x - B)" for x
  proof -
    have "x - ?d = (x - B) - of_nat c"
      by simp
    then show ?thesis
      using that c N by (simp only:) (subst unat_diff_nowrap, simp_all add: unat_of_nat_64)
  qed
  have below: "\<not> in_array ?d (Suc (length w)) x" if "unat (x - B) < c \<or> c + length w < unat (x - B)" for x
  proof
    assume "in_array ?d (Suc (length w)) x"
    then obtain i where i: "i < Suc (length w)" "x = ?d + of_nat i"
      by (rule in_arrayE)
    then have "unat (x - B) = c + i"
      using off_index [of "c + i" B] c N by (simp add: ac_simps)
    then show False
      using that i(1) by simp
  qed
  have apart: "x \<noteq> ?d + of_nat (length w)" "\<not> in_array ?d (length w) x" if "\<not> in_array ?d (Suc (length w)) x" for x
    using that in_array_index [of "length w" "Suc (length w)" ?d] c N by (auto simp: in_array_def)
  have byte: "m' x = (if x = ?d + of_nat (length w) then 0 else if in_array ?d (length w) x then ?m1 (p + (x - ?d)) else ?m1 x)" for x
    using cp by (simp add: m'_def isa_put_def copied_def)
  have slot: "?m1 x = m x" if "\<not> (s \<le> unat (x - B) \<and> unat (x - B) < s + 8)" for x
  proof (rule store64_other)
    show "\<not> unat (x - (B + of_nat s)) < 8"
    proof
      assume less: "unat (x - (B + of_nat s)) < 8"
      have "unat (x - B) = s + unat (x - (B + of_nat s))"
        using off_index [of "s + unat (x - (B + of_nat s))" B] less s c N by (simp add: algebra_simps)
      then show False
        using that less by simp
    qed
  qed
  show other: "m' x = m x" if "\<not> (s \<le> unat (x - B) \<and> unat (x - B) < s + 8)"
    "\<not> (c \<le> unat (x - B) \<and> unat (x - B) \<le> c + length w)" for x
  proof -
    have "\<not> in_array ?d (Suc (length w)) x"
      using that(2) by (intro below) auto
    then show ?thesis
      using apart [of x] byte [of x] slot [OF that(1)] by simp
  qed
  have src1: "?m1 (p + of_nat i) = w ! i" if "i < length w" for i
  proof -
    have "\<not> unat (p + of_nat i - B) < N"
      using src [OF that] by (simp add: in_array_def)
    then show ?thesis
      using slot [of "p + of_nat i"] w [OF that] s c by simp
  qed
  have "m' (?d + of_nat i) = w ! i" if "i < length w" for i
    using byte [of "?d + of_nat i"] src1 [OF that] that c N in_array_index [of i "length w" ?d]
      of_nat_inj64 [of i "length w"] by simp
  moreover have "m' (?d + of_nat (length w)) = 0"
    by (simp add: byte)
  ultimately show "cstring m' ?d w"
    using w by (simp add: cstring_iff)
  have "load64 m' (B + of_nat s) = load64 ?m1 (B + of_nat s)"
  proof (rule load64_cong)
    fix i :: nat assume i: "i < 8"
    have x: "unat (B + of_nat s + of_nat i - B) = s + i"
      using off_index [of "s + i" B] i s c N by (simp add: ac_simps)
    have "\<not> in_array ?d (Suc (length w)) (B + of_nat s + of_nat i)"
      using i s x by (intro below) simp
    from apart [OF this] show "m' (B + of_nat s + of_nat i) = ?m1 (B + of_nat s + of_nat i)"
      by (simp only: byte if_False)
  qed
  then show "load64 m' (B + of_nat s) = ?d"
    by (simp add: load64_store64)
qed

text \<open>One round of the loop.\<close>

lemma isa_ext_loop_step:
  fixes B :: u64
  assumes N: "N \<le> 2 ^ 64" and str: "cstring m p (w @ zs)" and w: "underscore \<notin> set w" "w @ zs \<noteq> []"
    and zs: "zs = [] \<or> (\<exists>ys. zs = underscore # ys)"
    and src: "\<And>i. i \<le> length w \<Longrightarrow> \<not> in_array B N (p + of_nat i)"
    and fit: "t + 8 * (k + 1) \<le> c" "c + length w < N"
  defines "m' \<equiv> isa_put (B + of_nat (t + 8 * k)) (B + of_nat c) p (length w) m"
  shows "isa_ext_loop (B + of_nat t) p (B + of_nat c) k m =
    (if zs = [] then ok (k + 1, m')
     else isa_ext_loop (B + of_nat t) (p + of_nat (Suc (length w))) (B + of_nat (c + length w + 1)) (k + 1) m')"
    and "load64 m' (B + of_nat (t + 8 * k)) = B + of_nat c" and "cstring m' (B + of_nat c) w"
    and "\<not> (t + 8 * k \<le> unat (x - B) \<and> unat (x - B) < t + 8 * (k + 1)) \<Longrightarrow>
      \<not> (c \<le> unat (x - B) \<and> unat (x - B) \<le> c + length w) \<Longrightarrow> m' x = m x"
proof -
  have all: "m (p + of_nat i) = (w @ zs) ! i \<and> (w @ zs) ! i \<noteq> 0" if "i < length (w @ zs)" for i
    using str that by (simp add: cstring_iff)
  have bytes: "m (p + of_nat i) = w ! i \<and> w ! i \<noteq> 0" if "i < length w" for i
    using all [of i] that by (simp add: nth_append)
  have stop: "m (p + of_nat (length w)) = (if zs = [] then 0 else underscore)"
    using zs all [of "length w"] str by (auto simp: cstring_iff nth_append)
  have "w ! i \<noteq> underscore" if "i < length w" for i
    using w(1) that by (metis nth_mem)
  then have e: "isa_end_loop p m = ok (p + of_nat (length w))"
    using bytes stop by (intro isa_end_loop_spec) auto
  note put = isa_put [where w = w and p = p and m = m and s = "t + 8 * k" and c = c and B = B, OF N src bytes]
  show "load64 m' (B + of_nat (t + 8 * k)) = B + of_nat c" "cstring m' (B + of_nat c) w"
    using put(1,2) fit by (simp_all add: m'_def)
  show other: "m' x = m x" if "\<not> (t + 8 * k \<le> unat (x - B) \<and> unat (x - B) < t + 8 * (k + 1))"
    "\<not> (c \<le> unat (x - B) \<and> unat (x - B) \<le> c + length w)" for x
    unfolding m'_def by (rule put(3)) (use that fit in auto)
  have len: "unat (p + of_nat (length w) - p) = length w"
    using fit N by (intro off_index) simp
  have "\<not> unat (p + of_nat (length w) - B) < N"
    using src [of "length w"] by (simp add: in_array_def)
  then have stop': "m' (p + of_nat (length w)) = (if zs = [] then 0 else underscore)"
    using stop fit by (subst other) simp_all
  have "m p \<noteq> 0"
    using all [of 0] w(2) by simp
  moreover have "m' = (memcpy (B + of_nat c) p (length w) (store64 (B + of_nat t + 8 * of_nat k) (B + of_nat c) m))
      (B + of_nat c + of_nat (length w) := 0)"
    by (simp add: m'_def isa_put_def add.assoc)
  ultimately show "isa_ext_loop (B + of_nat t) p (B + of_nat c) k m =
    (if zs = [] then ok (k + 1, m')
     else isa_ext_loop (B + of_nat t) (p + of_nat (Suc (length w))) (B + of_nat (c + length w + 1)) (k + 1) m')"
    using e stop' len by (subst isa_ext_loop.simps) (simp add: Let_def add.assoc add.commute [of _ 1] add.left_commute [of _ 1])
qed

text \<open>The whole loop.\<close>

definition isa_strings :: "memory \<Rightarrow> u64 \<Rightarrow> nat \<Rightarrow> nat \<Rightarrow> u8 list list \<Rightarrow> bool" where
  "isa_strings m B t c ws \<longleftrightarrow> (\<forall>j<length ws. \<exists>d\<ge>c. load64 m (B + of_nat (t + 8 * j)) = B + of_nat d \<and>
     cstring m (B + of_nat d) (ws ! j) \<and> d < 2 ^ 64)"

definition changed_only :: "u64 \<Rightarrow> nat \<Rightarrow> nat \<Rightarrow> nat \<Rightarrow> nat \<Rightarrow> memory \<Rightarrow> memory \<Rightarrow> bool" where
  "changed_only B t u c e m m' \<longleftrightarrow>
     (\<forall>x. \<not> (t \<le> unat (x - B) \<and> unat (x - B) < u) \<longrightarrow> \<not> (c \<le> unat (x - B) \<and> unat (x - B) \<le> e) \<longrightarrow> m' x = m x)"

lemma isa_ext_loop_spec:
  fixes B :: u64
  assumes N: "N \<le> 2 ^ 64"
  shows "cstring m p xs \<Longrightarrow> (\<And>i. i \<le> length xs \<Longrightarrow> \<not> in_array B N (p + of_nat i)) \<Longrightarrow>
    t + 8 * (k + length (isa_split xs)) \<le> c \<Longrightarrow> c + length xs < N \<Longrightarrow>
    \<exists>m'. isa_ext_loop (B + of_nat t) p (B + of_nat c) k m = ok (k + length (isa_split xs), m') \<and>
      isa_strings m' B (t + 8 * k) c (isa_split xs) \<and>
      changed_only B (t + 8 * k) (t + 8 * (k + length (isa_split xs))) c (c + length xs) m m'"
proof (induction xs arbitrary: m p k c rule: isa_split_cases)
  case empty
  then show ?case
    by (subst isa_ext_loop.simps) (simp add: isa_strings_def changed_only_def)
next
  case (last w)
  let ?m = "isa_put (B + of_nat (t + 8 * k)) (B + of_nat c) p (length w) m"
  have fit: "t + 8 * (k + 1) \<le> c" "c + length w < N" and split: "isa_split w = [w]"
    using last isa_split_last [of w] by simp_all
  note step = isa_ext_loop_step [where zs = "[]" and m = m, unfolded append_Nil2, OF N last(3,1,2) _ last(4) fit]
  have "isa_ext_loop (B + of_nat t) p (B + of_nat c) k m = ok (k + 1, ?m)"
    using step(1) by simp
  moreover have "isa_strings ?m B (t + 8 * k) c [w]"
    using step(2,3) fit(2) N by (auto simp: isa_strings_def)
  moreover have "changed_only B (t + 8 * k) (t + 8 * (k + 1)) c (c + length w) m ?m"
    using step(4) by (simp add: changed_only_def)
  ultimately show ?case
    unfolding split by auto
next
  case (more w ys)
  let ?m = "isa_put (B + of_nat (t + 8 * k)) (B + of_nat c) p (length w) m"
  let ?n = "length (isa_split ys)"
  have split: "isa_split (w @ underscore # ys) = w # isa_split ys"
    using more(1) by (rule isa_split_next)
  have fit: "t + 8 * (k + 1) \<le> c" "c + length w < N" "t + 8 * (k + 1 + ?n) \<le> c + length w + 1"
    "c + length w + 1 + length ys < N" "t + 8 * (k + 1 + ?n) \<le> c"
    using more(5,6) by (simp_all add: split)
  have src: "\<not> in_array B N (p + of_nat i)" if "i \<le> length w" for i
    using more(4) [of i] that by simp
  have src': "\<not> in_array B N (p + of_nat (Suc (length w)) + of_nat i)" if "i \<le> length ys" for i
    using more(4) [of "Suc (length w) + i"] that by (simp add: add.assoc)
  note step = isa_ext_loop_step [where m = m, OF N more(3,1) _ _ src fit(1,2), simplified]
  have same: "?m x = m x" if "N \<le> unat (x - B)" for x
    using step(4) [of x] that fit by simp
  have "cstring ?m (p + of_nat (Suc (length w))) ys"
    using cstring_append [OF more(3)] by (rule cstring_same) (use src' same in \<open>simp add: in_array_def not_less\<close>)
  from more(2) [OF this src' fit(3,4)]
  obtain m' where m': "isa_ext_loop (B + of_nat t) (p + of_nat (Suc (length w))) (B + of_nat (c + length w + 1)) (k + 1) ?m =
      ok (k + 1 + ?n, m')"
    "isa_strings m' B (t + 8 * (k + 1)) (c + length w + 1) (isa_split ys)"
    "changed_only B (t + 8 * (k + 1)) (t + 8 * (k + 1 + ?n)) (c + length w + 1) (c + length w + 1 + length ys) ?m m'"
    by blast
  have late: "m' (B + of_nat j) = ?m (B + of_nat j)"
    if "t + 8 * k \<le> j \<and> j < t + 8 * (k + 1) \<or> c \<le> j \<and> j \<le> c + length w" for j
  proof -
    have "j < 2 ^ 64"
      using that fit N by linarith
    then show ?thesis
      using m'(3) that fit(5) unfolding changed_only_def by (elim allE [of _ "B + of_nat j"]) (auto simp: unat_of_nat_64 [simplified])
  qed
  have "load64 m' (B + of_nat (t + 8 * k)) = load64 ?m (B + of_nat (t + 8 * k))"
    using late [of "t + 8 * k + _"] by (intro load64_cong) (simp add: add.assoc)
  then have ptr: "load64 m' (B + of_nat (t + 8 * k)) = B + of_nat c"
    using step(2) by simp
  have str: "cstring m' (B + of_nat c) w"
    by (rule cstring_same [OF step(3)]) (use late [of "c + _"] in \<open>simp add: add.assoc\<close>)
  have "isa_strings m' B (t + 8 * k) c (w # isa_split ys)"
    unfolding isa_strings_def
  proof (intro allI impI)
    fix j assume j: "j < length (w # isa_split ys)"
    show "\<exists>d\<ge>c. load64 m' (B + of_nat (t + 8 * k + 8 * j)) = B + of_nat d \<and>
        cstring m' (B + of_nat d) ((w # isa_split ys) ! j) \<and> d < 2 ^ 64"
    proof (cases j)
      case 0
      then show ?thesis
        using ptr str fit(2) N by (intro exI [of _ c]) simp
    next
      case (Suc i)
      have same: "t + 8 * k + 8 * j = t + 8 * (k + 1) + 8 * i"
        using Suc by simp
      obtain d where "c + length w + 1 \<le> d" "load64 m' (B + of_nat (t + 8 * (k + 1) + 8 * i)) = B + of_nat d"
        "cstring m' (B + of_nat d) (isa_split ys ! i)" "d < 2 ^ 64"
        using m'(2) j Suc unfolding isa_strings_def by auto
      then show ?thesis
        unfolding same using Suc by (intro exI [of _ d]) simp
    qed
  qed
  moreover have "changed_only B (t + 8 * k) (t + 8 * (k + length (w # isa_split ys))) c (c + length (w @ underscore # ys)) m m'"
    unfolding changed_only_def
  proof (intro allI impI)
    fix x assume x: "\<not> (t + 8 * k \<le> unat (x - B) \<and> unat (x - B) < t + 8 * (k + length (w # isa_split ys)))"
      "\<not> (c \<le> unat (x - B) \<and> unat (x - B) \<le> c + length (w @ underscore # ys))"
    have "m' x = ?m x"
      by (rule m'(3) [unfolded changed_only_def, rule_format]) (use x in auto)
    also have "\<dots> = m x"
      using step(4) [of x] x by auto
    finally show "m' x = m x" .
  qed
  ultimately show ?case
    using step(1) m'(1) unfolding split by simp
qed

section \<open>The scan\<close>

lemma isa_scan_rest:
  "cstring m p s \<Longrightarrow> i \<le> length s \<Longrightarrow> l \<noteq> 0 \<Longrightarrow>
    isa_scan_loop p i (length s) l c m = (l, c + count_list (drop i s) underscore)"
proof (induction "length s - i" arbitrary: i c)
  case (Suc k)
  then have i: "i < length s" "drop i s = s ! i # drop (Suc i) s" "m (p + of_nat i) = s ! i"
    by (simp_all add: Cons_nth_drop_Suc cstring_iff)
  show ?case
    using Suc i by (subst isa_scan_loop.simps) auto
qed (simp add: isa_scan_loop.simps)

lemma isa_scan_first:
  assumes "cstring m p s" and s: "s = base @ underscore # rest" "base \<noteq> []" "underscore \<notin> set base"
  shows "i \<le> length base \<Longrightarrow> isa_scan_loop p i (length s) 0 c m = (length base, c + count_list (drop i s) underscore)"
proof (induction "length base - i" arbitrary: i)
  case 0
  then have i: "i = length base"
    by simp
  have "m (p + of_nat (length base)) = underscore"
    using assms(1) s(1) by (auto simp: cstring_iff nth_append dest: spec [of _ "length base"])
  moreover have "isa_scan_loop p (Suc (length base)) (length s) (length base) (Suc c) m = (length base, Suc c + count_list rest underscore)"
    using isa_scan_rest [OF assms(1), of "Suc (length base)" "length base" "Suc c"] s by simp
  ultimately show ?case
    unfolding i using s by (subst isa_scan_loop.simps) simp
next
  case (Suc k)
  then have i: "i < length base" "i < length s" "drop i s = base ! i # drop (Suc i) s"
    using s by (simp_all add: Cons_nth_drop_Suc [symmetric] nth_append)
  have "m (p + of_nat i) = base ! i"
    using assms(1) s(1) i(1) by (simp add: cstring_iff nth_append)
  moreover have "base ! i \<noteq> underscore"
    using s(3) i(1) by (metis nth_mem)
  ultimately show ?case
    using Suc i by (subst isa_scan_loop.simps) simp
qed

lemma ALIGN_UP_8_add:
  assumes "8 dvd unat B" shows "MATH_ALIGN_UP (B + y) 8 = B + MATH_ALIGN_UP y 8"
proof -
  have "unat (B + (y + 7)) mod 8 = (unat B + unat (y + 7)) mod 2 ^ 64 mod 8"
    by (simp add: unat_word_ariths)
  also have "\<dots> = (unat B + unat (y + 7)) mod 8"
    by (rule mod_mod_cancel) simp
  also have "\<dots> = unat (y + 7) mod 8"
    using assms by auto
  finally have "take_bit 3 (B + (y + 7)) = take_bit 3 (y + 7)"
    by (simp add: word_eq_unat take_bit_eq_mod unat_mod)
  then show ?thesis
    using clear_low_eq [of "B + (y + 7)" 3] clear_low_eq [of "y + 7" 3] by (simp add: MATH_ALIGN_UP_def add.assoc)
qed

lemma ALIGN_UP_8_nat:
  assumes "n + 8 \<le> 2 ^ 64" shows "MATH_ALIGN_UP (of_nat n) 8 = of_nat ((n + 7) div 8 * 8)"
proof -
  have "unat (MATH_ALIGN_UP (of_nat n) 8) = (n + 7) div 8 * 8"
    using unat_MATH_ALIGN_UP [of 3 "of_nat n"] assms by (simp add: unat_of_nat_64)
  moreover have "(n + 7) div 8 * 8 < 2 ^ 64"
    using assms by simp
  ultimately show ?thesis
    unfolding word_eq_unat using unat_of_nat_64 by metis
qed

section \<open>The property\<close>

text \<open>The bytes of the block that are used: the base string, padded to a multiple of 8, a pointer for each
  underscore and one more, and the extensions. \<open>info_size\<close> leaves out the padding.\<close>

definition isa_table :: "u8 list \<Rightarrow> nat" where
  "isa_table base = (length base + 8) div 8 * 8"

definition isa_bytes :: "u8 list \<Rightarrow> u8 list \<Rightarrow> nat" where
  "isa_bytes base rest = isa_table base + 8 * (count_list rest underscore + 2) + length rest + 1"

definition isa_info_size :: "u8 list \<Rightarrow> u8 list \<Rightarrow> nat" where
  "isa_info_size base rest = length base + 1 + 8 * (count_list rest underscore + 2) + length rest + 1"

text \<open>The base string is copied first.\<close>

lemma copy_base:
  fixes B :: u64
  assumes N: "N \<le> 2 ^ 64" "length w < N" and str: "cstring m p (w @ zs)"
    and src: "\<And>i. i \<le> length (w @ zs) \<Longrightarrow> \<not> in_array B N (p + of_nat i)"
  defines "m' \<equiv> (memcpy B p (length w) m)(B + of_nat (length w) := 0)"
  shows "cstring m' B w" and "\<not> unat (x - B) \<le> length w \<Longrightarrow> m' x = m x"
proof -
  have disj: "B + of_nat j \<noteq> p + of_nat k" if "j < length w" "k < length w" for j k
    using src [of k] in_array_index [of j N B] that N by auto
  have cp: "copied B p (length w) m (memcpy B p (length w) m)"
    using disj N by (intro memcpy_disjoint) simp_all
  have "m' (B + of_nat i) = w ! i" if "i < length w" for i
    using cp str in_array_index [of i "length w" B] of_nat_inj64 [of i "length w"] that N
    by (auto simp: m'_def copied_def cstring_iff nth_append)
  moreover have "w ! i \<noteq> 0" if "i < length w" for i
    using str that by (auto simp: cstring_iff nth_append dest: spec [of _ i])
  ultimately show "cstring m' B w"
    by (simp add: cstring_iff m'_def)
  assume x: "\<not> unat (x - B) \<le> length w"
  then have "x \<noteq> B + of_nat (length w)"
    using off_index [of "length w" B] N by auto
  then show "m' x = m x"
    using cp x by (simp add: m'_def copied_def in_array_def)
qed

definition isa_parsed :: "memory \<Rightarrow> riscv_isa \<Rightarrow> u8 list \<Rightarrow> u8 list list \<Rightarrow> bool" where
  "isa_parsed m info base exts \<longleftrightarrow> cstring m (riscv_base_isa_string info) base \<and>
     riscv_extension_count info = length exts \<and>
     (\<forall>k<length exts. cstring m (load64 m (riscv_extentions info + of_nat (8 * k))) (exts ! k))"

text \<open>The block filled: what the two copies leave in a block that is large enough and apart from the
  string.\<close>

lemma isa_block_filled:
  assumes N: "N \<le> 2 ^ 64" and size: "isa_bytes base rest \<le> N"
    and str: "cstring m isa (base @ underscore # rest)"
    and apart: "\<And>i. i \<le> length (base @ underscore # rest) \<Longrightarrow> \<not> in_array B N (isa + of_nat i)"
  defines "T \<equiv> B + of_nat (isa_table base)" and "n \<equiv> length (isa_split rest)"
    and "C \<equiv> B + of_nat (isa_table base + 8 * (count_list rest underscore + 2))"
    and "m1 \<equiv> (memcpy B isa (length base) m)(B + of_nat (length base) := 0)"
  obtains m' where "isa_ext_loop T (isa + of_nat (Suc (length base))) C 0 m1 = ok (n, m')"
    and "isa_parsed m' \<lparr>riscv_base_isa_string = B, riscv_extension_count = n, riscv_extentions = T\<rparr> base (isa_split rest)"
    and "\<And>x. \<not> in_array B N x \<Longrightarrow> m' x = m x"
proof -
  let ?t = "isa_table base"
  let ?c = "?t + 8 * (count_list rest underscore + 2)"
  have table: "length base < ?t"
    by (simp add: isa_table_def)
  have fit: "?c + length rest < N" "length base < N" "?t + 8 * (0 + length (isa_split rest)) \<le> ?c"
    using size table length_isa_split [of rest] by (simp_all add: isa_bytes_def)
  have base: "cstring m1 B base" "\<And>x. \<not> unat (x - B) \<le> length base \<Longrightarrow> m1 x = m x"
    using copy_base [OF N fit(2) str, of B] apart unfolding m1_def by blast+
  have src: "\<not> in_array B N (isa + of_nat (Suc (length base)) + of_nat i)" if "i \<le> length rest" for i
    using apart [of "Suc (length base) + i"] that by (simp add: add.assoc)
  have "cstring m1 (isa + of_nat (Suc (length base))) rest"
  proof (rule cstring_same [OF cstring_append [OF str]])
    fix i assume i: "i \<le> length rest"
    have "\<not> unat (isa + of_nat (Suc (length base)) + of_nat i - B) \<le> length base"
      using src [OF i] le_less_trans [OF _ fit(2)] unfolding in_array_def by blast
    then show "m1 (isa + of_nat (Suc (length base)) + of_nat i) = m (isa + of_nat (Suc (length base)) + of_nat i)"
      by (rule base(2))
  qed
  from isa_ext_loop_spec [OF N this src fit(3,1)]
  obtain m' where m': "isa_ext_loop T (isa + of_nat (Suc (length base))) C 0 m1 = ok (n, m')"
    "isa_strings m' B ?t ?c (isa_split rest)" "changed_only B ?t (?t + 8 * n) ?c (?c + length rest) m1 m'"
    by (auto simp: T_def C_def n_def)
  have early: "m' (B + of_nat i) = m1 (B + of_nat i)" if "i \<le> length base" for i
  proof -
    have "unat (B + of_nat i - B) = i"
      by (rule off_index) (use that fit(2) N in linarith)
    then show ?thesis
      using m'(3) that table fit(3) unfolding changed_only_def by (elim allE [of _ "B + of_nat i"]) linarith
  qed
  have "m' x = m x" if "\<not> in_array B N x" for x
    using m'(3) base(2) [of x] that fit by (auto simp: changed_only_def in_array_def n_def)
  moreover have "cstring m' B base"
    by (rule cstring_same [OF base(1)]) (rule early)
  then have "isa_parsed m' \<lparr>riscv_base_isa_string = B, riscv_extension_count = n, riscv_extentions = T\<rparr> base (isa_split rest)"
    using m'(2) by (auto simp: isa_parsed_def isa_strings_def T_def n_def add.assoc)
  ultimately show thesis
    using that m'(1) by blast
qed

text \<open>The first pass: the length of the base string and the number of extensions.\<close>

lemma isa_measured:
  assumes "cstring m isa (base @ underscore # rest)" and "base \<noteq> []" and "underscore \<notin> set base"
    and "length (base @ underscore # rest) \<le> INT_MAX"
  shows "strlen isa m = ok (length (base @ underscore # rest))"
    and "isa_scan_loop isa 0 (length (base @ underscore # rest)) 0 0 m = (length base, count_list rest underscore + 1)"
    and "isa_info_size base rest + 4096 \<le> 2 ^ 64"
    and "length (base @ underscore # rest) + 1 + (count_list rest underscore + 1 + 1) * 8 = isa_info_size base rest"
proof -
  show "strlen isa m = ok (length (base @ underscore # rest))"
    using strlen_loop_cstring [of m isa 0 "base @ underscore # rest"] assms(1,4) by (simp add: strlen_def)
  show "isa_scan_loop isa 0 (length (base @ underscore # rest)) 0 0 m = (length base, count_list rest underscore + 1)"
    using isa_scan_first [OF assms(1) refl assms(2,3), of 0 0] assms(3) by simp
  show "isa_info_size base rest + 4096 \<le> 2 ^ 64"
    "length (base @ underscore # rest) + 1 + (count_list rest underscore + 1 + 1) * 8 = isa_info_size base rest"
    using assms(4) count_le_length [of rest underscore] by (simp_all add: INT_MAX_def isa_info_size_def)
qed

lemma isa_table_aligned:
  assumes "page_aligned B" and "length base \<le> INT_MAX"
  shows "MATH_ALIGN_UP (B + of_nat (length base + 1)) 8 = B + of_nat (isa_table base)"
proof -
  have "4096 dvd unat B"
    using assms(1) by (simp add: page_aligned_dvd)
  then have "8 dvd unat B"
    by (rule dvd_trans [rotated]) simp
  then show ?thesis
    using ALIGN_UP_8_nat [of "length base + 1"] assms(2)
    unfolding ALIGN_UP_8_add [OF \<open>8 dvd unat B\<close>] by (simp add: isa_table_def INT_MAX_def add.commute)
qed

text \<open>C37. Let the ISA string be \<open>base\<close>, an underscore and \<open>rest\<close>, with nothing but \<open>base\<close> before the first
  underscore, and let what is written fit the pages allocated for it. Then \<open>parse_isa_string\<close> returns
  with the base string and an array of pointers to the pieces of \<open>rest\<close>, and writes to memory only
  that was free.\<close>

theorem parse_isa_string_splits:
  fixes st :: "'a vm_state_scheme"
  assumes "cstring (vm_mem st) isa s" and "s = base @ underscore # rest" and "base \<noteq> []" and "underscore \<notin> set base"
    and "length s \<le> INT_MAX" and "page_aligned (hhdm_offset st)"
    and "\<And>i. i \<le> length s \<Longrightarrow> \<not> free_byte st (isa + of_nat i)"
    and "pages = (isa_info_size base rest + 4095) div 4096" and "isa_bytes base rest \<le> 4096 * pages"
    and "spare (Suc r) pages (vm_pmm st)"
  shows "\<exists>info st'. parse_isa_string isa st = ok (info, st') \<and>
    isa_parsed (vm_mem st') info base (isa_split rest) \<and>
    (\<forall>x. \<not> free_byte st x \<longrightarrow> vm_mem st' x = vm_mem st x) \<and> only_taken (vm_pmm st) (vm_pmm st')"
proof -
  note str = assms(1) [unfolded assms(2)]
  note scan = isa_measured [OF str assms(3,4) assms(5) [unfolded assms(2)], folded assms(2)]
  define pc :: u64 where "pc = MATH_ALIGN_UP (of_nat (isa_info_size base rest)) PTM_PAGE_GRANULARITY div PTM_PAGE_GRANULARITY"
  have pc: "unat pc = pages"
    unfolding pc_def assms(8) by (rule pages_for [OF scan(3)])
  have pages: "0 < pages" "4096 * pages \<le> 2 ^ 64"
    using scan(3) by (simp_all add: assms(8) isa_info_size_def)
  obtain p s' where p: "vm_alloc pc st = ok (p, st\<lparr>vm_pmm := s'\<rparr>)" "page_aligned (p + hhdm_offset st)"
    "spare r (pages - unat pc) s'" "only_taken (vm_pmm st) s'"
    "\<And>x. in_array (p + hhdm_offset st) (4096 * unat pc) x \<Longrightarrow> free_byte st x"
    by (rule vm_alloc_block [OF assms(10), of pc]) (use pc pages assms(6) in simp_all)
  have apart: "\<not> in_array (p + hhdm_offset st) (4096 * pages) (isa + of_nat i)"
    if "i \<le> length (base @ underscore # rest)" for i
    using p(5) [of "isa + of_nat i"] assms(7) [of i] that pc by (auto simp: assms(2))
  obtain m' where m': "isa_ext_loop (p + hhdm_offset st + of_nat (isa_table base)) (isa + of_nat (Suc (length base)))
      (p + hhdm_offset st + of_nat (isa_table base + 8 * (count_list rest underscore + 2))) 0
      ((memcpy (p + hhdm_offset st) isa (length base) (vm_mem st))(p + hhdm_offset st + of_nat (length base) := 0)) =
        ok (length (isa_split rest), m')"
    "isa_parsed m' \<lparr>riscv_base_isa_string = p + hhdm_offset st, riscv_extension_count = length (isa_split rest),
      riscv_extentions = p + hhdm_offset st + of_nat (isa_table base)\<rparr> base (isa_split rest)"
    "\<And>x. \<not> in_array (p + hhdm_offset st) (4096 * pages) x \<Longrightarrow> m' x = vm_mem st x"
    by (rule isa_block_filled [OF pages(2) assms(9) str apart]) (assumption, rule that)
  have "parse_isa_string isa st = ok (\<lparr>riscv_base_isa_string = p + hhdm_offset st,
      riscv_extension_count = length (isa_split rest),
      riscv_extentions = p + hhdm_offset st + of_nat (isa_table base)\<rparr>, st\<lparr>vm_pmm := s', vm_mem := m'\<rparr>)"
    using p(1) [unfolded pc_def, folded scan(4)] m'(1) isa_table_aligned [OF p(2), of base] assms(2,5) scan(1,2)
    by (simp add: parse_isa_string_def Let_def add.assoc mult.commute)
  moreover have "m' x = vm_mem st x" if "\<not> free_byte st x" for x
    using m'(3) [of x] p(5) [of x] that pc by auto
  ultimately show ?thesis
    using m'(2) p(4) by auto
qed

text \<open>The string is \<open>rv_a_b\<close>, in memory the map does not list.\<close>

definition isa_example :: "u8 list" where
  "isa_example = [0x72, 0x76, underscore, 0x61, underscore, 0x62]"

definition isa_state :: "unit vm_state_scheme" where
  "isa_state = two_cores\<lparr>vm_mem := (\<lambda>x. if x - 0xFFFF800000100000 < 6 then isa_example ! unat (x - 0xFFFF800000100000) else 0)\<rparr>"

theorem parse_isa_string_splits_witness:
  "\<exists>info st'. parse_isa_string 0xFFFF800000100000 isa_state = ok (info, st') \<and>
    isa_parsed (vm_mem st') info [0x72, 0x76] [[0x61], [0x62]] \<and>
    (\<forall>x. \<not> free_byte isa_state x \<longrightarrow> vm_mem st' x = vm_mem isa_state x) \<and>
    only_taken (vm_pmm isa_state) (vm_pmm st')"
proof -
  have split: "isa_split [0x61, underscore, 0x62] = [[0x61], [0x62]]"
    using isa_split_next [of "[0x61]" "[0x62]"] isa_split_last [of "[0x62]"] by simp
  have str: "cstring (vm_mem isa_state) 0xFFFF800000100000 isa_example"
    by (simp add: isa_state_def isa_example_def)
  have used: "\<not> free_byte isa_state (0xFFFF800000100000 + of_nat i)" if "i \<le> 6" for i
  proof -
    have "unat (0xFFFF800000100000 + of_nat i - 0xFFFF800000000000 :: u64) = 0x100000 + i"
      using that by (simp add: unat_word_ariths unat_of_nat_64)
    then show ?thesis
      by (simp add: free_byte_def isa_state_def two_cores_def two_core_map_def contains_def lo_def hi_def)
  qed
  show ?thesis
    using parse_isa_string_splits [OF str, of "[0x72, 0x76]" "[0x61, underscore, 0x62]" 1 3, unfolded split] used
      spare_mono [OF two_core_map_spare, of 4 1]
    by (simp add: isa_example_def INT_MAX_def isa_state_def two_cores_def page_aligned_def isa_info_size_def isa_bytes_def isa_table_def)
qed

end
