(* ===== verification/RiscvMachine.thy ===== *)
theory RiscvMachine
  imports Cpus PtmRiscv
begin

text \<open>
  The RISC-V hart as the boot code uses it: the CSR macros of
  \<open>pre_kernel/include/arch/riscv64/arch/csr.h\<close>, \<open>arch_machine_init\<close> of
  \<open>pre_kernel/src/arch/riscv64/machine.c\<close>, and the SBI call and the \<open>satp\<close> value of
  \<open>pre_kernel/src/arch/riscv64/arch.c\<close>. The hart is the record of its supervisor CSRs, the global
  pointer and the environment calls made so far.
\<close>

section \<open>Control and status registers\<close>

datatype csr = sstatus | sie | stvec | sscratch | satp

record sbi_call =
  sbi_a7 :: u64
  sbi_a6 :: u64
  sbi_a0 :: u64

record riscv_hart =
  hart_csr :: "csr \<Rightarrow> u64"
  hart_gp :: u64
  hart_calls :: "sbi_call list"

definition ARCH_CSR_READ :: "csr \<Rightarrow> riscv_hart \<Rightarrow> u64" where
  "ARCH_CSR_READ r h = hart_csr h r"

definition ARCH_CSR_WRITE :: "csr \<Rightarrow> u64 \<Rightarrow> riscv_hart \<Rightarrow> riscv_hart" where
  "ARCH_CSR_WRITE r v h = h\<lparr>hart_csr := (hart_csr h)(r := v)\<rparr>"

definition ARCH_CSR_SET_BITS :: "csr \<Rightarrow> u64 \<Rightarrow> riscv_hart \<Rightarrow> riscv_hart" where
  "ARCH_CSR_SET_BITS r b h = h\<lparr>hart_csr := (hart_csr h)(r := hart_csr h r OR b)\<rparr>"

definition ARCH_CSR_CLEAR_BITS :: "csr \<Rightarrow> u64 \<Rightarrow> riscv_hart \<Rightarrow> riscv_hart" where
  "ARCH_CSR_CLEAR_BITS r b h = h\<lparr>hart_csr := (hart_csr h)(r := hart_csr h r AND NOT b)\<rparr>"

definition ARCH_CSR_SWAP :: "csr \<Rightarrow> u64 \<Rightarrow> riscv_hart \<Rightarrow> u64 \<times> riscv_hart" where
  "ARCH_CSR_SWAP r v h = (hart_csr h r, h\<lparr>hart_csr := (hart_csr h)(r := v)\<rparr>)"

definition ARCH_CSR_SSTATUS_SIE :: u64 where "ARCH_CSR_SSTATUS_SIE = push_bit 1 1"
definition ARCH_CSR_SSTATUS_FS_MASK :: u64 where "ARCH_CSR_SSTATUS_FS_MASK = push_bit 13 3"
definition ARCH_CSR_SSTATUS_FS_INITIAL :: u64 where "ARCH_CSR_SSTATUS_FS_INITIAL = push_bit 13 1"
definition ARCH_CSR_SSTATUS_SUM :: u64 where "ARCH_CSR_SSTATUS_SUM = push_bit 18 1"
definition ARCH_CSR_SSTATUS_MXR :: u64 where "ARCH_CSR_SSTATUS_MXR = push_bit 19 1"
definition ARCH_CSR_SATP_MODE_SV39 :: u64 where "ARCH_CSR_SATP_MODE_SV39 = push_bit 60 8"
definition ARCH_CSR_SATP_MODE_SV48 :: u64 where "ARCH_CSR_SATP_MODE_SV48 = push_bit 60 9"
definition ARCH_CSR_SATP_MODE_SV57 :: u64 where "ARCH_CSR_SATP_MODE_SV57 = push_bit 60 10"
definition ARCH_CSR_SATP_MODE_MASK :: u64 where "ARCH_CSR_SATP_MODE_MASK = push_bit 60 0xF"
definition ARCH_CSR_SATP_PPN_MASK :: u64 where "ARCH_CSR_SATP_PPN_MASK = 0x00000fffffffffff"
definition ARCH_CSR_SATP_MAKE :: "u64 \<Rightarrow> u64 \<Rightarrow> u64" where
  "ARCH_CSR_SATP_MAKE mode root_pa = mode OR (drop_bit 12 root_pa AND ARCH_CSR_SATP_PPN_MASK)"
definition ARCH_CSR_STVEC_MODE_DIRECT :: u64 where "ARCH_CSR_STVEC_MODE_DIRECT = 0"

section \<open>Environment calls\<close>

definition SBI_EXT_LEGACY_PUTCHAR :: u64 where "SBI_EXT_LEGACY_PUTCHAR = 1"

text \<open>The value the firmware returns in \<open>a0\<close> is an argument; nothing here uses it.\<close>

definition sbi_call1 :: "u64 \<Rightarrow> u64 \<Rightarrow> u64 \<Rightarrow> u64 \<Rightarrow> riscv_hart \<Rightarrow> u64 \<times> riscv_hart" where
  "sbi_call1 a0_ret ext fid a0_val h =
     (a0_ret, h\<lparr>hart_calls := hart_calls h @ [\<lparr>sbi_a7 = ext, sbi_a6 = fid, sbi_a0 = a0_val\<rparr>]\<rparr>)"

definition rv_debug_putc :: "u64 \<Rightarrow> u8 \<Rightarrow> riscv_hart \<Rightarrow> riscv_hart" where
  "rv_debug_putc a0_ret c h = snd (sbi_call1 a0_ret SBI_EXT_LEGACY_PUTCHAR 0 (ucast c) h)"

section \<open>Per-core initialisation\<close>

text \<open>\<open>riscv64_init_gp\<close> of \<open>handoff.S\<close> is \<open>la gp, 0\<close>: its argument is not used.\<close>

definition riscv64_init_gp :: "u64 \<Rightarrow> riscv_hart \<Rightarrow> riscv_hart" where
  "riscv64_init_gp gp h = h\<lparr>hart_gp := 0\<rparr>"

text \<open>\<open>trap_handler\<close> is the address of \<open>riscv64_early_trap_handler\<close>; the block that \<open>arch_pointer\<close> points
  to holds the global pointer alone.\<close>

definition rv_machine_init :: "u64 \<Rightarrow> u64 \<Rightarrow> memory \<Rightarrow> riscv_hart \<Rightarrow> riscv_hart" where
  "rv_machine_init trap_handler core_info m h =
     (let info = core_start_info m core_info;
          h = ARCH_CSR_CLEAR_BITS sstatus
                (ARCH_CSR_SSTATUS_FS_MASK OR ARCH_CSR_SSTATUS_SUM OR ARCH_CSR_SSTATUS_MXR OR ARCH_CSR_SSTATUS_SIE) h;
          h = ARCH_CSR_SET_BITS sstatus ARCH_CSR_SSTATUS_FS_INITIAL h;
          h = ARCH_CSR_WRITE sie 0 h;
          h = ARCH_CSR_WRITE stvec (trap_handler OR ARCH_CSR_STVEC_MODE_DIRECT) h;
          h = ARCH_CSR_WRITE sscratch (si_cpu_local info) h
      in riscv64_init_gp (load64 m (si_arch_pointer info)) h)"

section \<open>satp\<close>

definition make_satp_value :: "nat \<Rightarrow> u64 \<Rightarrow> u64" where
  "make_satp_value levels root_pa =
     (let mode = (if levels = 5 then ARCH_CSR_SATP_MODE_SV57
                  else if levels = 4 then ARCH_CSR_SATP_MODE_SV48
                  else ARCH_CSR_SATP_MODE_SV39)
      in ARCH_CSR_SATP_MAKE mode root_pa)"

text \<open>What \<open>arch_prepare_handoff\<close> reads back: the root and the number of levels in use.\<close>

definition satp_root :: "u64 \<Rightarrow> u64" where
  "satp_root satp_now = push_bit 12 (satp_now AND ARCH_CSR_SATP_PPN_MASK)"

definition satp_levels :: "u64 \<Rightarrow> nat res" where
  "satp_levels satp_now =
     (let cur_mode = drop_bit 60 satp_now
      in if cur_mode = 10 then ok 5
         else if cur_mode = 9 then ok 4
         else if cur_mode = 8 then ok 3
         else fail (Panic ''Unsupported SATP mode %lu''))"

section \<open>Extensions\<close>

text \<open>\<open>arch_parse_extentions\<close>: ACPI first, if the loader has reported it, then the device tree.\<close>

definition arch_parse_extentions ::
  "u64 \<Rightarrow> u64 \<Rightarrow> ('s \<Rightarrow> (bool \<times> 's) res) \<Rightarrow> ('s \<Rightarrow> (bool \<times> 's) res) \<Rightarrow> 's \<Rightarrow> (bool \<times> 's) res" where
  "arch_parse_extentions rdsp_physical dtb_physical acpi_parse fdt_parse s =
     (let fdt = (\<lambda>s. if dtb_physical \<noteq> 0 then fdt_parse s else ok (False, s))
      in if rdsp_physical \<noteq> 0
         then res_bind (acpi_parse s) (\<lambda>(found, s). if found then ok (True, s) else fdt s)
         else fdt s)"

end
