(* ===== verification/RiscvMachineProps.thy ===== *)
theory RiscvMachineProps
  imports RiscvMachine
begin

text \<open>
  The state \<open>arch_machine_init\<close> leaves a RISC-V hart in, bit by bit, and the order in which console
  bytes reach the firmware.
\<close>

lemma csr_steps:
  "hart_csr (ARCH_CSR_WRITE r v h) = (hart_csr h)(r := v)"
  "hart_csr (ARCH_CSR_SET_BITS r v h) = (hart_csr h)(r := hart_csr h r OR v)"
  "hart_csr (ARCH_CSR_CLEAR_BITS r v h) = (hart_csr h)(r := hart_csr h r AND NOT v)"
  "hart_csr (riscv64_init_gp g h) = hart_csr h" "hart_gp (riscv64_init_gp g h) = 0"
  "hart_gp (ARCH_CSR_WRITE r v h) = hart_gp h" "hart_gp (ARCH_CSR_SET_BITS r v h) = hart_gp h"
  "hart_gp (ARCH_CSR_CLEAR_BITS r v h) = hart_gp h"
  by (simp_all add: ARCH_CSR_WRITE_def ARCH_CSR_SET_BITS_def ARCH_CSR_CLEAR_BITS_def riscv64_init_gp_def)

lemma bit_3: "bit (3 :: u64) i \<longleftrightarrow> i < 2"
  using bit_mask_iff [of 2 i, where 'a = "64 word"] by (simp add: mask_eq_exp_minus_1) auto

lemma sstatus_bits:
  "bit ARCH_CSR_SSTATUS_SIE i \<longleftrightarrow> i = 1" "bit ARCH_CSR_SSTATUS_FS_INITIAL i \<longleftrightarrow> i = 13"
  "bit ARCH_CSR_SSTATUS_SUM i \<longleftrightarrow> i = 18" "bit ARCH_CSR_SSTATUS_MXR i \<longleftrightarrow> i = 19"
  "bit ARCH_CSR_SSTATUS_FS_MASK i \<longleftrightarrow> i = 13 \<or> i = 14"
proof -
  show "bit ARCH_CSR_SSTATUS_FS_MASK i \<longleftrightarrow> i = 13 \<or> i = 14"
    unfolding ARCH_CSR_SSTATUS_FS_MASK_def bit_push_bit_iff bit_3 by auto
qed (unfold ARCH_CSR_SSTATUS_SIE_def ARCH_CSR_SSTATUS_FS_INITIAL_def ARCH_CSR_SSTATUS_SUM_def ARCH_CSR_SSTATUS_MXR_def
    bit_flag, auto)

text \<open>After \<open>arch_machine_init\<close> a hart has supervisor interrupts off, the floating point state
  \<open>Initial\<close>, neither SUM nor MXR, every other status bit as before, no interrupt source enabled, its
  part of the per-core area in \<open>sscratch\<close> and a direct-mode trap vector; the address space is as it was.
  The global pointer is 0 whatever the start information holds.\<close>

theorem rv_machine_init_csrs:
  "(bit (hart_csr (rv_machine_init trap p m h) sstatus) i \<longleftrightarrow>
      i = 13 \<or> bit (hart_csr h sstatus) i \<and> i \<noteq> 1 \<and> i \<noteq> 14 \<and> i \<noteq> 18 \<and> i \<noteq> 19) \<and>
    hart_csr (rv_machine_init trap p m h) sie = 0 \<and>
    hart_csr (rv_machine_init trap p m h) sscratch = si_cpu_local (core_start_info m p) \<and>
    hart_csr (rv_machine_init trap p m h) stvec = trap \<and>
    hart_csr (rv_machine_init trap p m h) satp = hart_csr h satp \<and>
    hart_gp (rv_machine_init trap p m h) = 0"
proof -
  have "bit (hart_csr (rv_machine_init trap p m h) sstatus) i \<longleftrightarrow>
      i = 13 \<or> bit (hart_csr h sstatus) i \<and> i \<noteq> 1 \<and> i \<noteq> 14 \<and> i \<noteq> 18 \<and> i \<noteq> 19"
    using bit_imp_le_length [of "hart_csr h sstatus" i]
    by (auto simp: rv_machine_init_def Let_def csr_steps sstatus_bits bit_or_iff bit_and_iff bit_not_iff)
  moreover have "hart_csr (rv_machine_init trap p m h) sscratch = si_cpu_local (core_start_info m p)"
    "hart_csr (rv_machine_init trap p m h) sie = 0" "hart_csr (rv_machine_init trap p m h) stvec = trap"
    "hart_csr (rv_machine_init trap p m h) satp = hart_csr h satp" "hart_gp (rv_machine_init trap p m h) = 0"
    by (simp_all add: rv_machine_init_def Let_def csr_steps ARCH_CSR_STVEC_MODE_DIRECT_def)
  ultimately show ?thesis
    by blast
qed

text \<open>Bytes printed with \<open>arch_debug_putc\<close> become calls of the firmware's console in the same order.\<close>

lemma rv_debug_putc_calls:
  "hart_calls (fold (rv_debug_putc r) bs h) =
     hart_calls h @ map (\<lambda>b. \<lparr>sbi_a7 = SBI_EXT_LEGACY_PUTCHAR, sbi_a6 = 0, sbi_a0 = ucast b\<rparr>) bs"
  by (induction bs arbitrary: h) (simp_all add: rv_debug_putc_def sbi_call1_def)

end
