(* ===== verification/Handoff.thy ===== *)
theory Handoff
  imports RiscvMachine X86Machine PtmX86
begin

text \<open>
  The way into the kernel: \<open>arch_prepare_handoff\<close> and \<open>arch_handoff_to_kernel\<close> of
  \<open>pre_kernel/src/arch/x86_64/arch.c\<close> and \<open>pre_kernel/src/arch/riscv64/arch.c\<close>, with the trampolines
  of \<open>handoff.asm\<close> and \<open>handoff.S\<close> they copy and call. A trampoline lies at the symbol \<open>handoff\<close> and
  ends at \<open>handoff_end\<close>. The stack of the kernel is accessed at its direct-map address, which both
  sets of page tables map alike. The log lines are left out.
\<close>

section \<open>x86-64\<close>

definition x86_prepare_handoff :: "u64 \<Rightarrow> u64 \<Rightarrow> x86_cpu \<Rightarrow> x86_state \<Rightarrow> (u64 \<times> x86_state) res" where
  "x86_prepare_handoff handoff handoff_end cpu st =
     (let sz = MATH_ALIGN_UP (handoff_end - handoff) PTM_PAGE_GRANULARITY div PTM_PAGE_GRANULARITY
      in res_bind (vm_alloc sz st)
           (\<lambda>(boot_trampoline_alloc, st).
              let st = st\<lparr>vm_mem := memcpy (boot_trampoline_alloc + hhdm_offset st) handoff
                            (unat (handoff_end - handoff)) (vm_mem st)\<rparr>;
                  current_cr3 = arch_cr_read_cr3 cpu;
                  levels = (if arch_cr_read_cr4 cpu AND push_bit 12 1 \<noteq> 0 then 5 else 4)
              in res_bind (ptm_map_at current_cr3 levels 0x1000 boot_trampoline_alloc (sz * PTM_PAGE_GRANULARITY)
                             (PTM_FLAG_READ OR PTM_FLAG_EXEC) st)
                   (\<lambda>st. res_bind (ptm_map 0x1000 boot_trampoline_alloc (sz * PTM_PAGE_GRANULARITY)
                                     (PTM_FLAG_READ OR PTM_FLAG_EXEC) st)
                      (\<lambda>st. ok (0x1000, st)))))"

datatype x86_reg = RAX | RBX | RCX | RDX | RSI | RDI | RBP | RSP
  | R8 | R9 | R10 | R11 | R12 | R13 | R14 | R15

record x86_context =
  ctx_cpu :: x86_cpu
  ctx_reg :: "x86_reg \<Rightarrow> u64"
  ctx_rip :: u64
  ctx_rflags :: u64
  ctx_mem :: memory

definition x86_mov :: "x86_reg \<Rightarrow> u64 \<Rightarrow> x86_context \<Rightarrow> x86_context" where
  "x86_mov r v c = c\<lparr>ctx_reg := (ctx_reg c)(r := v)\<rparr>"

definition x86_push :: "u64 \<Rightarrow> x86_context \<Rightarrow> x86_context" where
  "x86_push v c = (let sp = ctx_reg c RSP - 8 in (x86_mov RSP sp c)\<lparr>ctx_mem := store64 sp v (ctx_mem c)\<rparr>)"

definition x86_pop :: "x86_context \<Rightarrow> u64 \<times> x86_context" where
  "x86_pop c = (load64 (ctx_mem c) (ctx_reg c RSP), x86_mov RSP (ctx_reg c RSP + 8) c)"

definition x86_popfq :: "x86_context \<Rightarrow> x86_context" where
  "x86_popfq c = (let (v, c) = x86_pop c in c\<lparr>ctx_rflags := v\<rparr>)"

definition x86_ret :: "x86_context \<Rightarrow> x86_context" where
  "x86_ret c = (let (v, c) = x86_pop c in c\<lparr>ctx_rip := v\<rparr>)"

text \<open>\<open>xor r, r\<close> for each register of the list.\<close>

definition x86_clear :: "x86_reg list \<Rightarrow> x86_context \<Rightarrow> x86_context" where
  "x86_clear rs c = fold (\<lambda>r. x86_mov r 0) rs c"

definition x86_64_kernel_handoff :: "x86_context \<Rightarrow> x86_context" where
  "x86_64_kernel_handoff c =
     (let c = c\<lparr>ctx_cpu := arch_cr_write_cr3 (ctx_reg c RDX) (ctx_cpu c)\<rparr>;
          c = x86_clear [RBP] c;
          c = x86_mov RSP (ctx_reg c RSI) c;
          c = x86_push 0 c;
          c = x86_push 0 c;
          c = x86_push (ctx_reg c RDI) c;
          c = x86_mov RDI (ctx_reg c RCX) c;
          c = x86_mov RSI (ctx_reg c R8) c;
          c = x86_clear [RBX, RCX, RDX, R8, R9, R10, R11, R12, R13, R14, R15] c;
          c = c\<lparr>ctx_rflags := ctx_rflags c AND NOT (push_bit 10 1)\<rparr>;
          c = x86_push 2 c;
          c = x86_popfq c
      in x86_ret c)"

text \<open>The call of \<open>g_boot_trampoline\<close>: the arguments in the registers of the calling convention, the
  return address on the current stack.\<close>

definition x86_handoff_to_kernel :: "u64 \<Rightarrow> u64 \<Rightarrow> u64 \<Rightarrow> u64 \<Rightarrow> ptm_t \<Rightarrow> x86_context \<Rightarrow> x86_context" where
  "x86_handoff_to_kernel entry stack boot_info cid ptm c =
     (let c = x86_mov RDI entry c;
          c = x86_mov RSI stack c;
          c = x86_mov RDX (tplt ptm) c;
          c = x86_mov RCX boot_info c;
          c = x86_mov R8 cid c;
          c = x86_push (ctx_rip c) c
      in x86_64_kernel_handoff c)"

section \<open>RISC-V\<close>

definition rv_prepare_handoff :: "u64 \<Rightarrow> u64 \<Rightarrow> riscv_hart \<Rightarrow> riscv_state \<Rightarrow> (u64 \<times> riscv_state) res" where
  "rv_prepare_handoff handoff handoff_end hart st =
     (let trampoline_bytes = handoff_end - handoff;
          pages = MATH_ALIGN_UP trampoline_bytes PTM_PAGE_GRANULARITY div PTM_PAGE_GRANULARITY
      in res_bind (vm_alloc pages st)
           (\<lambda>(trampoline_phys, st).
              let trampoline_virt = trampoline_phys + hhdm_offset st;
                  st = st\<lparr>vm_mem := memcpy trampoline_virt handoff (unat trampoline_bytes) (vm_mem st)\<rparr>;
                  trampoline_pa = trampoline_phys;
                  trampoline_sz = pages * PTM_PAGE_GRANULARITY;
                  satp_now = ARCH_CSR_READ satp hart;
                  cur_root = satp_root satp_now
              in res_bind (satp_levels satp_now)
                   (\<lambda>cur_levels.
                      res_bind (rv_ptm_map_at cur_root cur_levels trampoline_pa trampoline_pa trampoline_sz
                                  (RV_PTM_FLAG_READ OR RV_PTM_FLAG_EXEC) st)
                        (\<lambda>st. res_bind (rv_ptm_map trampoline_pa trampoline_pa trampoline_sz
                                          (RV_PTM_FLAG_READ OR RV_PTM_FLAG_EXEC) st)
                           (\<lambda>st. ok (trampoline_pa, st))))))"

datatype rv_reg = Sp | T0 | T3 | T4 | T5 | T6 | A0 | A1 | A2 | A3 | A4 | A5 | A6 | A7

record rv_context =
  rvc_hart :: riscv_hart
  rvc_reg :: "rv_reg \<Rightarrow> u64"
  rvc_pc :: u64

definition rv_set :: "rv_reg \<Rightarrow> u64 \<Rightarrow> rv_context \<Rightarrow> rv_context" where
  "rv_set r v c = c\<lparr>rvc_reg := (rvc_reg c)(r := v)\<rparr>"

definition rv_clear :: "rv_reg list \<Rightarrow> rv_context \<Rightarrow> rv_context" where
  "rv_clear rs c = fold (\<lambda>r. rv_set r 0) rs c"

definition riscv64_kernel_handoff :: "rv_context \<Rightarrow> rv_context" where
  "riscv64_kernel_handoff c =
     (let c = rv_set Sp (rvc_reg c A1) c;
          c = rv_set T0 (rvc_reg c A0) c;
          c = c\<lparr>rvc_hart := ARCH_CSR_WRITE satp (rvc_reg c A2) (rvc_hart c)\<rparr>;
          c = rv_set A0 (rvc_reg c A3) c;
          c = rv_set A1 (rvc_reg c A4) c;
          c = rv_clear [A2, A3, A4, A5, A6, A7, T3, T4, T5, T6] c
      in c\<lparr>rvc_pc := rvc_reg c T0\<rparr>)"

definition rv_handoff_to_kernel :: "u64 \<Rightarrow> u64 \<Rightarrow> u64 \<Rightarrow> u64 \<Rightarrow> ptm_t \<Rightarrow> rv_context \<Rightarrow> rv_context" where
  "rv_handoff_to_kernel entry stack boot_info cid ptm c =
     (let satp_val = make_satp_value (level_count ptm) (tplt ptm);
          c = rv_set A0 entry c;
          c = rv_set A1 stack c;
          c = rv_set A2 satp_val c;
          c = rv_set A3 boot_info c;
          c = rv_set A4 cid c
      in riscv64_kernel_handoff c)"

end
