(* ===== verification/TwoSpaces.thy ===== *)
theory TwoSpaces
  imports Fresh
begin

text \<open>
  Two sets of page tables in one memory: the tables the processor runs on and those of the kernel.
  The locale \<open>two_spaces\<close> joins two contracts \<open>address_space\<close>; mapping the same region in both
  keeps each apart from the other.
\<close>

text \<open>A change that is confined to one set of tables leaves the other alone.\<close>

definition apart :: "pt_format \<Rightarrow> nat \<Rightarrow> u64 \<Rightarrow> nat \<Rightarrow> u64 \<Rightarrow> 'a vm_state_scheme \<Rightarrow> bool" where
  "apart fmt n root n' root' st \<longleftrightarrow> tframes fmt (view st) n root \<inter> tframes fmt (view st) n' root' = {}"

lemma apart_sym: "apart fmt n root n' root' st \<longleftrightarrow> apart fmt n' root' n root st"
  by (auto simp: apart_def)

lemma other_tables:
  assumes kept: "others_kept fmt n root st st'" and cfg: "same_config st st'"
    and ok: "tables_ok fmt n' root' st" and apart: "apart fmt n root n' root' st"
  shows "tables_ok fmt n' root' st'" and "translate fmt st' n' root' va = translate fmt st n' root' va"
    and "apart fmt n root n' root' st'" and "kept fmt n root st a \<Longrightarrow> kept fmt n' root' st a \<Longrightarrow> kept fmt n' root' st' a"
proof -
  have h: "hhdm_offset st' = hhdm_offset st"
    using cfg by (rule same_config_hhdm)
  have "agree_on {f} (view st) (view st')" if "f \<in> tframes fmt (view st) n' root'" for f
    using kept ok apart that by (auto simp: others_kept_def tables_ok_def apart_def frame_ok_def)
  then have "agree_on (tframes fmt (view st) n' root') (view st) (view st')"
    by (simp add: agree_on_def)
  note same = tree_cong [OF this]
  show "tables_ok fmt n' root' st'"
    using ok kept h same by (auto simp: tables_ok_def others_kept_def)
  show "translate fmt st' n' root' va = translate fmt st n' root' va"
    by (simp add: translate_def same)
  show "apart fmt n root n' root' st'"
    using kept ok apart unfolding apart_def same(1) others_kept_def tables_ok_def by blast
  show "kept fmt n' root' st' a" if "kept fmt n root st a" "kept fmt n' root' st a"
    using kept that h same(1) by (auto simp: kept_def others_kept_def)
qed

definition mapped_as ::
  "pt_format \<Rightarrow> nat \<Rightarrow> u64 \<Rightarrow> bool \<times> bool \<times> bool \<Rightarrow> u64 \<Rightarrow> u64 \<Rightarrow> nat \<Rightarrow> 'a vm_state_scheme \<Rightarrow> 'a vm_state_scheme \<Rightarrow> bool" where
  "mapped_as fmt n root perms v p len st st' \<longleftrightarrow> tables_ok fmt n root st' \<and>
     (\<forall>va. translate fmt st' n root va =
       (if unat (va - v) < len then Some (p + (va - v), perms) else translate fmt st n root va))"

locale two_spaces =
  cur: address_space map_cur fmt n root cfg flags_ok perms +
  ker: address_space map_ker fmt n' root' cfg flags_ok perms
  for map_cur map_ker :: "u64 \<Rightarrow> u64 \<Rightarrow> u64 \<Rightarrow> u8 \<Rightarrow> 'a vm_state_scheme \<Rightarrow> 'a vm_state_scheme res"
    and fmt :: pt_format and n n' :: nat and root root' :: u64
    and cfg :: "'a vm_state_scheme \<Rightarrow> bool"
    and flags_ok :: "u8 \<Rightarrow> bool" and perms :: "u8 \<Rightarrow> bool \<times> bool \<times> bool"
begin

lemma map_both:
  assumes "cfg st" and "flags_ok flags" and ok: "tables_ok fmt n root st" "tables_ok fmt n' root' st"
    and ap: "apart fmt n root n' root' st"
    and al: "4096 dvd unat v" "4096 dvd unat p" "4096 dvd unat len"
    and can: "region_canonical n v (unat len)" "region_canonical n' v (unat len)" and low: "unat p + unat len \<le> 2 ^ 51"
    and un: "unmapped fmt n root v (unat len) st" "unmapped fmt n' root' v (unat len) st"
    and sp: "spare (r + unat len div 4096 * (n' - 1) + unat len div 4096 * (n - 1))
      (q + unat len div 4096 * (n' - 1) + unat len div 4096 * (n - 1)) (vm_pmm st)"
  obtains st1 st2 where "map_cur v p len flags st = ok st1" and "map_ker v p len flags st1 = ok st2"
    and "mapped_as fmt n root (perms flags) v p (unat len) st st2"
    and "mapped_as fmt n' root' (perms flags) v p (unat len) st st2"
    and "same_config st st2" and "apart fmt n root n' root' st2" and "spare r q (vm_pmm st2)"
    and "\<And>a. kept fmt n root st a \<Longrightarrow> kept fmt n' root' st a \<Longrightarrow> vm_mem st2 a = vm_mem st a"
proof -
  obtain st1 where st1: "map_cur v p len flags st = ok st1"
    "region_mapped fmt n root (perms flags) v p (unat len) st st1"
    "spare (r + unat len div 4096 * (n' - 1)) (q + unat len div 4096 * (n' - 1)) (vm_pmm st1)" "cfg st1"
    by (rule cur.map_spare [OF assms(1,2) ok(1) al can(1) low un(1) sp])
  have m1: "same_config st st1" "others_kept fmt n root st st1" "tables_ok fmt n root st1"
    "\<And>va. translate fmt st1 n root va = (if unat (va - v) < unat len then Some (p + (va - v), perms flags)
      else translate fmt st n root va)"
    using st1(2) by (simp_all add: region_mapped_def)
  note k1 = other_tables [OF m1(2,1) ok(2) ap]
  have un1: "unmapped fmt n' root' v (unat len) st1"
    using un(2) by (simp add: unmapped_def k1(2))
  obtain st2 where st2: "map_ker v p len flags st1 = ok st2"
    "region_mapped fmt n' root' (perms flags) v p (unat len) st1 st2" "spare r q (vm_pmm st2)" "cfg st2"
    by (rule ker.map_spare [OF st1(4) assms(2) k1(1) al can(2) low un1 st1(3)])
  have m2: "same_config st1 st2" "others_kept fmt n' root' st1 st2" "tables_ok fmt n' root' st2"
    "\<And>va. translate fmt st2 n' root' va = (if unat (va - v) < unat len then Some (p + (va - v), perms flags)
      else translate fmt st1 n' root' va)"
    using st2(2) by (simp_all add: region_mapped_def)
  note k2 = other_tables [OF m2(2,1) m1(3), unfolded apart_sym [of fmt n'], OF k1(3)]
  show thesis
  proof (rule that [OF st1(1) st2(1)])
    show "mapped_as fmt n root (perms flags) v p (unat len) st st2"
      by (simp add: mapped_as_def k2(1,2) m1(4))
    show "mapped_as fmt n' root' (perms flags) v p (unat len) st st2"
      by (simp add: mapped_as_def m2(3,4) k1(2))
    show "vm_mem st2 a = vm_mem st a" if a: "kept fmt n root st a" "kept fmt n' root' st a" for a
    proof -
      have "kept fmt n' root' st1 a"
        by (rule k1(4) [OF a])
      then show ?thesis
        using others_kept_kept(1) [OF m1(2,1) a(1)] others_kept_kept(1) [OF m2(2,1)] by simp
    qed
  qed (use same_config_trans [OF m1(1) m2(1)] k2(3) st2(3) in simp_all)
qed

text \<open>A copy of code in fresh pages, mapped at \<open>v p\<close> in both.\<close>

lemma trampoline:
  assumes "cfg st" and "flags_ok flags" and ok: "tables_ok fmt n root st" "tables_ok fmt n' root' st"
    and ap: "apart fmt n root n' root' st"
    and pc: "0 < unat pc" "sz \<le> 4096 * unat pc" "4096 * unat pc < 2 ^ 64"
    and src: "\<And>i. i < sz \<Longrightarrow> \<not> free_byte st (src + of_nat i)"
    and place: "\<And>p. 4096 dvd unat p \<Longrightarrow> fits_at (vm_pmm st) (unat p) (4096 * unat pc) \<Longrightarrow>
      4096 dvd unat (v p) \<and> region_canonical n (v p) (4096 * unat pc) \<and> region_canonical n' (v p) (4096 * unat pc) \<and>
      unmapped fmt n root (v p) (4096 * unat pc) st \<and> unmapped fmt n' root' (v p) (4096 * unat pc) st"
    and sp: "spare (Suc (r + unat pc * (n' - 1) + unat pc * (n - 1)))
      (unat pc + (q + unat pc * (n' - 1) + unat pc * (n - 1))) (vm_pmm st)"
  obtains p st1 st2 st3 where "vm_alloc pc st = ok (p, st\<lparr>vm_pmm := vm_pmm st1\<rparr>)"
    and "st1 = st\<lparr>vm_pmm := vm_pmm st1, vm_mem := memcpy (p + hhdm_offset st) src sz (vm_mem st)\<rparr>"
    and "map_cur (v p) p (pc * PTM_PAGE_GRANULARITY) flags st1 = ok st2"
    and "map_ker (v p) p (pc * PTM_PAGE_GRANULARITY) flags st2 = ok st3"
    and "mapped_as fmt n root (perms flags) (v p) p (4096 * unat pc) st st3"
    and "mapped_as fmt n' root' (perms flags) (v p) p (4096 * unat pc) st st3"
    and "apart fmt n root n' root' st3" and "same_config st st3" and "spare r q (vm_pmm st3)"
    and "\<And>i. i < sz \<Longrightarrow> vm_mem st3 (p + hhdm_offset st + of_nat i) = vm_mem st (src + of_nat i)"
    and "fits_at (vm_pmm st) (unat p) (4096 * unat pc)"
proof -
  have wf: "wf_map (live (vm_pmm st))"
    using sp by (simp add: spare_def pmm_inv_def)
  obtain p s where p: "vm_alloc pc st = ok (p, st\<lparr>vm_pmm := s\<rparr>)"
    "spare (r + unat pc * (n' - 1) + unat pc * (n - 1)) (q + unat pc * (n' - 1) + unat pc * (n - 1)) s"
    "block_copied p src sz (unat pc) st (st\<lparr>vm_pmm := s, vm_mem := memcpy (p + hhdm_offset st) src sz (vm_mem st)\<rparr>)"
    by (rule copy_block [OF sp pc(1) _ pc(2) src]) simp_all
  define st1 where "st1 = st\<lparr>vm_pmm := s, vm_mem := memcpy (p + hhdm_offset st) src sz (vm_mem st)\<rparr>"
  note blk = p(3) [folded st1_def]
  have b: "4096 dvd unat p" "fits_at (vm_pmm st) (unat p) (4096 * unat pc)" "unat p + 4096 * unat pc \<le> 2 ^ 51" "same_config st st1"
    using blk by (simp_all add: block_copied_def)
  note t = block_copied_tables [OF ok(1) blk pc(2) wf] and t' = block_copied_tables [OF ok(2) blk pc(2) wf]
  note v = place [OF b(1,2)]
  have len: "unat (pc * PTM_PAGE_GRANULARITY) = 4096 * unat pc"
    using pc(3) by (subst unat_mult_nowrap) simp_all
  have un: "unmapped fmt n root (v p) (4096 * unat pc) st1" "unmapped fmt n' root' (v p) (4096 * unat pc) st1"
    using v by (simp_all add: unmapped_def t(2) t'(2))
  have ap1: "apart fmt n root n' root' st1"
    using ap by (simp add: apart_def t(3) t'(3))
  obtain st2 st3 where m: "map_cur (v p) p (pc * PTM_PAGE_GRANULARITY) flags st1 = ok st2"
    "map_ker (v p) p (pc * PTM_PAGE_GRANULARITY) flags st2 = ok st3"
    "mapped_as fmt n root (perms flags) (v p) p (4096 * unat pc) st1 st3"
    "mapped_as fmt n' root' (perms flags) (v p) p (4096 * unat pc) st1 st3"
    "same_config st1 st3" "apart fmt n root n' root' st3" "spare r q (vm_pmm st3)"
    "\<And>a. kept fmt n root st1 a \<Longrightarrow> kept fmt n' root' st1 a \<Longrightarrow> vm_mem st3 a = vm_mem st1 a"
    by (rule map_both [OF cur.cfg [OF assms(1) b(4)] assms(2) t(1) t'(1) ap1, of "v p" p "pc * PTM_PAGE_GRANULARITY" r q])
      (use v b un p(2) len in \<open>simp_all add: st1_def\<close>)
  show thesis
  proof (rule that [of p st1 st2 st3])
    show "vm_mem st3 (p + hhdm_offset st + of_nat i) = vm_mem st (src + of_nat i)" if i: "i < sz" for i
    proof -
      have "vm_mem st3 (p + hhdm_offset st + of_nat i) = vm_mem st1 (p + hhdm_offset st + of_nat i)"
        by (intro m(8) t(5) t'(5)) (use i pc(2) in simp_all)
      also have "\<dots> = vm_mem st (src + of_nat i)"
        by (rule block_copied_bytes [OF blk pc(2) i])
      finally show ?thesis .
    qed
    show "mapped_as fmt n root (perms flags) (v p) p (4096 * unat pc) st st3"
      "mapped_as fmt n' root' (perms flags) (v p) p (4096 * unat pc) st st3"
      using m(3,4) by (simp_all add: mapped_as_def t(2) t'(2))
    show "same_config st st3"
      by (rule same_config_trans [OF b(4) m(5)])
  qed (use p(1) m b(2) in \<open>simp_all add: st1_def\<close>)
qed

end

end
