(* ===== verification/HandoffProps.thy ===== *)
theory HandoffProps
  imports Handoff TwoSpaces PagedbProps
begin

text \<open>
  The handoff works: the trampoline is mapped, at the same address and readable and executable, in the
  tables the processor runs on and in those of the kernel, and holds the code; running it gives the
  kernel its tables, its stack and its two arguments and nothing else.
\<close>

section \<open>Both sets of page tables\<close>

interpretation xa: address_space "ptm_map_at cur (levels_of cur57)" x86_fmt "levels_of cur57" cur "x86_cfg root la57 nx gb"
    "\<lambda>_. True" "x86_perms nx"
  for cur cur57 root la57 nx gb
proof (unfold_locales, goal_cases)
  case (3 st st')
  then show ?case
    by (cases st; cases st') (simp add: same_config_def x86_cfg_def)
next
  case (4 st flags v p)
  have g: "g_x86_64_cpu_nx_support st = nx"
    using 4(1) by (simp add: x86_cfg_def)
  show ?case
    using ptm_map_loop_page [OF _ 4(3-8), of PTM_PAGE_GRANULARITY flags] 4(4,5,9) g
    by (auto simp: ptm_map_at_def mod_4096_dvd x86_perms_def)
next
  case (5 st flags v p len)
  have n: "levels_of cur57 = 4 \<or> levels_of cur57 = 5"
    by (simp add: levels_of_def)
  have g: "g_x86_64_cpu_nx_support st = nx"
    using 5(1) by (simp add: x86_cfg_def)
  show ?case
    using ptm_map_loop_region [OF _ _ 5(6) _ 5(4,5) n 5(3), of "unat len" 0 0 flags] 5(4-10) g
    by (auto simp: ptm_map_at_def mod_4096_dvd x86_perms_def)
qed (simp_all add: levels_of_def)

interpretation x2: two_spaces "ptm_map_at cur (levels_of cur57)" ptm_map x86_fmt "levels_of cur57" "levels_of la57" cur root
    "x86_cfg root la57 nx gb" "\<lambda>_. True" "x86_perms nx"
  for cur cur57 root la57 nx gb
  by unfold_locales

interpretation ra: address_space "rv_ptm_map_at cur (sv_levels cursv)" riscv_fmt "sv_levels cursv" cur "rv_cfg root sv"
    rv_flags_ok rv_perms
  for cur cursv root sv
proof (unfold_locales, goal_cases)
  case (3 st st')
  then show ?case
    by (cases st; cases st') (simp add: same_config_def rv_cfg_def)
next
  case (4 st flags v p)
  obtain perm where perm: "flags = perm_flags perm" "rv_perms flags = perm_bits perm"
    using rv_flags_perm [OF 4(2)] .
  show ?case
    using rvm.loop_page [where len = PTM_PAGE_GRANULARITY and v = v and p = p and st = st and sv = cursv and root = cur
        and k = 0 and perm = perm] 4(3-9)
    by (auto simp: rv_ptm_map_at_def mod_4096_dvd perm(1) perm(2) [unfolded perm(1)])
next
  case (5 st flags v p len)
  obtain perm where perm: "flags = perm_flags perm" "rv_perms flags = perm_bits perm"
    using rv_flags_perm [OF 5(2)] .
  show ?case
    using rvm.loop_tables [where r = "unat len" and len = len and offset = 0 and v = v and p = p and st = st
        and sv = cursv and root = cur and k = 0 and perm = perm] 5(3-10)
    by (auto simp: rv_ptm_map_at_def mod_4096_dvd perm(1) perm(2) [unfolded perm(1)])
qed (use sv_levels_range [of cursv] in simp_all)

interpretation r2: two_spaces "rv_ptm_map_at cur (sv_levels cursv)" rv_ptm_map riscv_fmt "sv_levels cursv" "sv_levels sv" cur root
    "rv_cfg root sv" rv_flags_ok rv_perms
  for cur cursv root sv
  by unfold_locales

section \<open>The registers at the kernel's entry point\<close>

definition x86_at_entry :: "u64 \<Rightarrow> u64 \<Rightarrow> u64 \<Rightarrow> u64 \<Rightarrow> u64 \<Rightarrow> x86_context \<Rightarrow> bool" where
  "x86_at_entry entry stack boot_info cid root c \<longleftrightarrow>
     ctx_rip c = entry \<and> cpu_cr3 (ctx_cpu c) = root \<and> ctx_reg c RDI = boot_info \<and> ctx_reg c RSI = cid \<and>
     ctx_reg c RSP = stack - 16 \<and> load64 (ctx_mem c) (stack - 16) = 0 \<and> load64 (ctx_mem c) (stack - 8) = 0 \<and>
     ctx_rflags c = 2 \<and> (\<forall>r. r \<notin> {RDI, RSI, RSP, RAX} \<longrightarrow> ctx_reg c r = 0)"

lemma x86_steps:
  "ctx_reg (x86_mov r v c) = (ctx_reg c)(r := v)" "ctx_mem (x86_mov r v c) = ctx_mem c"
  "ctx_cpu (x86_mov r v c) = ctx_cpu c" "ctx_rip (x86_mov r v c) = ctx_rip c" "ctx_rflags (x86_mov r v c) = ctx_rflags c"
  "ctx_reg (x86_push v c) = (ctx_reg c)(RSP := ctx_reg c RSP - 8)"
  "ctx_mem (x86_push v c) = store64 (ctx_reg c RSP - 8) v (ctx_mem c)"
  "ctx_cpu (x86_push v c) = ctx_cpu c" "ctx_rip (x86_push v c) = ctx_rip c" "ctx_rflags (x86_push v c) = ctx_rflags c"
  "ctx_reg (x86_popfq c) = (ctx_reg c)(RSP := ctx_reg c RSP + 8)" "ctx_mem (x86_popfq c) = ctx_mem c"
  "ctx_cpu (x86_popfq c) = ctx_cpu c" "ctx_rip (x86_popfq c) = ctx_rip c"
  "ctx_rflags (x86_popfq c) = load64 (ctx_mem c) (ctx_reg c RSP)"
  "ctx_reg (x86_ret c) = (ctx_reg c)(RSP := ctx_reg c RSP + 8)" "ctx_mem (x86_ret c) = ctx_mem c"
  "ctx_cpu (x86_ret c) = ctx_cpu c" "ctx_rip (x86_ret c) = load64 (ctx_mem c) (ctx_reg c RSP)"
  "ctx_rflags (x86_ret c) = ctx_rflags c"
  "x86_clear [] c = c" "x86_clear (r # rs) c = x86_clear rs (x86_mov r 0 c)"
  by (simp_all add: x86_mov_def x86_push_def x86_pop_def x86_popfq_def x86_ret_def x86_clear_def Let_def)

lemma x86_handoff_at_entry:
  "x86_at_entry entry stack boot_info cid (tplt ptm) (x86_handoff_to_kernel entry stack boot_info cid ptm c)"
proof -
  obtain p where p: "stack = p + 32"
    by (metis diff_add_cancel)
  have mem: "load64 (store64 p v (store64 (8 + p) e (store64 (16 + p) a (store64 (24 + p) b m)))) (8 + p) = e"
    "load64 (store64 p v (store64 (8 + p) e (store64 (16 + p) a (store64 (24 + p) b m)))) (16 + p) = a"
    "load64 (store64 p v (store64 (8 + p) e (store64 (16 + p) a (store64 (24 + p) b m)))) (24 + p) = b" for v e a b m
    using load64_next [where p = p and d = 0 and c = 8] load64_next [where p = p and d = 0 and c = 16]
      load64_next [where p = p and d = 0 and c = 24] load64_next [where p = p and d = 8 and c = 16]
      load64_next [where p = p and d = 8 and c = 24] load64_next [where p = p and d = 16 and c = 24]
    by (simp_all add: load64_store64 add.commute)
  note run = x86_handoff_to_kernel_def x86_64_kernel_handoff_def Let_def x86_steps
  have "ctx_reg (x86_handoff_to_kernel entry stack boot_info cid ptm c) r = 0" if "r \<notin> {RDI, RSI, RSP, RAX}" for r
    using that by (cases r) (simp_all add: run)
  then show ?thesis
    unfolding x86_at_entry_def
    by (intro conjI allI impI) (simp_all add: run arch_cr_write_cr3_def p load64_store64 mem add.commute [of p])
qed

definition rv_at_entry :: "u64 \<Rightarrow> u64 \<Rightarrow> u64 \<Rightarrow> u64 \<Rightarrow> u64 \<Rightarrow> rv_context \<Rightarrow> bool" where
  "rv_at_entry entry stack boot_info cid satp_val c \<longleftrightarrow>
     rvc_pc c = entry \<and> hart_csr (rvc_hart c) satp = satp_val \<and> rvc_reg c A0 = boot_info \<and> rvc_reg c A1 = cid \<and>
     rvc_reg c Sp = stack \<and> (\<forall>r. r \<notin> {A0, A1, Sp, T0} \<longrightarrow> rvc_reg c r = 0)"

lemma rv_handoff_at_entry:
  "rv_at_entry entry stack boot_info cid (make_satp_value (level_count ptm) (tplt ptm))
     (rv_handoff_to_kernel entry stack boot_info cid ptm c)"
proof -
  note run = rv_handoff_to_kernel_def riscv64_kernel_handoff_def rv_clear_def rv_set_def Let_def ARCH_CSR_WRITE_def
  have "rvc_reg (rv_handoff_to_kernel entry stack boot_info cid ptm c) r = 0" if "r \<notin> {A0, A1, Sp, T0}" for r
    using that by (cases r) (simp_all add: run)
  then show ?thesis
    unfolding rv_at_entry_def by (intro conjI allI impI) (simp_all add: run)
qed

section \<open>The value of satp\<close>

text \<open>What \<open>make_satp_value\<close> writes is read back by \<open>arch_prepare_handoff\<close>.\<close>

lemma satp_fields:
  "drop_bit 60 (ARCH_CSR_SATP_MAKE (push_bit 60 m) root) = take_bit 4 m"
  "ARCH_CSR_SATP_MAKE (push_bit 60 m) root AND ARCH_CSR_SATP_PPN_MASK = drop_bit 12 root AND mask 44"
proof -
  have mask: "ARCH_CSR_SATP_PPN_MASK = mask 44"
    by (simp add: ARCH_CSR_SATP_PPN_MASK_def mask_eq_exp_minus_1)
  show "drop_bit 60 (ARCH_CSR_SATP_MAKE (push_bit 60 m) root) = take_bit 4 m"
    unfolding ARCH_CSR_SATP_MAKE_def mask by (rule bit_word_eqI) (auto simp: bit_simps)
  show "ARCH_CSR_SATP_MAKE (push_bit 60 m) root AND ARCH_CSR_SATP_PPN_MASK = drop_bit 12 root AND mask 44"
    unfolding ARCH_CSR_SATP_MAKE_def mask by (rule bit_word_eqI) (auto simp: bit_simps)
qed

lemma satp_roundtrip:
  assumes "page_aligned root" and "unat root < 2 ^ 56"
  shows "satp_levels (make_satp_value (sv_levels sv) root) = ok (sv_levels sv)"
    and "satp_root (make_satp_value (sv_levels sv) root) = root"
proof -
  note modes = ARCH_CSR_SATP_MODE_SV57_def ARCH_CSR_SATP_MODE_SV48_def ARCH_CSR_SATP_MODE_SV39_def
  show "satp_levels (make_satp_value (sv_levels sv) root) = ok (sv_levels sv)"
    by (cases sv) (simp_all add: satp_levels_def make_satp_value_def modes satp_fields(1) del: push_bit_numeral)
  have "take_bit 56 root = root"
    using assms(2) by (simp flip: unat_less_pow2_iff)
  then have high: "\<not> bit root i" if "56 \<le> i" for i
    using that by (metis bit_take_bit_iff not_le)
  have low: "\<not> bit root i" if "i < 12" for i
    using assms(1) that unfolding page_aligned_def by (metis bit_0_eq bit_take_bit_iff bot_apply bot_bool_def)
  have "push_bit 12 (drop_bit 12 root AND mask 44) = root"
  proof (rule bit_word_eqI)
    fix i show "bit (push_bit 12 (drop_bit 12 root AND mask 44)) i = bit root i" if "i < LENGTH(64)"
    proof (cases "12 \<le> i \<and> i < 56")
      case False
      then have "\<not> bit root i"
        using high [of i] low [of i] by auto
      then show ?thesis
        using False that by (auto simp: bit_simps)
    qed (auto simp: bit_simps)
  qed
  then show "satp_root (make_satp_value (sv_levels sv) root) = root"
    by (cases sv) (simp_all add: satp_root_def make_satp_value_def modes satp_fields(2) del: push_bit_numeral)
qed

section \<open>The place of the trampoline\<close>

lemma trampoline_pages:
  assumes "n = unat (handoff_end - handoff)" and "pages = (n + 4095) div 4096" and "n + 4096 \<le> 2 ^ 64"
  shows "unat (MATH_ALIGN_UP (handoff_end - handoff) PTM_PAGE_GRANULARITY div PTM_PAGE_GRANULARITY) = pages"
proof -
  have "handoff_end - handoff = of_nat n"
    by (simp add: assms(1))
  then show ?thesis
    using pages_for [OF assms(3)] by (simp add: assms(2))
qed

lemma region_canonical_low:
  assumes "unat p + len \<le> 2 ^ k" and "k \<le> 9 * n + 11" and "k < 64"
  shows "region_canonical n p len"
  unfolding region_canonical_def
proof (intro allI impI canonical_low)
  fix va :: u64 assume va: "unat (va - p) < len"
  have "(2 :: nat) ^ k \<le> 2 ^ 64" "(2 :: nat) ^ k \<le> 2 ^ (9 * n + 11)"
    by (rule power_increasing, use assms(2,3) in simp_all)+
  moreover from this have "unat p + unat (va - p) < 2 ^ 64"
    using va assms(1) by linarith
  then have "unat (p + (va - p)) = unat p + unat (va - p)"
    by (subst unat_add_nowrap) simp_all
  then have "unat va = unat p + unat (va - p)"
    by simp
  ultimately show "unat va < 2 ^ (9 * n + 11)"
    using va assms(1) by linarith
qed

text \<open>Mapped at its own address: free memory is below \<open>2 ^ 38\<close> and not mapped there.\<close>

lemma identity_place:
  assumes wf: "wf_map (live (vm_pmm st))" and f: "fits_at (vm_pmm st) (unat p) len" and low: "unat p + len \<le> 2 ^ 51"
    and free: "\<And>va. type_at (live (vm_pmm st)) (unat va) = Some PMM_MAP_TYPE_FREE \<Longrightarrow> unat va < 2 ^ 38 \<and>
      translate riscv_fmt st (sv_levels cursv) cur va = None \<and> translate riscv_fmt st (sv_levels sv) root va = None"
  shows "region_canonical (sv_levels cursv) p len" and "region_canonical (sv_levels sv) p len"
    and "unmapped riscv_fmt (sv_levels cursv) cur p len st" and "unmapped riscv_fmt (sv_levels sv) root p len st"
proof -
  have va: "unat va < 2 ^ 38 \<and> translate riscv_fmt st (sv_levels cursv) cur va = None \<and>
      translate riscv_fmt st (sv_levels sv) root va = None" if va: "unat (va - p) < len" for va
  proof (rule free)
    have "unat (p + (va - p)) = unat p + unat (va - p)"
      using va low by (subst unat_add_nowrap) simp_all
    then show "type_at (live (vm_pmm st)) (unat va) = Some PMM_MAP_TYPE_FREE"
      using fits_at_free [OF wf f] va by simp
  qed
  have "canonical (sv_levels m) va" if "unat va < 2 ^ 38" for m va
  proof (rule canonical_low)
    have "(2 :: nat) ^ 38 \<le> 2 ^ (9 * sv_levels m + 11)"
      using sv_levels_range(1) [of m] by (intro power_increasing) simp_all
    then show "unat va < 2 ^ (9 * sv_levels m + 11)"
      using that by linarith
  qed
  then show "region_canonical (sv_levels cursv) p len" "region_canonical (sv_levels sv) p len"
    "unmapped riscv_fmt (sv_levels cursv) cur p len st" "unmapped riscv_fmt (sv_levels sv) root p len st"
    using va by (simp_all add: region_canonical_def unmapped_def)
qed

section \<open>The properties\<close>

text \<open>C38. Let the processor run on the tables at \<open>cur\<close> and let the kernel's be at \<open>root\<close>, sharing no
  frame, with nothing mapped where the trampoline goes. Then \<open>arch_prepare_handoff\<close> returns with the
  trampoline mapped at 0x1000 in both, readable and executable but not writable, and everything else
  mapped as before; the pages behind it were free and hold the code. Running it enters the kernel with
  its page tables, the boot information and the core's number as arguments and a stack of two zero
  words.\<close>

theorem x86_prepare_handoff_maps:
  assumes "x86_cfg root la57 nx gb st" and "cpu_cr3 cpu = cur" and "bit (cpu_cr4 cpu) 12 \<longleftrightarrow> cur57"
    and "tables_ok x86_fmt (levels_of cur57) cur st" and "tables_ok x86_fmt (levels_of la57) root st"
    and "apart x86_fmt (levels_of cur57) cur (levels_of la57) root st"
    and "sz = unat (handoff_end - handoff)" and "0 < sz" and "pages = (sz + 4095) div 4096" and "4096 * Suc pages \<le> 2 ^ 47"
    and "\<And>i. i < sz \<Longrightarrow> \<not> free_byte st (handoff + of_nat i)"
    and "unmapped x86_fmt (levels_of cur57) cur 0x1000 (4096 * pages) st"
    and "unmapped x86_fmt (levels_of la57) root 0x1000 (4096 * pages) st"
    and "spare (Suc (pages * 8)) (pages * 9) (vm_pmm st)"
  shows "\<exists>p st'. x86_prepare_handoff handoff handoff_end cpu st = ok (0x1000, st') \<and>
    mapped_as x86_fmt (levels_of cur57) cur (True, False, True) 0x1000 p (4096 * pages) st st' \<and>
    mapped_as x86_fmt (levels_of la57) root (True, False, True) 0x1000 p (4096 * pages) st st' \<and>
    fits_at (vm_pmm st) (unat p) (4096 * pages) \<and>
    (\<forall>i < sz. vm_mem st' (p + hhdm_offset st + of_nat i) = vm_mem st (handoff + of_nat i)) \<and>
    x86_at_entry entry stack boot_info cid root (x86_handoff_to_kernel entry stack boot_info cid (g_ptm st') c)"
proof -
  define pc :: u64 where "pc = MATH_ALIGN_UP (handoff_end - handoff) PTM_PAGE_GRANULARITY div PTM_PAGE_GRANULARITY"
  have fit: "0 < pages" "sz \<le> 4096 * pages" "4096 * pages + 4096 \<le> 2 ^ 47" "sz + 4096 \<le> 2 ^ 64"
    using assms(8,9,10) by simp_all
  have pc: "unat pc = pages"
    unfolding pc_def by (rule trampoline_pages [OF assms(7,9) fit(4)])
  have sp: "spare (Suc (0 + pages * (levels_of la57 - 1) + pages * (levels_of cur57 - 1)))
      (pages + (0 + pages * (levels_of la57 - 1) + pages * (levels_of cur57 - 1))) (vm_pmm st)"
    by (rule spare_mono [OF assms(14)]) (simp_all add: levels_of_def)
  have can: "region_canonical (levels_of b) 0x1000 (4096 * pages)" for b
    by (rule region_canonical_low [where k = 47]) (use fit(3) in \<open>simp_all add: levels_of_def\<close>)
  have perms: "x86_perms nx (PTM_FLAG_READ OR PTM_FLAG_EXEC) = (True, False, True)"
    by (simp add: x86_perms_def PTM_FLAG_READ_def PTM_FLAG_EXEC_def PTM_FLAG_WRITE_def)
  obtain p st1 st2 st3 where p: "vm_alloc pc st = ok (p, st\<lparr>vm_pmm := vm_pmm st1\<rparr>)"
    "st1 = st\<lparr>vm_pmm := vm_pmm st1, vm_mem := memcpy (p + hhdm_offset st) handoff sz (vm_mem st)\<rparr>"
    "ptm_map_at cur (levels_of cur57) 0x1000 p (pc * PTM_PAGE_GRANULARITY) (PTM_FLAG_READ OR PTM_FLAG_EXEC) st1 = ok st2"
    "ptm_map 0x1000 p (pc * PTM_PAGE_GRANULARITY) (PTM_FLAG_READ OR PTM_FLAG_EXEC) st2 = ok st3"
    "mapped_as x86_fmt (levels_of cur57) cur (True, False, True) 0x1000 p (4096 * pages) st st3"
    "mapped_as x86_fmt (levels_of la57) root (True, False, True) 0x1000 p (4096 * pages) st st3"
    "same_config st st3" "fits_at (vm_pmm st) (unat p) (4096 * pages)"
    "\<And>i. i < sz \<Longrightarrow> vm_mem st3 (p + hhdm_offset st + of_nat i) = vm_mem st (handoff + of_nat i)"
  proof (rule x2.trampoline [OF assms(1) TrueI assms(4-6), where pc = pc and sz = sz and src = handoff and
        v = "\<lambda>_. 0x1000" and r = 0 and q = 0 and flags = "PTM_FLAG_READ OR PTM_FLAG_EXEC", unfolded pc perms])
    show "4096 dvd unat (0x1000 :: u64) \<and> region_canonical (levels_of cur57) 0x1000 (4096 * pages) \<and>
      region_canonical (levels_of la57) 0x1000 (4096 * pages) \<and>
      unmapped x86_fmt (levels_of cur57) cur 0x1000 (4096 * pages) st \<and>
      unmapped x86_fmt (levels_of la57) root 0x1000 (4096 * pages) st"
      using can assms(12,13) by simp
  qed (use fit sp assms(11) that in simp_all)
  have off: "unat (handoff_end - handoff) = sz" "(if arch_cr_read_cr4 cpu AND push_bit 12 1 \<noteq> 0 then 5 else 4) = levels_of cur57"
    using assms(3,7) by (simp_all only: arch_cr_read_cr4_def and_push_bit_one levels_of_def)
  have "x86_prepare_handoff handoff handoff_end cpu st = ok (0x1000, st3)"
    unfolding x86_prepare_handoff_def Let_def pc_def [symmetric] off
    using p(1,3,4) p(2) [symmetric] assms(2) by (simp add: arch_cr_read_cr3_def)
  moreover have "tplt (g_ptm st3) = root"
    using assms(1) p(7) by (simp add: x86_cfg_def same_config_def)
  then have "x86_at_entry entry stack boot_info cid root (x86_handoff_to_kernel entry stack boot_info cid (g_ptm st3) c)"
    using x86_handoff_at_entry by metis
  ultimately show ?thesis
    using p(5,6,8,9) by blast
qed

lemma zero_view:
  assumes "vm_mem st = (\<lambda>_. 0)" shows "view st a i = 0"
proof -
  have "bytes_at (\<lambda>_. 0) p n = replicate n 0" for p n
    by (simp add: bytes_at_def map_replicate_const)
  moreover have "from_bytes (replicate n 0) = 0" for n
    by (induction n) simp_all
  ultimately show ?thesis
    by (simp only: view_def assms table_view_def load64_def)
qed

lemma x86_empty_at:
  assumes "page_aligned a" and "0x10000 \<le> unat a" and "unat a < 2 ^ 51"
  shows "tables_ok x86_fmt 4 a x86_empty" and "translate x86_fmt x86_empty 4 a va = None"
    and "tframes x86_fmt (view x86_empty) 4 a = {a}"
proof -
  have view: "view x86_empty a i = 0" for i
    by (rule zero_view) (simp add: x86_empty_def)
  note tree = xw.empty_tree [where tb = "view x86_empty" and a = a and l = 3, OF view, simplified Suc_numeral]
  show "translate x86_fmt x86_empty 4 a va = None"
    using tree(3) by (simp add: translate_def del: mmu.simps)
  show frames: "tframes x86_fmt (view x86_empty) 4 a = {a}"
    using tree(2) by (simp del: tframes.simps)
  show "tables_ok x86_fmt 4 a x86_empty"
    using tree(1) frames assms
    by (simp add: tables_ok_def x86_empty_def frame_ok_def page_aligned_def frame_free_def contains_def lo_def hi_def
        del: tree_ok.simps tframes.simps)
qed

lemma small_map_spare_9: "spare 9 9 small_map"
proof (rule spareI [OF small_map_inv])
  show "fits_at small_map 0x1000 (4096 * 9)"
    by (simp add: fits_at_def lo_def hi_def)
qed (simp_all add: PMM_MAP_MAX_ENTRIES_def lo_def hi_def)

definition boot_cpu :: x86_cpu where
  "boot_cpu = \<lparr>cpu_cr0 = 0, cpu_cr2 = 0, cpu_cr3 = 0x300000, cpu_cr4 = 0, cpu_cr8 = 0, cpu_xcr0 = 0, cpu_msr = (\<lambda>_. 0),
     cpu_gdtr_limit = 0, cpu_gdtr_base = 0, cpu_ldtr = 0, cpu_tr = 0, cpu_cs = 0, cpu_ds = 0, cpu_es = 0, cpu_ss = 0\<rparr>"

theorem x86_prepare_handoff_maps_witness:
  "\<exists>p st'. x86_prepare_handoff 0xFFFFFFFF80000000 0xFFFFFFFF80000050 boot_cpu x86_empty = ok (0x1000, st') \<and>
    mapped_as x86_fmt 4 0x300000 (True, False, True) 0x1000 p 4096 x86_empty st' \<and>
    mapped_as x86_fmt 4 0x200000 (True, False, True) 0x1000 p 4096 x86_empty st' \<and>
    (\<forall>i. i < 80 \<longrightarrow> vm_mem st' (p + 0xFFFF800000000000 + of_nat i) = vm_mem x86_empty (0xFFFFFFFF80000000 + of_nat i))"
proof -
  have cfg: "x86_cfg 0x200000 False True False x86_empty"
    by (simp add: x86_cfg_def x86_empty_def levels_of_def)
  have fields: "hhdm_offset x86_empty = 0xFFFF800000000000" "vm_pmm x86_empty = small_map"
    by (simp_all add: x86_empty_def)
  have used: "\<not> free_byte x86_empty (0xFFFFFFFF80000000 + of_nat i)" if "i < 80" for i
  proof -
    have "unat (0xFFFFFFFF80000000 + of_nat i - 0xFFFF800000000000 :: u64) = 0x7FFF80000000 + i"
      using that by (simp add: unat_word_ariths unat_of_nat_64)
    then show ?thesis
      by (simp add: free_byte_def fields contains_def lo_def hi_def)
  qed
  note at = x86_empty_at [of "0x200000"] x86_empty_at [of "0x300000"]
  have "page_aligned 0x200000" "page_aligned 0x300000"
    by (simp_all add: page_aligned_def)
  then show ?thesis
    using x86_prepare_handoff_maps [of "0x200000" False True False x86_empty boot_cpu "0x300000" False 80
        "0xFFFFFFFF80000050" "0xFFFFFFFF80000000" 1] cfg used at spare_mono [OF small_map_spare_9, of 9 9]
    by (simp add: levels_of_def boot_cpu_def apart_def unmapped_def fields) blast
qed

text \<open>C39. On RISC-V, in each combination of paging modes: the mode and the root that
  \<open>arch_prepare_handoff\<close> reads from \<open>satp\<close> are those of the tables in use, and the trampoline is mapped
  at its own physical address in both sets of tables if nothing is mapped at the addresses of free
  memory. Running it enters the kernel with \<open>satp\<close> set to its page tables.\<close>

theorem riscv_prepare_handoff_maps:
  assumes "rv_cfg root sv st" and "ARCH_CSR_READ satp hart = make_satp_value (sv_levels cursv) cur"
    and "tables_ok riscv_fmt (sv_levels cursv) cur st" and "tables_ok riscv_fmt (sv_levels sv) root st"
    and "apart riscv_fmt (sv_levels cursv) cur (sv_levels sv) root st"
    and "n = unat (handoff_end - handoff)" and "0 < n" and "pages = (n + 4095) div 4096" and "n + 4096 \<le> 2 ^ 51"
    and "\<And>i. i < n \<Longrightarrow> \<not> free_byte st (handoff + of_nat i)"
    and "\<And>va. type_at (live (vm_pmm st)) (unat va) = Some PMM_MAP_TYPE_FREE \<Longrightarrow> unat va < 2 ^ 38 \<and>
      translate riscv_fmt st (sv_levels cursv) cur va = None \<and> translate riscv_fmt st (sv_levels sv) root va = None"
    and "spare (Suc (pages * 8)) (pages * 9) (vm_pmm st)"
  shows "\<exists>p st'. rv_prepare_handoff handoff handoff_end hart st = ok (p, st') \<and>
    mapped_as riscv_fmt (sv_levels cursv) cur (True, False, True) p p (4096 * pages) st st' \<and>
    mapped_as riscv_fmt (sv_levels sv) root (True, False, True) p p (4096 * pages) st st' \<and>
    fits_at (vm_pmm st) (unat p) (4096 * pages) \<and>
    (\<forall>i<n. vm_mem st' (p + hhdm_offset st + of_nat i) = vm_mem st (handoff + of_nat i)) \<and>
    rv_at_entry entry stack boot_info cid (make_satp_value (sv_levels sv) root)
      (rv_handoff_to_kernel entry stack boot_info cid (g_ptm st') c)"
proof -
  define pc :: u64 where "pc = MATH_ALIGN_UP (handoff_end - handoff) PTM_PAGE_GRANULARITY div PTM_PAGE_GRANULARITY"
  have fit: "0 < pages" "n \<le> 4096 * pages" "4096 * pages \<le> n + 4096" "n + 4096 \<le> 2 ^ 64"
    using assms(7-9) by simp_all
  have pc: "unat pc = pages"
    unfolding pc_def by (rule trampoline_pages [OF assms(6,8) fit(4)])
  have sv: "sv_levels m - 1 \<le> 4" "3 \<le> sv_levels m" for m
    using sv_levels_range [of m] by simp_all
  have sp: "spare (Suc (0 + pages * (sv_levels sv - 1) + pages * (sv_levels cursv - 1)))
      (pages + (0 + pages * (sv_levels sv - 1) + pages * (sv_levels cursv - 1))) (vm_pmm st)"
    by (rule spare_mono [OF assms(12)]) (use mult_le_mono2 [OF sv(1), of pages sv] mult_le_mono2 [OF sv(1), of pages cursv] in linarith)+
  have wf: "wf_map (live (vm_pmm st))"
    using assms(12) by (simp add: spare_def pmm_inv_def)
  have root: "page_aligned cur" "unat cur < 2 ^ 51"
    using assms(3) sv(2) [of cursv] by (cases "sv_levels cursv"; auto simp: tables_ok_def frame_ok_def)+
  have satp: "satp_levels (ARCH_CSR_READ satp hart) = ok (sv_levels cursv)" "satp_root (ARCH_CSR_READ satp hart) = cur"
    unfolding assms(2) using satp_roundtrip [OF root(1)] root(2) by simp_all
  have perms: "rv_perms (RV_PTM_FLAG_READ OR RV_PTM_FLAG_EXEC) = (True, False, True)"
    by (simp add: rv_perms_def RV_PTM_FLAG_READ_def RV_PTM_FLAG_EXEC_def RV_PTM_FLAG_WRITE_def)
  have flags: "rv_flags_ok (RV_PTM_FLAG_READ OR RV_PTM_FLAG_EXEC)"
    by (simp add: rv_flags_ok_def)
  have low: "unat p + 4096 * pages \<le> 2 ^ 51" if "fits_at (vm_pmm st) (unat p) (4096 * pages)" for p
    by (rule spare_fits_low [OF assms(12) that]) (use fit in simp)
  note place = identity_place [OF wf _ low assms(11)]
  obtain p st1 st2 st3 where p: "vm_alloc pc st = ok (p, st\<lparr>vm_pmm := vm_pmm st1\<rparr>)"
    "st1 = st\<lparr>vm_pmm := vm_pmm st1, vm_mem := memcpy (p + hhdm_offset st) handoff n (vm_mem st)\<rparr>"
    "rv_ptm_map_at cur (sv_levels cursv) p p (pc * PTM_PAGE_GRANULARITY) (RV_PTM_FLAG_READ OR RV_PTM_FLAG_EXEC) st1 = ok st2"
    "rv_ptm_map p p (pc * PTM_PAGE_GRANULARITY) (RV_PTM_FLAG_READ OR RV_PTM_FLAG_EXEC) st2 = ok st3"
    "mapped_as riscv_fmt (sv_levels cursv) cur (True, False, True) p p (4096 * pages) st st3"
    "mapped_as riscv_fmt (sv_levels sv) root (True, False, True) p p (4096 * pages) st st3"
    "same_config st st3" "fits_at (vm_pmm st) (unat p) (4096 * pages)"
    "\<And>i. i < n \<Longrightarrow> vm_mem st3 (p + hhdm_offset st + of_nat i) = vm_mem st (handoff + of_nat i)"
    by (rule r2.trampoline [OF assms(1) flags assms(3-5), where pc = pc and sz = n and src = handoff and
        v = "\<lambda>p. p" and r = 0 and q = 0, unfolded pc perms])
      (use fit sp assms(9,10) place in simp_all)
  have "rv_prepare_handoff handoff handoff_end hart st = ok (p, st3)"
    unfolding rv_prepare_handoff_def Let_def pc_def [symmetric] assms(6) [symmetric] satp
    using p(1,3,4) p(2) [symmetric] by simp
  moreover have "g_ptm st3 = \<lparr>tplt = root, level_count = sv_levels sv\<rparr>"
    using assms(1) p(7) by (simp add: rv_cfg_def same_config_def)
  then have "rv_at_entry entry stack boot_info cid (make_satp_value (sv_levels sv) root)
      (rv_handoff_to_kernel entry stack boot_info cid (g_ptm st3) c)"
    using rv_handoff_at_entry [of entry stack boot_info cid "g_ptm st3" c] by simp
  ultimately show ?thesis
    using p(5,6,8,9) by blast
qed

definition rv_empty :: riscv_state where
  "rv_empty = \<lparr>vm_mem = (\<lambda>_. 0), vm_pmm = small_map, hhdm_offset = 0xFFFFFFC000000000,
     g_ptm = \<lparr>tplt = 0x200000, level_count = 3\<rparr>, g_level_count = 3\<rparr>"

definition boot_hart :: riscv_hart where
  "boot_hart = \<lparr>hart_csr = (\<lambda>_. 0)(satp := make_satp_value 4 0x300000), hart_gp = 0, hart_calls = []\<rparr>"

lemma rv_empty_at:
  assumes "page_aligned a" and "0x10000 \<le> unat a" and "unat a < 2 ^ 51"
  shows "tables_ok riscv_fmt (sv_levels m) a rv_empty" and "translate riscv_fmt rv_empty (sv_levels m) a va = None"
    and "tframes riscv_fmt (view rv_empty) (sv_levels m) a = {a}"
proof -
  have view: "view rv_empty a i = 0" for i
    by (rule zero_view) (simp add: rv_empty_def)
  obtain l where l: "sv_levels m = Suc l"
    using sv_levels_range(1) [of m] by (cases "sv_levels m") simp_all
  note tree = rw.empty_tree [where tb = "view rv_empty" and a = a and l = l, OF view, folded l]
  show "translate riscv_fmt rv_empty (sv_levels m) a va = None"
    using tree(3) by (simp add: translate_def del: mmu.simps)
  show frames: "tframes riscv_fmt (view rv_empty) (sv_levels m) a = {a}"
    by (rule tree(2))
  show "tables_ok riscv_fmt (sv_levels m) a rv_empty"
    using tree(1) assms unfolding tables_ok_def frames
    by (simp add: rv_empty_def frame_ok_def page_aligned_def frame_free_def contains_def lo_def hi_def)
qed

text \<open>The hart runs with four levels; the kernel's tables have three.\<close>

theorem riscv_prepare_handoff_maps_witness:
  "\<exists>p st'. rv_prepare_handoff 0xFFFFFFFF80000000 0xFFFFFFFF80000050 boot_hart rv_empty = ok (p, st') \<and>
    mapped_as riscv_fmt 4 0x300000 (True, False, True) p p 4096 rv_empty st' \<and>
    mapped_as riscv_fmt 3 0x200000 (True, False, True) p p 4096 rv_empty st'"
proof -
  have cfg: "rv_cfg 0x200000 SV39 rv_empty"
    by (simp add: rv_cfg_def rv_empty_def)
  have fields: "hhdm_offset rv_empty = 0xFFFFFFC000000000" "vm_pmm rv_empty = small_map"
    by (simp_all add: rv_empty_def)
  have used: "\<not> free_byte rv_empty (0xFFFFFFFF80000000 + of_nat i)" if "i < 80" for i
  proof -
    have "unat (0xFFFFFFFF80000000 + of_nat i - 0xFFFFFFC000000000 :: u64) = 0x3F80000000 + i"
      using that by (simp add: unat_word_ariths unat_of_nat_64)
    then show ?thesis
      by (simp add: free_byte_def fields contains_def lo_def hi_def)
  qed
  have al: "page_aligned 0x200000" "page_aligned 0x300000"
    by (simp_all add: page_aligned_def)
  note at = rv_empty_at [OF al(1), of SV39] rv_empty_at [OF al(2), of SV48]
  have free: "unat va < 2 ^ 38" if "type_at (live small_map) (unat va) = Some PMM_MAP_TYPE_FREE" for va :: u64
    using that by (simp add: contains_def lo_def hi_def split: if_splits)
  show ?thesis
    using riscv_prepare_handoff_maps [of "0x200000" SV39 rv_empty boot_hart SV48 "0x300000" 80
        "0xFFFFFFFF80000050" "0xFFFFFFFF80000000" 1] cfg used at free small_map_spare_9
    by (simp add: boot_hart_def ARCH_CSR_READ_def apart_def fields) blast
qed

end
