(* ===== verification/RiscvPlatform.thy ===== *)
theory RiscvPlatform
  imports Isa RiscvMachine Elf
begin

text \<open>
  What the firmware tells about a RISC-V machine: \<open>pre_kernel/src/arch/riscv64/fdt.c\<close> and
  \<open>pre_kernel/src/arch/riscv64/acpi.c\<close>. libfdt and uACPI are not part of the repository: the functions
  of libfdt are the record \<open>libfdt\<close>, the table lookup, the layout of the RHCT and its constants the
  record \<open>uacpi\<close>. A null pointer is the address 0. The log lines are left out.
\<close>

section \<open>Comparing with a string literal\<close>

definition lit :: "string \<Rightarrow> u8 list" where
  "lit s = map (\<lambda>c. of_nat (of_char c)) s"

text \<open>\<open>strcmp\<close> with a literal as its second argument; the literal's bytes are not part of the memory.\<close>

fun strcmp_lit :: "u64 \<Rightarrow> u8 list \<Rightarrow> memory \<Rightarrow> int" where
  "strcmp_lit p [] m = uint (m p)"
| "strcmp_lit p (c # cs) m =
     (if m p \<noteq> 0 \<and> m p = c then strcmp_lit (p + 1) cs m else uint (m p) - uint c)"

lemma strcmp_lit: "cstring m q cs \<Longrightarrow> strcmp p q m = ok (strcmp_lit p cs m)"
proof (induction cs arbitrary: p q)
  case Nil
  then show ?case
    by (simp add: strcmp.simps [of p q])
next
  case (Cons c cs)
  then show ?case
    by (auto simp: strcmp.simps [of p q])
qed

section \<open>The device tree\<close>

record libfdt =
  fdt_check_header :: "u64 \<Rightarrow> memory \<Rightarrow> int"
  fdt_path_offset :: "u64 \<Rightarrow> string \<Rightarrow> memory \<Rightarrow> int"
  fdt_first_subnode :: "u64 \<Rightarrow> int \<Rightarrow> memory \<Rightarrow> int"
  fdt_next_subnode :: "u64 \<Rightarrow> int \<Rightarrow> memory \<Rightarrow> int"
  fdt_getprop :: "u64 \<Rightarrow> int \<Rightarrow> string \<Rightarrow> memory \<Rightarrow> u64 \<times> int"

text \<open>\<open>fdt_for_each_subnode\<close> goes on while the offset is not negative.\<close>

definition fdt_is_cpu :: "libfdt \<Rightarrow> u64 \<Rightarrow> int \<Rightarrow> memory \<Rightarrow> bool" where
  "fdt_is_cpu L fdt node m =
     (let devtype = fst (fdt_getprop L fdt node ''device_type'' m)
      in \<not> (devtype = 0 \<or> strcmp_lit devtype (lit ''cpu'') m \<noteq> 0))"

definition fdt_mmu_levels :: "u64 \<Rightarrow> memory \<Rightarrow> nat res" where
  "fdt_mmu_levels mmu_str m =
     (if strcmp_lit mmu_str (lit ''riscv,sv57'') m = 0 then ok 5
      else if strcmp_lit mmu_str (lit ''riscv,sv48'') m = 0 then ok 4
      else if strcmp_lit mmu_str (lit ''riscv,sv39'') m = 0 then ok 3
      else fail (Panic ''Unsupported MMU type''))"

partial_function (option) fdt_mmu_loop :: "libfdt \<Rightarrow> u64 \<Rightarrow> int \<Rightarrow> memory \<Rightarrow> nat res" where
  "fdt_mmu_loop L fdt node m =
     (if node \<ge> 0 then
        (if \<not> fdt_is_cpu L fdt node m then fdt_mmu_loop L fdt (fdt_next_subnode L fdt node m) m
         else (let (mmu_str, len) = fdt_getprop L fdt node ''mmu-type'' m
               in if mmu_str \<noteq> 0 \<and> len > 0 then fdt_mmu_levels mmu_str m else ok 0))
      else ok 0)"

definition arch_fdt_detect_mmu_levels :: "libfdt \<Rightarrow> u64 \<Rightarrow> u64 \<Rightarrow> 'a vm_state_scheme \<Rightarrow> nat res" where
  "arch_fdt_detect_mmu_levels L boot_info dtb_physical st =
     (if boot_info = 0 \<or> dtb_physical = 0 then ok 0
      else
        (let fdt = dtb_physical + hhdm_offset st; m = vm_mem st
         in if fdt_check_header L fdt m \<noteq> 0 then ok 0
            else
              (let cpus_node = fdt_path_offset L fdt ''/cpus'' m
               in if cpus_node < 0 then ok 0
                  else fdt_mmu_loop L fdt (fdt_first_subnode L fdt cpus_node m) m)))"

text \<open>The pointer to the ISA string, or null.\<close>

partial_function (option) fdt_isa_loop :: "libfdt \<Rightarrow> u64 \<Rightarrow> int \<Rightarrow> memory \<Rightarrow> u64 res" where
  "fdt_isa_loop L fdt node m =
     (if node \<ge> 0 then
        (if \<not> fdt_is_cpu L fdt node m then fdt_isa_loop L fdt (fdt_next_subnode L fdt node m) m
         else (let (isa, len) = fdt_getprop L fdt node ''riscv,isa'' m
               in if isa \<noteq> 0 \<and> len > 0 then ok isa
                  else fdt_isa_loop L fdt (fdt_next_subnode L fdt node m) m))
      else ok 0)"

text \<open>The fields of the boot information that are set and the rest of the state.\<close>

type_synonym 'a riscv_boot = "riscv_isa \<times> 'a vm_state_scheme"

definition arch_fdt_parse_extentions ::
  "libfdt \<Rightarrow> u64 \<Rightarrow> 'a riscv_boot \<Rightarrow> (bool \<times> 'a riscv_boot) res" where
  "arch_fdt_parse_extentions L dtb_physical b =
     (let (info, st) = b;
          fdt = dtb_physical + hhdm_offset st; m = vm_mem st
      in if fdt_check_header L fdt m \<noteq> 0 then ok (False, b)
         else
           (let cpus_node = fdt_path_offset L fdt ''/cpus'' m
            in if cpus_node < 0 then ok (False, b)
               else res_bind (fdt_isa_loop L fdt (fdt_first_subnode L fdt cpus_node m) m)
                 (\<lambda>isa_string.
                    if isa_string = 0 then ok (False, b)
                    else res_bind (parse_isa_string isa_string st) (\<lambda>b. ok (True, b)))))"

section \<open>The RHCT\<close>

record uacpi =
  uacpi_rhct :: "memory \<Rightarrow> u64 option"
  rhct_nodes_offset :: "memory \<Rightarrow> u64 \<Rightarrow> u64"
  rhct_node_count :: "memory \<Rightarrow> u64 \<Rightarrow> u64"
  rhct_mmu_type :: "memory \<Rightarrow> u64 \<Rightarrow> u64"
  rhct_isa_string :: "u64 \<Rightarrow> u64"
  ACPI_RHCT_ENTRY_TYPE_MMU :: u64
  ACPI_RHCT_ENTRY_TYPE_ISA_STRING :: u64
  ACPI_RHCT_MMU_TYPE_SV39 :: u64
  ACPI_RHCT_MMU_TYPE_SV48 :: u64
  ACPI_RHCT_MMU_TYPE_SV57 :: u64

text \<open>The node of the given type, if one of the \<open>count\<close> nodes from \<open>base\<close> on has it. A node starts with
  its type and its length, two bytes each.\<close>

fun rhct_find :: "u64 \<Rightarrow> memory \<Rightarrow> u64 \<Rightarrow> u64 \<Rightarrow> nat \<Rightarrow> u64 option" where
  "rhct_find wanted m rhct base 0 = None"
| "rhct_find wanted m rhct base (Suc count) =
     (let hdr = rhct + base;
          base = base + ucast (load16 m (hdr + 2))
      in if ucast (load16 m hdr) = wanted then Some hdr else rhct_find wanted m rhct base count)"

definition arch_acpi_detect_mmu_levels :: "uacpi \<Rightarrow> u64 \<Rightarrow> 'a vm_state_scheme \<Rightarrow> nat res" where
  "arch_acpi_detect_mmu_levels A rdsp_physical st =
     (if rdsp_physical = 0 then ok 0
      else (case uacpi_rhct A (vm_mem st) of None \<Rightarrow> ok 0
        | Some rhct \<Rightarrow>
            (let m = vm_mem st;
                 mmu_type = (case rhct_find (ACPI_RHCT_ENTRY_TYPE_MMU A) m rhct (rhct_nodes_offset A m rhct)
                                     (unat (rhct_node_count A m rhct))
                             of None \<Rightarrow> 0xFFFF | Some hdr \<Rightarrow> rhct_mmu_type A m hdr)
             in if mmu_type = ACPI_RHCT_MMU_TYPE_SV57 A then ok 5
                else if mmu_type = ACPI_RHCT_MMU_TYPE_SV48 A then ok 4
                else if mmu_type = ACPI_RHCT_MMU_TYPE_SV39 A then ok 3
                else ok 0)))"

definition arch_acpi_parse_extentions :: "uacpi \<Rightarrow> u64 \<Rightarrow> 'a riscv_boot \<Rightarrow> (bool \<times> 'a riscv_boot) res" where
  "arch_acpi_parse_extentions A rdsp_physical b =
     (let (info, st) = b
      in if rdsp_physical = 0 then ok (False, b)
         else (case uacpi_rhct A (vm_mem st) of None \<Rightarrow> ok (False, b)
           | Some rhct \<Rightarrow>
               (let m = vm_mem st
                in case rhct_find (ACPI_RHCT_ENTRY_TYPE_ISA_STRING A) m rhct (rhct_nodes_offset A m rhct)
                          (unat (rhct_node_count A m rhct))
                   of None \<Rightarrow> fail (UB ''null pointer'')
                    | Some hdr \<Rightarrow> res_bind (parse_isa_string (rhct_isa_string A hdr) st) (\<lambda>b. ok (True, b)))))"

text \<open>Both together, as \<open>arch_parse_extentions\<close> and \<open>ptm_init\<close> call them.\<close>

definition riscv_parse_extentions ::
  "uacpi \<Rightarrow> libfdt \<Rightarrow> u64 \<Rightarrow> u64 \<Rightarrow> 'a riscv_boot \<Rightarrow> (bool \<times> 'a riscv_boot) res" where
  "riscv_parse_extentions A L rdsp_physical dtb_physical =
     arch_parse_extentions rdsp_physical dtb_physical (arch_acpi_parse_extentions A rdsp_physical)
       (arch_fdt_parse_extentions L dtb_physical)"

definition riscv_ptm_init :: "uacpi \<Rightarrow> libfdt \<Rightarrow> u64 \<Rightarrow> u64 \<Rightarrow> u64 \<Rightarrow> riscv_state \<Rightarrow> riscv_state res" where
  "riscv_ptm_init A L boot_info rdsp_physical dtb_physical st =
     rv_ptm_init (arch_acpi_detect_mmu_levels A rdsp_physical st)
       (arch_fdt_detect_mmu_levels L boot_info dtb_physical st) st"

declare fdt_mmu_loop.simps [code] fdt_isa_loop.simps [code]

end
