(* ===== verification/RiscvPlatformProps.thy ===== *)
theory RiscvPlatformProps
  imports RiscvPlatform PtmRiscvProps
begin

text \<open>
  What the search through the device tree and the RHCT finds, stated over the list of the nodes the
  library enumerates, and the number of levels that follows from the mode's name.
\<close>

section \<open>Literals\<close>

lemma strcmp_lit_zero: "0 \<notin> set cs \<Longrightarrow> strcmp_lit p cs m = 0 \<longleftrightarrow> cstring m p cs"
proof (induction cs arbitrary: p)
  case (Cons c cs)
  have "uint (m p) - uint c = 0 \<longleftrightarrow> m p = c"
    by (simp add: word_uint_eq_iff)
  then show ?case
    using Cons by auto
qed (simp add: uint_0_iff)

lemma cstring_unique: "cstring m p xs \<Longrightarrow> cstring m p ys \<Longrightarrow> xs = ys"
proof (induction xs arbitrary: p ys)
  case Nil
  then show ?case
    by (cases ys) auto
next
  case (Cons x xs)
  then show ?case
    by (cases ys) auto
qed

primrec sv_name :: "sv_mode \<Rightarrow> string" where
  "sv_name SV39 = ''riscv,sv39''"
| "sv_name SV48 = ''riscv,sv48''"
| "sv_name SV57 = ''riscv,sv57''"

lemma fdt_mmu_levels_mode:
  assumes "cstring m p (lit (sv_name sv))" shows "fdt_mmu_levels p m = ok (sv_levels sv)"
proof -
  have "strcmp_lit p (lit (sv_name sv')) m = 0 \<longleftrightarrow> sv' = sv" for sv'
  proof -
    have "0 \<notin> set (lit (sv_name sv'))"
      by (cases sv') (simp_all add: lit_def)
    moreover have "lit (sv_name sv') = lit (sv_name sv) \<Longrightarrow> sv' = sv"
      by (cases sv'; cases sv) (simp_all add: lit_def)
    ultimately show ?thesis
      using strcmp_lit_zero cstring_unique assms by metis
  qed
  from this [of SV39] this [of SV48] this [of SV57] show ?thesis
    by (cases sv) (simp_all add: fdt_mmu_levels_def)
qed

section \<open>The nodes below a node\<close>

text \<open>\<open>ns\<close> are the offsets that \<open>fdt_for_each_subnode\<close> runs through from \<open>node\<close> on.\<close>

fun fdt_chain :: "libfdt \<Rightarrow> u64 \<Rightarrow> memory \<Rightarrow> int \<Rightarrow> int list \<Rightarrow> bool" where
  "fdt_chain L fdt m node [] \<longleftrightarrow> node < 0"
| "fdt_chain L fdt m node (n # ns) \<longleftrightarrow> node = n \<and> 0 \<le> n \<and> fdt_chain L fdt m (fdt_next_subnode L fdt n m) ns"

definition fdt_has_isa :: "libfdt \<Rightarrow> u64 \<Rightarrow> memory \<Rightarrow> int \<Rightarrow> bool" where
  "fdt_has_isa L fdt m n \<longleftrightarrow> fst (fdt_getprop L fdt n ''riscv,isa'' m) \<noteq> 0 \<and> snd (fdt_getprop L fdt n ''riscv,isa'' m) > 0"

lemma fdt_isa_loop_first:
  "fdt_chain L fdt m node ns \<Longrightarrow> fdt_isa_loop L fdt node m =
    ok (case find (\<lambda>n. fdt_is_cpu L fdt n m \<and> fdt_has_isa L fdt m n) ns of None \<Rightarrow> 0
      | Some n \<Rightarrow> fst (fdt_getprop L fdt n ''riscv,isa'' m))"
proof (induction ns arbitrary: node)
  case Nil
  then show ?case
    by (subst fdt_isa_loop.simps) simp
next
  case (Cons n ns)
  then show ?case
    by (subst fdt_isa_loop.simps) (auto simp: fdt_has_isa_def split: prod.splits)
qed

lemma fdt_mmu_loop_first:
  "fdt_chain L fdt m node ns \<Longrightarrow> fdt_mmu_loop L fdt node m =
    (case find (\<lambda>n. fdt_is_cpu L fdt n m) ns of None \<Rightarrow> ok 0
     | Some n \<Rightarrow> (case fdt_getprop L fdt n ''mmu-type'' m of (mmu_str, len) \<Rightarrow>
         if mmu_str \<noteq> 0 \<and> len > 0 then fdt_mmu_levels mmu_str m else ok 0))"
proof (induction ns arbitrary: node)
  case Nil
  then show ?case
    by (subst fdt_mmu_loop.simps) simp
next
  case (Cons n ns)
  then show ?case
    by (subst fdt_mmu_loop.simps) auto
qed

text \<open>A valid device tree whose first CPU node names a paging mode gives that mode's levels.\<close>

lemma fdt_detect_mode:
  assumes "boot_info \<noteq> 0" and "dtb \<noteq> 0" and "fdt = dtb + hhdm_offset st" and "fdt_check_header L fdt (vm_mem st) = 0"
    and "cpus = fdt_path_offset L fdt ''/cpus'' (vm_mem st)" and "0 \<le> cpus"
    and "fdt_chain L fdt (vm_mem st) (fdt_first_subnode L fdt cpus (vm_mem st)) ns"
    and "find (\<lambda>n. fdt_is_cpu L fdt n (vm_mem st)) ns = Some n"
    and "fdt_getprop L fdt n ''mmu-type'' (vm_mem st) = (p, len)" and "p \<noteq> 0" and "0 < len"
    and "cstring (vm_mem st) p (lit (sv_name sv))"
  shows "arch_fdt_detect_mmu_levels L boot_info dtb st = ok (sv_levels sv)"
proof -
  have "fdt_mmu_loop L fdt (fdt_first_subnode L fdt cpus (vm_mem st)) (vm_mem st) = ok (sv_levels sv)"
    using fdt_mmu_loop_first [OF assms(7)] assms(8-11) fdt_mmu_levels_mode [OF assms(12)] by simp
  then show ?thesis
    using assms(1-6) by (simp add: arch_fdt_detect_mmu_levels_def Let_def)
qed

section \<open>The RHCT\<close>

text \<open>The node found has the type wanted, and the code never reports more than a known mode.\<close>

lemma rhct_find_type: "rhct_find wanted m rhct base k = Some hdr \<Longrightarrow> ucast (load16 m hdr) = wanted"
  by (induction wanted m rhct base k rule: rhct_find.induct) (auto simp: Let_def split: if_splits)

lemma acpi_detect_range:
  "\<exists>k. arch_acpi_detect_mmu_levels A rdsp st = ok k \<and> (k = 0 \<or> (\<exists>sv. k = sv_levels sv))"
proof -
  have "\<exists>sv. 5 = sv_levels sv" "\<exists>sv. 4 = sv_levels sv" "\<exists>sv. 3 = sv_levels sv"
    using sv_levels.simps by metis+
  then show ?thesis
    by (simp add: arch_acpi_detect_mmu_levels_def Let_def split: option.split)
qed

end
