(* ===== verification/BootInfo.thy ===== *)
theory BootInfo
  imports Fresh Cpus InitMap
begin

text \<open>
  The boot information of \<open>pre_kernel/public/protocol/bootinfo.h\<close> as it lies in memory: packed records,
  written and read field by field, and the memory map a boot loader hands over
  (\<open>loader_entry\<close>), which both boot protocols add to the physical memory map entry by entry. The
  entry types, framebuffers and modules of a loader are the values its structures hold; their layout is
  defined outside the repository.
\<close>

section \<open>Records in memory\<close>

definition store_bytes :: "u64 \<Rightarrow> u8 list \<Rightarrow> memory \<Rightarrow> memory" where
  "store_bytes a bs m = (\<lambda>x. if unat (x - a) < length bs then bs ! unat (x - a) else m x)"

lemma store64_bytes: "store64 a v = store_bytes a (to_bytes 8 v)"
  by (rule ext) (simp add: store64_def store_bytes_def del: to_bytes.simps)

definition sizeof_bootinfo :: "bool \<Rightarrow> nat" where
  "sizeof_bootinfo riscv = (if riscv then 168 else 136)"

text \<open>The offsets of the fields.\<close>

definition bi_boot_timestamp :: u64 where "bi_boot_timestamp = 0"
definition bi_core_count :: u64 where "bi_core_count = 8"
definition bi_rdsp_physical :: u64 where "bi_rdsp_physical = 16"
definition bi_hhdm_offset :: u64 where "bi_hhdm_offset = 24"
definition bi_hhdm_size :: u64 where "bi_hhdm_size = 32"
definition bi_pfndb_start :: u64 where "bi_pfndb_start = 40"
definition bi_pfndb_size :: u64 where "bi_pfndb_size = 48"
definition bi_cpulocal_start :: u64 where "bi_cpulocal_start = 56"
definition bi_cpulocal_size :: u64 where "bi_cpulocal_size = 64"
definition bi_mm_entry_count :: u64 where "bi_mm_entry_count = 72"
definition bi_mm_entries :: u64 where "bi_mm_entries = 80"
definition bi_kernel_segment_count :: u64 where "bi_kernel_segment_count = 88"
definition bi_kernel_segments :: u64 where "bi_kernel_segments = 96"
definition bi_framebuffer_count :: u64 where "bi_framebuffer_count = 104"
definition bi_framebuffers :: u64 where "bi_framebuffers = 112"
definition bi_module_count :: u64 where "bi_module_count = 120"
definition bi_modules :: u64 where "bi_modules = 128"
definition bi_riscv_base_isa_string :: u64 where "bi_riscv_base_isa_string = 136"
definition bi_riscv_extension_count :: u64 where "bi_riscv_extension_count = 144"
definition bi_riscv_extentions :: u64 where "bi_riscv_extentions = 152"
definition bi_dtb_physical :: u64 where "bi_dtb_physical = 160"

record bootinfo_framebuffer_t =
  fb_vaddr :: u64
  fb_paddr :: u64
  fb_size :: u64
  fb_width :: u32
  fb_height :: u32
  fb_pitch :: u32
  fb_bpp :: u32
  fb_red_position :: u8
  fb_red_size :: u8
  fb_green_position :: u8
  fb_green_size :: u8
  fb_blue_position :: u8
  fb_blue_size :: u8

definition sizeof_bootinfo_framebuffer :: nat where "sizeof_bootinfo_framebuffer = 46"

text \<open>The fields are assigned in the order in which they lie in the packed record.\<close>

definition fb_bytes :: "bootinfo_framebuffer_t \<Rightarrow> u8 list" where
  "fb_bytes fb = to_bytes 8 (fb_vaddr fb) @ to_bytes 8 (fb_paddr fb) @ to_bytes 8 (fb_size fb) @
     to_bytes 4 (ucast (fb_width fb)) @ to_bytes 4 (ucast (fb_height fb)) @ to_bytes 4 (ucast (fb_pitch fb)) @
     to_bytes 4 (ucast (fb_bpp fb)) @
     [fb_red_position fb, fb_red_size fb, fb_green_position fb, fb_green_size fb, fb_blue_position fb, fb_blue_size fb]"

definition store_framebuffer :: "u64 \<Rightarrow> bootinfo_framebuffer_t \<Rightarrow> memory \<Rightarrow> memory" where
  "store_framebuffer p fb m = store_bytes p (fb_bytes fb) m"

record bootinfo_module_t =
  mod_name :: u64
  mod_phys_addr :: u64
  mod_size :: u64

definition sizeof_bootinfo_module :: nat where "sizeof_bootinfo_module = 24"

definition bootinfo_module :: "memory \<Rightarrow> u64 \<Rightarrow> bootinfo_module_t" where
  "bootinfo_module m p = \<lparr>mod_name = load64 m p, mod_phys_addr = load64 m (p + 8), mod_size = load64 m (p + 16)\<rparr>"

section \<open>The memory map of a loader\<close>

record 't loader_entry =
  le_base :: u64
  le_length :: u64
  le_type :: 't

text \<open>The loop over the entries, with the \<open>switch\<close> over the entry types as its argument.\<close>

fun loader_add_entries :: "('t \<Rightarrow> pmm_map_type res) \<Rightarrow> 't loader_entry list \<Rightarrow> pmm_state \<Rightarrow> pmm_state res" where
  "loader_add_entries type_of [] s = ok s"
| "loader_add_entries type_of (e # es) s =
     res_bind (type_of (le_type e))
       (\<lambda>t. res_bind (pmm_map_add (le_base e) (le_length e) t s) (loader_add_entries type_of es))"

text \<open>The sum of the lengths of the module names, each with its NUL.\<close>

fun names_size :: "u64 list \<Rightarrow> memory \<Rightarrow> nat res" where
  "names_size [] m = ok 0"
| "names_size (p # ps) m =
     res_bind (strlen p m) (\<lambda>n. res_bind (names_size ps m) (\<lambda>k. ok (n + 1 + k)))"

definition boot_info_block_size :: "bool \<Rightarrow> nat \<Rightarrow> u64 list \<Rightarrow> memory \<Rightarrow> u64 res" where
  "boot_info_block_size riscv framebuffers names m =
     res_bind (names_size names m)
       (\<lambda>k. ok (MATH_ALIGN_UP (of_nat (sizeof_bootinfo riscv + sizeof_bootinfo_framebuffer * framebuffers +
                  sizeof_bootinfo_module * length names + k)) PTM_PAGE_GRANULARITY))"

text \<open>The framebuffers are written one after the other.\<close>

fun store_framebuffers :: "u64 \<Rightarrow> bootinfo_framebuffer_t list \<Rightarrow> memory \<Rightarrow> memory" where
  "store_framebuffers p [] m = m"
| "store_framebuffers p (fb # fbs) m =
     store_framebuffers (p + of_nat sizeof_bootinfo_framebuffer) fbs (store_framebuffer p fb m)"

end
