(* ===== verification/Limine.thy ===== *)
theory Limine
  imports BootInfo
begin

text \<open>
  Booting through Limine: \<open>pre_kernel/src/boot/limine.c\<close>, on both architectures. The responses are the
  record \<open>limine_t\<close> of the values the code reads from them; a response that may be missing is an
  \<open>option\<close>, and those the code reads without a check are taken to be there. The requests themselves
  are data for the loader. The log lines are left out.
\<close>

datatype limine_mm_type = LIMINE_MEMMAP_USABLE | LIMINE_MEMMAP_RESERVED | LIMINE_MEMMAP_FRAMEBUFFER
  | LIMINE_MEMMAP_ACPI_RECLAIMABLE | LIMINE_MEMMAP_ACPI_NVS | LIMINE_MEMMAP_BAD_MEMORY
  | LIMINE_MEMMAP_BOOTLOADER_RECLAIMABLE | LIMINE_MEMMAP_EXECUTABLE_AND_MODULES
  | LIMINE_MEMMAP_RESERVED_MAPPED | LIMINE_MEMMAP_OTHER nat

record limine_framebuffer =
  lfb_address :: u64
  lfb_width :: u64
  lfb_height :: u64
  lfb_pitch :: u64
  lfb_bpp :: u16
  lfb_red_mask_shift :: u8
  lfb_red_mask_size :: u8
  lfb_green_mask_shift :: u8
  lfb_green_mask_size :: u8
  lfb_blue_mask_shift :: u8
  lfb_blue_mask_size :: u8

record limine_file =
  lf_path :: u64
  lf_address :: u64
  lf_size :: u64

record limine_mp_info =
  mp_id :: u64
  mp_extra_argument :: u64
  mp_goto_address :: u64

record limine_t =
  lm_base_revision_valid :: bool
  lm_base_revision_supported :: bool
  lm_memmap :: "limine_mm_type loader_entry list"
  lm_hhdm_offset :: u64
  lm_framebuffers :: "limine_framebuffer list option"
  lm_modules :: "limine_file list"
  lm_cpus :: "limine_mp_info list"
  lm_bsp_id :: u64
  lm_timestamp :: u64
  lm_rsdp_address :: "u64 option"
  lm_dtb_ptr :: "u64 option"

text \<open>\<open>mp_id\<close> is \<open>lapic_id\<close> on x86-64 and \<open>hartid\<close> on RISC-V. \<open>ap_entry\<close> is the address of
  \<open>limine_ap_entry\<close>, which hands \<open>extra_argument\<close> to \<open>prekernel_init_ap\<close>.\<close>

definition limine_core_is_bsp :: "limine_t \<Rightarrow> nat \<Rightarrow> bool" where
  "limine_core_is_bsp l i = (mp_id (lm_cpus l ! i) = lm_bsp_id l)"

definition limine_start_ap :: "u64 \<Rightarrow> nat \<Rightarrow> u64 \<Rightarrow> limine_mp_info list \<Rightarrow> limine_mp_info list" where
  "limine_start_ap ap_entry i boot_info cpus =
     (let cpus = cpus[i := (cpus ! i)\<lparr>mp_extra_argument := boot_info\<rparr>]
      in cpus[i := (cpus ! i)\<lparr>mp_goto_address := ap_entry\<rparr>])"

definition limine_ap_entry :: "limine_mp_info \<Rightarrow> u64" where
  "limine_ap_entry mp_info = mp_extra_argument mp_info"

fun limine_type :: "limine_mm_type \<Rightarrow> pmm_map_type res" where
  "limine_type LIMINE_MEMMAP_USABLE = ok PMM_MAP_TYPE_FREE"
| "limine_type LIMINE_MEMMAP_RESERVED = ok PMM_MAP_TYPE_RESERVED"
| "limine_type LIMINE_MEMMAP_FRAMEBUFFER = ok PMM_MAP_TYPE_RESERVED"
| "limine_type LIMINE_MEMMAP_ACPI_RECLAIMABLE = ok PMM_MAP_TYPE_ACPI_RECLAIMABLE"
| "limine_type LIMINE_MEMMAP_ACPI_NVS = ok PMM_MAP_TYPE_ACPI_NVS"
| "limine_type LIMINE_MEMMAP_BAD_MEMORY = ok PMM_MAP_TYPE_BAD"
| "limine_type LIMINE_MEMMAP_BOOTLOADER_RECLAIMABLE = ok PMM_MAP_TYPE_BOOTLOADER_RECLAIMABLE"
| "limine_type LIMINE_MEMMAP_EXECUTABLE_AND_MODULES = ok PMM_MAP_TYPE_BOOTLOADER_RECLAIMABLE"
| "limine_type LIMINE_MEMMAP_RESERVED_MAPPED = ok PMM_MAP_TYPE_USED"
| "limine_type (LIMINE_MEMMAP_OTHER n) = fail (Panic ''Invalid memory map entry type'')"

definition limine_add_entries :: "limine_t \<Rightarrow> pmm_state \<Rightarrow> pmm_state res" where
  "limine_add_entries l s = loader_add_entries limine_type (lm_memmap l) s"

text \<open>\<open>bpp / 8\<close> is computed in \<open>int\<close>; the widths are truncated to 32 bits.\<close>

definition limine_fb :: "u64 \<Rightarrow> limine_framebuffer \<Rightarrow> bootinfo_framebuffer_t" where
  "limine_fb h f = \<lparr>fb_vaddr = lfb_address f, fb_paddr = lfb_address f - h,
     fb_size = lfb_width f * lfb_height f * ucast (lfb_bpp f div 8),
     fb_width = ucast (lfb_width f), fb_height = ucast (lfb_height f), fb_pitch = ucast (lfb_pitch f),
     fb_bpp = ucast (lfb_bpp f),
     fb_red_position = lfb_red_mask_shift f, fb_red_size = lfb_red_mask_size f,
     fb_green_position = lfb_green_mask_shift f, fb_green_size = lfb_green_mask_size f,
     fb_blue_position = lfb_blue_mask_shift f, fb_blue_size = lfb_blue_mask_size f\<rparr>"

text \<open>One module: the record and the name behind it, as with Tartarus, and a copy of the file in pages of
  its own.\<close>

fun limine_modules_loop :: "u64 \<Rightarrow> limine_file list \<Rightarrow> u64 \<Rightarrow> 'a vm_state_scheme \<Rightarrow> 'a vm_state_scheme res" where
  "limine_modules_loop h [] p st = ok st"
| "limine_modules_loop h (f # fs) p st =
     (let m = store64 p (p + of_nat sizeof_bootinfo_module) (vm_mem st)
      in res_bind (strlen (lf_path f) m)
           (\<lambda>n. let m = memcpy (load64 m p) (lf_path f) (n + 1) m
                in res_bind (strlen (lf_path f) m)
                     (\<lambda>n. let next_p = p + of_nat (sizeof_bootinfo_module + n + 1)
                          in res_bind (vm_alloc (MATH_ALIGN_UP (lf_size f) PTM_PAGE_GRANULARITY div PTM_PAGE_GRANULARITY)
                                        (st\<lparr>vm_mem := m\<rparr>))
                               (\<lambda>(phys, st).
                                  let m = store64 (p + 8) phys (vm_mem st);
                                      m = store64 (p + 16) (lf_size f) m;
                                      m = memcpy (load64 m (p + 8) + h) (lf_address f) (unat (lf_size f)) m
                                  in limine_modules_loop h fs next_p (st\<lparr>vm_mem := m\<rparr>)))))"

definition limine_boot_fields :: "bool \<Rightarrow> limine_t \<Rightarrow> u64 \<Rightarrow> memory \<Rightarrow> memory" where
  "limine_boot_fields riscv l boot_info m =
     (let h = lm_hhdm_offset l;
          m = store64 (boot_info + bi_core_count) (of_nat (length (lm_cpus l))) m;
          m = store64 (boot_info + bi_boot_timestamp) (lm_timestamp l) m;
          m = (case lm_rsdp_address l of
                 Some a \<Rightarrow> if a \<noteq> 0 then store64 (boot_info + bi_rdsp_physical) (a - h) m else m
               | None \<Rightarrow> m);
          m = store64 (boot_info + bi_hhdm_offset) h m
      in if riscv
         then (let m = store64 (boot_info + bi_dtb_physical) 0 m;
                   m = store64 (boot_info + bi_riscv_base_isa_string) 0 m;
                   m = store64 (boot_info + bi_riscv_extension_count) 0 m;
                   m = store64 (boot_info + bi_riscv_extentions) 0 m
               in case lm_dtb_ptr l of
                    Some a \<Rightarrow> if a \<noteq> 0 then store64 (boot_info + bi_dtb_physical) (a - h) m else m
                  | None \<Rightarrow> m)
         else m)"

text \<open>Up to the call of \<open>prekernel_init\<close>.\<close>

definition prekernel_entry_limine ::
  "bool \<Rightarrow> limine_t \<Rightarrow> 'a vm_state_scheme \<Rightarrow> (u64 \<times> 'a vm_state_scheme) res" where
  "prekernel_entry_limine riscv l st =
     (if \<not> lm_base_revision_valid l then fail (Panic ''Booted with invalid limine base revision'')
      else if \<not> lm_base_revision_supported l then fail (Panic ''Booted with unsupported limine base revision'')
      else res_bind (limine_add_entries l (vm_pmm st))
        (\<lambda>s. let fbs = (case lm_framebuffers l of Some fbs \<Rightarrow> map (limine_fb (lm_hhdm_offset l)) fbs | None \<Rightarrow> [])
             in res_bind (boot_info_block_size riscv (length fbs) (map lf_path (lm_modules l)) (vm_mem st))
                  (\<lambda>sz. res_bind (vm_alloc (sz div PTM_PAGE_GRANULARITY) (st\<lparr>vm_pmm := s\<rparr>))
                     (\<lambda>(p, st).
                        let boot_info = p + lm_hhdm_offset l;
                            m = limine_boot_fields riscv l boot_info (vm_mem st);
                            pointer = boot_info + of_nat (sizeof_bootinfo riscv);
                            m = store64 (boot_info + bi_framebuffer_count) (of_nat (length fbs)) m;
                            m = store64 (boot_info + bi_framebuffers) (if lm_framebuffers l = None then 0 else pointer) m;
                            m = store_framebuffers pointer fbs m;
                            pointer = pointer + of_nat (sizeof_bootinfo_framebuffer * length fbs);
                            m = store64 (boot_info + bi_module_count) (of_nat (length (lm_modules l))) m;
                            m = store64 (boot_info + bi_modules) pointer m
                        in res_bind (limine_modules_loop (lm_hhdm_offset l) (lm_modules l) pointer (st\<lparr>vm_mem := m\<rparr>))
                             (\<lambda>st. ok (boot_info, st\<lparr>hhdm_offset := lm_hhdm_offset l\<rparr>))))))"

end
