(* ===== verification/Tartarus.thy ===== *)
theory Tartarus
  imports BootInfo
begin

text \<open>
  Booting through Tartarus: \<open>pre_kernel/src/boot/tartarus.c\<close> (x86-64 only). The structures of the
  protocol are records of the fields the code reads; the flag \<open>TARTARUS_CPU_FLAG_IS_BSP\<close> is a field
  too, as its value is defined outside the repository. The log lines are left out.
\<close>

datatype tartarus_mm_type = TARTARUS_MM_TYPE_EFI_RECLAIMABLE | TARTARUS_MM_TYPE_USABLE
  | TARTARUS_MM_TYPE_ACPI_TABLES | TARTARUS_MM_TYPE_RESERVED | TARTARUS_MM_TYPE_BOOTLOADER_RECLAIMABLE
  | TARTARUS_MM_TYPE_ACPI_RECLAIMABLE | TARTARUS_MM_TYPE_ACPI_NVS | TARTARUS_MM_TYPE_BAD
  | TARTARUS_MM_TYPE_OTHER nat

record tartarus_framebuffer_t =
  tfb_vaddr :: u64
  tfb_paddr :: u64
  tfb_size :: u64
  tfb_width :: u32
  tfb_height :: u32
  tfb_pitch :: u32
  tfb_bpp :: u32
  tfb_red_position :: u8
  tfb_red_size :: u8
  tfb_green_position :: u8
  tfb_green_size :: u8
  tfb_blue_position :: u8
  tfb_blue_size :: u8

record tartarus_module_t =
  tm_name :: u64
  tm_paddr :: u64
  tm_size :: u64

record tartarus_cpu_t =
  tc_flags :: u64
  tc_argument :: u64
  tc_park_address :: u64

record tartarus_boot_info_t =
  tb_mm_entries :: "tartarus_mm_type loader_entry list"
  tb_framebuffers :: "tartarus_framebuffer_t list"
  tb_modules :: "tartarus_module_t list"
  tb_cpus :: "tartarus_cpu_t list"
  tb_boot_timestamp :: u64
  tb_acpi_rsdp_address :: u64
  tb_hhdm_offset :: u64
  TARTARUS_CPU_FLAG_IS_BSP :: u64

definition tartarus_core_is_bsp :: "tartarus_boot_info_t \<Rightarrow> nat \<Rightarrow> bool" where
  "tartarus_core_is_bsp tb i = (tc_flags (tb_cpus tb ! i) AND TARTARUS_CPU_FLAG_IS_BSP tb \<noteq> 0)"

text \<open>\<open>init_ap\<close> is the address of \<open>prekernel_init_ap\<close>.\<close>

definition tartarus_start_ap :: "u64 \<Rightarrow> tartarus_boot_info_t \<Rightarrow> nat \<Rightarrow> u64 \<Rightarrow> memory \<Rightarrow> memory" where
  "tartarus_start_ap init_ap tb i boot_info m =
     (let m = store64 (tc_argument (tb_cpus tb ! i)) boot_info m
      in store64 (tc_park_address (tb_cpus tb ! i)) init_ap m)"

fun tartarus_type :: "tartarus_mm_type \<Rightarrow> pmm_map_type res" where
  "tartarus_type TARTARUS_MM_TYPE_EFI_RECLAIMABLE = ok PMM_MAP_TYPE_FREE"
| "tartarus_type TARTARUS_MM_TYPE_USABLE = ok PMM_MAP_TYPE_FREE"
| "tartarus_type TARTARUS_MM_TYPE_ACPI_TABLES = ok PMM_MAP_TYPE_USED"
| "tartarus_type TARTARUS_MM_TYPE_RESERVED = ok PMM_MAP_TYPE_RESERVED"
| "tartarus_type TARTARUS_MM_TYPE_BOOTLOADER_RECLAIMABLE = ok PMM_MAP_TYPE_BOOTLOADER_RECLAIMABLE"
| "tartarus_type TARTARUS_MM_TYPE_ACPI_RECLAIMABLE = ok PMM_MAP_TYPE_ACPI_RECLAIMABLE"
| "tartarus_type TARTARUS_MM_TYPE_ACPI_NVS = ok PMM_MAP_TYPE_ACPI_NVS"
| "tartarus_type TARTARUS_MM_TYPE_BAD = ok PMM_MAP_TYPE_BAD"
| "tartarus_type (TARTARUS_MM_TYPE_OTHER n) = fail (Panic ''Invalid memory map entry type'')"

definition tartarus_add_entries :: "tartarus_boot_info_t \<Rightarrow> pmm_state \<Rightarrow> pmm_state res" where
  "tartarus_add_entries tb s = loader_add_entries tartarus_type (tb_mm_entries tb) s"

definition tartarus_framebuffer :: "tartarus_framebuffer_t \<Rightarrow> bootinfo_framebuffer_t" where
  "tartarus_framebuffer f = \<lparr>fb_vaddr = tfb_vaddr f, fb_paddr = tfb_paddr f, fb_size = tfb_size f,
     fb_width = tfb_width f, fb_height = tfb_height f, fb_pitch = tfb_pitch f, fb_bpp = tfb_bpp f,
     fb_red_position = tfb_red_position f, fb_red_size = tfb_red_size f,
     fb_green_position = tfb_green_position f, fb_green_size = tfb_green_size f,
     fb_blue_position = tfb_blue_position f, fb_blue_size = tfb_blue_size f\<rparr>"

text \<open>One module: the record, the name right behind it, and the pointer to the next record.\<close>

fun tartarus_modules_loop :: "tartarus_module_t list \<Rightarrow> u64 \<Rightarrow> memory \<Rightarrow> memory res" where
  "tartarus_modules_loop [] p m = ok m"
| "tartarus_modules_loop (t # ts) p m =
     (let name = p + of_nat sizeof_bootinfo_module;
          m = store64 p name m
      in res_bind (strlen (tm_name t) m)
           (\<lambda>n. let m = memcpy (load64 m p) (tm_name t) (n + 1) m
                in res_bind (strlen (tm_name t) m)
                     (\<lambda>n. let next_p = p + of_nat (sizeof_bootinfo_module + n + 1);
                              m = store64 (p + 8) (tm_paddr t) m;
                              m = store64 (p + 16) (tm_size t) m
                          in tartarus_modules_loop ts next_p m)))"

text \<open>The first fields; \<open>hhdm_size\<close> and the fields set later are left as they are in the pages allocated.\<close>

definition tartarus_boot_fields :: "tartarus_boot_info_t \<Rightarrow> u64 \<Rightarrow> memory \<Rightarrow> memory" where
  "tartarus_boot_fields tb boot_info m =
     (let m = store64 (boot_info + bi_core_count) (of_nat (length (tb_cpus tb))) m;
          m = store64 (boot_info + bi_boot_timestamp) (tb_boot_timestamp tb) m;
          m = store64 (boot_info + bi_rdsp_physical) (tb_acpi_rsdp_address tb) m
      in store64 (boot_info + bi_hhdm_offset) (tb_hhdm_offset tb) m)"

text \<open>Up to the call of \<open>prekernel_init\<close>: the pointer to the boot information, which is
  \<open>g_globals_boot_info\<close> from then on.\<close>

definition prekernel_entry_tartarus ::
  "tartarus_boot_info_t \<Rightarrow> u16 \<Rightarrow> 'a vm_state_scheme \<Rightarrow> (u64 \<times> 'a vm_state_scheme) res" where
  "prekernel_entry_tartarus tb version st =
     (let major = drop_bit 8 version
      in if major \<noteq> 3 then fail (Panic (''Unsupported Tartarus protocol version'' @ [CHR 0x0A]))
         else res_bind (tartarus_add_entries tb (vm_pmm st))
           (\<lambda>s. res_bind (boot_info_block_size False (length (tb_framebuffers tb)) (map tm_name (tb_modules tb)) (vm_mem st))
              (\<lambda>sz. res_bind (vm_alloc (sz div PTM_PAGE_GRANULARITY) (st\<lparr>vm_pmm := s\<rparr>))
                 (\<lambda>(p, st).
                    let boot_info = p + tb_hhdm_offset tb;
                        m = tartarus_boot_fields tb boot_info (vm_mem st);
                        pointer = boot_info + of_nat (sizeof_bootinfo False);
                        m = store64 (boot_info + bi_framebuffer_count) (of_nat (length (tb_framebuffers tb))) m;
                        m = store64 (boot_info + bi_framebuffers) pointer m;
                        m = store_framebuffers pointer (map tartarus_framebuffer (tb_framebuffers tb)) m;
                        pointer = pointer + of_nat (sizeof_bootinfo_framebuffer * length (tb_framebuffers tb));
                        m = store64 (boot_info + bi_module_count) (of_nat (length (tb_modules tb))) m;
                        m = store64 (boot_info + bi_modules) pointer m
                    in res_bind (tartarus_modules_loop (tb_modules tb) pointer m)
                         (\<lambda>m. ok (boot_info, st\<lparr>vm_mem := m, hhdm_offset := tb_hhdm_offset tb\<rparr>))))))"

end
