(* ===== verification/BootProps.thy ===== *)
theory BootProps
  imports Limine Tartarus
begin

text \<open>
  The memory map after booting through either protocol: the entries of the loader, each with its type
  translated, and nothing else.
\<close>

section \<open>The loader's memory map\<close>

text \<open>The entry that holds an address.\<close>

definition loader_covers :: "'t loader_entry \<Rightarrow> nat \<Rightarrow> bool" where
  "loader_covers e a \<longleftrightarrow> unat (le_base e) \<le> a \<and> a < unat (le_base e) + unat (le_length e)"

fun loader_type_at :: "('t \<Rightarrow> pmm_map_type) \<Rightarrow> 't loader_entry list \<Rightarrow> nat \<Rightarrow> pmm_map_type option" where
  "loader_type_at t [] a = None"
| "loader_type_at t (e # es) a = (if loader_covers e a then Some (t (le_type e)) else loader_type_at t es a)"

lemma meets_noneI:
  assumes "b < h" and "\<And>a. b \<le> a \<Longrightarrow> a < h \<Longrightarrow> type_at (live s) a = None" and "wf_map (live s)"
  shows "meets_none s b h"
  unfolding meets_none_def clear_of_def
proof (intro ballI, rule ccontr)
  fix e assume e: "e \<in> set (live s)" "\<not> (hi e \<le> b \<or> h \<le> lo e)"
  then have "contains e (max b (lo e))"
    using entry_ok_less wf_map_entry [OF assms(3) e(1)] by (auto simp: contains_def)
  moreover have "type_at (live s) (max b (lo e)) = None"
    using assms(1,2) e(2) by simp
  ultimately show False
    using e(1) by (simp add: type_at_None_iff)
qed

lemma add_entry:
  assumes inv: "pmm_inv s" and cap: "g_pmm_map_size s < PMM_MAP_MAX_ENTRIES"
    and r: "region_ok (le_base e) (le_length e)" and none: "\<And>a. loader_covers e a \<Longrightarrow> type_at (live s) a = None"
  obtains s' where "pmm_map_add (le_base e) (le_length e) t s = ok s'" and "pmm_inv s'"
    and "\<And>a. type_at (live s') a = (if loader_covers e a then Some t else type_at (live s) a)"
    and "g_pmm_map_size s' \<le> Suc (g_pmm_map_size s)"
proof (cases "le_length e = 0")
  case True
  then show thesis
    using inv by (intro that [of s]) (auto simp: pmm_map_add_def loader_covers_def)
next
  case False
  then have len: "0 < unat (le_length e)"
    by (simp add: unat_gt_0)
  have none': "meets_none s (unat (le_base e)) (region_end (le_base e) (le_length e))"
    using len none inv by (intro meets_noneI) (auto simp: loader_covers_def pmm_inv_def)
  obtain s' where s': "pmm_map_set (le_base e) (le_length e) t False s = ok s'"
    "merged s (unat (le_base e)) (region_end (le_base e) (le_length e)) t False s'"
    "g_pmm_map_size s' \<le> Suc (g_pmm_map_size s)"
    using set_meets_none [OF inv cap r False none'] by blast
  then show thesis
    using False none by (intro that [of s']) (auto simp: pmm_map_add_def merged_def merge_type_def loader_covers_def)
qed

lemma loader_add:
  assumes "pmm_inv s" and "g_pmm_map_size s + length es \<le> PMM_MAP_MAX_ENTRIES"
    and "\<And>e. e \<in> set es \<Longrightarrow> region_ok (le_base e) (le_length e) \<and> type_of (le_type e) = ok (t (le_type e)) \<and>
      (\<forall>a. loader_covers e a \<longrightarrow> type_at (live s) a = None)"
    and "sorted_wrt (\<lambda>e f. \<forall>a. \<not> (loader_covers e a \<and> loader_covers f a)) es"
  shows "\<exists>s'. loader_add_entries type_of es s = ok s' \<and> pmm_inv s' \<and>
    (\<forall>a. type_at (live s') a = (case loader_type_at t es a of None \<Rightarrow> type_at (live s) a | Some u \<Rightarrow> Some u))"
  using assms
proof (induction es arbitrary: s)
  case (Cons e es)
  have e: "region_ok (le_base e) (le_length e)" "type_of (le_type e) = ok (t (le_type e))"
    "\<And>a. loader_covers e a \<Longrightarrow> type_at (live s) a = None"
    using Cons.prems(3) [of e] by auto
  obtain s1 where s1: "pmm_map_add (le_base e) (le_length e) (t (le_type e)) s = ok s1" "pmm_inv s1"
    "\<And>a. type_at (live s1) a = (if loader_covers e a then Some (t (le_type e)) else type_at (live s) a)"
    "g_pmm_map_size s1 \<le> Suc (g_pmm_map_size s)"
    by (rule add_entry [OF Cons.prems(1) _ e(1,3), of "t (le_type e)"]) (use Cons.prems(2) in auto)
  have "region_ok (le_base f) (le_length f) \<and> type_of (le_type f) = ok (t (le_type f)) \<and>
      (\<forall>a. loader_covers f a \<longrightarrow> type_at (live s1) a = None)" if "f \<in> set es" for f
    using Cons.prems(3) [of f] Cons.prems(4) that s1(3) by auto
  with Cons.IH [OF s1(2)] Cons.prems(2,4) s1(4)
  obtain s' where s': "loader_add_entries type_of es s1 = ok s'" "pmm_inv s'"
    "\<And>a. type_at (live s') a = (case loader_type_at t es a of None \<Rightarrow> type_at (live s1) a | Some u \<Rightarrow> Some u)"
    by auto
  have "type_at (live s') a = (case loader_type_at t (e # es) a of None \<Rightarrow> type_at (live s) a | Some u \<Rightarrow> Some u)" for a
  proof (cases "loader_covers e a")
    case True
    have "loader_type_at t fs a = None" if "\<And>f. f \<in> set fs \<Longrightarrow> \<not> loader_covers f a" for fs
      using that by (induction fs) auto
    then have "loader_type_at t es a = None"
      using Cons.prems(4) True by auto
    then show ?thesis
      using True by (simp add: s'(3) s1(3))
  qed (simp add: s'(3) s1(3) split: option.split)
  then show ?case
    using e(2) s1(1) s'(1,2) by auto
qed simp


text \<open>The tables of the two protocols: every type but an unknown one has a translation.\<close>

definition limine_known :: "limine_mm_type \<Rightarrow> pmm_map_type" where
  "limine_known x = the_ok (limine_type x)"


end
