(* ===== verification/Block.thy ===== *)
theory Block
  imports BootInfo
begin

text \<open>
  What stores do to a block of memory, by offsets into it: which bytes change, and what is read back.
  Shared by everything that fills the boot information.
\<close>

section \<open>Writing inside a block\<close>

text \<open>\<open>writes B a b\<close>: only the bytes from offset \<open>a\<close> up to \<open>b\<close> of the block at \<open>B\<close> differ.\<close>

definition writes :: "u64 \<Rightarrow> nat \<Rightarrow> nat \<Rightarrow> memory \<Rightarrow> memory \<Rightarrow> bool" where
  "writes B a b m m' \<longleftrightarrow> (\<forall>x. \<not> (a \<le> unat (x - B) \<and> unat (x - B) < b) \<longrightarrow> m' x = m x)"

lemma writes_refl: "writes B a b m m"
  by (simp add: writes_def)

lemma writes_trans:
  assumes "writes B a b m m1" and "writes B c d m1 m2" and "l \<le> a" "l \<le> c" "b \<le> h" "d \<le> h"
  shows "writes B l h m m2"
  unfolding writes_def
proof (intro allI impI)
  fix x assume "\<not> (l \<le> unat (x - B) \<and> unat (x - B) < h)"
  then have "\<not> (a \<le> unat (x - B) \<and> unat (x - B) < b)" "\<not> (c \<le> unat (x - B) \<and> unat (x - B) < d)"
    using assms(3-6) by auto
  then show "m2 x = m x"
    using assms(1,2) unfolding writes_def by metis
qed

lemma writes_byte:
  "writes B a b m m' \<Longrightarrow> j < 2 ^ 64 \<Longrightarrow> j < a \<or> b \<le> j \<Longrightarrow> m' (B + of_nat j) = m (B + of_nat j)"
  unfolding writes_def by (elim allE [of _ "B + of_nat j"]) (auto simp: unat_of_nat_64 [simplified])

lemma writes_outside:
  assumes "writes B a b m m'" and "b \<le> N" and "\<not> in_array B N x" shows "m' x = m x"
proof -
  have "\<not> (a \<le> unat (x - B) \<and> unat (x - B) < b)"
    using assms(2,3) unfolding in_array_def by linarith
  then show ?thesis
    using assms(1) unfolding writes_def by blast
qed

lemma writes_bytes_at:
  assumes "writes B a b m m'" and "j + n \<le> 2 ^ 64" and "j + n \<le> a \<or> b \<le> j"
  shows "bytes_at m' (B + of_nat j) n = bytes_at m (B + of_nat j) n"
proof (rule nth_equalityI)
  fix i assume "i < length (bytes_at m' (B + of_nat j) n)"
  then show "bytes_at m' (B + of_nat j) n ! i = bytes_at m (B + of_nat j) n ! i"
    using writes_byte [OF assms(1), of "j + i"] assms(2,3) by (auto simp: add.assoc)
qed simp

lemma writes_load64:
  "writes B a b m m' \<Longrightarrow> j + 8 \<le> 2 ^ 64 \<Longrightarrow> j + 8 \<le> a \<or> b \<le> j \<Longrightarrow> load64 m' (B + of_nat j) = load64 m (B + of_nat j)"
  using writes_bytes_at [of B a b m m' j 8] by (simp add: load64_def)

lemma block_offset:
  fixes B x :: u64
  assumes "c + n \<le> 2 ^ 64" and "unat (x - (B + of_nat c)) < n" shows "unat (x - B) = c + unat (x - (B + of_nat c))"
proof -
  have "x - B = of_nat c + (x - (B + of_nat c))"
    by simp
  also have "unat \<dots> = c + unat (x - (B + of_nat c))"
    using assms by (subst unat_add_nowrap) (simp_all add: unat_of_nat_64)
  finally show ?thesis .
qed

lemma block_inside:
  fixes B x :: u64
  assumes "c + n \<le> 2 ^ 64" and "\<not> (c \<le> unat (x - B) \<and> unat (x - B) < c + n)"
  shows "\<not> unat (x - (B + of_nat c)) < n"
proof
  assume less: "unat (x - (B + of_nat c)) < n"
  show False
    using assms(2) less unfolding block_offset [OF assms(1) less] by simp
qed

lemma store_bytes_block:
  assumes "c + length bs \<le> 2 ^ 64"
  shows "writes B c (c + length bs) m (store_bytes (B + of_nat c) bs m)"
    and "bytes_at (store_bytes (B + of_nat c) bs m) (B + of_nat c) (length bs) = bs"
proof -
  show "writes B c (c + length bs) m (store_bytes (B + of_nat c) bs m)"
    unfolding writes_def store_bytes_def using block_inside [OF assms] by presburger
  show "bytes_at (store_bytes (B + of_nat c) bs m) (B + of_nat c) (length bs) = bs"
    using assms by (intro nth_equalityI) (simp_all add: store_bytes_def unat_of_nat_64)
qed

lemma store64_block: "c + 8 \<le> 2 ^ 64 \<Longrightarrow> writes B c (c + 8) m (store64 (B + of_nat c) v m)"
  using store_bytes_block(1) [of c "to_bytes 8 v" B m] by (simp add: store64_bytes del: to_bytes.simps)

lemma memcpy_block:
  assumes N: "N \<le> 2 ^ 64" "c + n \<le> N" and src: "\<And>i. i < n \<Longrightarrow> \<not> in_array B N (src + of_nat i)"
  shows "writes B c (c + n) m (memcpy (B + of_nat c) src n m)"
    and "i < n \<Longrightarrow> memcpy (B + of_nat c) src n m (B + of_nat c + of_nat i) = m (src + of_nat i)"
proof -
  have "B + of_nat c + of_nat j \<noteq> src + of_nat k" if "j < n" "k < n" for j k
    using src [OF that(2)] in_array_index [of "c + j" N B] that(1) N by (auto simp: add.assoc)
  then have cp: "copied (B + of_nat c) src n m (memcpy (B + of_nat c) src n m)"
    using N by (intro memcpy_disjoint) simp_all
  show "writes B c (c + n) m (memcpy (B + of_nat c) src n m)"
    using cp block_inside [of c n] N unfolding writes_def copied_def in_array_def by (meson order_trans)
  show "i < n \<Longrightarrow> memcpy (B + of_nat c) src n m (B + of_nat c + of_nat i) = m (src + of_nat i)"
    using cp N by (simp add: copied_def in_array_index)
qed

lemma load64_elsewhere:
  assumes "c + 8 \<le> 2 ^ 64" and "j + 8 \<le> 2 ^ 64" and "j + 8 \<le> c \<or> c + 8 \<le> j"
  shows "load64 (store64 (B + of_nat c) v m) (B + of_nat j) = load64 m (B + of_nat j)"
  by (rule writes_load64 [OF store64_block [OF assms(1)] assms(2,3)])

end
