(* ===== verification/TartarusProps.thy ===== *)
theory TartarusProps
  imports Tartarus Block IsaProps HandoffProps
begin

text \<open>
  The boot information Tartarus' entry point leaves in memory: the header, an array of framebuffers,
  and a chain of module records, each with its name behind it.
\<close>

section \<open>The modules\<close>

text \<open>The records of the modules are a chain: each is followed by its name, and that by the next record.\<close>

fun module_chain :: "memory \<Rightarrow> u64 \<Rightarrow> tartarus_module_t list \<Rightarrow> u8 list list \<Rightarrow> bool" where
  "module_chain m q (t # ts) (w # ws) \<longleftrightarrow>
     bootinfo_module m q = \<lparr>mod_name = q + 24, mod_phys_addr = tm_paddr t, mod_size = tm_size t\<rparr> \<and>
     cstring m (q + 24) w \<and> module_chain m (q + of_nat (length w + 25)) ts ws"
| "module_chain m q ts ws \<longleftrightarrow> ts = [] \<and> ws = []"

fun chain_size :: "u8 list list \<Rightarrow> nat" where
  "chain_size [] = 0"
| "chain_size (w # ws) = length w + 25 + chain_size ws"

text \<open>The names lie outside the block.\<close>

definition name_ok :: "memory \<Rightarrow> u64 \<Rightarrow> nat \<Rightarrow> tartarus_module_t \<Rightarrow> u8 list \<Rightarrow> bool" where
  "name_ok m B N t w \<longleftrightarrow> cstring m (tm_name t) w \<and> length w \<le> INT_MAX \<and>
     (\<forall>j\<le>length w. \<not> in_array B N (tm_name t + of_nat j))"

lemma name_ok_writes: "name_ok m B N t w \<Longrightarrow> writes B a b m m' \<Longrightarrow> b \<le> N \<Longrightarrow> name_ok m' B N t w"
  using writes_outside by (fastforce simp: name_ok_def cstring_iff)

lemma name_ok_strlen: "name_ok m B N t w \<Longrightarrow> strlen (tm_name t) m = ok (length w)"
  using strlen_loop_cstring [of m "tm_name t" 0 w] by (simp add: name_ok_def strlen_def)

lemma writes_cstring:
  assumes "writes B a b m m'" and "j + length w < 2 ^ 64" and "j + length w < a \<or> b \<le> j" and "cstring m (B + of_nat j) w"
  shows "cstring m' (B + of_nat j) w"
  by (rule cstring_same [OF assms(4)]) (use writes_byte [OF assms(1), of "j + _"] assms(2,3) in \<open>auto simp: add.assoc\<close>)

text \<open>One module.\<close>

lemma tartarus_module_step:
  assumes N: "N \<le> 2 ^ 64" "c + 25 + length w \<le> N" and name: "name_ok m B N t w"
  obtains m' where "tartarus_modules_loop (t # ts) (B + of_nat c) m =
      tartarus_modules_loop ts (B + of_nat (c + length w + 25)) m'"
    and "writes B c (c + 25 + length w) m m'"
    and "bootinfo_module m' (B + of_nat c) =
      \<lparr>mod_name = B + of_nat (c + 24), mod_phys_addr = tm_paddr t, mod_size = tm_size t\<rparr>"
    and "cstring m' (B + of_nat (c + 24)) w"
proof -
  let ?p = "B + of_nat c" and ?name = "B + of_nat (c + 24)"
  define m1 where "m1 = store64 ?p ?name m"
  define m2 where "m2 = memcpy ?name (tm_name t) (length w + 1) m1"
  define m3 where "m3 = store64 (B + of_nat (c + 8)) (tm_paddr t) m2"
  define m4 where "m4 = store64 (B + of_nat (c + 16)) (tm_size t) m3"
  have src: "\<not> in_array B N (tm_name t + of_nat i)" if "i < length w + 1" for i
    using name that by (simp add: name_ok_def)
  have w1: "writes B c (c + 8) m m1"
    unfolding m1_def by (rule store64_block) (use N in simp)
  have w2: "writes B (c + 24) (c + 24 + (length w + 1)) m1 m2"
    unfolding m2_def by (rule memcpy_block(1) [OF N(1) _ src]) (use N in simp_all)
  have w3: "writes B (c + 8) (c + 8 + 8) m2 m3"
    unfolding m3_def by (rule store64_block) (use N in simp)
  have w4: "writes B (c + 16) (c + 16 + 8) m3 m4"
    unfolding m4_def by (rule store64_block) (use N in simp)
  have n1: "name_ok m1 B N t w"
    by (rule name_ok_writes [OF name w1]) (use N in simp)
  have n2: "name_ok m2 B N t w"
    by (rule name_ok_writes [OF n1 w2]) (use N in simp)
  have l1: "load64 m1 ?p = ?name"
    by (simp add: m1_def load64_store64)
  have w12: "writes B c (c + 25 + length w) m m2"
    by (rule writes_trans [OF w1 w2]) simp_all
  have w34: "writes B (c + 8) (c + 24) m2 m4"
    by (rule writes_trans [OF w3 w4]) simp_all
  have all: "writes B c (c + 25 + length w) m m4"
    by (rule writes_trans [OF w12 w34]) simp_all
  have name2: "cstring m2 ?name w"
  proof -
    have "m2 (?name + of_nat i) = m1 (tm_name t + of_nat i)" if "i < length w + 1" for i
      unfolding m2_def by (rule memcpy_block(2) [OF N(1) _ src]) (use that N in simp_all)
    then show ?thesis
      using n1 by (simp add: name_ok_def cstring_iff)
  qed
  have name4: "cstring m4 ?name w"
    by (rule writes_cstring [OF w34 _ _ name2]) (use N in simp_all)
  have r: "load64 m4 ?p = ?name" "load64 m4 (?p + 8) = tm_paddr t" "load64 m4 (?p + 16) = tm_size t"
  proof -
    have "load64 m2 ?p = ?name"
      using writes_load64 [OF w2, of c] N l1 by simp
    then show "load64 m4 ?p = ?name"
      using writes_load64 [OF w34, of c] N by simp
    show "load64 m4 (?p + 8) = tm_paddr t"
      using writes_load64 [OF w4, of "c + 8"] N by (simp add: m3_def load64_store64 add.assoc)
    show "load64 m4 (?p + 16) = tm_size t"
      by (simp add: m4_def load64_store64 add.assoc)
  qed
  have "tartarus_modules_loop (t # ts) ?p m = tartarus_modules_loop ts (B + of_nat (c + length w + 25)) m4"
    using name_ok_strlen [OF n1] name_ok_strlen [OF n2] l1
    by (simp add: Let_def m1_def m2_def m3_def m4_def sizeof_bootinfo_module_def algebra_simps)
  then show thesis
    using that [OF _ all] r name4 by (simp add: bootinfo_module_def)
qed

lemma tartarus_modules_block:
  assumes "N \<le> 2 ^ 64" and "c + chain_size ws \<le> N" and "list_all2 (name_ok m B N) ts ws"
  shows "\<exists>m'. tartarus_modules_loop ts (B + of_nat c) m = ok m' \<and> writes B c (c + chain_size ws) m m' \<and>
    module_chain m' (B + of_nat c) ts ws"
  using assms
proof (induction ts arbitrary: c ws m)
  case (Cons t ts)
  then obtain w us where ws: "ws = w # us" "name_ok m B N t w" "list_all2 (name_ok m B N) ts us"
    by (auto simp: list_all2_Cons1)
  let ?d = "c + length w + 25"
  have fit: "?d + chain_size us \<le> N" "c + 25 + length w \<le> N"
    using Cons.prems(2) by (simp_all add: ws(1))
  obtain m1 where m1: "tartarus_modules_loop (t # ts) (B + of_nat c) m = tartarus_modules_loop ts (B + of_nat ?d) m1"
    "writes B c (c + 25 + length w) m m1"
    "bootinfo_module m1 (B + of_nat c) = \<lparr>mod_name = B + of_nat (c + 24), mod_phys_addr = tm_paddr t, mod_size = tm_size t\<rparr>"
    "cstring m1 (B + of_nat (c + 24)) w"
    using tartarus_module_step [OF Cons.prems(1) fit(2) ws(2)] by metis
  have "list_all2 (name_ok m1 B N) ts us"
    by (rule list_all2_mono [OF ws(3)]) (rule name_ok_writes [OF _ m1(2) fit(2)])
  then obtain m2 where m2: "tartarus_modules_loop ts (B + of_nat ?d) m1 = ok m2"
    "writes B ?d (?d + chain_size us) m1 m2" "module_chain m2 (B + of_nat ?d) ts us"
    using Cons.IH [OF Cons.prems(1) fit(1)] by blast
  have "writes B c (c + chain_size ws) m m2"
    by (rule writes_trans [OF m1(2) m2(2)]) (simp_all add: ws(1))
  moreover have "load64 m2 (B + of_nat (c + k)) = load64 m1 (B + of_nat (c + k))" if "k \<in> {0, 8, 16}" for k
    using writes_load64 [OF m2(2), of "c + k"] that fit(2) Cons.prems(1) by auto
  from this [of 0] this [of 8] this [of 16]
  have "bootinfo_module m2 (B + of_nat c) = bootinfo_module m1 (B + of_nat c)"
    by (simp add: bootinfo_module_def add.assoc)
  moreover have "cstring m2 (B + of_nat (c + 24)) w"
    by (rule writes_cstring [OF m2(2) _ _ m1(4)]) (use fit(2) Cons.prems(1) in simp_all)
  ultimately show ?case
    using m1(1,3) m2(1,3) by (simp add: ws(1) algebra_simps)
qed (simp add: writes_refl)

lemma names_size_chain:
  "list_all2 (name_ok m B N) ts ws \<Longrightarrow>
    \<exists>k. names_size (map tm_name ts) m = ok k \<and> sizeof_bootinfo_module * length ts + k = chain_size ws"
proof (induction ts ws rule: list_all2_induct)
  case (Cons t ts w ws)
  then show ?case
    using name_ok_strlen [OF Cons.hyps(1)] by (auto simp: sizeof_bootinfo_module_def)
qed simp

section \<open>The framebuffers\<close>

lemma length_fb_bytes [simp]: "length (fb_bytes fb) = 46"
  by (simp add: fb_bytes_def)

definition fb_array :: "memory \<Rightarrow> u64 \<Rightarrow> bootinfo_framebuffer_t list \<Rightarrow> bool" where
  "fb_array m p fbs \<longleftrightarrow>
     (\<forall>i<length fbs. bytes_at m (p + of_nat (46 * i)) sizeof_bootinfo_framebuffer = fb_bytes (fbs ! i))"

lemma fb_array_Cons:
  "fb_array m p (fb # fbs) \<longleftrightarrow> bytes_at m p sizeof_bootinfo_framebuffer = fb_bytes fb \<and> fb_array m (p + 46) fbs"
  by (simp add: fb_array_def All_less_Suc2 add.assoc del: of_nat_mult)

lemma store_framebuffers_block:
  assumes "c + 46 * length fbs \<le> 2 ^ 64"
  shows "writes B c (c + 46 * length fbs) m (store_framebuffers (B + of_nat c) fbs m) \<and>
    fb_array (store_framebuffers (B + of_nat c) fbs m) (B + of_nat c) fbs"
  using assms
proof (induction fbs arbitrary: c m)
  case (Cons fb fbs)
  let ?m1 = "store_framebuffer (B + of_nat c) fb m" let ?m2 = "store_framebuffers (B + of_nat (c + 46)) fbs ?m1"
  have fit: "c + length (fb_bytes fb) \<le> 2 ^ 64" "c + 46 + 46 * length fbs \<le> 2 ^ 64"
    using Cons.prems by simp_all
  note first = store_bytes_block [OF fit(1), of B m, folded store_framebuffer_def, simplified]
  have rest: "writes B (c + 46) (c + 46 + 46 * length fbs) ?m1 ?m2" "fb_array ?m2 (B + of_nat (c + 46)) fbs"
    using Cons.IH [OF fit(2)] by blast+
  have "writes B c (c + 46 * length (fb # fbs)) m ?m2"
    by (rule writes_trans [OF first(1) rest(1)]) simp_all
  moreover have "bytes_at ?m2 (B + of_nat c) 46 = fb_bytes fb"
    using writes_bytes_at [OF rest(1), of c 46] fit(2) first(2) by simp
  ultimately show ?case
    using rest(2) by (simp add: fb_array_Cons sizeof_bootinfo_framebuffer_def algebra_simps)
qed (simp add: writes_refl fb_array_def)

lemma fb_array_writes:
  assumes "fb_array m (B + of_nat c) fbs" and "writes B a b m m'" and "c + 46 * length fbs \<le> a" "c + 46 * length fbs \<le> 2 ^ 64"
  shows "fb_array m' (B + of_nat c) fbs"
  unfolding fb_array_def
proof (intro allI impI)
  fix i assume i: "i < length fbs"
  then have "c + 46 * i + 46 \<le> c + 46 * length fbs"
    by simp
  then show "bytes_at m' (B + of_nat c + of_nat (46 * i)) sizeof_bootinfo_framebuffer = fb_bytes (fbs ! i)"
    using writes_bytes_at [OF assms(2), of "c + 46 * i" 46] assms(1,3,4) i
    by (simp add: fb_array_def sizeof_bootinfo_framebuffer_def add.assoc)
qed

section \<open>The header\<close>

definition boot_fields_ok :: "memory \<Rightarrow> u64 \<Rightarrow> tartarus_boot_info_t \<Rightarrow> bool" where
  "boot_fields_ok m B tb \<longleftrightarrow> load64 m (B + bi_boot_timestamp) = tb_boot_timestamp tb \<and>
     load64 m (B + bi_core_count) = of_nat (length (tb_cpus tb)) \<and>
     load64 m (B + bi_rdsp_physical) = tb_acpi_rsdp_address tb \<and> load64 m (B + bi_hhdm_offset) = tb_hhdm_offset tb"

definition boot_arrays_ok :: "memory \<Rightarrow> u64 \<Rightarrow> u64 \<Rightarrow> u64 \<Rightarrow> tartarus_boot_info_t \<Rightarrow> bool" where
  "boot_arrays_ok m B fbs mods tb \<longleftrightarrow> load64 m (B + bi_framebuffer_count) = of_nat (length (tb_framebuffers tb)) \<and>
     load64 m (B + bi_framebuffers) = fbs \<and> load64 m (B + bi_module_count) = of_nat (length (tb_modules tb)) \<and>
     load64 m (B + bi_modules) = mods"

lemmas bi_fields = bi_boot_timestamp_def bi_core_count_def bi_rdsp_physical_def bi_hhdm_offset_def
  bi_framebuffer_count_def bi_framebuffers_def bi_module_count_def bi_modules_def

lemma boot_fields_written:
  "writes B 0 32 m (tartarus_boot_fields tb B m)" "boot_fields_ok (tartarus_boot_fields tb B m) B tb"
proof -
  define m1 where "m1 = store64 (B + of_nat 8) (of_nat (length (tb_cpus tb))) m"
  define m2 where "m2 = store64 (B + of_nat 0) (tb_boot_timestamp tb) m1"
  define m3 where "m3 = store64 (B + of_nat 16) (tb_acpi_rsdp_address tb) m2"
  define m4 where "m4 = store64 (B + of_nat 24) (tb_hhdm_offset tb) m3"
  have m4: "tartarus_boot_fields tb B m = m4"
    by (simp add: tartarus_boot_fields_def bi_fields m1_def m2_def m3_def m4_def Let_def)
  have w: "writes B 8 16 m m1" "writes B 0 8 m1 m2" "writes B 16 24 m2 m3" "writes B 24 32 m3 m4"
    unfolding m1_def m2_def m3_def m4_def
    using store64_block [of 8] store64_block [of 0] store64_block [of 16] store64_block [of 24] by simp_all
  have "writes B 0 16 m m2" "writes B 16 32 m2 m4"
    by (rule writes_trans [OF w(1,2)] writes_trans [OF w(3,4)]; simp)+
  then have "writes B 0 32 m m4"
    by (rule writes_trans) simp_all
  then show "writes B 0 32 m (tartarus_boot_fields tb B m)"
    by (simp add: m4)
  have "load64 m4 (B + of_nat 24) = tb_hhdm_offset tb" "load64 m4 (B + of_nat 16) = tb_acpi_rsdp_address tb"
    "load64 m4 (B + of_nat 0) = tb_boot_timestamp tb" "load64 m4 (B + of_nat 8) = of_nat (length (tb_cpus tb))"
    using load64_elsewhere [of 24 16 B "tb_hhdm_offset tb" m3] load64_elsewhere [of 24 0 B "tb_hhdm_offset tb" m3]
      load64_elsewhere [of 16 0 B "tb_acpi_rsdp_address tb" m2] load64_elsewhere [of 24 8 B "tb_hhdm_offset tb" m3]
      load64_elsewhere [of 16 8 B "tb_acpi_rsdp_address tb" m2] load64_elsewhere [of 0 8 B "tb_boot_timestamp tb" m1]
    by (simp_all add: m4_def m3_def m2_def m1_def load64_store64)
  then show "boot_fields_ok (tartarus_boot_fields tb B m) B tb"
    by (simp add: m4 boot_fields_ok_def bi_fields)
qed

lemma boot_fields_writes: "boot_fields_ok m B tb \<Longrightarrow> writes B a b m m' \<Longrightarrow> 32 \<le> a \<Longrightarrow> boot_fields_ok m' B tb"
  using writes_load64 [of B a b m m' 0] writes_load64 [of B a b m m' 8] writes_load64 [of B a b m m' 16]
    writes_load64 [of B a b m m' 24]
  by (simp add: boot_fields_ok_def bi_fields)

text \<open>The stores between the first fields and the modules.\<close>

definition tartarus_arrays :: "tartarus_boot_info_t \<Rightarrow> u64 \<Rightarrow> memory \<Rightarrow> memory" where
  "tartarus_arrays tb B m =
     (let n = length (tb_framebuffers tb); m = store64 (B + of_nat 104) (of_nat n) m;
          m = store64 (B + of_nat 112) (B + of_nat 136) m;
          m = store_framebuffers (B + of_nat 136) (map tartarus_framebuffer (tb_framebuffers tb)) m;
          m = store64 (B + of_nat 120) (of_nat (length (tb_modules tb))) m
      in store64 (B + of_nat 128) (B + of_nat (136 + 46 * n)) m)"

lemma tartarus_arrays_written:
  assumes n: "n = length (tb_framebuffers tb)" "136 + 46 * n \<le> 2 ^ 64"
  shows "writes B 104 (136 + 46 * n) m (tartarus_arrays tb B m)"
    and "boot_arrays_ok (tartarus_arrays tb B m) B (B + 136) (B + of_nat (136 + 46 * n)) tb"
    and "fb_array (tartarus_arrays tb B m) (B + 136) (map tartarus_framebuffer (tb_framebuffers tb))"
proof -
  let ?fbs = "map tartarus_framebuffer (tb_framebuffers tb)"
  define m1 where "m1 = store64 (B + of_nat 104) (of_nat n) m"
  define m2 where "m2 = store64 (B + of_nat 112) (B + of_nat 136) m1"
  define m3 where "m3 = store_framebuffers (B + of_nat 136) ?fbs m2"
  define m4 where "m4 = store64 (B + of_nat 120) (of_nat (length (tb_modules tb))) m3"
  define m5 where "m5 = store64 (B + of_nat 128) (B + of_nat (136 + 46 * n)) m4"
  have m5: "tartarus_arrays tb B m = m5"
    by (simp only: tartarus_arrays_def Let_def n(1) m1_def m2_def m3_def m4_def m5_def)
  have w: "writes B 104 112 m m1" "writes B 112 120 m1 m2" "writes B 120 128 m3 m4" "writes B 128 136 m4 m5"
    unfolding m1_def m2_def m4_def m5_def
    using store64_block [of 104] store64_block [of 112] store64_block [of 120] store64_block [of 128] by simp_all
  have f: "writes B 136 (136 + 46 * n) m2 m3" "fb_array m3 (B + of_nat 136) ?fbs"
    unfolding m3_def using store_framebuffers_block [of 136 ?fbs B m2] n by simp_all
  have w12: "writes B 104 120 m m2" and w45: "writes B 120 136 m3 m5"
    by (rule writes_trans [OF w(1,2)] writes_trans [OF w(3,4)]; simp)+
  have "writes B 104 (136 + 46 * n) m m3"
    by (rule writes_trans [OF w12 f(1)]) simp_all
  then show "writes B 104 (136 + 46 * n) m (tartarus_arrays tb B m)"
    unfolding m5 by (rule writes_trans [OF _ w45]) simp_all
  have "fb_array m5 (B + of_nat 136) ?fbs"
  proof (unfold fb_array_def, intro allI impI)
    fix i assume "i < length ?fbs"
    then show "bytes_at m5 (B + of_nat 136 + of_nat (46 * i)) sizeof_bootinfo_framebuffer = fb_bytes (?fbs ! i)"
      using writes_bytes_at [OF w45, of "136 + 46 * i" 46] f(2) n
      by (simp add: fb_array_def sizeof_bootinfo_framebuffer_def add.assoc)
  qed
  then show "fb_array (tartarus_arrays tb B m) (B + 136) ?fbs"
    by (simp add: m5)
  have "load64 m5 (B + of_nat 128) = B + of_nat (136 + 46 * n)" "load64 m5 (B + of_nat 120) = of_nat (length (tb_modules tb))"
    using load64_elsewhere [of 128 120] by (simp_all add: m5_def m4_def load64_store64)
  moreover have "load64 m3 (B + of_nat j) = load64 m2 (B + of_nat j)" if "j + 8 \<le> 136" for j
    using writes_load64 [OF f(1), of j] that by simp
  from this [of 104] this [of 112]
  have "load64 m5 (B + of_nat 104) = of_nat n" "load64 m5 (B + of_nat 112) = B + of_nat 136"
    using writes_load64 [OF w45, of 104] writes_load64 [OF w45, of 112] load64_elsewhere [of 112 104]
    by (simp_all add: m2_def m1_def load64_store64)
  ultimately show "boot_arrays_ok (tartarus_arrays tb B m) B (B + 136) (B + of_nat (136 + 46 * n)) tb"
    by (simp add: m5 boot_arrays_ok_def bi_fields n(1))
qed

lemma boot_arrays_writes:
  "boot_arrays_ok m B fbs mods tb \<Longrightarrow> writes B a b m m' \<Longrightarrow> 136 \<le> a \<Longrightarrow> boot_arrays_ok m' B fbs mods tb"
  using writes_load64 [of B a b m m' 104] writes_load64 [of B a b m m' 112] writes_load64 [of B a b m m' 120]
    writes_load64 [of B a b m m' 128]
  by (simp add: boot_arrays_ok_def bi_fields)

section \<open>Filling the block\<close>

text \<open>The size of everything, and all of it in place.\<close>

definition boot_size :: "tartarus_boot_info_t \<Rightarrow> u8 list list \<Rightarrow> nat" where
  "boot_size tb names = 136 + 46 * length (tb_framebuffers tb) + chain_size names"

definition boot_info_ok :: "memory \<Rightarrow> u64 \<Rightarrow> tartarus_boot_info_t \<Rightarrow> u8 list list \<Rightarrow> bool" where
  "boot_info_ok m B tb names \<longleftrightarrow>
     (let mods = B + of_nat (136 + 46 * length (tb_framebuffers tb))
      in boot_fields_ok m B tb \<and> boot_arrays_ok m B (B + 136) mods tb \<and>
         fb_array m (B + 136) (map tartarus_framebuffer (tb_framebuffers tb)) \<and>
         module_chain m mods (tb_modules tb) names)"

lemma tartarus_fill:
  assumes N: "N \<le> 2 ^ 64" "boot_size tb names \<le> N" and names: "list_all2 (name_ok m B N) (tb_modules tb) names"
  obtains m' where "tartarus_modules_loop (tb_modules tb) (B + of_nat (136 + 46 * length (tb_framebuffers tb)))
      (tartarus_arrays tb B (tartarus_boot_fields tb B m)) = ok m'"
    and "writes B 0 (boot_size tb names) m m'" and "boot_info_ok m' B tb names"
proof -
  let ?c = "136 + 46 * length (tb_framebuffers tb)"
  let ?m1 = "tartarus_boot_fields tb B m" let ?m2 = "tartarus_arrays tb B (tartarus_boot_fields tb B m)"
  have c: "?c \<le> N" "?c \<le> 2 ^ 64" "?c + chain_size names \<le> N"
    using N by (simp_all add: boot_size_def)
  note arrays = tartarus_arrays_written [OF refl c(2), of B ?m1]
  have w2: "writes B 0 ?c m ?m2"
    by (rule writes_trans [OF boot_fields_written(1) arrays(1)]) simp_all
  have "list_all2 (name_ok ?m2 B N) (tb_modules tb) names"
    by (rule list_all2_mono [OF names]) (rule name_ok_writes [OF _ w2 c(1)])
  then obtain m' where m': "tartarus_modules_loop (tb_modules tb) (B + of_nat ?c) ?m2 = ok m'"
    "writes B ?c (?c + chain_size names) ?m2 m'" "module_chain m' (B + of_nat ?c) (tb_modules tb) names"
    using tartarus_modules_block [OF N(1) c(3)] by blast
  have "writes B 0 (boot_size tb names) m m'"
    by (rule writes_trans [OF w2 m'(2)]) (simp_all add: boot_size_def)
  moreover have "boot_fields_ok m' B tb"
    by (rule boot_fields_writes [OF boot_fields_writes [OF boot_fields_written(2) arrays(1)] m'(2)]) simp_all
  moreover have "boot_arrays_ok m' B (B + 136) (B + of_nat ?c) tb"
    by (rule boot_arrays_writes [OF arrays(2) m'(2)]) simp
  moreover have "fb_array m' (B + of_nat 136) (map tartarus_framebuffer (tb_framebuffers tb))"
    by (rule fb_array_writes [OF _ m'(2)]) (use arrays(3) c(2) in simp_all)
  ultimately show thesis
    using that [OF m'(1)] m'(3) by (simp add: boot_info_ok_def Let_def)
qed

text \<open>The names the loader handed over lie outside free memory.\<close>

definition loader_name :: "'a vm_state_scheme \<Rightarrow> tartarus_module_t \<Rightarrow> u8 list \<Rightarrow> bool" where
  "loader_name st t w \<longleftrightarrow> cstring (vm_mem st) (tm_name t) w \<and> length w \<le> INT_MAX \<and>
     (\<forall>j\<le>length w. \<not> free_byte st (tm_name t + of_nat j))"

text \<open>C23. Let the loader's map be added, the names of its modules be strings outside the free memory, and the
  map have room for the block. Then \<open>prekernel_entry_tartarus\<close> returns a block of boot information whose
  header, framebuffers and modules are those of the loader, with nothing else in memory changed but
  bytes of the block, which were free. The framebuffers are an array; the modules are a chain, so
  that the pointer \<open>modules + 1\<close> is the name of the first module.\<close>

theorem tartarus_boot_info_layout:
  assumes "drop_bit 8 version = 3" and "tartarus_add_entries tb (vm_pmm st) = ok s"
    and "st1 = st\<lparr>vm_pmm := s, hhdm_offset := tb_hhdm_offset tb\<rparr>" and "page_aligned (tb_hhdm_offset tb)"
    and "boot_size tb names + 4096 \<le> 2 ^ 64" and "(boot_size tb names + 4095) div 4096 \<le> q" and "spare (Suc r) q s"
    and "list_all2 (loader_name st1) (tb_modules tb) names"
  shows "\<exists>B st'. prekernel_entry_tartarus tb version st = ok (B, st') \<and> page_aligned B \<and>
    hhdm_offset st' = tb_hhdm_offset tb \<and> boot_info_ok (vm_mem st') B tb names \<and>
    (\<forall>x. vm_mem st' x \<noteq> vm_mem st x \<longrightarrow> in_array B (boot_size tb names) x \<and> free_byte st1 x) \<and>
    only_taken s (vm_pmm st') \<and> spare r (q - (boot_size tb names + 4095) div 4096) (vm_pmm st')"
proof -
  let ?n = "boot_size tb names" let ?pages = "(boot_size tb names + 4095) div 4096"
  define pc :: u64 where "pc = MATH_ALIGN_UP (of_nat ?n) PTM_PAGE_GRANULARITY div PTM_PAGE_GRANULARITY"
  have pc: "unat pc = ?pages"
    unfolding pc_def by (rule pages_for [OF assms(5)])
  have fit: "0 < ?pages" "?n \<le> 4096 * ?pages"
    by (simp_all add: boot_size_def)
  have st1: "vm_pmm st1 = s" "hhdm_offset st1 = tb_hhdm_offset tb" "vm_mem st1 = vm_mem st"
    by (simp_all add: assms(3))
  obtain p s' where p: "vm_alloc pc st1 = ok (p, st1\<lparr>vm_pmm := s'\<rparr>)" "page_aligned (p + hhdm_offset st1)"
    "spare r (q - ?pages) s'" "only_taken s s'"
    "\<And>x. in_array (p + hhdm_offset st1) (4096 * ?pages) x \<Longrightarrow> free_byte st1 x"
    using vm_alloc_block [of r q st1 pc] assms(4,6,7) fit(1) unfolding pc st1 by metis
  let ?B = "p + tb_hhdm_offset tb"
  have p': "vm_alloc pc (st\<lparr>vm_pmm := s\<rparr>) = ok (p, st\<lparr>vm_pmm := s'\<rparr>)"
    using p(1) by (auto simp: assms(3) vm_alloc_def res_bind_ok_iff dest: arg_cong [where f = vm_pmm])
  have inside: "free_byte st1 x" if "in_array ?B ?n x" for x
    using p(5) [unfolded st1, of x] that fit(2) unfolding in_array_def by simp
  have ok: "name_ok (vm_mem st) ?B ?n t w" if "loader_name st1 t w" for t w
    using that inside unfolding loader_name_def name_ok_def st1 by blast
  have names: "list_all2 (name_ok (vm_mem st) ?B ?n) (tb_modules tb) names"
    by (rule list_all2_mono [OF assms(8)]) (rule ok)
  obtain k where k: "names_size (map tm_name (tb_modules tb)) (vm_mem st) = ok k"
    "sizeof_bootinfo_module * length (tb_modules tb) + k = chain_size names"
    using names_size_chain [OF names] by blast
  have size: "boot_info_block_size False (length (tb_framebuffers tb)) (map tm_name (tb_modules tb)) (vm_mem st) =
      ok (MATH_ALIGN_UP (of_nat ?n) PTM_PAGE_GRANULARITY)"
    using k by (simp add: boot_info_block_size_def boot_size_def sizeof_bootinfo_def sizeof_bootinfo_framebuffer_def
        add.assoc del: of_nat_add)
  have "?n \<le> 2 ^ 64"
    using assms(5) by simp
  then obtain m' where m': "tartarus_modules_loop (tb_modules tb) (?B + of_nat (136 + 46 * length (tb_framebuffers tb)))
      (tartarus_arrays tb ?B (tartarus_boot_fields tb ?B (vm_mem st))) = ok m'"
    "writes ?B 0 ?n (vm_mem st) m'" "boot_info_ok m' ?B tb names"
    using tartarus_fill [OF _ order_refl names] by blast
  have "prekernel_entry_tartarus tb version st = ok (?B, st\<lparr>vm_pmm := s', vm_mem := m', hhdm_offset := tb_hhdm_offset tb\<rparr>)"
    using assms(1,2) size p' m'(1)
    by (simp add: prekernel_entry_tartarus_def Let_def pc_def tartarus_arrays_def bi_fields sizeof_bootinfo_def
        sizeof_bootinfo_framebuffer_def add.assoc)
  moreover have "in_array ?B ?n x" if "m' x \<noteq> vm_mem st x" for x
    using writes_outside [OF m'(2) order_refl] that by blast
  ultimately show ?thesis
    using p(2-4) m'(3) inside unfolding st1 by (intro exI [of _ ?B] exI) auto
qed

text \<open>Two modules, \<open>a\<close> and \<open>bc\<close>, and one framebuffer.\<close>

definition two_modules :: tartarus_boot_info_t where
  "two_modules = \<lparr>tb_mm_entries = [],
     tb_framebuffers = [\<lparr>tfb_vaddr = 0xFFFF8000E0000000, tfb_paddr = 0xE0000000, tfb_size = 0x300000, tfb_width = 1024,
       tfb_height = 768, tfb_pitch = 4096, tfb_bpp = 32, tfb_red_position = 16, tfb_red_size = 8,
       tfb_green_position = 8, tfb_green_size = 8, tfb_blue_position = 0, tfb_blue_size = 8\<rparr>],
     tb_modules = [\<lparr>tm_name = 0x100, tm_paddr = 0x700000, tm_size = 5\<rparr>, \<lparr>tm_name = 0x200, tm_paddr = 0x800000, tm_size = 6\<rparr>],
     tb_cpus = [], tb_boot_timestamp = 1, tb_acpi_rsdp_address = 0xE0000, tb_hhdm_offset = 0xFFFF800000000000,
     TARTARUS_CPU_FLAG_IS_BSP = 1\<rparr>"

definition module_names :: memory where
  "module_names = (\<lambda>x. if x = 0x100 then 97 else if x = 0x200 then 98 else if x = 0x201 then 99 else 0)"

theorem tartarus_boot_info_layout_witness:
  "\<exists>B st'. prekernel_entry_tartarus two_modules 0x0301 (x86_empty\<lparr>vm_mem := module_names\<rparr>) = ok (B, st') \<and>
    load64 (vm_mem st') (B + bi_module_count) = 2 \<and> load64 (vm_mem st') (B + bi_modules) = B + 182 \<and>
    bootinfo_module (vm_mem st') (B + 182) = \<lparr>mod_name = B + 206, mod_phys_addr = 0x700000, mod_size = 5\<rparr> \<and>
    cstring (vm_mem st') (B + 206) [97] \<and>
    bootinfo_module (vm_mem st') (B + 208) = \<lparr>mod_name = B + 232, mod_phys_addr = 0x800000, mod_size = 6\<rparr> \<and>
    cstring (vm_mem st') (B + 232) [98, 99] \<and>
    bytes_at (vm_mem st') (B + 136) 46 = fb_bytes (tartarus_framebuffer (tb_framebuffers two_modules ! 0))"
proof -
  let ?st = "x86_empty\<lparr>vm_mem := module_names\<rparr>"
  let ?st1 = "?st\<lparr>vm_pmm := small_map, hhdm_offset := tb_hhdm_offset two_modules\<rparr>"
  have "boot_size two_modules [[97], [98, 99]] = 235"
    by (simp add: boot_size_def two_modules_def)
  moreover have "tartarus_add_entries two_modules (vm_pmm ?st) = ok small_map"
    by (simp add: tartarus_add_entries_def two_modules_def x86_empty_def)
  moreover have "\<not> free_byte ?st1 (0x100 + of_nat j) \<and> \<not> free_byte ?st1 (0x200 + of_nat j)" if j: "j \<le> 2" for j
  proof -
    consider "j = 0" | "j = 1" | "j = 2"
      using j by linarith
    then show "\<not> free_byte ?st1 (0x100 + of_nat j) \<and> \<not> free_byte ?st1 (0x200 + of_nat j)"
      by cases (simp_all add: free_byte_def two_modules_def contains_def lo_def hi_def)
  qed
  then have "list_all2 (loader_name ?st1) (tb_modules two_modules) [[97], [98, 99]]"
    by (simp add: two_modules_def loader_name_def module_names_def INT_MAX_def)
  moreover have "drop_bit 8 (0x0301 :: u16) = 3" "page_aligned (tb_hhdm_offset two_modules)"
    by (simp_all add: two_modules_def page_aligned_def)
  ultimately obtain B st' where B: "prekernel_entry_tartarus two_modules 0x0301 ?st = ok (B, st')"
    "boot_info_ok (vm_mem st') B two_modules [[97], [98, 99]]"
    using tartarus_boot_info_layout [of "0x0301" two_modules ?st small_map ?st1 "[[97], [98, 99]]" 9 8] small_map_spare_9
    by auto
  then show ?thesis
    by (intro exI [of _ B] exI [of _ st'])
      (simp add: boot_info_ok_def boot_arrays_ok_def two_modules_def fb_array_def sizeof_bootinfo_framebuffer_def
        Let_def add.commute [of B])
qed

end
