(* ===== verification/Npf.thy ===== *)
theory Npf
  imports Console RtMem
begin

text \<open>
  The formatter \<open>pre_kernel/include/nanoprintf/nanoprintf.h\<close> with the options of
  \<open>pre_kernel/src/runtime/nanoprintf.c\<close>: field widths, precisions, large and small length modifiers and
  binary, without floating point, write-back and (as \<open>NANOPRINTF_USE_ALT_FORM_FLAG\<close> is not set) without the
  flag \<open>#\<close>, so that no \<open>0x\<close> is ever prepended.

  A format is the list of its characters up to the NUL, the pointer \<open>cur\<close> what is left of it. The arguments
  are values: \<open>ArgInt\<close> an integer or pointer, read at the width the conversion asks for, \<open>ArgStr\<close> a string.
  The result is the bytes handed to the callback, in order; the value returned is their number.
\<close>

section \<open>Specifications\<close>

datatype npf_opt = NPF_FMT_SPEC_OPT_NONE | NPF_FMT_SPEC_OPT_LITERAL | NPF_FMT_SPEC_OPT_STAR

datatype npf_len_mod = NPF_FMT_SPEC_LEN_MOD_NONE | NPF_FMT_SPEC_LEN_MOD_SHORT | NPF_FMT_SPEC_LEN_MOD_CHAR
  | NPF_FMT_SPEC_LEN_MOD_LONG | NPF_FMT_SPEC_LEN_MOD_LONG_DOUBLE | NPF_FMT_SPEC_LEN_MOD_LARGE_LONG_LONG
  | NPF_FMT_SPEC_LEN_MOD_LARGE_INTMAX | NPF_FMT_SPEC_LEN_MOD_LARGE_SIZET | NPF_FMT_SPEC_LEN_MOD_LARGE_PTRDIFFT

datatype npf_conv_spec = NPF_FMT_SPEC_CONV_NONE | NPF_FMT_SPEC_CONV_PERCENT | NPF_FMT_SPEC_CONV_CHAR
  | NPF_FMT_SPEC_CONV_STRING | NPF_FMT_SPEC_CONV_SIGNED_INT | NPF_FMT_SPEC_CONV_BINARY
  | NPF_FMT_SPEC_CONV_OCTAL | NPF_FMT_SPEC_CONV_HEX_INT | NPF_FMT_SPEC_CONV_UNSIGNED_INT
  | NPF_FMT_SPEC_CONV_POINTER

record npf_format_spec_t =
  fs_field_width :: int
  fs_prec :: int
  fs_prec_opt :: npf_opt
  fs_field_width_opt :: npf_opt
  fs_left_justified :: bool
  fs_leading_zero_pad :: bool
  fs_prepend :: u8
  fs_case_adjust :: u8
  fs_length_modifier :: npf_len_mod
  fs_conv_spec :: npf_conv_spec

text \<open>A specification before anything is parsed.\<close>

definition npf_spec_start :: npf_format_spec_t where
  "npf_spec_start = \<lparr>fs_field_width = 0, fs_prec = 0, fs_prec_opt = NPF_FMT_SPEC_OPT_NONE,
     fs_field_width_opt = NPF_FMT_SPEC_OPT_NONE, fs_left_justified = False, fs_leading_zero_pad = False,
     fs_prepend = 0, fs_case_adjust = 32, fs_length_modifier = NPF_FMT_SPEC_LEN_MOD_NONE,
     fs_conv_spec = NPF_FMT_SPEC_CONV_NONE\<rparr>"

section \<open>Parsing\<close>

text \<open>A sum or product in \<open>int\<close>.\<close>

definition c_int :: "int \<Rightarrow> int res" where
  "c_int x = (if - 2147483648 \<le> x \<and> x \<le> 2147483647 then ok x else fail (UB ''signed overflow''))"

definition next_is :: "char \<Rightarrow> string \<Rightarrow> bool" where
  "next_is c cur \<longleftrightarrow> cur \<noteq> [] \<and> hd cur = c"

definition is_dec :: "char \<Rightarrow> bool" where
  "is_dec c \<longleftrightarrow> (48::nat) \<le> of_char c \<and> of_char c \<le> (57::nat)"

fun npf_parse_flags :: "string \<Rightarrow> npf_format_spec_t \<Rightarrow> string \<times> npf_format_spec_t" where
  "npf_parse_flags [] fs = ([], fs)"
| "npf_parse_flags (c # cur) fs =
     (if c = CHR ''-'' then npf_parse_flags cur (fs\<lparr>fs_left_justified := True\<rparr>)
      else if c = CHR ''0'' then npf_parse_flags cur (fs\<lparr>fs_leading_zero_pad := True\<rparr>)
      else if c = CHR ''+'' then npf_parse_flags cur (fs\<lparr>fs_prepend := 43\<rparr>)
      else if c = CHR '' '' then npf_parse_flags cur (if fs_prepend fs = 0 then fs\<lparr>fs_prepend := 32\<rparr> else fs)
      else (c # cur, fs))"

text \<open>The digits of a number, with what was read so far.\<close>

fun npf_parse_digits :: "string \<Rightarrow> int \<Rightarrow> (string \<times> int) res" where
  "npf_parse_digits [] n = ok ([], n)"
| "npf_parse_digits (c # cur) n =
     (if is_dec c
      then res_bind (c_int (n * 10)) (\<lambda>t. res_bind (c_int (t + (of_char c - 48))) (npf_parse_digits cur))
      else ok (c # cur, n))"

definition npf_parse_field_width :: "string \<Rightarrow> npf_format_spec_t \<Rightarrow> (string \<times> npf_format_spec_t) res" where
  "npf_parse_field_width cur fs =
     (let fs = fs\<lparr>fs_field_width := 0, fs_field_width_opt := NPF_FMT_SPEC_OPT_NONE\<rparr>
      in if next_is (CHR ''*'') cur then ok (tl cur, fs\<lparr>fs_field_width_opt := NPF_FMT_SPEC_OPT_STAR\<rparr>)
         else res_bind (npf_parse_digits cur 0)
           (\<lambda>(cur', n). ok (cur', if cur \<noteq> [] \<and> is_dec (hd cur)
              then fs\<lparr>fs_field_width := n, fs_field_width_opt := NPF_FMT_SPEC_OPT_LITERAL\<rparr> else fs)))"

definition npf_parse_precision :: "string \<Rightarrow> npf_format_spec_t \<Rightarrow> (string \<times> npf_format_spec_t) res" where
  "npf_parse_precision cur fs =
     (let fs = fs\<lparr>fs_prec := 0, fs_prec_opt := NPF_FMT_SPEC_OPT_NONE\<rparr>
      in if next_is (CHR ''.'') cur
         then (let cur = tl cur
               in if next_is (CHR ''*'') cur then ok (tl cur, fs\<lparr>fs_prec_opt := NPF_FMT_SPEC_OPT_STAR\<rparr>)
                  else (let (cur, fs) = (if next_is (CHR ''-'') cur then (tl cur, fs)
                                         else (cur, fs\<lparr>fs_prec_opt := NPF_FMT_SPEC_OPT_LITERAL\<rparr>))
                        in res_bind (npf_parse_digits cur 0) (\<lambda>(cur, n). ok (cur, fs\<lparr>fs_prec := n\<rparr>))))
         else ok (cur, fs))"

fun npf_parse_length :: "string \<Rightarrow> npf_len_mod \<times> string" where
  "npf_parse_length [] = (NPF_FMT_SPEC_LEN_MOD_NONE, [])"
| "npf_parse_length (c # cur) =
     (if c = CHR ''h'' then (if next_is (CHR ''h'') cur then (NPF_FMT_SPEC_LEN_MOD_CHAR, tl cur)
                             else (NPF_FMT_SPEC_LEN_MOD_SHORT, cur))
      else if c = CHR ''l'' then (if next_is (CHR ''l'') cur then (NPF_FMT_SPEC_LEN_MOD_LARGE_LONG_LONG, tl cur)
                                  else (NPF_FMT_SPEC_LEN_MOD_LONG, cur))
      else if c = CHR ''j'' then (NPF_FMT_SPEC_LEN_MOD_LARGE_INTMAX, cur)
      else if c = CHR ''z'' then (NPF_FMT_SPEC_LEN_MOD_LARGE_SIZET, cur)
      else if c = CHR ''t'' then (NPF_FMT_SPEC_LEN_MOD_LARGE_PTRDIFFT, cur)
      else (NPF_FMT_SPEC_LEN_MOD_NONE, c # cur))"

text \<open>The conversion, with the flag that its letters are upper case.\<close>

definition npf_conv_of :: "char \<Rightarrow> (npf_conv_spec \<times> bool) option" where
  "npf_conv_of c =
     (if c = CHR ''%'' then Some (NPF_FMT_SPEC_CONV_PERCENT, False)
      else if c = CHR ''c'' then Some (NPF_FMT_SPEC_CONV_CHAR, False)
      else if c = CHR ''s'' then Some (NPF_FMT_SPEC_CONV_STRING, False)
      else if c = CHR ''i'' \<or> c = CHR ''d'' then Some (NPF_FMT_SPEC_CONV_SIGNED_INT, False)
      else if c = CHR ''o'' then Some (NPF_FMT_SPEC_CONV_OCTAL, False)
      else if c = CHR ''u'' then Some (NPF_FMT_SPEC_CONV_UNSIGNED_INT, False)
      else if c = CHR ''X'' then Some (NPF_FMT_SPEC_CONV_HEX_INT, True)
      else if c = CHR ''x'' then Some (NPF_FMT_SPEC_CONV_HEX_INT, False)
      else if c = CHR ''p'' then Some (NPF_FMT_SPEC_CONV_POINTER, False)
      else if c = CHR ''B'' then Some (NPF_FMT_SPEC_CONV_BINARY, True)
      else if c = CHR ''b'' then Some (NPF_FMT_SPEC_CONV_BINARY, False)
      else None)"

fun npf_parse_conv :: "string \<Rightarrow> npf_format_spec_t \<Rightarrow> (string \<times> npf_format_spec_t) option" where
  "npf_parse_conv [] fs = None"
| "npf_parse_conv (c # cur) fs =
     (case npf_conv_of c of None \<Rightarrow> None
      | Some (conv, upper) \<Rightarrow> Some (cur, fs\<lparr>fs_conv_spec := conv, fs_case_adjust := if upper then 0 else fs_case_adjust fs\<rparr>))"

text \<open>\<open>format\<close> starts at the \<open>%\<close>. The result is what follows the specification (its length is the value the
  code returns), or \<open>None\<close> where the code returns 0.\<close>

definition npf_parse_format_spec :: "string \<Rightarrow> (string \<times> npf_format_spec_t) option res" where
  "npf_parse_format_spec format =
     (let (cur, fs) = npf_parse_flags (tl format) npf_spec_start
      in res_bind (npf_parse_field_width cur fs)
           (\<lambda>(cur, fs). res_bind (npf_parse_precision cur fs)
              (\<lambda>(cur, fs). let (len_mod, cur) = npf_parse_length cur
                           in ok (npf_parse_conv cur (fs\<lparr>fs_length_modifier := len_mod\<rparr>)))))"

section \<open>Numbers\<close>

text \<open>The digits are stored from the last to the first. The bases used are 8, 10 and 16.\<close>

function npf_utoa_rev :: "u64 \<Rightarrow> u64 \<Rightarrow> u8 \<Rightarrow> u8 list" where
  "npf_utoa_rev val base case_adj =
     (let d = val mod base;
          c = (if d < 10 then 48 else 65 - 10 + case_adj) + ucast d;
          val = val div base
      in c # (if val \<noteq> 0 \<and> 1 < base then npf_utoa_rev val base case_adj else []))"
  by pat_completeness auto

termination
proof (relation "measure (\<lambda>(val, base, case_adj). unat val)")
  fix val base case_adj d val' :: u64 and c :: u8
  assume "val' = val div base" and "val' \<noteq> 0 \<and> 1 < base"
  moreover from this have "val \<noteq> 0"
    by auto
  ultimately have "unat val' = unat val div unat base" "1 < unat base" "unat val \<noteq> 0"
    by (auto simp: unat_div word_less_nat_alt unat_gt_0)
  then show "((val', base, c), val, base, c) \<in> measure (\<lambda>(val, base, case_adj). unat val)"
    by simp
qed simp

declare npf_utoa_rev.simps [simp del]

text \<open>The intrinsic: the number of zero bits above the highest one.\<close>

definition builtin_clzll :: "u64 \<Rightarrow> nat" where
  "builtin_clzll u = length (takeWhile (\<lambda>i. \<not> bit u i) (rev [0..<64]))"

definition npf_bin_len :: "u64 \<Rightarrow> nat" where
  "npf_bin_len u = (if u = 0 then 1 else 64 - builtin_clzll u)"

text \<open>The binary digits, which are only taken from \<open>binval\<close> when they are written.\<close>

definition npf_bin_rev :: "u64 \<Rightarrow> u8 list" where
  "npf_bin_rev binval = map (\<lambda>k. 48 + ucast (drop_bit k binval AND 1)) [0..<npf_bin_len binval]"

section \<open>Arguments\<close>

fun va_int :: "log_arg list \<Rightarrow> (int \<times> log_arg list) res" where
  "va_int (ArgInt v # args) = ok (v, args)"
| "va_int args = fail (UB ''va_arg'')"

definition npf_star_args :: "npf_format_spec_t \<Rightarrow> log_arg list \<Rightarrow> (npf_format_spec_t \<times> log_arg list) res" where
  "npf_star_args fs args =
     res_bind (if fs_field_width_opt fs = NPF_FMT_SPEC_OPT_STAR
               then res_bind (va_int args)
                 (\<lambda>(v, args). let w = signed_take_bit 31 v
                              in if w < 0 then res_bind (c_int (- w))
                                     (\<lambda>w. ok (fs\<lparr>fs_field_width := w, fs_left_justified := True\<rparr>, args))
                                 else ok (fs\<lparr>fs_field_width := w\<rparr>, args))
               else ok (fs, args))
       (\<lambda>(fs, args).
          if fs_prec_opt fs = NPF_FMT_SPEC_OPT_STAR
          then res_bind (va_int args)
            (\<lambda>(v, args). let p = signed_take_bit 31 v
                         in ok (if p < 0 then fs\<lparr>fs_prec := 0, fs_prec_opt := NPF_FMT_SPEC_OPT_NONE\<rparr>
                                else fs\<lparr>fs_prec := p\<rparr>, args))
          else ok (fs, args))"

definition npf_defaults :: "npf_format_spec_t \<Rightarrow> npf_format_spec_t" where
  "npf_defaults fs =
     (let fs = (if fs_prec_opt fs = NPF_FMT_SPEC_OPT_NONE \<and> fs_conv_spec fs = NPF_FMT_SPEC_CONV_POINTER
                then fs\<lparr>fs_prec := 16\<rparr> else fs)
      in if fs_prec_opt fs \<noteq> NPF_FMT_SPEC_OPT_NONE \<and>
            (fs_conv_spec fs = NPF_FMT_SPEC_CONV_SIGNED_INT \<or> fs_conv_spec fs = NPF_FMT_SPEC_CONV_OCTAL \<or>
             fs_conv_spec fs = NPF_FMT_SPEC_CONV_HEX_INT \<or> fs_conv_spec fs = NPF_FMT_SPEC_CONV_UNSIGNED_INT)
         then fs\<lparr>fs_leading_zero_pad := False\<rparr> else fs)"

text \<open>An integer read at the width of the length modifier.\<close>

fun npf_signed_arg :: "npf_len_mod \<Rightarrow> int \<Rightarrow> int" where
  "npf_signed_arg NPF_FMT_SPEC_LEN_MOD_NONE v = signed_take_bit 31 v"
| "npf_signed_arg NPF_FMT_SPEC_LEN_MOD_SHORT v = signed_take_bit 15 v"
| "npf_signed_arg NPF_FMT_SPEC_LEN_MOD_CHAR v = signed_take_bit 7 v"
| "npf_signed_arg NPF_FMT_SPEC_LEN_MOD_LONG_DOUBLE v = 0"
| "npf_signed_arg m v = signed_take_bit 63 v"

fun npf_unsigned_arg :: "npf_len_mod \<Rightarrow> int \<Rightarrow> u64" where
  "npf_unsigned_arg NPF_FMT_SPEC_LEN_MOD_NONE v = word_of_int (take_bit 32 v)"
| "npf_unsigned_arg NPF_FMT_SPEC_LEN_MOD_SHORT v = word_of_int (take_bit 16 v)"
| "npf_unsigned_arg NPF_FMT_SPEC_LEN_MOD_CHAR v = word_of_int (take_bit 8 v)"
| "npf_unsigned_arg NPF_FMT_SPEC_LEN_MOD_LONG_DOUBLE v = 0"
| "npf_unsigned_arg m v = word_of_int v"

section \<open>Conversions\<close>

text \<open>The text in \<open>cbuf\<close>, the sign, and whether the value is zero. Numbers are stored in reverse.\<close>

definition npf_conv_string :: "npf_format_spec_t \<Rightarrow> log_arg list \<Rightarrow> (u8 list \<times> log_arg list) res" where
  "npf_conv_string fs args =
     (case args of
        ArgStr s # args \<Rightarrow>
          (let s = takeWhile (\<lambda>c. c \<noteq> 0) (map of_char s)
           in ok (if fs_prec_opt fs = NPF_FMT_SPEC_OPT_NONE then s else take (nat (fs_prec fs)) s, args))
      | ArgInt v # args \<Rightarrow> if (word_of_int v :: u64) = 0 then ok ([], args) else fail (UB ''va_arg'')
      | [] \<Rightarrow> fail (UB ''va_arg''))"

definition npf_conv_signed :: "npf_format_spec_t \<Rightarrow> int \<Rightarrow> u8 list \<times> u8 \<times> bool" where
  "npf_conv_signed fs v =
     (let val = npf_signed_arg (fs_length_modifier fs) v;
          sign_c = (if val < 0 then 45 else fs_prepend fs);
          zero = (val = 0);
          cbuf = (if val = 0 \<and> fs_prec_opt fs \<noteq> NPF_FMT_SPEC_OPT_NONE \<and> fs_prec fs = 0 then []
                  else (let uval = word_of_int val;
                            uval = (if val < 0 then 0 - uval else uval)
                        in npf_utoa_rev uval 10 (fs_case_adjust fs)))
      in (cbuf, sign_c, zero))"

definition npf_conv_unsigned :: "npf_format_spec_t \<Rightarrow> int \<Rightarrow> u8 list \<times> u8 \<times> bool" where
  "npf_conv_unsigned fs v =
     (let val = (if fs_conv_spec fs = NPF_FMT_SPEC_CONV_POINTER then word_of_int v
                 else npf_unsigned_arg (fs_length_modifier fs) v);
          zero = (val = 0);
          cbuf = (if val = 0 \<and> fs_prec_opt fs \<noteq> NPF_FMT_SPEC_OPT_NONE \<and> fs_prec fs = 0 then []
                  else if fs_conv_spec fs = NPF_FMT_SPEC_CONV_BINARY then npf_bin_rev val
                  else npf_utoa_rev val (if fs_conv_spec fs = NPF_FMT_SPEC_CONV_OCTAL then 8
                         else if fs_conv_spec fs = NPF_FMT_SPEC_CONV_UNSIGNED_INT then 10 else 16) (fs_case_adjust fs))
      in (cbuf, 0, zero))"

definition npf_conv :: "npf_format_spec_t \<Rightarrow> log_arg list \<Rightarrow> ((u8 list \<times> u8 \<times> bool) \<times> log_arg list) res" where
  "npf_conv fs args =
     (case fs_conv_spec fs of
        NPF_FMT_SPEC_CONV_NONE \<Rightarrow> ok (([], 0, False), args)
      | NPF_FMT_SPEC_CONV_PERCENT \<Rightarrow> ok (([37], 0, False), args)
      | NPF_FMT_SPEC_CONV_CHAR \<Rightarrow> res_bind (va_int args) (\<lambda>(v, args). ok (([word_of_int v], 0, False), args))
      | NPF_FMT_SPEC_CONV_STRING \<Rightarrow> res_bind (npf_conv_string fs args) (\<lambda>(s, args). ok ((s, 0, False), args))
      | NPF_FMT_SPEC_CONV_SIGNED_INT \<Rightarrow> res_bind (va_int args) (\<lambda>(v, args). ok (npf_conv_signed fs v, args))
      | _ \<Rightarrow> res_bind (va_int args) (\<lambda>(v, args). ok (npf_conv_unsigned fs v, args)))"

section \<open>Output\<close>

definition npf_pad_c :: "npf_format_spec_t \<Rightarrow> bool \<Rightarrow> u8" where
  "npf_pad_c fs zero =
     (if fs_field_width_opt fs \<noteq> NPF_FMT_SPEC_OPT_NONE
      then (if fs_leading_zero_pad fs \<and> \<not> fs_left_justified fs
            then (if fs_prec_opt fs \<noteq> NPF_FMT_SPEC_OPT_NONE \<and> fs_prec fs = 0 \<and> zero then 32 else 48)
            else 32)
      else 0)"

definition npf_write :: "npf_format_spec_t \<Rightarrow> u8 list \<Rightarrow> u8 \<Rightarrow> bool \<Rightarrow> u8 list" where
  "npf_write fs cbuf sign_c zero =
     (let pad_c = npf_pad_c fs zero;
          cbuf_len = int (length cbuf);
          prec_pad = (if fs_conv_spec fs \<noteq> NPF_FMT_SPEC_CONV_STRING then max 0 (fs_prec fs - cbuf_len) else 0);
          field_pad = max 0 (fs_field_width fs - cbuf_len - (if sign_c \<noteq> 0 then 1 else 0) - prec_pad);
          padding = replicate (nat field_pad) pad_c;
          (before, sign_c) =
            (if \<not> fs_left_justified fs \<and> pad_c \<noteq> 0
             then (if pad_c = 48 \<and> sign_c \<noteq> 0 then (sign_c # padding, 0) else (padding, sign_c))
             else ([], sign_c));
          payload = (if fs_conv_spec fs = NPF_FMT_SPEC_CONV_STRING then cbuf
                     else (if sign_c \<noteq> 0 then [sign_c] else []) @ replicate (nat prec_pad) 48 @ rev cbuf);
          after = (if fs_left_justified fs \<and> pad_c \<noteq> 0 then padding else [])
      in before @ payload @ after)"

text \<open>One specification.\<close>

definition npf_directive :: "npf_format_spec_t \<Rightarrow> log_arg list \<Rightarrow> (u8 list \<times> log_arg list) res" where
  "npf_directive fs args =
     res_bind (npf_star_args fs args)
       (\<lambda>(fs, args). let fs = npf_defaults fs
                     in res_bind (npf_conv fs args)
                          (\<lambda>((cbuf, sign_c, zero), args). ok (npf_write fs cbuf sign_c zero, args)))"

section \<open>The formatter\<close>

lemma npf_parse_flags_length: "length (fst (npf_parse_flags cur fs)) \<le> length cur"
  by (induction cur fs rule: npf_parse_flags.induct) auto

lemma npf_parse_digits_length: "npf_parse_digits cur n = ok (rest, k) \<Longrightarrow> length rest \<le> length cur"
  by (induction cur n rule: npf_parse_digits.induct) (auto split: if_splits, fastforce)

lemma npf_parse_field_width_length: "npf_parse_field_width cur fs = ok (rest, fs') \<Longrightarrow> length rest \<le> length cur"
  by (auto simp: npf_parse_field_width_def Let_def split: if_splits dest: npf_parse_digits_length)

lemma npf_parse_precision_length: "npf_parse_precision cur fs = ok (rest, fs') \<Longrightarrow> length rest \<le> length cur"
  by (auto simp: npf_parse_precision_def Let_def split: if_splits dest!: npf_parse_digits_length)

lemma npf_parse_length_length: "length (snd (npf_parse_length cur)) \<le> length cur"
  by (cases cur) auto

lemma npf_parse_conv_length: "npf_parse_conv cur fs = Some (rest, fs') \<Longrightarrow> length rest < length cur"
  by (cases cur) (auto split: option.splits)

lemma npf_parse_format_spec_length:
  assumes "npf_parse_format_spec format = ok (Some (rest, fs))" shows "length rest < length format"
proof -
  obtain c0 f0 c1 f1 c2 f2 where c0: "npf_parse_flags (tl format) npf_spec_start = (c0, f0)"
    and c1: "npf_parse_field_width c0 f0 = ok (c1, f1)" and c2: "npf_parse_precision c1 f1 = ok (c2, f2)"
    and rest: "npf_parse_conv (snd (npf_parse_length c2)) (f2\<lparr>fs_length_modifier := fst (npf_parse_length c2)\<rparr>) = Some (rest, fs)"
    using assms by (cases "npf_parse_flags (tl format) npf_spec_start")
      (auto simp: npf_parse_format_spec_def Let_def res_bind_ok_iff split_beta)
  have "length c0 \<le> length (tl format)"
    using npf_parse_flags_length [of "tl format" npf_spec_start] by (simp add: c0)
  also have "\<dots> \<le> length format"
    by simp
  finally show ?thesis
    using npf_parse_field_width_length [OF c1] npf_parse_precision_length [OF c2] npf_parse_length_length [of c2]
      npf_parse_conv_length [OF rest] by linarith
qed

function npf_format :: "string \<Rightarrow> log_arg list \<Rightarrow> u8 list res" where
  "npf_format [] args = ok []"
| "npf_format (c # cur) args =
     (case (if c \<noteq> CHR ''%'' then ok None else npf_parse_format_spec (c # cur)) of
        None \<Rightarrow> None
      | Some (Inl e) \<Rightarrow> fail e
      | Some (Inr None) \<Rightarrow> res_bind (npf_format cur args) (\<lambda>out. ok (of_char c # out))
      | Some (Inr (Some (rest, fs))) \<Rightarrow>
          (case npf_directive fs args of
             None \<Rightarrow> None
           | Some (Inl e) \<Rightarrow> fail e
           | Some (Inr (text, args)) \<Rightarrow> res_bind (npf_format rest args) (\<lambda>out. ok (text @ out))))"
  by pat_completeness auto

termination
  by (relation "measure (\<lambda>(format, args). length format)")
    (auto split: if_splits dest: npf_parse_format_spec_length)

text \<open>The bytes for the callback, as \<open>Console\<close> takes them.\<close>

definition nanoprintf :: formatter where
  "nanoprintf format args = (case npf_format format args of Some (Inr out) \<Rightarrow> out | _ \<Rightarrow> [])"

section \<open>Into a buffer\<close>

record npf_bufputc_ctx_t =
  bpc_dst :: u64
  bpc_len :: u64
  bpc_cur :: u64

definition npf_bufputc :: "u8 \<Rightarrow> npf_bufputc_ctx_t \<times> memory \<Rightarrow> npf_bufputc_ctx_t \<times> memory" where
  "npf_bufputc c = (\<lambda>(bpc, m).
     if bpc_cur bpc < bpc_len bpc
     then (bpc\<lparr>bpc_cur := bpc_cur bpc + 1\<rparr>, m(bpc_dst bpc + bpc_cur bpc := c))
     else (bpc, m))"

definition npf_bufputc_nop :: "u8 \<Rightarrow> npf_bufputc_ctx_t \<times> memory \<Rightarrow> npf_bufputc_ctx_t \<times> memory" where
  "npf_bufputc_nop c ctx = ctx"

text \<open>\<open>(unsigned) n\<close> is compared with the size; \<open>n\<close> is at most \<open>INT_MAX\<close>, or the count overflows.\<close>

definition npf_vsnprintf :: "u64 \<Rightarrow> u64 \<Rightarrow> string \<Rightarrow> log_arg list \<Rightarrow> memory \<Rightarrow> (nat \<times> memory) res" where
  "npf_vsnprintf buffer bufsz format args m =
     res_bind (npf_format format args)
       (\<lambda>out. if int (length out) > 2147483647 then fail (UB ''signed overflow'')
          else let n = length out;
                   ctx = \<lparr>bpc_dst = buffer, bpc_len = bufsz, bpc_cur = 0\<rparr>;
                   pc = (if buffer \<noteq> 0 then npf_bufputc else npf_bufputc_nop);
                   (_, m) = fold pc out (ctx, m)
               in ok (n, if buffer \<noteq> 0 \<and> bufsz \<noteq> 0
                         then m(buffer + (if of_nat n \<le> bufsz - 1 then of_nat n else bufsz - 1) := 0) else m))"

end
