(* ===== verification/NpfProps.thy ===== *)
theory NpfProps
  imports Npf
begin

text \<open>
  What nanoprintf prints, against the C standard: an integer directive is parsed and its argument printed
  as \<open>c_render\<close> says, which is written from the standard's text over mathematical integers.
\<close>

section \<open>Numerals\<close>

fun numeral_digits :: "nat \<Rightarrow> nat \<Rightarrow> nat list" where
  "numeral_digits b n = (if b < 2 \<or> n < b then [n] else numeral_digits b (n div b) @ [n mod b])"

declare numeral_digits.simps [simp del]

lemma numeral_digits_bound: "1 < b \<Longrightarrow> d \<in> set (numeral_digits b n) \<Longrightarrow> d < b"
proof (induction b n rule: numeral_digits.induct)
  case (1 b n)
  have "d \<in> set (if b < 2 \<or> n < b then [n] else numeral_digits b (n div b) @ [n mod b])"
    using 1(3) numeral_digits.simps [of b n] by metis
  then show ?case
    using 1(1,2) by (auto split: if_splits)
qed

lemma numeral_digits_nonempty [simp]: "numeral_digits b n \<noteq> []"
  by (subst numeral_digits.simps) simp

text \<open>Reading a numeral.\<close>

definition read_digits :: "nat \<Rightarrow> nat \<Rightarrow> nat list \<Rightarrow> nat" where
  "read_digits b = foldl (\<lambda>n d. n * b + d)"

lemma read_digits_simps [simp]:
  "read_digits b k [] = k" "read_digits b k (d # ds) = read_digits b (k * b + d) ds"
  "read_digits b k (xs @ ys) = read_digits b (read_digits b k xs) ys"
  by (simp_all add: read_digits_def)

lemma read_numeral_digits: "1 < b \<Longrightarrow> read_digits b 0 (numeral_digits b n) = n"
proof (induction b n rule: numeral_digits.induct)
  case (1 b n)
  then show ?case
    by (subst numeral_digits.simps) auto
qed

lemma read_digits_mono: "k \<le> read_digits b k ds" if "0 < b"
  using that
proof (induction ds arbitrary: k)
  case (Cons d ds)
  have "k \<le> k * b + d"
    using Cons.prems by (simp add: trans_le_add1)
  also have "\<dots> \<le> read_digits b k (d # ds)"
    using Cons by simp
  finally show ?case .
qed simp

lemma numeral_digits_first: "1 < b \<Longrightarrow> 0 < n \<Longrightarrow> hd (numeral_digits b n) \<noteq> 0"
proof (induction b n rule: numeral_digits.induct)
  case (1 b n)
  then show ?case
    by (subst numeral_digits.simps) (auto simp: div_greater_zero_iff)
qed

lemma length_numeral_digits: "1 < b \<Longrightarrow> 0 < k \<Longrightarrow> n < b ^ k \<Longrightarrow> length (numeral_digits b n) \<le> k"
proof (induction b n arbitrary: k rule: numeral_digits.induct)
  case (1 b n)
  show ?case
  proof (cases "n < b")
    case True
    then show ?thesis
      using 1 by (subst numeral_digits.simps) simp
  next
    case False
    have "k \<noteq> 1"
      using 1(4) False by auto
    then obtain j where j: "k = Suc j" "0 < j"
      using 1(3) by (cases k) auto
    have "n div b < b ^ j"
      using 1(4) j(1) by (simp add: less_mult_imp_div_less mult.commute)
    then show ?thesis
      using 1(1) [of j] 1(2) False j by (subst numeral_digits.simps) simp
  qed
qed

section \<open>The digits printed\<close>

definition digit_byte :: "bool \<Rightarrow> nat \<Rightarrow> u8" where
  "digit_byte upper d = of_nat (if d < 10 then 48 + d else if upper then 55 + d else 87 + d)"

lemma npf_utoa_rev_digits:
  assumes "1 < base" and "base \<le> 16"
  shows "rev (npf_utoa_rev val base (if upper then 0 else 32)) =
    map (digit_byte upper) (numeral_digits (unat base) (unat val))"
  using assms
proof (induction val base "if upper then 0 else 32 :: u8" rule: npf_utoa_rev.induct)
  case (1 val base)
  have base: "1 < unat base" "unat base \<le> 16"
    using 1(2,3) by (simp_all add: word_less_nat_alt word_le_nat_alt)
  let ?d = "unat val mod unat base"
  have d: "unat (val mod base) = ?d" "?d < 16"
    using base by (simp_all add: unat_mod less_le_trans [OF mod_less_divisor])
  have byte: "(if val mod base < 10 then 48 else 65 - 10 + (if upper then 0 else 32)) + ucast (val mod base) =
      digit_byte upper ?d"
  proof -
    have "(ucast (val mod base) :: u8) = of_nat ?d"
      by (simp flip: d(1))
    moreover have "val mod base < 10 \<longleftrightarrow> ?d < 10"
      by (simp add: word_less_nat_alt d(1))
    ultimately show ?thesis
      by (simp add: digit_byte_def)
  qed
  have more: "val div base \<noteq> 0 \<longleftrightarrow> \<not> unat val < unat base"
    using base by (simp add: unat_eq_0 [symmetric] unat_div div_eq_0_iff del: unat_eq_0)
  show ?case
  proof (cases "unat val < unat base")
    case True
    then show ?thesis
      using byte more base
      by (subst npf_utoa_rev.simps, subst numeral_digits.simps) (simp add: Let_def)
  next
    case False
    then have "rev (npf_utoa_rev (val div base) base (if upper then 0 else 32)) =
        map (digit_byte upper) (numeral_digits (unat base) (unat val div unat base))"
      using 1 more by (simp add: unat_div)
    then show ?thesis
      using byte more base False 1(2)
      by (subst npf_utoa_rev.simps, subst numeral_digits.simps) (simp add: Let_def)
  qed
qed

section \<open>Directives of the C standard\<close>

datatype c_conv = ConvD | ConvU | ConvO | ConvX bool

text \<open>Flags, minimum width, precision, length modifier and conversion.\<close>

record c_directive =
  d_flags :: string
  d_width :: "nat option"
  d_prec :: "nat option"
  d_len :: npf_len_mod
  d_conv :: c_conv

definition c_directive_ok :: "c_directive \<Rightarrow> bool" where
  "c_directive_ok D \<longleftrightarrow> set (d_flags D) \<subseteq> set ''-0+ '' \<and> (\<forall>w. d_width D = Some w \<longrightarrow> 0 < w \<and> w \<le> INT_MAX) \<and>
     (\<forall>p. d_prec D = Some p \<longrightarrow> p \<le> INT_MAX) \<and> d_len D \<noteq> NPF_FMT_SPEC_LEN_MOD_LONG_DOUBLE"

definition dec_char :: "nat \<Rightarrow> char" where
  "dec_char d = char_of (48 + d)"

definition dec :: "nat \<Rightarrow> string" where
  "dec n = map dec_char (numeral_digits 10 n)"

fun c_length :: "npf_len_mod \<Rightarrow> string" where
  "c_length NPF_FMT_SPEC_LEN_MOD_NONE = []"
| "c_length NPF_FMT_SPEC_LEN_MOD_SHORT = ''h''"
| "c_length NPF_FMT_SPEC_LEN_MOD_CHAR = ''hh''"
| "c_length NPF_FMT_SPEC_LEN_MOD_LONG = ''l''"
| "c_length NPF_FMT_SPEC_LEN_MOD_LONG_DOUBLE = ''L''"
| "c_length NPF_FMT_SPEC_LEN_MOD_LARGE_LONG_LONG = ''ll''"
| "c_length NPF_FMT_SPEC_LEN_MOD_LARGE_INTMAX = ''j''"
| "c_length NPF_FMT_SPEC_LEN_MOD_LARGE_SIZET = ''z''"
| "c_length NPF_FMT_SPEC_LEN_MOD_LARGE_PTRDIFFT = ''t''"

fun c_letter :: "c_conv \<Rightarrow> char" where
  "c_letter ConvD = CHR ''d''"
| "c_letter ConvU = CHR ''u''"
| "c_letter ConvO = CHR ''o''"
| "c_letter (ConvX upper) = (if upper then CHR ''X'' else CHR ''x'')"

definition show_directive :: "c_directive \<Rightarrow> string" where
  "show_directive D = ''%'' @ d_flags D @ (case d_width D of None \<Rightarrow> [] | Some w \<Rightarrow> dec w) @
     (case d_prec D of None \<Rightarrow> [] | Some p \<Rightarrow> ''.'' @ dec p) @ c_length (d_len D) @ [c_letter (d_conv D)]"

text \<open>The value of an argument of the type the directive names.\<close>

fun c_signed :: "npf_len_mod \<Rightarrow> int \<Rightarrow> int" where
  "c_signed NPF_FMT_SPEC_LEN_MOD_NONE v = sint (word_of_int v :: u32)"
| "c_signed NPF_FMT_SPEC_LEN_MOD_SHORT v = sint (word_of_int v :: u16)"
| "c_signed NPF_FMT_SPEC_LEN_MOD_CHAR v = sint (word_of_int v :: u8)"
| "c_signed m v = sint (word_of_int v :: u64)"

fun c_unsigned :: "npf_len_mod \<Rightarrow> int \<Rightarrow> nat" where
  "c_unsigned NPF_FMT_SPEC_LEN_MOD_NONE v = unat (word_of_int v :: u32)"
| "c_unsigned NPF_FMT_SPEC_LEN_MOD_SHORT v = unat (word_of_int v :: u16)"
| "c_unsigned NPF_FMT_SPEC_LEN_MOD_CHAR v = unat (word_of_int v :: u8)"
| "c_unsigned m v = unat (word_of_int v :: u64)"

text \<open>The magnitude in the base, and whether it is negative.\<close>

fun c_value :: "c_conv \<Rightarrow> npf_len_mod \<Rightarrow> int \<Rightarrow> bool \<times> nat" where
  "c_value ConvD m v = (c_signed m v < 0, nat \<bar>c_signed m v\<bar>)"
| "c_value conv m v = (False, c_unsigned m v)"

fun c_base :: "c_conv \<Rightarrow> nat" where
  "c_base ConvO = 8" | "c_base (ConvX upper) = 16" | "c_base conv = 10"

text \<open>What the standard asks for: a precision is the least number of digits, and no digit is printed for 0
  with precision 0; a sign or its place holder only for \<open>d\<close>; on the left blanks, or zeros behind the sign if
  the flag \<open>0\<close> is given and neither \<open>-\<close> nor a precision.\<close>

definition c_number :: "nat option \<Rightarrow> nat \<Rightarrow> bool \<Rightarrow> nat \<Rightarrow> u8 list" where
  "c_number prec b upper n =
     (let digits = (if prec = Some 0 \<and> n = 0 then [] else map (digit_byte upper) (numeral_digits b n))
      in replicate ((case prec of None \<Rightarrow> 0 | Some p \<Rightarrow> p) - length digits) 48 @ digits)"

definition c_sign :: "c_conv \<Rightarrow> string \<Rightarrow> bool \<Rightarrow> u8 list" where
  "c_sign conv flags neg =
     (if conv \<noteq> ConvD then [] else if neg then [45] else if CHR ''+'' \<in> set flags then [43]
      else if CHR '' '' \<in> set flags then [32] else [])"

definition c_render :: "c_directive \<Rightarrow> int \<Rightarrow> u8 list" where
  "c_render D v =
     (let (neg, n) = c_value (d_conv D) (d_len D) v;
          number = c_number (d_prec D) (c_base (d_conv D)) (d_conv D = ConvX True) n;
          sign = c_sign (d_conv D) (d_flags D) neg;
          fill = (case d_width D of None \<Rightarrow> 0 | Some w \<Rightarrow> w) - length (sign @ number)
      in if CHR ''-'' \<in> set (d_flags D) then sign @ number @ replicate fill 32
         else if CHR ''0'' \<in> set (d_flags D) \<and> d_prec D = None then sign @ replicate fill 48 @ number
         else replicate fill 32 @ sign @ number)"

section \<open>Parsing a directive\<close>

lemma dec_char_values:
  "dec_char 0 = CHR ''0''" "dec_char (Suc 0) = CHR ''1''" "dec_char 2 = CHR ''2''" "dec_char 3 = CHR ''3''" "dec_char 4 = CHR ''4''"
  "dec_char 5 = CHR ''5''" "dec_char 6 = CHR ''6''" "dec_char 7 = CHR ''7''" "dec_char 8 = CHR ''8''" "dec_char 9 = CHR ''9''"
  by code_simp+

lemma dec_char_facts:
  assumes "d < 10"
  shows "is_dec (dec_char d)" and "(of_char (dec_char d) :: int) = 48 + int d"
    and "dec_char d = CHR ''0'' \<longleftrightarrow> d = 0" and "dec_char d \<noteq> CHR ''-''" "dec_char d \<noteq> CHR ''+''" "dec_char d \<noteq> CHR '' ''"
    "dec_char d \<noteq> CHR ''*''" "dec_char d \<noteq> CHR ''.''"
proof -
  have "d \<in> {0, 1, 2, 3, 4, 5, 6, 7, 8, 9}"
    using assms by auto
  then show "is_dec (dec_char d)" "(of_char (dec_char d) :: int) = 48 + int d" "dec_char d = CHR ''0'' \<longleftrightarrow> d = 0"
    "dec_char d \<noteq> CHR ''-''" "dec_char d \<noteq> CHR ''+''" "dec_char d \<noteq> CHR '' ''" "dec_char d \<noteq> CHR ''*''" "dec_char d \<noteq> CHR ''.''"
    by (auto simp: dec_char_values is_dec_def)
qed

lemma parse_digits_read:
  assumes "\<And>d. d \<in> set ds \<Longrightarrow> d < 10" and "read_digits 10 k ds \<le> INT_MAX" and "rest = [] \<or> \<not> is_dec (hd rest)"
  shows "npf_parse_digits (map dec_char ds @ rest) (int k) = ok (rest, int (read_digits 10 k ds))"
  using assms
proof (induction ds arbitrary: k)
  case Nil
  then show ?case
    by (cases rest) auto
next
  case (Cons d ds)
  have "k * 10 + d \<le> INT_MAX"
    using read_digits_mono [of 10 "k * 10 + d" ds] Cons.prems(2) by simp
  then have "c_int (int k * 10) = ok (int k * 10)" "c_int (int k * 10 + int d) = ok (int (k * 10 + d))"
    by (simp_all add: c_int_def INT_MAX_def)
  then show ?case
    using Cons.IH [of "k * 10 + d"] Cons.prems dec_char_facts(1,2) [of d] by simp
qed

lemma parse_dec:
  assumes "n \<le> INT_MAX" and "rest = [] \<or> \<not> is_dec (hd rest)"
  shows "npf_parse_digits (dec n @ rest) 0 = ok (rest, int n)"
  using parse_digits_read [of "numeral_digits 10 n" 0 rest] assms numeral_digits_bound [of 10 _ n]
  by (simp add: dec_def read_numeral_digits)

text \<open>The flags, of which a \<open>+\<close> overrides a blank.\<close>

definition with_flags :: "string \<Rightarrow> npf_format_spec_t \<Rightarrow> npf_format_spec_t" where
  "with_flags flags fs = fs\<lparr>fs_left_justified := fs_left_justified fs \<or> CHR ''-'' \<in> set flags,
     fs_leading_zero_pad := fs_leading_zero_pad fs \<or> CHR ''0'' \<in> set flags,
     fs_prepend := if CHR ''+'' \<in> set flags then 43
       else if CHR '' '' \<in> set flags \<and> fs_prepend fs = 0 then 32 else fs_prepend fs\<rparr>"

lemma parse_flags:
  assumes "set flags \<subseteq> set ''-0+ ''" and "rest \<noteq> [] \<Longrightarrow> hd rest \<notin> set ''-0+ ''"
  shows "npf_parse_flags (flags @ rest) fs = (rest, with_flags flags fs)"
  using assms
proof (induction flags arbitrary: fs)
  case Nil
  then show ?case
    by (cases rest) (auto simp: with_flags_def)
next
  case (Cons c flags)
  then show ?case
    by (auto simp: with_flags_def)
qed

text \<open>Behind the flags, the width and the precision.\<close>

definition ending :: "npf_len_mod \<Rightarrow> c_conv \<Rightarrow> string \<Rightarrow> string" where
  "ending m conv rest = c_length m @ [c_letter conv] @ rest"

lemma ending_head:
  assumes "m \<noteq> NPF_FMT_SPEC_LEN_MOD_LONG_DOUBLE"
  shows "ending m conv rest \<noteq> []" and "hd (ending m conv rest) \<notin> set ''-0+ *.''" and "\<not> is_dec (hd (ending m conv rest))"
  using assms by (cases m; cases conv; simp add: ending_def is_dec_def)+

lemma parse_ending:
  "m \<noteq> NPF_FMT_SPEC_LEN_MOD_LONG_DOUBLE \<Longrightarrow> npf_parse_length (ending m conv rest) = (m, c_letter conv # rest)"
  by (cases m; cases conv) (simp_all add: ending_def next_is_def)

fun npf_conv_for :: "c_conv \<Rightarrow> npf_conv_spec" where
  "npf_conv_for ConvD = NPF_FMT_SPEC_CONV_SIGNED_INT"
| "npf_conv_for ConvU = NPF_FMT_SPEC_CONV_UNSIGNED_INT"
| "npf_conv_for ConvO = NPF_FMT_SPEC_CONV_OCTAL"
| "npf_conv_for (ConvX upper) = NPF_FMT_SPEC_CONV_HEX_INT"

lemma parse_letter: "npf_conv_of (c_letter conv) = Some (npf_conv_for conv, conv = ConvX True)"
  by (cases conv) (simp_all add: npf_conv_of_def)

text \<open>The specification that comes out.\<close>

definition spec_of :: "c_directive \<Rightarrow> npf_format_spec_t" where
  "spec_of D = (with_flags (d_flags D) npf_spec_start)
     \<lparr>fs_field_width := (case d_width D of None \<Rightarrow> 0 | Some w \<Rightarrow> int w),
      fs_field_width_opt := (if d_width D = None then NPF_FMT_SPEC_OPT_NONE else NPF_FMT_SPEC_OPT_LITERAL),
      fs_prec := (case d_prec D of None \<Rightarrow> 0 | Some p \<Rightarrow> int p),
      fs_prec_opt := (if d_prec D = None then NPF_FMT_SPEC_OPT_NONE else NPF_FMT_SPEC_OPT_LITERAL),
      fs_length_modifier := d_len D, fs_conv_spec := npf_conv_for (d_conv D),
      fs_case_adjust := if d_conv D = ConvX True then 0 else 32\<rparr>"

lemma dec_head:
  assumes "0 < n"
  shows "dec n \<noteq> []" "is_dec (hd (dec n))" "hd (dec n) \<notin> set ''-0+ *''"
proof -
  let ?d = "hd (numeral_digits 10 n)"
  have "?d < 10" "?d \<noteq> 0"
    using numeral_digits_bound [of 10 ?d n] numeral_digits_first [OF _ assms, of 10] by simp_all
  then show "dec n \<noteq> []" "is_dec (hd (dec n))" "hd (dec n) \<notin> set ''-0+ *''"
    using dec_char_facts [of ?d] by (simp_all add: dec_def hd_map)
qed

lemma parse_precision:
  assumes "m \<noteq> NPF_FMT_SPEC_LEN_MOD_LONG_DOUBLE" and "\<And>p. prec = Some p \<Longrightarrow> p \<le> INT_MAX"
  shows "npf_parse_precision ((case prec of None \<Rightarrow> [] | Some p \<Rightarrow> ''.'' @ dec p) @ ending m conv rest) fs =
    ok (ending m conv rest, fs\<lparr>fs_prec := (case prec of None \<Rightarrow> 0 | Some p \<Rightarrow> int p),
      fs_prec_opt := (if prec = None then NPF_FMT_SPEC_OPT_NONE else NPF_FMT_SPEC_OPT_LITERAL)\<rparr>)"
proof (cases prec)
  case None
  then show ?thesis
    using ending_head(1,2) [OF assms(1)] by (simp add: npf_parse_precision_def next_is_def)
next
  case (Some p)
  let ?d = "hd (numeral_digits 10 p)"
  have "?d < 10"
    using numeral_digits_bound [of 10 ?d p] by simp
  then have "hd (dec p) \<noteq> CHR ''*''" "hd (dec p) \<noteq> CHR ''-''" "dec p \<noteq> []"
    using dec_char_facts [of ?d] by (simp_all add: dec_def hd_map)
  then show ?thesis
    using parse_dec [of p "ending m conv rest"] ending_head [OF assms(1)] assms(2) Some
    by (simp add: npf_parse_precision_def next_is_def)
qed

lemma parse_width:
  assumes "\<And>w. width = Some w \<Longrightarrow> 0 < w \<and> w \<le> INT_MAX"
    and "rest \<noteq> []" "hd rest \<noteq> CHR ''*''" "\<not> is_dec (hd rest)"
  shows "npf_parse_field_width ((case width of None \<Rightarrow> [] | Some w \<Rightarrow> dec w) @ rest) fs =
    ok (rest, fs\<lparr>fs_field_width := (case width of None \<Rightarrow> 0 | Some w \<Rightarrow> int w),
      fs_field_width_opt := (if width = None then NPF_FMT_SPEC_OPT_NONE else NPF_FMT_SPEC_OPT_LITERAL)\<rparr>)"
proof (cases width)
  case None
  then show ?thesis
    using assms(2-4) by (cases rest) (simp_all add: npf_parse_field_width_def next_is_def)
next
  case (Some w)
  then show ?thesis
    using parse_dec [of w rest] dec_head [of w] assms by (simp add: npf_parse_field_width_def next_is_def)
qed

lemma parse_directive:
  assumes "c_directive_ok D"
  shows "npf_parse_format_spec (show_directive D @ rest) = ok (Some (rest, spec_of D))"
proof -
  let ?e = "ending (d_len D) (d_conv D) rest"
  let ?p = "(case d_prec D of None \<Rightarrow> [] | Some p \<Rightarrow> ''.'' @ dec p) @ ?e"
  let ?w = "(case d_width D of None \<Rightarrow> [] | Some w \<Rightarrow> dec w) @ ?p"
  have ok: "set (d_flags D) \<subseteq> set ''-0+ ''" "d_len D \<noteq> NPF_FMT_SPEC_LEN_MOD_LONG_DOUBLE"
    "\<And>w. d_width D = Some w \<Longrightarrow> 0 < w \<and> w \<le> INT_MAX" "\<And>p. d_prec D = Some p \<Longrightarrow> p \<le> INT_MAX"
    using assms by (auto simp: c_directive_ok_def)
  note e = ending_head [OF ok(2), of "d_conv D" rest]
  have p: "?p \<noteq> []" "hd ?p \<noteq> CHR ''*''" "\<not> is_dec (hd ?p)" "hd ?p \<notin> set ''-0+ ''"
    using e by (auto simp: is_dec_def split: option.split)
  have w: "hd ?w \<notin> set ''-0+ ''"
    using p dec_head ok(3) by (cases "d_width D") auto
  have "show_directive D @ rest = CHR ''%'' # d_flags D @ ?w"
    by (simp add: show_directive_def ending_def)
  then show ?thesis
    using parse_flags [OF ok(1), of ?w npf_spec_start] w parse_width [OF ok(3) p(1-3), where fs = "with_flags (d_flags D) npf_spec_start"]
      parse_precision [OF ok(2,4), where conv = "d_conv D" and rest = rest] parse_ending [OF ok(2), of "d_conv D" rest] parse_letter [of "d_conv D"]
    by (simp add: npf_parse_format_spec_def spec_of_def npf_spec_start_def with_flags_def)
qed

section \<open>Printing an integer\<close>

lemma signed_arg: "m \<noteq> NPF_FMT_SPEC_LEN_MOD_LONG_DOUBLE \<Longrightarrow> npf_signed_arg m v = c_signed m v"
  by (cases m) (simp_all add: signed_of_int)

lemma sint_range_64:
  fixes w :: "'a::len word"
  assumes "LENGTH('a) \<le> 64" shows "- (2 ^ 63) \<le> sint w \<and> sint w < 2 ^ 63"
  using sint_greater_eq [of w] sint_less [of w] assms power_increasing [of "LENGTH('a) - Suc 0" 63 "2 :: int"]
  by (intro conjI) linarith+

lemma c_signed_range: "- (2 ^ 63) \<le> c_signed m v \<and> c_signed m v < 2 ^ 63"
  using sint_range_64 [where 'a = 8] sint_range_64 [where 'a = 16] sint_range_64 [where 'a = 32] sint_range_64 [where 'a = 64]
  by (cases m) simp_all

lemma unsigned_arg: "m \<noteq> NPF_FMT_SPEC_LEN_MOD_LONG_DOUBLE \<Longrightarrow> unat (npf_unsigned_arg m v) = c_unsigned m v"
  by (cases m) (simp_all add: unsigned_of_int take_bit_take_bit)

text \<open>The magnitude of a signed number in 64 bits.\<close>

lemma magnitude:
  assumes "- (2 ^ 63) \<le> x" "x < 2 ^ 63"
  shows "unat (if x < 0 then 0 - word_of_int x else word_of_int x :: u64) = nat \<bar>x\<bar>"
proof -
  have "(if x < 0 then 0 - word_of_int x else word_of_int x :: u64) = word_of_int \<bar>x\<bar>"
    by (simp add: abs_if)
  moreover have "take_bit 64 \<bar>x\<bar> = \<bar>x\<bar>"
    using assms by (intro take_bit_int_eq_self) auto
  ultimately show ?thesis
    by (simp add: unsigned_of_int)
qed

definition sign_bytes :: "u8 \<Rightarrow> u8 list" where
  "sign_bytes c = (if c = 0 then [] else [c])"

definition digits_of :: "c_directive \<Rightarrow> nat \<Rightarrow> u8 list" where
  "digits_of D n = (if d_prec D = Some 0 \<and> n = 0 then []
     else map (digit_byte (d_conv D = ConvX True)) (numeral_digits (c_base (d_conv D)) n))"

lemma spec_fields [simp]:
  "fs_field_width (spec_of D) = (case d_width D of None \<Rightarrow> 0 | Some w \<Rightarrow> int w)"
  "fs_field_width_opt (spec_of D) = (if d_width D = None then NPF_FMT_SPEC_OPT_NONE else NPF_FMT_SPEC_OPT_LITERAL)"
  "fs_prec (spec_of D) = (case d_prec D of None \<Rightarrow> 0 | Some p \<Rightarrow> int p)"
  "fs_prec_opt (spec_of D) = (if d_prec D = None then NPF_FMT_SPEC_OPT_NONE else NPF_FMT_SPEC_OPT_LITERAL)"
  "fs_length_modifier (spec_of D) = d_len D" "fs_conv_spec (spec_of D) = npf_conv_for (d_conv D)"
  "fs_case_adjust (spec_of D) = (if d_conv D = ConvX True then 0 else 32)"
  "fs_left_justified (spec_of D) \<longleftrightarrow> CHR ''-'' \<in> set (d_flags D)"
  "fs_leading_zero_pad (spec_of D) \<longleftrightarrow> CHR ''0'' \<in> set (d_flags D)"
  "fs_prepend (spec_of D) = (if CHR ''+'' \<in> set (d_flags D) then 43 else if CHR '' '' \<in> set (d_flags D) then 32 else 0)"
  by (simp_all add: spec_of_def with_flags_def npf_spec_start_def)

lemma spec_defaults:
  "npf_defaults (spec_of D) = (if d_prec D = None then spec_of D else (spec_of D)\<lparr>fs_leading_zero_pad := False\<rparr>)"
  by (cases "d_conv D") (simp_all add: npf_defaults_def)

lemma conv_integer:
  assumes "d_len D \<noteq> NPF_FMT_SPEC_LEN_MOD_LONG_DOUBLE" and "c_value (d_conv D) (d_len D) v = (neg, n)"
  shows "\<exists>cbuf sign_c. npf_conv (npf_defaults (spec_of D)) (ArgInt v # args) = ok ((cbuf, sign_c, n = 0), args) \<and>
    rev cbuf = digits_of D n \<and> sign_bytes sign_c = c_sign (d_conv D) (d_flags D) neg"
proof -
  let ?fs = "npf_defaults (spec_of D)"
  have zero: "fs_prec_opt ?fs \<noteq> NPF_FMT_SPEC_OPT_NONE \<and> fs_prec ?fs = 0 \<longleftrightarrow> d_prec D = Some 0"
    by (cases "d_prec D") (simp_all add: spec_defaults)
  have same: "fs_length_modifier ?fs = d_len D" "fs_conv_spec ?fs = npf_conv_for (d_conv D)"
    "fs_case_adjust ?fs = (if d_conv D = ConvX True then 0 else 32)" "fs_prepend ?fs = fs_prepend (spec_of D)"
    by (simp_all add: spec_defaults)
  show ?thesis
  proof (cases "d_conv D")
    case ConvD
    let ?x = "c_signed (d_len D) v"
    have n: "neg = (?x < 0)" "n = nat \<bar>?x\<bar>"
      using assms(2) by (simp_all add: ConvD)
    then have "n = 0 \<longleftrightarrow> ?x = 0"
      by simp
    then show ?thesis
      using magnitude [of ?x] c_signed_range [of "d_len D" v] zero n
        npf_utoa_rev_digits [of 10 "if ?x < 0 then 0 - word_of_int ?x else word_of_int ?x" False]
      by (auto simp: npf_conv_def npf_conv_signed_def same ConvD signed_arg [OF assms(1)] digits_of_def Let_def
          sign_bytes_def c_sign_def)
  next
    case ConvU
    have n: "unat (npf_unsigned_arg (d_len D) v) = n" "\<not> neg"
      using assms by (simp_all add: ConvU unsigned_arg)
    then show ?thesis
      using zero npf_utoa_rev_digits [of 10 "npf_unsigned_arg (d_len D) v" False]
      by (auto simp: npf_conv_def npf_conv_unsigned_def same ConvU unat_gt_0 digits_of_def Let_def sign_bytes_def c_sign_def)
  next
    case ConvO
    have n: "unat (npf_unsigned_arg (d_len D) v) = n" "\<not> neg"
      using assms by (simp_all add: ConvO unsigned_arg)
    then show ?thesis
      using zero npf_utoa_rev_digits [of 8 "npf_unsigned_arg (d_len D) v" False]
      by (auto simp: npf_conv_def npf_conv_unsigned_def same ConvO unat_gt_0 digits_of_def Let_def sign_bytes_def c_sign_def)
  next
    case (ConvX upper)
    have n: "unat (npf_unsigned_arg (d_len D) v) = n" "\<not> neg"
      using assms by (simp_all add: ConvX unsigned_arg)
    then show ?thesis
      using zero npf_utoa_rev_digits [of 16 "npf_unsigned_arg (d_len D) v" upper]
      by (auto simp: npf_conv_def npf_conv_unsigned_def same ConvX unat_gt_0 digits_of_def Let_def sign_bytes_def c_sign_def)
  qed
qed

lemma write_integer:
  assumes "rev cbuf = digits_of D n" and "sign_bytes sign_c = c_sign (d_conv D) (d_flags D) neg"
    and "c_value (d_conv D) (d_len D) v = (neg, n)"
  shows "npf_write (npf_defaults (spec_of D)) cbuf sign_c (n = 0) = c_render D v"
proof -
  let ?fs = "npf_defaults (spec_of D)"
  let ?p = "case d_prec D of None \<Rightarrow> 0 | Some p \<Rightarrow> p" let ?w = "case d_width D of None \<Rightarrow> 0 | Some w \<Rightarrow> w"
  define number where "number = c_number (d_prec D) (c_base (d_conv D)) (d_conv D = ConvX True) n"
  define prec_pad where "prec_pad = max 0 (int ?p - int (length cbuf))"
  have len: "length cbuf = length (digits_of D n)"
    using assms(1) length_rev [of cbuf] by simp
  have number: "replicate (nat prec_pad) 48 @ rev cbuf = number"
    unfolding number_def c_number_def Let_def digits_of_def [symmetric] assms(1) prec_pad_def len
    by (simp add: nat_diff_distrib' max_def)
  have pad: "prec_pad + int (length cbuf) = int (length number)"
    unfolding number [symmetric] by (simp add: prec_pad_def)
  have fill: "nat (max 0 (int ?w - int (length cbuf) - (if sign_c \<noteq> 0 then 1 else 0) - prec_pad)) =
      ?w - length (sign_bytes sign_c @ number)"
    using pad by (auto simp: sign_bytes_def)
  have fields: "fs_prec ?fs = int ?p" "fs_field_width ?fs = int ?w" "fs_conv_spec ?fs \<noteq> NPF_FMT_SPEC_CONV_STRING"
    "fs_left_justified ?fs = (CHR ''-'' \<in> set (d_flags D))"
    by (cases "d_conv D"; simp add: spec_defaults split: option.split)+
  have pad_c: "npf_pad_c ?fs (n = 0) = (if d_width D = None then 0 else if CHR ''0'' \<in> set (d_flags D) \<and>
      CHR ''-'' \<notin> set (d_flags D) \<and> d_prec D = None then 48 else 32)"
    by (auto simp: npf_pad_c_def spec_defaults)
  have render: "c_render D v = (let fill = ?w - length (sign_bytes sign_c @ number)
      in if CHR ''-'' \<in> set (d_flags D) then sign_bytes sign_c @ number @ replicate fill 32
         else if CHR ''0'' \<in> set (d_flags D) \<and> d_prec D = None then sign_bytes sign_c @ replicate fill 48 @ number
         else replicate fill 32 @ sign_bytes sign_c @ number)"
    by (simp add: c_render_def assms(2,3) number_def Let_def)
  show ?thesis
  proof (cases "d_width D")
    case None
    then show ?thesis
      using number fields(3) unfolding render npf_write_def fields prec_pad_def [symmetric] pad_c Let_def
      by (simp add: sign_bytes_def)
  next
    case (Some w)
    then show ?thesis
      unfolding render npf_write_def Let_def fields(1,2,4) if_P [OF fields(3)] prec_pad_def [symmetric] fill pad_c number
      by (simp add: sign_bytes_def fields(3))
  qed
qed

text \<open>A directive, then the rest of the format.\<close>

lemma directive_integer:
  assumes "c_directive_ok D"
  shows "npf_directive (spec_of D) (ArgInt v # args) = ok (c_render D v, args)"
proof -
  obtain neg n where cv: "c_value (d_conv D) (d_len D) v = (neg, n)"
    by fastforce
  have "d_len D \<noteq> NPF_FMT_SPEC_LEN_MOD_LONG_DOUBLE"
    using assms by (simp add: c_directive_ok_def)
  then obtain cbuf sign_c where conv: "npf_conv (npf_defaults (spec_of D)) (ArgInt v # args) = ok ((cbuf, sign_c, n = 0), args)"
    "rev cbuf = digits_of D n" "sign_bytes sign_c = c_sign (d_conv D) (d_flags D) neg"
    using conv_integer [OF _ cv] by blast
  then show ?thesis
    using write_integer [OF conv(2,3) cv] by (simp add: npf_directive_def npf_star_args_def)
qed

text \<open>C27. nanoprintf prints integers as the C standard asks: a directive of flags, a width and a precision in
  the range of an \<open>int\<close>, a length modifier and one of \<open>d\<close>, \<open>u\<close>, \<open>o\<close>, \<open>x\<close> and \<open>X\<close> is read up to its end and
  prints what \<open>c_render\<close> says of the next argument; the rest of the format goes on with the other
  arguments.\<close>

theorem npf_prints_integers:
  assumes "c_directive_ok D"
  shows "npf_format (show_directive D @ rest) (ArgInt v # args) =
    res_bind (npf_format rest args) (\<lambda>out. ok (c_render D v @ out))"
proof -
  obtain cs where cs: "show_directive D @ rest = CHR ''%'' # cs"
    by (simp add: show_directive_def)
  then show ?thesis
    using parse_directive [OF assms, of rest] directive_integer [OF assms, of v args] by simp
qed

theorem npf_prints_integers_witness:
  "npf_format ''%08lx%+d'' [ArgInt 0xAB, ArgInt (-7)] =
     ok (map of_char ''000000ab-7'')"
proof -
  let ?x = "\<lparr>d_flags = ''0'', d_width = Some 8, d_prec = None, d_len = NPF_FMT_SPEC_LEN_MOD_LONG, d_conv = ConvX False\<rparr>"
  let ?d = "\<lparr>d_flags = ''+'', d_width = None, d_prec = None, d_len = NPF_FMT_SPEC_LEN_MOD_NONE, d_conv = ConvD\<rparr>"
  have ok: "c_directive_ok ?x" "c_directive_ok ?d"
    by (simp_all add: c_directive_ok_def INT_MAX_def)
  have "''%08lx%+d'' = show_directive ?x @ show_directive ?d @ []"
    by code_simp
  moreover have "c_render ?x 0xAB @ c_render ?d (-7) = map of_char ''000000ab-7''"
    by code_simp
  ultimately show ?thesis
    by (simp only: npf_prints_integers [OF ok(1)] npf_prints_integers [OF ok(2), of "[]", unfolded append_Nil2]
        npf_format.simps res_bind_simps append_Nil2)
qed

section \<open>Into a buffer\<close>

text \<open>The callback after some bytes: as many of them as fit.\<close>

lemma bufputc_fold:
  fixes dst len :: u64
  assumes "length out < 2 ^ 64"
  shows "fold npf_bufputc out (\<lparr>bpc_dst = dst, bpc_len = len, bpc_cur = 0\<rparr>, m) =
    (let k = min (length out) (unat len)
     in (\<lparr>bpc_dst = dst, bpc_len = len, bpc_cur = of_nat k\<rparr>, \<lambda>a. if unat (a - dst) < k then out ! unat (a - dst) else m a))"
  using assms
proof (induction out rule: rev_induct)
  case (snoc c out)
  let ?k = "min (length out) (unat len)"
  have k: "unat (of_nat ?k :: u64) = ?k"
    using snoc.prems by (simp add: unat_of_nat_64)
  have at: "a = dst + of_nat ?k \<longleftrightarrow> unat (a - dst) = ?k" for a
    by (rule index_eq) (use snoc.prems in simp)
  show ?case
  proof (cases "length out < unat len")
    case True
    then have "(of_nat (length out) :: u64) < len" "(of_nat (length out) :: u64) + 1 = of_nat (Suc (length out))"
      using k by (simp_all add: word_less_nat_alt)
    then show ?thesis
      using snoc True at by (auto simp: npf_bufputc_def Let_def fun_eq_iff nth_append less_Suc_eq min_def)
  next
    case False
    then show ?thesis
      using snoc k by (auto simp: npf_bufputc_def Let_def fun_eq_iff nth_append min_def word_less_nat_alt)
  qed
qed (simp add: Let_def fun_eq_iff)

text \<open>The buffer holds as much of the output as fits before the NUL, and nothing else is written.\<close>

theorem npf_vsnprintf_truncates:
  assumes "npf_format format args = ok out" and "int (length out) \<le> 2147483647" and "buffer \<noteq> 0" and "0 < unat bufsz"
  shows "\<exists>m'. npf_vsnprintf buffer bufsz format args m = ok (length out, m') \<and>
    (let k = min (length out) (unat bufsz - 1)
     in bytes_at m' buffer k = take k out \<and> m' (buffer + of_nat k) = 0 \<and>
        (\<forall>a. \<not> in_array buffer (unat bufsz) a \<longrightarrow> m' a = m a))"
proof -
  let ?k = "min (length out) (unat bufsz - 1)"
  have n: "length out < 2 ^ 64"
    using assms(2) by simp
  have one: "unat (bufsz - 1) = unat bufsz - 1"
    using assms(4) by (simp add: unat_gt_0 unat_minus_one)
  have at: "(if of_nat (length out) \<le> bufsz - 1 then of_nat (length out) else bufsz - 1 :: u64) = of_nat ?k"
  proof -
    have "bufsz - 1 = of_nat (unat bufsz - 1)"
      unfolding one [symmetric] by simp
    moreover have "of_nat (length out) \<le> bufsz - 1 \<longleftrightarrow> length out \<le> unat bufsz - 1"
      using n by (simp add: word_le_nat_alt unat_of_nat_64 one)
    ultimately show ?thesis
      by (simp add: min_def)
  qed
  define m' where "m' = (\<lambda>a. if unat (a - buffer) < min (length out) (unat bufsz) then out ! unat (a - buffer) else m a)
    (buffer + of_nat ?k := 0)"
  have "bufsz \<noteq> 0"
    using assms(4) by auto
  then have "npf_vsnprintf buffer bufsz format args m = ok (length out, m')"
    using assms(1-3) at bufputc_fold [OF n, of buffer bufsz m] by (simp add: npf_vsnprintf_def Let_def m'_def)
  moreover have idx: "unat (of_nat i :: u64) = i" if "i < unat bufsz" for i
    using that unsigned_less [of bufsz, where 'a = nat] by (simp add: unat_of_nat_64)
  have "bytes_at m' buffer ?k = take ?k out"
  proof (rule nth_equalityI)
    fix i assume "i < length (bytes_at m' buffer ?k)"
    then have i: "i < ?k" "i < unat bufsz"
      by auto
    then have "unat (of_nat i :: u64) < unat (of_nat ?k :: u64)"
      using idx [of i] idx [of ?k] assms(4) by linarith
    then have "(of_nat i :: u64) \<noteq> of_nat ?k"
      by auto
    then show "bytes_at m' buffer ?k ! i = take ?k out ! i"
      using i idx [of i] assms(4) by (simp add: m'_def)
  qed simp
  moreover have "m' a = m a" if "\<not> in_array buffer (unat bufsz) a" for a
  proof -
    have "\<not> unat (a - buffer) < unat bufsz"
      using that by (simp add: in_array_def)
    moreover from this have "a \<noteq> buffer + of_nat ?k"
      using idx [of ?k] assms(4) by auto
    ultimately show ?thesis
      by (simp add: m'_def)
  qed
  ultimately show ?thesis
    by (simp add: m'_def Let_def)
qed

end
