(* ===== verification/Init.thy ===== *)
theory Init
  imports BootInfo Handoff Pagedb RiscvPlatform
begin

text \<open>
  \<open>prekernel_init\<close> of \<open>pre_kernel/src/init.c\<close> from its entry to the call of \<open>sync_and_handoff\<close>, on both
  architectures: the order in which the parts run, what is passed between them, and the fields of the
  boot information that are filled in. The fields of the boot information are read from memory where the code
  reads them, except \<open>hhdm_offset\<close>, which is a component of the state. The log lines are left out; the
  early output of \<open>arch_init_early\<close> is in \<open>Uart\<close>, the rendezvous of the cores in \<open>Sync\<close>.
\<close>

section \<open>The parts of init.c\<close>

definition set_field :: "u64 \<Rightarrow> u64 \<Rightarrow> u64 \<Rightarrow> 'a vm_state_scheme \<Rightarrow> 'a vm_state_scheme" where
  "set_field boot_info field v st = st\<lparr>vm_mem := store64 (boot_info + field) v (vm_mem st)\<rparr>"

definition get_field :: "u64 \<Rightarrow> u64 \<Rightarrow> 'a vm_state_scheme \<Rightarrow> u64" where
  "get_field boot_info field st = load64 (vm_mem st) (boot_info + field)"

text \<open>\<open>uacpi_setup\<close> is \<open>uacpi_setup_early_table_access\<close>: whether it reports success, and what it leaves in
  memory.\<close>

definition setup_acpi ::
  "(u64 \<Rightarrow> u64 \<Rightarrow> memory \<Rightarrow> bool \<times> memory) \<Rightarrow> u64 \<Rightarrow> 'a vm_state_scheme \<Rightarrow> 'a vm_state_scheme res" where
  "setup_acpi uacpi_setup boot_info st =
     (if get_field boot_info bi_rdsp_physical st \<noteq> 0
      then res_bind (vm_alloc (PTM_PAGE_GRANULARITY * 2) st)
        (\<lambda>(p, st). let temporary_buffer = p + hhdm_offset st;
                       (status, m) = uacpi_setup temporary_buffer (PTM_PAGE_GRANULARITY * 2) (vm_mem st)
                   in if status then ok (st\<lparr>vm_mem := m\<rparr>) else fail (Panic ''failed to setup acpi tables''))
      else ok st)"

definition kernel_info_at :: "memory \<Rightarrow> u64 \<Rightarrow> bootinfo_kernel_info_t" where
  "kernel_info_at m p = \<lparr>ki_pagedb_entry_size = load64 m p, ki_cpu_local_size = load64 m (p + 8),
     ki_global_pointer = load64 m (p + 16)\<rparr>"

definition setup_hhdm_size :: "u64 \<Rightarrow> 'a vm_state_scheme \<Rightarrow> 'a vm_state_scheme" where
  "setup_hhdm_size boot_info st =
     set_field boot_info bi_hhdm_size (hhdm_size_loop (get_field boot_info bi_hhdm_size st) (vm_pmm st)) st"

definition setup_pagedb ::
  "(u64 \<Rightarrow> u64 \<Rightarrow> u64 \<Rightarrow> u8 \<Rightarrow> 'a vm_state_scheme \<Rightarrow> 'a vm_state_scheme res) \<Rightarrow> elfldr_loader_info_t \<Rightarrow> u64 \<Rightarrow>
    'a vm_state_scheme \<Rightarrow> 'a vm_state_scheme res" where
  "setup_pagedb map_region info boot_info st =
     res_bind (pagedb_setup map_region (get_field boot_info bi_hhdm_size st) (kernel_base info)
                 (ki_pagedb_entry_size (kernel_info_at (vm_mem st) (kernel_info info))) st)
       (\<lambda>(pfndb_start, pfndb_size, st).
          ok (set_field boot_info bi_pfndb_size pfndb_size (set_field boot_info bi_pfndb_start pfndb_start st)))"

definition alloc_start_info :: "u64 \<Rightarrow> 'a vm_state_scheme \<Rightarrow> (u64 \<times> 'a vm_state_scheme) res" where
  "alloc_start_info boot_info st =
     (let start_info_block_size = MATH_ALIGN_UP (sizeof_core_start_info * get_field boot_info bi_core_count st)
                                    PTM_PAGE_GRANULARITY
      in res_bind (vm_alloc (start_info_block_size div PTM_PAGE_GRANULARITY) st)
           (\<lambda>(p, st). let start_info_block = p + hhdm_offset st
                      in ok (start_info_block,
                             st\<lparr>vm_mem := memset start_info_block 0 (unat start_info_block_size) (vm_mem st)\<rparr>)))"

text \<open>\<open>setup\<close> is \<open>arch_setup_cpus\<close>; the two fields it sets are set here, when it returns.\<close>

definition setup_cpus ::
  "(u64 \<Rightarrow> u64 \<Rightarrow> bootinfo_kernel_info_t \<Rightarrow> 'a vm_state_scheme \<Rightarrow> (u64 \<times> u64 \<times> 'a vm_state_scheme) res) \<Rightarrow>
    u64 \<Rightarrow> elfldr_loader_info_t \<Rightarrow> u64 \<Rightarrow> 'a vm_state_scheme \<Rightarrow> 'a vm_state_scheme res" where
  "setup_cpus setup start_info_block info boot_info st =
     res_bind (setup start_info_block (get_field boot_info bi_core_count st) (kernel_info_at (vm_mem st) (kernel_info info)) st)
       (\<lambda>(cpulocal_start, cpulocal_size, st).
          ok (set_field boot_info bi_cpulocal_size cpulocal_size (set_field boot_info bi_cpulocal_start cpulocal_start st)))"

section \<open>The memory map for the kernel\<close>

primrec mm_type_value :: "bootinfo_mm_type_t \<Rightarrow> u64" where
  "mm_type_value BOOTINFO_MM_TYPE_USABLE = 0"
| "mm_type_value BOOTINFO_MM_TYPE_USED = 1"
| "mm_type_value BOOTINFO_MM_TYPE_RECLAIMABLE = 2"
| "mm_type_value BOOTINFO_MM_TYPE_ACPI_RECLAIMABLE = 3"
| "mm_type_value BOOTINFO_MM_TYPE_ACPI_NVS = 4"
| "mm_type_value BOOTINFO_MM_TYPE_RESERVED = 5"
| "mm_type_value BOOTINFO_MM_TYPE_BAD = 6"

definition mm_slot :: "u64 \<Rightarrow> nat \<Rightarrow> memory \<Rightarrow> u64" where
  "mm_slot boot_info i m = load64 m (boot_info + bi_mm_entries) + sizeof_bootinfo_mm_entry * of_nat i"

fun store_mm_entries :: "u64 \<Rightarrow> nat \<Rightarrow> bootinfo_mm_entry_t list \<Rightarrow> memory \<Rightarrow> memory" where
  "store_mm_entries boot_info i [] m = m"
| "store_mm_entries boot_info i (e # es) m =
     (let m = store64 (mm_slot boot_info i m + 8) (mm_phys_base e) m;
          m = store64 (mm_slot boot_info i m + 16) (mm_length e) m;
          m = store64 (mm_slot boot_info i m) (mm_type_value (mm_type e)) m
      in store_mm_entries boot_info (Suc i) es m)"

definition hand_over_memory_map :: "u64 \<Rightarrow> 'a vm_state_scheme \<Rightarrow> 'a vm_state_scheme res" where
  "hand_over_memory_map boot_info st =
     res_bind (memory_map_block (vm_pmm st))
       (\<lambda>(memory_map_phys, _, s).
          let memory_map_block = memory_map_phys + hhdm_offset st;
              st = set_field boot_info bi_mm_entry_count (of_nat (g_pmm_map_size s)) (st\<lparr>vm_pmm := s\<rparr>);
              st = set_field boot_info bi_mm_entries memory_map_block st
          in ok (st\<lparr>vm_mem := store_mm_entries boot_info 0 (mm_entries s) (vm_mem st)\<rparr>))"

definition set_segments :: "elfldr_loader_info_t \<Rightarrow> u64 \<Rightarrow> 'a vm_state_scheme \<Rightarrow> 'a vm_state_scheme" where
  "set_segments info boot_info st =
     set_field boot_info bi_kernel_segment_count (of_nat (segment_count info))
       (set_field boot_info bi_kernel_segments (segments info) st)"

section \<open>x86-64\<close>

text \<open>What is fixed at boot: the processor's \<open>cpuid\<close>, ACPI, the kernel image and the name of its section, the
  trampoline, and the callbacks of the boot protocol.\<close>

record x86_boot =
  xb_cpuid :: cpuid_instr
  xb_uacpi_setup :: "u64 \<Rightarrow> u64 \<Rightarrow> memory \<Rightarrow> bool \<times> memory"
  xb_elf :: u64
  xb_section_name :: u64
  xb_handoff :: u64
  xb_handoff_end :: u64
  xb_core_is_bsp :: boot_core_is_bsp_fn
  xb_start_ap :: boot_start_ap_fn

text \<open>From the start to the loaded kernel.\<close>

definition x86_load_stage ::
  "x86_boot \<Rightarrow> u64 \<Rightarrow> x86_cpu \<Rightarrow> x86_state \<Rightarrow> (elfldr_loader_info_t \<times> x86_state) res" where
  "x86_load_stage b boot_info cpu st =
     res_bind (setup_acpi (xb_uacpi_setup b) boot_info st)
       (\<lambda>st. res_bind (ptm_init (xb_cpuid b) (arch_cr_read_cr4 cpu) st)
          (\<lambda>st. res_bind (elfldr_load_kernel ptm_map EMACHINE_X86_64 (xb_section_name b) (xb_elf b)
                             \<lparr>entry_point = 0, kernel_base = 0, segments = 0, segment_count = 0, kernel_info = 0\<rparr> st)
             (\<lambda>(loaded, info, st). if \<not> loaded then fail (Panic ''failed to load kernel elf image'')
                                   else ok (info, st))))"

text \<open>From there to the mapped trampoline; the result has the block of start information.\<close>

definition x86_prepare_stage ::
  "x86_boot \<Rightarrow> u64 \<Rightarrow> x86_cpu \<Rightarrow> elfldr_loader_info_t \<Rightarrow> x86_state \<Rightarrow> (u64 \<times> x86_state) res" where
  "x86_prepare_stage b boot_info cpu info st =
     res_bind (setup_pagedb ptm_map info boot_info (setup_hhdm_size boot_info st))
       (\<lambda>st. res_bind (alloc_start_info boot_info st)
          (\<lambda>(start_info_block, st).
             res_bind (setup_cpus (x86_setup_cpus (xb_core_is_bsp b) (xb_start_ap b)) start_info_block info boot_info st)
               (\<lambda>st. res_bind (ptm_create_hhdm_mappings st)
                  (\<lambda>st. res_bind (x86_prepare_handoff (xb_handoff b) (xb_handoff_end b) cpu st)
                     (\<lambda>(_, st). ok (start_info_block, st))))))"

text \<open>\<open>gdt_block\<close> is the contents of the block that \<open>arch_pointer\<close> of the boot core points to. The result has
  the arguments of \<open>sync_and_handoff\<close>.\<close>

definition x86_prekernel_init ::
  "x86_boot \<Rightarrow> u64 \<Rightarrow> arch_core_start_info_t \<Rightarrow> x86_cpu \<Rightarrow> x86_state \<Rightarrow>
    (u64 \<times> u64 \<times> arch_core_start_info_t \<times> x86_cpu \<times> x86_state) res" where
  "x86_prekernel_init b boot_info gdt_block cpu st =
     res_bind (x86_load_stage b boot_info cpu st)
       (\<lambda>(info, st). res_bind (x86_prepare_stage b boot_info cpu info st)
          (\<lambda>(start_info_block, st). res_bind (hand_over_memory_map boot_info st)
             (\<lambda>st. let core = core_start_info (vm_mem st) start_info_block
                   in res_bind (x86_machine_init (xb_cpuid b) (si_cpu_local core) (si_arch_pointer core) gdt_block cpu)
                        (\<lambda>(gdt_block, cpu).
                           let st = set_segments info boot_info st
                           in ok (entry_point info, si_stack (core_start_info (vm_mem st) start_info_block),
                                  gdt_block, cpu, st)))))"

section \<open>RISC-V\<close>

record riscv_boot_env =
  rb_uacpi :: uacpi
  rb_libfdt :: libfdt
  rb_uacpi_setup :: "u64 \<Rightarrow> u64 \<Rightarrow> memory \<Rightarrow> bool \<times> memory"
  rb_elf :: u64
  rb_section_name :: u64
  rb_handoff :: u64
  rb_handoff_end :: u64
  rb_trap_handler :: u64
  rb_core_is_bsp :: boot_core_is_bsp_fn
  rb_start_ap :: boot_start_ap_fn

definition set_isa_fields :: "riscv_isa \<Rightarrow> u64 \<Rightarrow> 'a vm_state_scheme \<Rightarrow> 'a vm_state_scheme" where
  "set_isa_fields isa boot_info st =
     (let st = set_field boot_info bi_riscv_base_isa_string (riscv_base_isa_string isa) st;
          st = set_field boot_info bi_riscv_extension_count (of_nat (riscv_extension_count isa)) st
      in set_field boot_info bi_riscv_extentions (riscv_extentions isa) st)"

definition setup_isa :: "riscv_boot_env \<Rightarrow> u64 \<Rightarrow> 'a vm_state_scheme \<Rightarrow> 'a vm_state_scheme res" where
  "setup_isa b boot_info st =
     res_bind (riscv_parse_extentions (rb_uacpi b) (rb_libfdt b) (get_field boot_info bi_rdsp_physical st)
                 (get_field boot_info bi_dtb_physical st)
                 (\<lparr>riscv_base_isa_string = 0, riscv_extension_count = 0, riscv_extentions = 0\<rparr>, st))
       (\<lambda>(found, isa, st). if \<not> found then fail (Panic ''failed to parse extentions'')
                            else ok (set_isa_fields isa boot_info st))"

definition riscv_load_stage ::
  "riscv_boot_env \<Rightarrow> u64 \<Rightarrow> riscv_state \<Rightarrow> (elfldr_loader_info_t \<times> riscv_state) res" where
  "riscv_load_stage b boot_info st =
     res_bind (setup_acpi (rb_uacpi_setup b) boot_info st)
       (\<lambda>st. res_bind (riscv_ptm_init (rb_uacpi b) (rb_libfdt b) boot_info (get_field boot_info bi_rdsp_physical st)
                          (get_field boot_info bi_dtb_physical st) st)
          (\<lambda>st. res_bind (elfldr_load_kernel rv_ptm_map EMACHINE_RISCV (rb_section_name b) (rb_elf b)
                             \<lparr>entry_point = 0, kernel_base = 0, segments = 0, segment_count = 0, kernel_info = 0\<rparr> st)
             (\<lambda>(loaded, info, st). if \<not> loaded then fail (Panic ''failed to load kernel elf image'')
                                   else res_bind (setup_isa b boot_info st) (\<lambda>st. ok (info, st)))))"

definition riscv_prepare_stage ::
  "riscv_boot_env \<Rightarrow> u64 \<Rightarrow> riscv_hart \<Rightarrow> elfldr_loader_info_t \<Rightarrow> riscv_state \<Rightarrow> (u64 \<times> u64 \<times> riscv_state) res" where
  "riscv_prepare_stage b boot_info hart info st =
     res_bind (setup_pagedb rv_ptm_map info boot_info (setup_hhdm_size boot_info st))
       (\<lambda>st. res_bind (alloc_start_info boot_info st)
          (\<lambda>(start_info_block, st).
             res_bind (setup_cpus (rv_setup_cpus (rb_core_is_bsp b) (rb_start_ap b)) start_info_block info boot_info st)
               (\<lambda>st. res_bind (rv_ptm_create_hhdm_mappings st)
                  (\<lambda>st. res_bind (rv_prepare_handoff (rb_handoff b) (rb_handoff_end b) hart st)
                     (\<lambda>(trampoline, st). ok (trampoline, start_info_block, st))))))"

definition riscv_prekernel_init ::
  "riscv_boot_env \<Rightarrow> u64 \<Rightarrow> riscv_hart \<Rightarrow> riscv_state \<Rightarrow> (u64 \<times> u64 \<times> riscv_hart \<times> riscv_state) res" where
  "riscv_prekernel_init b boot_info hart st =
     res_bind (riscv_load_stage b boot_info st)
       (\<lambda>(info, st). res_bind (riscv_prepare_stage b boot_info hart info st)
          (\<lambda>(trampoline, start_info_block, st). res_bind (hand_over_memory_map boot_info st)
             (\<lambda>st. let hart = rv_machine_init (rb_trap_handler b) start_info_block (vm_mem st) hart;
                       st = set_segments info boot_info st
                   in ok (entry_point info, si_stack (core_start_info (vm_mem st) start_info_block), hart, st))))"

end
