(* ===== verification/InitProps.thy ===== *)
theory InitProps
  imports Init Block InitMapProps PagedbProps
begin

text \<open>
  The memory map as the kernel reads it: the count and the array that \<open>prekernel_init\<close> leaves in the boot
  information mean what the physical memory map means.
\<close>

section \<open>The array\<close>

definition mm_at :: "memory \<Rightarrow> u64 \<Rightarrow> bootinfo_mm_entry_t \<Rightarrow> bool" where
  "mm_at m p e \<longleftrightarrow> load64 m p = mm_type_value (mm_type e) \<and> load64 m (p + 8) = mm_phys_base e \<and>
     load64 m (p + 16) = mm_length e"

lemma mm_at_writes:
  assumes "mm_at m (P + of_nat c) e" and "writes P a b m m'" and "c + 24 \<le> 2 ^ 64" and "c + 24 \<le> a \<or> b \<le> c"
  shows "mm_at m' (P + of_nat c) e"
  using assms(1) writes_load64 [OF assms(2), of c] writes_load64 [OF assms(2), of "c + 8"]
    writes_load64 [OF assms(2), of "c + 16"] assms(3,4)
  by (auto simp: mm_at_def add.assoc)

lemma writes_load64_outside:
  assumes "writes P a b m m'" and "b \<le> N" and "\<And>j. j < 8 \<Longrightarrow> \<not> in_array P N (x + of_nat j)"
  shows "load64 m' x = load64 m x"
  by (rule load64_cong) (rule writes_outside [OF assms(1,2) assms(3)])

text \<open>The three stores of an entry.\<close>

definition mm_stores :: "u64 \<Rightarrow> bootinfo_mm_entry_t \<Rightarrow> memory \<Rightarrow> memory" where
  "mm_stores p e m = store64 p (mm_type_value (mm_type e)) (store64 (p + 16) (mm_length e) (store64 (p + 8) (mm_phys_base e) m))"

lemma mm_stores_block:
  assumes "c + 24 \<le> 2 ^ 64"
  shows "writes P c (c + 24) m (mm_stores (P + of_nat c) e m)" and "mm_at (mm_stores (P + of_nat c) e m) (P + of_nat c) e"
proof -
  define m1 where "m1 = store64 (P + of_nat (c + 8)) (mm_phys_base e) m"
  define m2 where "m2 = store64 (P + of_nat (c + 16)) (mm_length e) m1"
  define m3 where "m3 = store64 (P + of_nat c) (mm_type_value (mm_type e)) m2"
  have m3: "mm_stores (P + of_nat c) e m = m3"
    by (simp add: mm_stores_def m1_def m2_def m3_def add.assoc)
  have w: "writes P (c + 8) (c + 8 + 8) m m1" "writes P (c + 16) (c + 16 + 8) m1 m2" "writes P c (c + 8) m2 m3"
    unfolding m1_def m2_def m3_def using assms by (simp_all only: store64_block)
  have "writes P (c + 8) (c + 24) m m2"
    by (rule writes_trans [OF w(1,2)]) simp_all
  then show "writes P c (c + 24) m (mm_stores (P + of_nat c) e m)"
    unfolding m3 by (rule writes_trans [OF _ w(3)]) simp_all
  have "load64 m3 (P + of_nat c) = mm_type_value (mm_type e)" "load64 m3 (P + of_nat (c + 16)) = mm_length e"
    using load64_elsewhere [of c "c + 16" P _ m2] assms by (simp_all add: m3_def m2_def load64_store64 del: of_nat_add)
  moreover have "load64 m3 (P + of_nat (c + 8)) = mm_phys_base e"
    using load64_elsewhere [of c "c + 8" P _ m2] load64_elsewhere [of "c + 16" "c + 8" P _ m1] assms
    by (simp add: m3_def m2_def m1_def load64_store64 del: of_nat_add)
  ultimately show "mm_at (mm_stores (P + of_nat c) e m) (P + of_nat c) e"
    by (simp add: m3 mm_at_def add.assoc)
qed

lemma store_mm_entries_block:
  assumes "N \<le> 2 ^ 64" and "24 * (i + length es) \<le> N" and "load64 m (B + bi_mm_entries) = P"
    and away: "\<And>j. j < 8 \<Longrightarrow> \<not> in_array P N (B + bi_mm_entries + of_nat j)"
  shows "writes P (24 * i) (24 * (i + length es)) m (store_mm_entries B i es m) \<and>
    (\<forall>k<length es. mm_at (store_mm_entries B i es m) (P + of_nat (24 * (i + k))) (es ! k))"
  using assms(1-3)
proof (induction es arbitrary: i m)
  case (Cons e es)
  let ?c = "24 * i" let ?m1 = "mm_stores (P + of_nat (24 * i)) e m"
  have c: "?c + 24 \<le> 2 ^ 64" "?c + 24 \<le> N"
    using Cons.prems(1,2) by simp_all
  have store: "store_mm_entries B i (e # es) m = store_mm_entries B (Suc i) es ?m1"
  proof -
    have ptr: "load64 (store64 (P + of_nat (?c + k)) v m') (B + bi_mm_entries) = load64 m' (B + bi_mm_entries)"
      if "k + 8 \<le> 24" for k v m'
      by (rule writes_load64_outside [OF store64_block _ away]) (use that c in simp_all)
    have slot: "mm_slot B i m' = P + of_nat ?c" if "load64 m' (B + bi_mm_entries) = P" for m'
      using that by (simp add: mm_slot_def sizeof_bootinfo_mm_entry_def)
    show ?thesis
      using ptr [of 8 "mm_phys_base e" m] ptr [of 16 "mm_length e" "store64 (P + of_nat (?c + 8)) (mm_phys_base e) m"] Cons.prems(3)
      by (simp add: Let_def slot mm_stores_def add.assoc)
  qed
  note first = mm_stores_block [OF c(1), where P = P and m = m and e = e]
  have "load64 ?m1 (B + bi_mm_entries) = P"
    using writes_load64_outside [OF first(1) c(2) away] Cons.prems(3) by simp
  with Cons.IH [of "Suc i" ?m1] Cons.prems(1,2)
  have rest: "writes P (24 * Suc i) (24 * (Suc i + length es)) ?m1 (store_mm_entries B (Suc i) es ?m1)"
    "\<And>k. k < length es \<Longrightarrow> mm_at (store_mm_entries B (Suc i) es ?m1) (P + of_nat (24 * (Suc i + k))) (es ! k)"
    by auto
  have "writes P ?c (24 * (i + length (e # es))) m (store_mm_entries B (Suc i) es ?m1)"
    by (rule writes_trans [OF first(1) rest(1)]) simp_all
  moreover have "mm_at (store_mm_entries B (Suc i) es ?m1) (P + of_nat ?c) e"
    by (rule mm_at_writes [OF first(2) rest(1)]) (use c in simp_all)
  ultimately show ?case
    unfolding store using rest(2) by (auto simp: less_Suc_eq_0_disj nth_Cons' algebra_simps)
qed (simp add: writes_refl)

section \<open>The block\<close>

definition kernel_reads_map :: "memory \<Rightarrow> u64 \<Rightarrow> bootinfo_mm_entry_t list \<Rightarrow> bool" where
  "kernel_reads_map m B es \<longleftrightarrow> load64 m (B + bi_mm_entry_count) = of_nat (length es) \<and>
     (\<forall>k<length es. mm_at m (load64 m (B + bi_mm_entries) + of_nat (24 * k)) (es ! k))"

lemma mm_entries_sorted:
  assumes "pmm_inv s"
  shows "sorted_wrt (\<lambda>e f. unat (mm_phys_base e) + unat (mm_length e) \<le> unat (mm_phys_base f)) (mm_entries s)"
proof -
  have "sorted_wrt (\<lambda>e f. hi e \<le> lo f) (live s)"
    using assms by (simp add: pmm_inv_def wf_map_def)
  then show ?thesis
    by (simp add: mm_entries_def sorted_wrt_map hi_def lo_def)
qed

text \<open>The bytes of a block that was free.\<close>

lemma block_taken_free:
  assumes "block_taken (vm_pmm st) a b s" and low: "\<And>x. 2 ^ 51 \<le> x \<Longrightarrow> type_at (live (vm_pmm st)) x = None"
    and x: "in_array (a + hhdm_offset st) (unat b) x"
  shows "free_byte st x"
proof -
  obtain i where i: "i < unat b" "x = a + hhdm_offset st + of_nat i"
    by (rule in_arrayE [OF x])
  have taken: "type_at (live (vm_pmm st)) y = Some PMM_MAP_TYPE_FREE" if "unat a \<le> y" "y < unat a + unat b" for y
    using assms(1) that by (simp add: block_taken_def)
  have "unat a + i < 2 ^ 51"
  proof (rule ccontr)
    assume "\<not> unat a + i < 2 ^ 51"
    then show False
      using low [of "unat a + i"] taken [of "unat a + i"] i(1) by simp
  qed
  then have "unat (a + of_nat i) = unat a + i"
    by (subst unat_add_nowrap) (simp_all add: unat_of_nat_64)
  moreover have "x - hhdm_offset st = a + of_nat i"
    by (simp add: i(2))
  ultimately show ?thesis
    using taken [of "unat a + i"] i(1) by (simp add: free_byte_def)
qed

text \<open>The stores: the count and the pointer in the boot information, then the entries in a block apart
  from them.\<close>

lemma map_stored:
  fixes m :: memory
  assumes N: "N \<le> 2 ^ 64" and size: "24 * length es \<le> N"
    and apart: "\<And>j. j < 16 \<Longrightarrow> \<not> in_array P N (boot_info + bi_mm_entry_count + of_nat j)"
  defines "m' \<equiv> store_mm_entries boot_info 0 es (store64 (boot_info + bi_mm_entries) P
    (store64 (boot_info + bi_mm_entry_count) (of_nat (length es)) m))"
  shows "kernel_reads_map m' boot_info es"
    and "m' x \<noteq> m x \<Longrightarrow> in_array P N x \<or> in_array (boot_info + bi_mm_entry_count) 16 x"
proof -
  let ?B = "boot_info + bi_mm_entry_count"
  have B: "boot_info + bi_mm_entries = ?B + of_nat 8"
    by (simp add: bi_mm_entries_def bi_mm_entry_count_def add.assoc)
  define m1 where "m1 = store64 (?B + of_nat 0) (of_nat (length es)) m"
  define m2 where "m2 = store64 (?B + of_nat 8) P m1"
  have m': "m' = store_mm_entries boot_info 0 es m2"
    by (simp add: m'_def m2_def m1_def B)
  have "writes ?B 0 8 m m1" "writes ?B 8 16 m1 m2"
    unfolding m1_def m2_def using store64_block [of 0] store64_block [of 8] by simp_all
  then have w2: "writes ?B 0 16 m m2"
    by (rule writes_trans) simp_all
  have ptr: "load64 m2 (boot_info + bi_mm_entries) = P"
    unfolding B m2_def by (rule load64_store64)
  have apart8: "\<not> in_array P N (boot_info + bi_mm_entries + of_nat j)" if "j < 8" for j
    using apart [of "8 + j"] that unfolding B by (simp add: add.assoc)
  have w3: "writes P 0 (24 * length es) m2 m'"
    and at: "\<And>k. k < length es \<Longrightarrow> mm_at m' (P + of_nat (24 * k)) (es ! k)"
    using store_mm_entries_block [OF N _ ptr apart8, of 0 es] size by (simp_all add: m')
  have "load64 m' (boot_info + bi_mm_entries) = P"
    using writes_load64_outside [OF w3 size apart8] ptr by simp
  moreover have "load64 m' ?B = load64 m2 ?B"
    by (rule writes_load64_outside [OF w3 size]) (use apart in simp)
  then have "load64 m' ?B = of_nat (length es)"
    using load64_elsewhere [of 8 0 ?B P m1] by (simp add: m2_def m1_def load64_store64)
  ultimately show "kernel_reads_map m' boot_info es"
    using at by (simp add: kernel_reads_map_def)
  show "in_array P N x \<or> in_array ?B 16 x" if "m' x \<noteq> m x"
    using writes_outside [OF w3 size, of x] writes_outside [OF w2 order_refl, of x] that by metis
qed

text \<open>C33. The memory map the kernel reads from the boot information refines the physical memory map: every
  address has the type that the map gives it, translated, and the block of the entries itself reads as
  reclaimable; the entries are sorted and disjoint. Nothing in memory changes but the two fields and
  bytes that were free.\<close>

theorem memory_map_handed_over:
  assumes "spare 11 78 (vm_pmm st)" and "0 < g_pmm_map_size (vm_pmm st)"
    and "\<forall>j<16. \<not> free_byte st (boot_info + bi_mm_entry_count + of_nat j)"
  shows "\<exists>a b st' es. hand_over_memory_map boot_info st = ok st' \<and> pmm_inv (vm_pmm st') \<and>
    block_taken (vm_pmm st) a b (vm_pmm st') \<and> kernel_reads_map (vm_mem st') boot_info es \<and>
    (\<forall>x. mm_type_at es x =
      (if unat a \<le> x \<and> x < unat a + unat b then Some BOOTINFO_MM_TYPE_RECLAIMABLE
       else map_option mm_type_of (type_at (live (vm_pmm st)) x))) \<and>
    sorted_wrt (\<lambda>e f. unat (mm_phys_base e) + unat (mm_length e) \<le> unat (mm_phys_base f)) es \<and>
    (\<forall>x. vm_mem st' x \<noteq> vm_mem st x \<longrightarrow> free_byte st x \<or> in_array (boot_info + bi_mm_entry_count) 16 x)"
proof -
  obtain a b s where s: "memory_map_block (vm_pmm st) = ok (a, b, s)" "pmm_inv s" "block_taken (vm_pmm st) a b s"
    "24 * length (mm_entries s) \<le> unat b"
    using memory_map_block_spec [OF assms(1,2)] by (auto simp: sizeof_bootinfo_mm_entry_def)
  let ?P = "a + hhdm_offset st" let ?es = "mm_entries s"
  have free: "free_byte st x" if "in_array ?P (unat b) x" for x
    by (rule block_taken_free [OF s(3) _ that]) (use assms(1) in \<open>simp add: spare_def\<close>)
  have apart: "\<not> in_array ?P (unat b) (boot_info + bi_mm_entry_count + of_nat j)" if "j < 16" for j
    using free assms(3) that by blast
  have N: "unat b \<le> 2 ^ 64"
    using unat_less_64 [of b] by simp
  obtain m' where m': "m' = store_mm_entries boot_info 0 ?es (store64 (boot_info + bi_mm_entries) ?P
    (store64 (boot_info + bi_mm_entry_count) (of_nat (length ?es)) (vm_mem st)))"
    by blast
  note stored = map_stored [OF N s(4) apart, where m = "vm_mem st", folded m']
  have "g_pmm_map_size s = length ?es"
    using s(2) by (simp add: mm_entries_def length_live pmm_inv_def)
  then have "hand_over_memory_map boot_info st = ok (st\<lparr>vm_pmm := s, vm_mem := m'\<rparr>)"
    using s(1) by (simp add: hand_over_memory_map_def set_field_def Let_def m')
  moreover have "free_byte st x \<or> in_array (boot_info + bi_mm_entry_count) 16 x" if "m' x \<noteq> vm_mem st x" for x
    using stored(2) [of x] that free by blast
  ultimately show ?thesis
    using s(2,3) stored(1) mm_entries_sorted [OF s(2)]
    by (intro exI [of _ a] exI [of _ b] exI [of _ "st\<lparr>vm_pmm := s, vm_mem := m'\<rparr>"] exI [of _ ?es])
      (auto simp: mm_type_at_entries block_taken_def)
qed

theorem memory_map_handed_over_witness:
  "\<exists>(a :: u64) (b :: u64) st' es. hand_over_memory_map 0 (x86_empty\<lparr>vm_pmm := free_map\<rparr>) = ok st' \<and>
    kernel_reads_map (vm_mem st') 0 es \<and>
    (\<forall>x. mm_type_at es x =
      (if unat a \<le> x \<and> x < unat a + unat b then Some BOOTINFO_MM_TYPE_RECLAIMABLE
       else if 0x1000 \<le> x \<and> x < 0x101000 then Some BOOTINFO_MM_TYPE_USABLE else None))"
proof -
  let ?st = "x86_empty\<lparr>vm_pmm := free_map\<rparr>"
  have used: "\<not> free_byte ?st (0 + bi_mm_entry_count + of_nat j)" if "j < 16" for j
  proof -
    have "unat (72 + of_nat j - 0xFFFF800000000000 :: u64) = 0x800000000048 + j"
    proof -
      have "(72 + of_nat j - 0xFFFF800000000000 :: u64) = of_nat (0x800000000048 + j)"
        by simp
      moreover have "unat (of_nat (0x800000000048 + j) :: u64) = 0x800000000048 + j"
        by (rule unat_of_nat_64) (use that in simp)
      ultimately show ?thesis
        by (simp only:)
    qed
    then show ?thesis
      by (simp add: free_byte_def bi_mm_entry_count_def x86_empty_def contains_def lo_def hi_def)
  qed
  have pmm: "vm_pmm ?st = free_map"
    by simp
  have known: "map_option mm_type_of (type_at (live free_map) x) =
    (if 0x1000 \<le> x \<and> x < 0x101000 then Some BOOTINFO_MM_TYPE_USABLE else None)" for x
    by (simp add: contains_def lo_def hi_def)
  have "spare 11 78 (vm_pmm ?st)" "0 < g_pmm_map_size (vm_pmm ?st)"
    "\<forall>j<16. \<not> free_byte ?st (0 + bi_mm_entry_count + of_nat j)"
    using used by (simp_all add: free_map_spare)
  from memory_map_handed_over [OF this] show ?thesis
    unfolding pmm known by blast
qed

end
