(* ===== verification/UacpiKernel.thy ===== *)
theory UacpiKernel
  imports BootInfo Console
begin

text \<open>
  The kernel interface that uACPI calls back (\<open>pre_kernel/src/uacpi_kernel_api.c\<close>): the address of the root
  table, mapping and unmapping of physical memory, and logging. uACPI itself is not part of the repository; the
  levels are the cases of the switch, \<open>UACPI_LOG_OTHER\<close> any other value. The console is the one of \<open>Console\<close>:
  \<open>putc\<close> outputs a byte, \<open>npf\<close> is the formatter.
\<close>

datatype uacpi_rsdp_status = UACPI_STATUS_OK | UACPI_STATUS_NOT_FOUND

datatype uacpi_log_level = UACPI_LOG_ERROR | UACPI_LOG_WARN | UACPI_LOG_DEBUG | UACPI_LOG_TRACE | UACPI_LOG_INFO
  | UACPI_LOG_OTHER

text \<open>The address is written only on success: \<open>out\<close> is what the caller's variable held.\<close>

definition uacpi_kernel_get_rsdp :: "u64 \<Rightarrow> u64 \<Rightarrow> 'a vm_state_scheme \<Rightarrow> uacpi_rsdp_status \<times> u64" where
  "uacpi_kernel_get_rsdp boot_info out st =
     (let rdsp_physical = load64 (vm_mem st) (boot_info + bi_rdsp_physical)
      in if rdsp_physical = 0 then (UACPI_STATUS_NOT_FOUND, out) else (UACPI_STATUS_OK, rdsp_physical))"

definition uacpi_kernel_map :: "u64 \<Rightarrow> u64 \<Rightarrow> 'a vm_state_scheme \<Rightarrow> u64" where
  "uacpi_kernel_map paddr len st = paddr + hhdm_offset st"

definition uacpi_kernel_unmap :: "u64 \<Rightarrow> u64 \<Rightarrow> 'a vm_state_scheme \<Rightarrow> 'a vm_state_scheme" where
  "uacpi_kernel_unmap addr len st = st"

definition uacpi_kernel_vlog ::
  "(u8 \<Rightarrow> 's \<Rightarrow> 's) \<Rightarrow> formatter \<Rightarrow> uacpi_log_level \<Rightarrow> string \<Rightarrow> log_arg list \<Rightarrow> 's \<Rightarrow> 's" where
  "uacpi_kernel_vlog putc npf level fmt args s =
     (let s = (case level of
                 UACPI_LOG_ERROR \<Rightarrow> log_print putc npf ''uacpi error: '' [] s
               | UACPI_LOG_WARN \<Rightarrow> log_print putc npf ''uacpi warn: '' [] s
               | UACPI_LOG_DEBUG \<Rightarrow> log_print putc npf ''uacpi debug: '' [] s
               | UACPI_LOG_TRACE \<Rightarrow> log_print putc npf ''uacpi trace: '' [] s
               | UACPI_LOG_INFO \<Rightarrow> log_print putc npf ''uacpi info: '' [] s
               | UACPI_LOG_OTHER \<Rightarrow> s)
      in log_vprint_raw putc npf fmt args s)"

definition uacpi_kernel_log ::
  "(u8 \<Rightarrow> 's \<Rightarrow> 's) \<Rightarrow> formatter \<Rightarrow> uacpi_log_level \<Rightarrow> string \<Rightarrow> log_arg list \<Rightarrow> 's \<Rightarrow> 's" where
  "uacpi_kernel_log putc npf level fmt val s = uacpi_kernel_vlog putc npf level fmt val s"

text \<open>Whatever the level, what the caller prints comes last and whole.\<close>

lemma uacpi_log_message: "\<exists>pre. uacpi_kernel_log tape npf level fmt args out = out @ pre @ npf fmt args"
  by (cases level)
    (simp_all add: uacpi_kernel_log_def uacpi_kernel_vlog_def log_vprint_raw_def npf_vpprintf_def fold_tape log_print_tape)

end
