(* ===== verification/IoMem.thy ===== *)
theory IoMem
  imports BootInfo
begin

text \<open>
  The memory-mapped accessors of \<open>pre_kernel/include/arch/x86_64/arch/io.h\<close> and the byte-order macros of
  \<open>pre_kernel/include/common/libfdt.h\<close>. The accessors read and write ordinary memory here, little endian; the
  fence in front of each orders accesses of several cores and has no effect on one.
\<close>

section \<open>Accessors\<close>

definition arch_io_mem_write_u8 :: "u64 \<Rightarrow> u8 \<Rightarrow> memory \<Rightarrow> memory" where
  "arch_io_mem_write_u8 addr x m = store_bytes addr (to_bytes 1 (ucast x)) m"

definition arch_io_mem_write_u16 :: "u64 \<Rightarrow> u16 \<Rightarrow> memory \<Rightarrow> memory" where
  "arch_io_mem_write_u16 addr x m = store_bytes addr (to_bytes 2 (ucast x)) m"

definition arch_io_mem_write_u32 :: "u64 \<Rightarrow> u32 \<Rightarrow> memory \<Rightarrow> memory" where
  "arch_io_mem_write_u32 addr x m = store_bytes addr (to_bytes 4 (ucast x)) m"

definition arch_io_mem_write_u64 :: "u64 \<Rightarrow> u64 \<Rightarrow> memory \<Rightarrow> memory" where
  "arch_io_mem_write_u64 addr x m = store_bytes addr (to_bytes 8 x) m"

definition arch_io_mem_read_u8 :: "u64 \<Rightarrow> memory \<Rightarrow> u8" where
  "arch_io_mem_read_u8 addr m = ucast (from_bytes (bytes_at m addr 1))"

definition arch_io_mem_read_u16 :: "u64 \<Rightarrow> memory \<Rightarrow> u16" where
  "arch_io_mem_read_u16 addr m = ucast (from_bytes (bytes_at m addr 2))"

definition arch_io_mem_read_u32 :: "u64 \<Rightarrow> memory \<Rightarrow> u32" where
  "arch_io_mem_read_u32 addr m = ucast (from_bytes (bytes_at m addr 4))"

definition arch_io_mem_read_u64 :: "u64 \<Rightarrow> memory \<Rightarrow> u64" where
  "arch_io_mem_read_u64 addr m = from_bytes (bytes_at m addr 8)"

lemma bytes_at_store_bytes: "length bs \<le> 8 \<Longrightarrow> bytes_at (store_bytes a bs m) a (length bs) = bs"
  by (rule nth_equalityI) (simp_all add: store_bytes_def unat_of_nat_64)

text \<open>What is written is what is read back, at each width.\<close>

lemma io_mem_read_back:
  "arch_io_mem_read_u8 a (arch_io_mem_write_u8 a x1 m) = x1"
  "arch_io_mem_read_u16 a (arch_io_mem_write_u16 a x2 m) = x2"
  "arch_io_mem_read_u32 a (arch_io_mem_write_u32 a x4 m) = x4"
  "arch_io_mem_read_u64 a (arch_io_mem_write_u64 a x8 m) = x8"
proof -
  have rd: "from_bytes (bytes_at (store_bytes a (to_bytes k v) m) a k) = take_bit (8 * k) v" if "k \<le> 8" for k v
    using bytes_at_store_bytes [of "to_bytes k v" a m] that by (simp add: from_bytes_to_bytes)
  show "arch_io_mem_read_u8 a (arch_io_mem_write_u8 a x1 m) = x1"
    unfolding arch_io_mem_read_u8_def arch_io_mem_write_u8_def
    by (subst rd) (simp, rule bit_word_eqI, simp add: bit_simps)
  show "arch_io_mem_read_u16 a (arch_io_mem_write_u16 a x2 m) = x2"
    unfolding arch_io_mem_read_u16_def arch_io_mem_write_u16_def
    by (subst rd) (simp, rule bit_word_eqI, simp add: bit_simps)
  show "arch_io_mem_read_u32 a (arch_io_mem_write_u32 a x4 m) = x4"
    unfolding arch_io_mem_read_u32_def arch_io_mem_write_u32_def
    by (subst rd) (simp, rule bit_word_eqI, simp add: bit_simps)
  show "arch_io_mem_read_u64 a (arch_io_mem_write_u64 a x8 m) = x8"
    unfolding arch_io_mem_read_u64_def arch_io_mem_write_u64_def
    by (subst rd) (simp_all add: take_bit_word_eq_self)
qed

section \<open>Byte order\<close>

text \<open>\<open>__builtin_bswap\<close> on \<open>k\<close> bytes.\<close>

definition bswap :: "nat \<Rightarrow> u64 \<Rightarrow> u64" where
  "bswap k x = from_bytes (rev (to_bytes k x))"

definition fdt16_to_cpu :: "u16 \<Rightarrow> u16" where "fdt16_to_cpu x = ucast (bswap 2 (ucast x))"
definition cpu_to_fdt16 :: "u16 \<Rightarrow> u16" where "cpu_to_fdt16 x = ucast (bswap 2 (ucast x))"
definition fdt32_to_cpu :: "u32 \<Rightarrow> u32" where "fdt32_to_cpu x = ucast (bswap 4 (ucast x))"
definition cpu_to_fdt32 :: "u32 \<Rightarrow> u32" where "cpu_to_fdt32 x = ucast (bswap 4 (ucast x))"
definition fdt64_to_cpu :: "u64 \<Rightarrow> u64" where "fdt64_to_cpu x = bswap 8 x"
definition cpu_to_fdt64 :: "u64 \<Rightarrow> u64" where "cpu_to_fdt64 x = bswap 8 x"

lemma bswap_take_bit: "take_bit (8 * k) (bswap k x) = bswap k x"
  using take_bit_from_bytes [of "rev (to_bytes k x)"] by (simp add: bswap_def)

lemma bswap_bswap: "k \<le> 8 \<Longrightarrow> bswap k (bswap k x) = take_bit (8 * k) x"
  using to_bytes_from_bytes [of "rev (to_bytes k x)"] by (simp add: bswap_def from_bytes_to_bytes)

lemma fdt_byte_order:
  "fdt16_to_cpu (cpu_to_fdt16 x2) = x2" "fdt32_to_cpu (cpu_to_fdt32 x4) = x4" "fdt64_to_cpu (cpu_to_fdt64 x8) = x8"
proof -
  have "(ucast (ucast (bswap 2 y) :: u16) :: u64) = bswap 2 y" for y
    by (subst (2) bswap_take_bit [symmetric]) (rule bit_word_eqI, simp add: bit_simps)
  then show "fdt16_to_cpu (cpu_to_fdt16 x2) = x2"
    unfolding fdt16_to_cpu_def cpu_to_fdt16_def
    by (simp add: bswap_bswap) (rule bit_word_eqI, simp add: bit_simps)
  have "(ucast (ucast (bswap 4 y) :: u32) :: u64) = bswap 4 y" for y
    by (subst (2) bswap_take_bit [symmetric]) (rule bit_word_eqI, simp add: bit_simps)
  then show "fdt32_to_cpu (cpu_to_fdt32 x4) = x4"
    unfolding fdt32_to_cpu_def cpu_to_fdt32_def
    by (simp add: bswap_bswap) (rule bit_word_eqI, simp add: bit_simps)
  show "fdt64_to_cpu (cpu_to_fdt64 x8) = x8"
    by (simp add: fdt64_to_cpu_def cpu_to_fdt64_def bswap_bswap take_bit_word_eq_self)
qed

end
