(* ===== verification/Spec2Isabelle.thy ===== *)
theory Spec2Isabelle
  imports PmmLimits RtMemProps PtmX86Hhdm ElfProps UbsanProps UartProps X86MachineProps Sync InitMapProps PagedbProps CpusProps IsaProps
    RiscvMachineProps HandoffProps RiscvPlatformProps BootProps TartarusProps NpfProps InitProps UacpiKernel IoMem
begin

text \<open>
  A verification of the Lunar prekernel (\<open>src/pre_kernel\<close>): the stage between a boot loader (Limine or
  Tartarus) and the Lunar kernel, on x86-64 and on RISC-V. It takes over the loader's memory map, builds
  page tables, loads the kernel's ELF image into them, starts the other cores and hands every core over
  at once.

  \<^bold>\<open>How the program runs, and which theory holds what.\<close>
  \<^item> The entry point of a boot protocol (\<open>src/boot/limine.c\<close>, \<open>src/boot/tartarus.c\<close>) fills the boot
    information of \<open>public/protocol/bootinfo.h\<close>, registers the loader's memory map in the physical
    memory map and calls \<open>prekernel_init\<close>. \<open>BootInfo\<close>: the packed records as bytes and the code both
    protocols share; \<open>Limine\<close>, \<open>Tartarus\<close>: the protocols; \<open>Block\<close>: what stores do to a block of memory;
    \<open>BootProps\<close>, \<open>TartarusProps\<close>: the map and the boot information they leave.
  \<^item> The physical memory map, \<open>src/memory/pmm.c\<close>. \<open>Pmm\<close>: the sorted array \<open>g_pmm_map\<close> of 1024 typed
    entries with its live count \<open>g_pmm_map_size\<close>, \<open>pmm_map_set\<close> with its five overlap cases, the
    allocators and the snapshots. \<open>PmmRegion\<close>: the abstraction, a function from addresses to types;
    \<open>PmmSet\<close>, \<open>PmmForce\<close>, \<open>PmmAdd\<close>: \<open>pmm_map_set\<close> one iteration, overriding and merging;
    \<open>PmmAlloc\<close>: the allocators over the interface \<open>region_map\<close>; \<open>PmmRun\<close>, \<open>PmmSpare\<close>: when a sequence
    of allocations succeeds; \<open>PmmProps\<close>, \<open>PmmLimits\<close>: the properties.
  \<^item> The page tables, \<open>src/arch/x86_64/ptm.c\<close> and \<open>src/arch/riscv64/ptm.c\<close>. \<open>VmState\<close>: the state, byte
    memory, memory map, direct map offset and configuration; \<open>PtmX86\<close>, \<open>PtmRiscv\<close>: \<open>ptm_init\<close>, \<open>map_page\<close>,
    \<open>ptm_map\<close> and \<open>ptm_map_at\<close>, and on x86-64 \<open>ptm_create_hhdm_mappings\<close>; \<open>X86Cpuid\<close>: \<open>cpuid.c\<close>. The proofs
    are shared by the two architectures: \<open>PageTree\<close> is the hardware's walk of a format (\<open>pt_format\<close>,
    \<open>mmu\<close>), \<open>PageWalk\<close> the mapping of one page, \<open>PageSpan\<close> translations by byte, \<open>PageCost\<close> the number of
    tables a region takes, \<open>RegionMap\<close> the loop over a region. \<open>PtmX86Walk\<close>, \<open>PtmX86Map\<close>,
    \<open>PtmX86Props\<close>, \<open>PtmX86Hhdm\<close>, \<open>PtmRiscvWalk\<close> and \<open>PtmRiscvProps\<close> instantiate them. \<open>AddressSpace\<close>: what
    the rest of the program relies on, kept by \<open>PtmX86Space\<close> and \<open>PtmRiscvSpace\<close>; \<open>Fresh\<close>: pages taken
    from the map and reached through the direct map.
  \<^item> The loader, \<open>src/loader/elfldr.c\<close>: \<open>Elf\<close>, with \<open>ElfSegment\<close>, \<open>ElfLoad\<close>, \<open>ElfImage\<close>, \<open>ElfKernel\<close>,
    \<open>ElfProps\<close>. The page database, \<open>src/memory/pagedb.c\<close>: \<open>Pagedb\<close>, \<open>PagedbProps\<close>.
  \<^item> The machine. \<open>X86Machine\<close>: \<open>machine.c\<close>, \<open>gdt.c\<close>, \<open>gdt.asm\<close>, \<open>cr.h\<close>, \<open>msr.h\<close>; \<open>RiscvMachine\<close>: \<open>csr.h\<close>,
    \<open>machine.c\<close>, start-up in \<open>arch.c\<close> and \<open>handoff.S\<close>; \<open>Isa\<close>: \<open>isa.c\<close>; \<open>RiscvPlatform\<close>: \<open>fdt.c\<close>, \<open>acpi.c\<close>;
    \<open>Cpus\<close>: \<open>arch_setup_cpus\<close> of both; \<open>Handoff\<close>: \<open>arch_prepare_handoff\<close>, \<open>arch_handoff_to_kernel\<close> and
    the trampolines in assembly, with \<open>TwoSpaces\<close> for the two sets of tables in use. Each has its
    properties in the theory of the same name with \<open>Props\<close>.
  \<^item> \<open>src/init.c\<close>. \<open>InitMap\<close>: the sums over the map and the map handed to the kernel; \<open>Init\<close>:
    \<open>prekernel_init\<close> as the composition of all of the above; \<open>Sync\<close>: \<open>sync_and_handoff\<close> and the entry of
    the other cores, every interleaving of their accesses to the shared variables.
  \<^item> Output. \<open>Console\<close>: \<open>log.c\<close>, \<open>panic.c\<close>, \<open>ssp.c\<close>; \<open>Npf\<close>: \<open>nanoprintf.h\<close> as \<open>nanoprintf.c\<close> configures it;
    \<open>Uart\<close>: \<open>16550uart.c\<close>, with \<open>UartDevice\<close> for the device; \<open>Ubsan\<close>: \<open>ubsan.c\<close>.
  \<^item> The rest. \<open>MathLib\<close>: \<open>lib/math.h\<close>; \<open>RtMem\<close>: \<open>runtime/mem.c\<close>; \<open>IoMem\<close>: the memory-mapped part of
    \<open>io.h\<close> and the byte-order macros of \<open>libfdt.h\<close>; \<open>UacpiKernel\<close>: \<open>uacpi_kernel_api.c\<close>.

  \<^bold>\<open>How C is read.\<close> An operation is a function on a state record. Its result (\<open>Prelude\<close>) is \<open>None\<close> when
  it does not return, \<open>Some (Inl e)\<close> when it stops with the failure \<open>e\<close> (a panic with its message, or
  undefined behaviour such as an access out of bounds) and \<open>Some (Inr v)\<close> otherwise. Integers keep
  their width, so \<open>+\<close> on \<open>u64\<close> wraps as in C. Memory is a function from 64-bit addresses to bytes; a
  pointer is an address, and a packed structure is its bytes. Global variables are fields of the state.
  A loop over an array is a structural recursion over the entries left; a loop with a bound is a function
  with a measure; a loop that may not end is a \<open>partial_function\<close>, and where it ends that is proved
  (\<open>memory_map_block_returns\<close>, \<open>strcmp_order\<close>, \<open>strstr_first_occurrence\<close>).

  \<^bold>\<open>Interfaces.\<close> Each is a locale, interpreted on the program's own operations.
  \<^item> \<open>region_map\<close> (\<open>PmmAlloc\<close>): overriding a region changes the types of exactly its addresses; provided
    by the forced \<open>pmm_map_set\<close>, used by the allocators.
  \<^item> \<open>frame_source\<close> (\<open>PageWalk\<close>): a frame taken was free and stays taken; provided by \<open>pmm_alloc\<close>, used
    by the page tables.
  \<^item> \<open>page_walker\<close> (\<open>PageWalk\<close>): the bits an entry must have for the hardware; provided by both formats.
  \<^item> \<open>region_mapper\<close> (\<open>RegionMap\<close>): the choice of page sizes and the mapping of one page; provided by
    both \<open>ptm_map\<close> loops.
  \<^item> \<open>address_space\<close> (\<open>AddressSpace\<close>): the contract of \<open>ptm_map\<close>, provided by \<open>ptm_map\<close> and \<open>ptm_map_at\<close> on
    both architectures; used by the loader, the page database and, twice in one memory through
    \<open>two_spaces\<close>, by the handoff.
  \<^item> \<open>serial_bus\<close> (\<open>UartDevice\<close>): a 16550 behind its ports, provided by a model of the device.

  \<^bold>\<open>Abstract specifications.\<close> For the memory map, the type of every address (\<open>type_at\<close>); for
  page tables, the translation of every address with its permissions (\<open>translate\<close>), defined by the
  hardware's walk and not by the code's; for the loader, the contents and permissions of every segment
  (\<open>segment_present\<close>); for the formatter, a rendering over mathematical integers written from the C
  standard (\<open>c_render\<close>); for the ISA string, the pieces between underscores (\<open>isa_split\<close>); for the
  rendezvous, an inductive step relation with its reachable states.

  \<^bold>\<open>What is shown\<close>, by number of the property.
  \<^item> C1 to C9, the memory map: overriding and merging, exact first fit, disjoint allocations, release,
    fixed addresses, snapshots; and where it fails (a region sharing an edge, a full map).
  \<^item> C10 to C13, memory and string routines on overlapping and unterminated buffers.
  \<^item> C14 to C19, page tables: what is mapped is exactly what was asked for, for every address and any
    mix of page sizes, and no other translation changes.
  \<^item> C20 and C21, the loader: the image is in place, with its permissions, and nothing in use was touched.
  \<^item> C22, C24 to C27, output: sanitizer reports, the serial port in every state, integer formatting.
  \<^item> C23 and C40, both boot protocols; C32 to C34, the memory map for the kernel and its sums.
  \<^item> C28 and C29, the registers and descriptors of a core; C36, the other cores; C37, the ISA string;
    C35, the page database.
  \<^item> C30 and C31, the rendezvous: no core enters the kernel before all have arrived, and all enter.
  \<^item> C38 and C39, the handoff: the trampoline is there on both sides, and the kernel starts with its
    tables, its stack and its arguments.

  \<^bold>\<open>Bounds.\<close> Allocation can fail, so what needs frames asks for a budget. \<open>frame_budget k\<close>: \<open>k\<close> single
  frames can be taken. \<open>spare r p\<close>: the array has room for \<open>r\<close> allocations of any kind, one free entry has \<open>p\<close> pages,
  and free memory consists of whole pages; the frames of page tables extend the entry in front of them
  and so take no room in the array (\<open>spare_used_page\<close>). \<open>tables_for\<close> and \<open>tables_of\<close> count the tables of
  one region and of the segments of an image. \<open>region_tables n big len\<close> bounds the tables a region of \<open>len\<close> bytes takes in \<open>n\<close> levels: for each
  page one for every level whose boundary the page begins (and the path of the first page), which is at
  most \<open>n - 1\<close> for each page, \<open>n - 1\<close> for each 2M begun, and, where the virtual and the physical address
  agree modulo 2M (\<open>big\<close>), \<open>n - 2\<close> for each gigabyte begun with \<open>n\<close> more; the direct map of 4 GB asks for about a
  dozen frames. No other fuel is used. Physical addresses are below \<open>2 ^ 51\<close>, which the entries of both
  formats hold.

  \<^bold>\<open>Outside the program.\<close> The \<open>cpuid\<close> instruction, the loaders' structures, uACPI, libfdt and the firmware
  are parameters: records of functions or of the fields read. Their hypotheses are stated where they are
  used, and each property with one has an instance. The console writes to a list of characters through
  functions that are arguments, as in \<open>log.c\<close>, where it is a pointer.

  \<^bold>\<open>Not modelled.\<close> Of \<open>init.c\<close> and the callers of \<open>log_print\<close>, the lines logged. The two pointers of \<open>boot.c\<close>
  (what they point to is an argument). The static request structures of \<open>limine.c\<close>, which are data for
  the loader. Of nanoprintf what its options leave out (floating point, write-back, the flag \<open>#\<close>) and the
  wrappers that only build a \<open>va_list\<close>. \<open>riscv64_early_trap_handler\<close>, an endless wait, and the pause
  hint in spin loops. The six files of \<open>src/fdt\<close>, each of which includes one file of libfdt, which the
  repository does not hold; the build script and the linker scripts. Caches, the translation cache and
  weak memory order are not part of the model: the two atomic variables of \<open>init.c\<close> are accessed in
  sequence, and a change of a table is seen at once.
\<close>

end
